(* ===== verification/Prelude.thy ===== *)
theory Prelude
  imports Main "HOL-Library.Word" "HOL-Library.Multiset" "HOL-Library.Finite_Map"
begin

text \<open>
  Shared vocabulary of the development.  It names the machine integers of the Rust sources,
  the saturating and checked operations of the standard library on them, big-endian byte
  strings, the short-circuiting bind of \<open>Result\<close>, and a stable sort by a comparison
  (\<open>slice::sort_by\<close>).  The generic facts the component theories rely on are collected in
  \<open>word_nat\<close> (machine arithmetic read as natural numbers) and \<open>be_simps\<close> (byte strings).
\<close>

unbundle bit_operations_syntax

type_synonym u8 = "8 word"
type_synonym u32 = "32 word"
type_synonym u64 = "64 word"
type_synonym u128 = "128 word"
type_synonym u256 = "256 word"
type_synonym bytes = "u8 list"

named_theorems word_nat
named_theorems be_simps
named_theorems res_simps

section \<open>Saturating and checked machine arithmetic\<close>

definition saturating_add :: "'a::len word \<Rightarrow> 'a word \<Rightarrow> 'a word" where
  "saturating_add a b = (if unat a + unat b < 2 ^ LENGTH('a) then a + b else - 1)"

definition saturating_sub :: "'a::len word \<Rightarrow> 'a word \<Rightarrow> 'a word" where
  "saturating_sub a b = (if b \<le> a then a - b else 0)"

definition saturating_mul :: "'a::len word \<Rightarrow> 'a word \<Rightarrow> 'a word" where
  "saturating_mul a b = (if unat a * unat b < 2 ^ LENGTH('a) then a * b else - 1)"

definition checked_add :: "'a::len word \<Rightarrow> 'a word \<Rightarrow> 'a word option" where
  "checked_add a b = (if unat a + unat b < 2 ^ LENGTH('a) then Some (a + b) else None)"

definition checked_mul :: "'a::len word \<Rightarrow> 'a word \<Rightarrow> 'a word option" where
  "checked_mul a b = (if unat a * unat b < 2 ^ LENGTH('a) then Some (a * b) else None)"

lemma unat_lt_len: "unat (a :: 'a::len word) < 2 ^ LENGTH('a)"
  by (rule unsigned_less)

lemma unat_max_word [word_nat]: "unat (- 1 :: 'a::len word) = 2 ^ LENGTH('a) - 1"
  by (simp add: unsigned_minus_1_eq_mask mask_eq_exp_minus_1)

lemma unat_saturating_add [word_nat]:
  "unat (saturating_add a b) = min (unat a + unat b) (2 ^ LENGTH('a) - 1)"
  for a b :: "'a::len word"
  by (auto simp: saturating_add_def unat_max_word unat_word_ariths)

lemma unat_saturating_sub [word_nat]:
  "unat (saturating_sub a b) = unat a - unat b"
  by (auto simp: saturating_sub_def unat_sub word_le_nat_alt)

lemma unat_saturating_mul [word_nat]:
  "unat (saturating_mul a b) = min (unat a * unat b) (2 ^ LENGTH('a) - 1)"
  for a b :: "'a::len word"
  by (auto simp: saturating_mul_def unat_max_word unat_word_ariths)

lemma checked_add_eq_Some:
  "checked_add a b = Some c \<longleftrightarrow> unat a + unat b < 2 ^ LENGTH('a) \<and> c = a + b"
  for a b :: "'a::len word"
  by (auto simp: checked_add_def)

lemma checked_add_unat:
  assumes "checked_add a b = Some c"
  shows "unat c = unat a + unat b"
  using assms by (auto simp: checked_add_eq_Some unat_word_ariths)

lemma checked_mul_unat:
  assumes "checked_mul a b = Some c"
  shows "unat c = unat a * unat b"
  using assms by (auto simp: checked_mul_def unat_word_ariths split: if_splits)

lemma unat_add_no_wrap:
  "unat a + unat b < 2 ^ LENGTH('a) \<Longrightarrow> unat (a + b) = unat a + unat b"
  for a b :: "'a::len word"
  by (simp add: unat_word_ariths)

lemma unat_mul_no_wrap:
  "unat a * unat b < 2 ^ LENGTH('a) \<Longrightarrow> unat (a * b) = unat a * unat b"
  for a b :: "'a::len word"
  by (simp add: unat_word_ariths)

text \<open>A widening cast keeps the value.\<close>

lemma unat_widen [word_nat]:
  "LENGTH('a) \<le> LENGTH('b) \<Longrightarrow> unat (ucast (a :: 'a::len word) :: 'b::len word) = unat a"
proof -
  assume "LENGTH('a) \<le> LENGTH('b)"
  then have "unat a < 2 ^ LENGTH('b)"
    using unat_lt_len [of a] by (meson less_le_trans one_le_numeral power_increasing)
  then show ?thesis by (simp add: unsigned_ucast_eq take_bit_nat_eq_self)
qed

section \<open>Results\<close>

text \<open>The question-mark operator: an error returns early, a value is passed on.\<close>

fun res_bind :: "'e + 'a \<Rightarrow> ('a \<Rightarrow> 'e + 'b) \<Rightarrow> 'e + 'b" where
  "res_bind (Inl e) f = Inl e"
| "res_bind (Inr x) f = f x"

fun res_map_err :: "('e \<Rightarrow> 'f) \<Rightarrow> 'e + 'a \<Rightarrow> 'f + 'a" where
  "res_map_err f (Inl e) = Inl (f e)"
| "res_map_err f (Inr x) = Inr x"

fun res_of_option :: "'e \<Rightarrow> 'a option \<Rightarrow> 'e + 'a" where
  "res_of_option e None = Inl e"
| "res_of_option e (Some x) = Inr x"

fun is_ok :: "'e + 'a \<Rightarrow> bool" where
  "is_ok (Inl e) = False"
| "is_ok (Inr x) = True"

definition ensure :: "bool \<Rightarrow> 'e \<Rightarrow> 'e + unit" where
  "ensure b e = (if b then Inr () else Inl e)"

lemma res_bind_eq_Inr [res_simps]:
  "res_bind m f = Inr y \<longleftrightarrow> (\<exists>x. m = Inr x \<and> f x = Inr y)"
  by (cases m) auto

lemma res_bind_eq_Inl [res_simps]:
  "res_bind m f = Inl e \<longleftrightarrow> m = Inl e \<or> (\<exists>x. m = Inr x \<and> f x = Inl e)"
  by (cases m) auto

lemma res_map_err_eq_Inr [res_simps]: "res_map_err f m = Inr y \<longleftrightarrow> m = Inr y"
  by (cases m) auto

lemma res_map_err_eq_Inl [res_simps]: "res_map_err f m = Inl e \<longleftrightarrow> (\<exists>d. m = Inl d \<and> e = f d)"
  by (cases m) auto

lemma res_of_option_eq_Inr [res_simps]: "res_of_option e m = Inr y \<longleftrightarrow> m = Some y"
  by (cases m) auto

lemma ensure_eq_Inr [res_simps]: "ensure b e = Inr u \<longleftrightarrow> b"
  by (simp add: ensure_def)

lemma ensure_eq_Inl [res_simps]: "ensure b e = Inl d \<longleftrightarrow> \<not> b \<and> d = e"
  by (auto simp: ensure_def)

lemma is_ok_iff: "is_ok m \<longleftrightarrow> (\<exists>x. m = Inr x)"
  by (cases m) auto

text \<open>A loop over a list whose body may return early.\<close>

fun res_fold :: "('a \<Rightarrow> 's \<Rightarrow> 'e + 's) \<Rightarrow> 'a list \<Rightarrow> 's \<Rightarrow> 'e + 's" where
  "res_fold f [] s = Inr s"
| "res_fold f (x # xs) s = res_bind (f x s) (res_fold f xs)"

lemma res_fold_append:
  "res_fold f (xs @ ys) s = res_bind (res_fold f xs s) (res_fold f ys)"
proof (induction xs arbitrary: s)
  case Nil
  then show ?case by simp
next
  case (Cons x xs)
  then show ?case by (cases "f x s") auto
qed

text \<open>An invariant of the body is an invariant of the loop.\<close>

lemma res_fold_invariant:
  assumes "res_fold f xs s = Inr t" and "P s"
    and "\<And>x s t. x \<in> set xs \<Longrightarrow> P s \<Longrightarrow> f x s = Inr t \<Longrightarrow> P t"
  shows "P t"
  using assms
proof (induction xs arbitrary: s)
  case Nil
  then show ?case by simp
next
  case (Cons x xs)
  then obtain u where u: "f x s = Inr u" "res_fold f xs u = Inr t"
    by (auto simp: res_simps)
  moreover have "P u" using Cons.prems u by auto
  ultimately show ?case using Cons.IH [of u] Cons.prems(3) by auto
qed

section \<open>Big-endian byte strings\<close>

fun be_val :: "bytes \<Rightarrow> nat" where
  "be_val [] = 0"
| "be_val (b # bs) = unat b * 256 ^ length bs + be_val bs"

fun nat_be :: "nat \<Rightarrow> nat \<Rightarrow> bytes" where
  "nat_be 0 x = []"
| "nat_be (Suc n) x = nat_be n (x div 256) @ [of_nat x]"

definition to_be_bytes :: "'a::len word \<Rightarrow> bytes" where
  "to_be_bytes w = nat_be (LENGTH('a) div 8) (unat w)"

definition from_be_bytes :: "bytes \<Rightarrow> 'a::len word" where
  "from_be_bytes bs = of_nat (be_val bs)"

lemma length_nat_be [simp, be_simps]: "length (nat_be n x) = n"
  by (induction n arbitrary: x) auto

lemma unat_byte_lt [simp]: "unat (b :: u8) < 256"
  using unat_lt_len [of b] by simp

lemma be_val_append [be_simps]: "be_val (xs @ ys) = be_val xs * 256 ^ length ys + be_val ys"
  by (induction xs) (auto simp: algebra_simps power_add)

lemma be_val_lt: "be_val bs < 256 ^ length bs"
proof (induction bs)
  case Nil
  then show ?case by simp
next
  case (Cons b bs)
  have "unat b \<le> 255" using unat_byte_lt [of b] by linarith
  then have "unat b * 256 ^ length bs + be_val bs < 255 * 256 ^ length bs + 256 ^ length bs"
    using Cons.IH by (intro add_le_less_mono mult_right_mono) auto
  then show ?case by simp
qed

lemma be_val_nat_be [be_simps]: "be_val (nat_be n x) = x mod 256 ^ n"
proof (induction n arbitrary: x)
  case 0
  then show ?case by simp
next
  case (Suc n)
  have "be_val (nat_be (Suc n) x) = (x div 256 mod 256 ^ n) * 256 + x mod 256"
    by (simp add: be_simps Suc unat_of_nat)
  also have "\<dots> = x mod (256 * 256 ^ n)"
    by (simp add: mod_mult2_eq)
  finally show ?case by simp
qed

lemma be_val_inj:
  assumes "length xs = length ys" "be_val xs = be_val ys"
  shows "xs = ys"
  using assms
proof (induction xs ys rule: list_induct2)
  case Nil
  then show ?case by simp
next
  case (Cons x xs y ys)
  have "unat x = unat y \<and> be_val xs = be_val ys"
  proof -
    have d: "be_val (z # zs) div 256 ^ length zs = unat z" for z zs
      using be_val_lt [of zs] by simp
    have m: "be_val (z # zs) mod 256 ^ length zs = be_val zs" for z zs
      using be_val_lt [of zs] by simp
    show ?thesis
      using d [of x xs] d [of y ys] m [of x xs] m [of y ys] Cons.hyps Cons.prems by metis
  qed
  then show ?case using Cons by (simp add: word_unat_eq_iff)
qed

lemma nat_be_be_val [be_simps]: "length bs = n \<Longrightarrow> nat_be n (be_val bs) = bs"
  using be_val_lt [of bs] by (intro be_val_inj) (auto simp: be_simps)

lemma nat_be_inj:
  assumes "nat_be n x = nat_be n y" "x < 256 ^ n" "y < 256 ^ n"
  shows "x = y"
proof -
  have "x mod 256 ^ n = y mod 256 ^ n"
    using arg_cong [OF assms(1), of be_val] by (simp add: be_simps)
  then show ?thesis using assms by simp
qed

lemma length_to_be_bytes [simp, be_simps]:
  "length (to_be_bytes (w :: 'a::len word)) = LENGTH('a) div 8"
  by (simp add: to_be_bytes_def)

lemma byte_power: "(256 :: nat) ^ n = 2 ^ (8 * n)"
  by (simp add: power_mult)

lemma be_val_to_be_bytes [be_simps]:
  "LENGTH('a) mod 8 = 0 \<Longrightarrow> be_val (to_be_bytes (w :: 'a::len word)) = unat w"
proof -
  assume "LENGTH('a) mod 8 = 0"
  then have "8 * (LENGTH('a) div 8) = LENGTH('a)" by presburger
  then show ?thesis
    using unat_lt_len [of w] by (simp add: to_be_bytes_def be_simps byte_power)
qed

lemma from_be_bytes_to_be_bytes [simp]:
  "LENGTH('a) mod 8 = 0 \<Longrightarrow> from_be_bytes (to_be_bytes w) = (w :: 'a::len word)"
  by (simp add: from_be_bytes_def be_simps)

lemma inj_to_be_bytes: "LENGTH('a) mod 8 = 0 \<Longrightarrow> inj (to_be_bytes :: 'a::len word \<Rightarrow> bytes)"
  by (metis from_be_bytes_to_be_bytes injI)

text \<open>The value of a byte string ignores leading zero bytes.\<close>

lemma be_val_dropWhile_zero [be_simps]: "be_val (dropWhile (\<lambda>b. b = 0) bs) = be_val bs"
  by (induction bs) auto

lemma be_val_zeros [be_simps]: "be_val (replicate n 0 @ bs) = be_val bs"
  by (induction n) auto

lemma replicate_zeros_dropWhile:
  "replicate (length bs - length (dropWhile (\<lambda>b. b = 0) bs)) 0 @ dropWhile (\<lambda>b. b = 0) bs = bs"
  for bs :: bytes
proof (induction bs)
  case Nil
  then show ?case by simp
next
  case (Cons b bs)
  have "length (dropWhile (\<lambda>b. b = 0) bs) \<le> length bs"
    by (rule length_dropWhile_le)
  then show ?case using Cons by (auto simp: Suc_diff_le)
qed

section \<open>Text\<close>

text \<open>
  A Rust \<open>String\<close> is its UTF-8 bytes.  An Isabelle character is one byte, so \<open>as_bytes\<close>
  is a character-wise cast.
\<close>

definition as_bytes :: "string \<Rightarrow> bytes" where
  "as_bytes s = map (of_char :: char \<Rightarrow> u8) s"

lemma length_as_bytes [simp]: "length (as_bytes s) = length s"
  by (simp add: as_bytes_def)

lemma inj_of_char_u8: "inj (of_char :: char \<Rightarrow> u8)"
proof (rule injI)
  fix c d :: char
  assume "(of_char c :: u8) = of_char d"
  then have "(of_nat (of_char c) :: u8) = of_nat (of_char d)"
    by (simp only: of_nat_of_char)
  then have "unat (of_nat (of_char c) :: u8) = unat (of_nat (of_char d) :: u8)"
    by (rule arg_cong)
  then have "(of_char c :: nat) mod 256 = of_char d mod 256"
    by (simp only: unat_of_nat) simp
  then show "c = d" by simp
qed

lemma as_bytes_inj: "as_bytes s = as_bytes t \<longleftrightarrow> s = t"
  by (simp add: as_bytes_def inj_map_eq_map [OF inj_of_char_u8])

section \<open>Stable sort by a comparison\<close>

fun insort_by :: "('a \<Rightarrow> 'a \<Rightarrow> bool) \<Rightarrow> 'a \<Rightarrow> 'a list \<Rightarrow> 'a list" where
  "insort_by le x [] = [x]"
| "insort_by le x (y # ys) = (if le x y then x # y # ys else y # insort_by le x ys)"

definition sort_by :: "('a \<Rightarrow> 'a \<Rightarrow> bool) \<Rightarrow> 'a list \<Rightarrow> 'a list" where
  "sort_by le xs = foldr (insort_by le) xs []"

lemma mset_insort_by [simp]: "mset (insort_by le x xs) = add_mset x (mset xs)"
  by (induction xs) auto

lemma mset_sort_by [simp]: "mset (sort_by le xs) = mset xs"
  by (induction xs) (auto simp: sort_by_def)

lemma set_sort_by [simp]: "set (sort_by le xs) = set xs"
  by (metis mset_sort_by set_mset_mset)

lemma set_insort_by [simp]: "set (insort_by le x xs) = insert x (set xs)"
  by (induction xs) auto

lemma length_sort_by [simp]: "length (sort_by le xs) = length xs"
  by (metis mset_sort_by size_mset)

lemma distinct_map_sort_by: "distinct (map f (sort_by le xs)) \<longleftrightarrow> distinct (map f xs)"
  by (metis mset_map mset_sort_by mset_eq_imp_distinct_iff)

text \<open>A total and transitive comparison is what \<open>sort_by\<close> asks of its caller.\<close>

locale total_preorder =
  fixes le :: "'a \<Rightarrow> 'a \<Rightarrow> bool"
  assumes total: "le x y \<or> le y x"
    and trans: "le x y \<Longrightarrow> le y z \<Longrightarrow> le x z"
begin

lemma sorted_insort_by:
  "sorted_wrt le xs \<Longrightarrow> sorted_wrt le (insort_by le x xs)"
proof (induction xs)
  case Nil
  then show ?case by simp
next
  case (Cons y ys)
  show ?case
  proof (cases "le x y")
    case True
    then have "\<forall>z\<in>set ys. le x z" using Cons.prems by (auto intro: trans)
    then show ?thesis using True Cons.prems by simp
  next
    case False
    then have "le y x" using total by blast
    then show ?thesis using False Cons by auto
  qed
qed

lemma sorted_sort_by: "sorted_wrt le (sort_by le xs)"
  unfolding sort_by_def by (induction xs) (auto intro: sorted_insort_by)

text \<open>The last element of a sorted list is a greatest one.\<close>

lemma sorted_last_greatest:
  "sorted_wrt le xs \<Longrightarrow> x \<in> set xs \<Longrightarrow> le x (last xs)"
proof (induction xs)
  case Nil
  then show ?case by simp
next
  case (Cons y ys)
  have "le y y" using total by blast
  then show ?case using Cons by (cases "ys = []") auto
qed

end

section \<open>Lists\<close>

lemma filter_none_of_key:
  "distinct (map f xs) \<Longrightarrow> x \<in> set xs \<Longrightarrow> y \<in> set xs \<Longrightarrow> f x = f y \<Longrightarrow> x = y"
  by (meson distinct_map inj_onD)

lemma sum_list_mono_length:
  "(\<And>x. x \<in> set xs \<Longrightarrow> f x \<le> (c :: nat)) \<Longrightarrow> sum_list (map f xs) \<le> c * length xs"
  by (induction xs) (auto simp: add_mono)

section \<open>Totals over a finite map\<close>

definition fm_total :: "('v \<Rightarrow> nat) \<Rightarrow> ('k, 'v) fmap \<Rightarrow> nat" where
  "fm_total f m = (\<Sum>k\<in>fset (fmdom m). f (the (fmlookup m k)))"

definition fm_val :: "('v \<Rightarrow> nat) \<Rightarrow> ('k, 'v) fmap \<Rightarrow> 'k \<Rightarrow> nat" where
  "fm_val f m k = (case fmlookup m k of None \<Rightarrow> 0 | Some v \<Rightarrow> f v)"

lemma fm_val_upd: "fm_val f (fmupd k v m) j = (if j = k then f v else fm_val f m j)"
  by (simp add: fm_val_def)

lemma fm_total_empty [simp]: "fm_total f fmempty = 0"
  by (simp add: fm_total_def)

lemma fm_total_split: "fm_total f m = fm_val f m k + fm_total f (fmdrop k m)"
proof (cases "k \<in> fset (fmdom m)")
  case True
  then obtain v where v: "fmlookup m k = Some v" by (auto simp: fmlookup_dom_iff)
  have "fm_total f m = f (the (fmlookup m k)) + (\<Sum>j\<in>fset (fmdom m) - {k}. f (the (fmlookup m j)))"
    unfolding fm_total_def using True by (subst sum.remove [of _ k]) simp_all
  also have "(\<Sum>j\<in>fset (fmdom m) - {k}. f (the (fmlookup m j))) = fm_total f (fmdrop k m)"
    unfolding fm_total_def by (rule sum.cong) auto
  finally show ?thesis by (simp add: v fm_val_def)
next
  case False
  then have "fmlookup m k = None" by (meson fmdom_notD)
  then show ?thesis by (simp add: fm_val_def fmdrop_idle False)
qed

lemma fm_total_upd: "fm_total f (fmupd k v m) + fm_val f m k = fm_total f m + f v"
proof -
  have "fmdrop k (fmupd k v m) = fmdrop k m" by (rule fmap_ext) simp
  then show ?thesis
    using fm_total_split [of f "fmupd k v m" k] fm_total_split [of f m k] by (simp add: fm_val_def)
qed

lemma fm_val_le_total: "fm_val f m k \<le> fm_total f m"
  using fm_total_split [of f m k] by simp

lemma fm_val_pair_le_total: "j \<noteq> k \<Longrightarrow> fm_val f m j + fm_val f m k \<le> fm_total f m"
  using fm_total_split [of f m k] fm_val_le_total [of f "fmdrop k m" j] by (simp add: fm_val_def)

section \<open>The entries of a finite map in key order\<close>

definition fm_entries :: "('k::linorder, 'v) fmap \<Rightarrow> ('k \<times> 'v) list" where
  "fm_entries m = map (\<lambda>k. (k, the (fmlookup m k))) (sorted_list_of_set (fset (fmdom m)))"

lemma map_of_fm_entries [simp]: "map_of (fm_entries m) = fmlookup m"
proof
  fix k
  show "map_of (fm_entries m) k = fmlookup m k"
    unfolding fm_entries_def
    by (cases "fmlookup m k") (auto simp: map_of_map_restrict restrict_map_def fmlookup_dom_iff)
qed

lemma keys_fm_entries: "map fst (fm_entries m) = sorted_list_of_set (fset (fmdom m))"
  by (simp add: fm_entries_def comp_def)

lemma distinct_fm_entries [simp]: "distinct (map fst (fm_entries m))"
  by (simp add: keys_fm_entries)

lemma set_fm_entries: "(k, v) \<in> set (fm_entries m) \<longleftrightarrow> fmlookup m k = Some v"
  by (metis distinct_fm_entries map_of_eq_Some_iff map_of_fm_entries)

lemma fm_entries_inj: "fm_entries m = fm_entries n \<longleftrightarrow> m = n"
  by (metis fmap_ext map_of_fm_entries)

section \<open>Stateful computations that may fail\<close>

text \<open>
  A method on \<open>&mut self\<close> (or on a database handle) that returns a \<open>Result\<close> yields its
  result and the state it leaves behind, also when it returns early with an error: what was
  written before the error stays written.
\<close>

type_synonym ('s, 'e, 'a) sm = "'s \<Rightarrow> ('e + 'a) \<times> 's"

definition sm_ok :: "'a \<Rightarrow> ('s, 'e, 'a) sm" where
  "sm_ok x = (\<lambda>s. (Inr x, s))"

definition sm_err :: "'e \<Rightarrow> ('s, 'e, 'a) sm" where
  "sm_err e = (\<lambda>s. (Inl e, s))"

definition sm_lift :: "'e + 'a \<Rightarrow> ('s, 'e, 'a) sm" where
  "sm_lift r = (\<lambda>s. (r, s))"

definition sm_gets :: "('s \<Rightarrow> 'e + 'a) \<Rightarrow> ('s, 'e, 'a) sm" where
  "sm_gets f = (\<lambda>s. (f s, s))"

definition sm_bind :: "('s, 'e, 'a) sm \<Rightarrow> ('a \<Rightarrow> ('s, 'e, 'b) sm) \<Rightarrow> ('s, 'e, 'b) sm" where
  "sm_bind m f = (\<lambda>s. case m s of (Inl e, t) \<Rightarrow> (Inl e, t) | (Inr x, t) \<Rightarrow> f x t)"

definition sm_seq :: "('s, 'e, 'a) sm \<Rightarrow> ('s, 'e, 'b) sm \<Rightarrow> ('s, 'e, 'b) sm" where
  "sm_seq m n = sm_bind m (\<lambda>_. n)"

fun sm_for :: "('a \<Rightarrow> ('s, 'e, unit) sm) \<Rightarrow> 'a list \<Rightarrow> ('s, 'e, unit) sm" where
  "sm_for f [] = sm_ok ()"
| "sm_for f (x # xs) = sm_seq (f x) (sm_for f xs)"

named_theorems sm_simps

lemma sm_ok_eq [sm_simps]: "sm_ok x s = (Inr y, t) \<longleftrightarrow> y = x \<and> t = s"
  by (auto simp: sm_ok_def)

lemma sm_err_eq [sm_simps]: "sm_err e s = (Inr y, t) \<longleftrightarrow> False"
  by (simp add: sm_err_def)

lemma sm_lift_eq [sm_simps]: "sm_lift r s = (Inr y, t) \<longleftrightarrow> r = Inr y \<and> t = s"
  by (auto simp: sm_lift_def)

lemma sm_gets_eq [sm_simps]: "sm_gets f s = (Inr y, t) \<longleftrightarrow> f s = Inr y \<and> t = s"
  by (auto simp: sm_gets_def)

lemma sm_bind_eq [sm_simps]:
  "sm_bind m f s = (Inr y, t) \<longleftrightarrow> (\<exists>x u. m s = (Inr x, u) \<and> f x u = (Inr y, t))"
  by (auto simp: sm_bind_def split: prod.splits sum.splits)

lemma sm_seq_eq [sm_simps]:
  "sm_seq m n s = (Inr y, t) \<longleftrightarrow> (\<exists>x u. m s = (Inr x, u) \<and> n u = (Inr y, t))"
  by (simp add: sm_seq_def sm_bind_eq)

text \<open>What a loop of successful steps does, when each step transforms an observation of the state.\<close>

lemma sm_for_fold:
  assumes "\<And>x s t. x \<in> set xs \<Longrightarrow> f x s = (Inr (), t) \<Longrightarrow> obs t = g x (obs s)"
    and "sm_for f xs s = (Inr (), t)"
  shows "obs t = fold g xs (obs s)"
  using assms
proof (induction xs arbitrary: s)
  case Nil
  then show ?case by (simp add: sm_simps)
next
  case (Cons x xs)
  then obtain u where "f x s = (Inr (), u)" "sm_for f xs u = (Inr (), t)"
    by (auto simp: sm_simps)
  then show ?case using Cons.IH [of u] Cons.prems(1) [of x s u] Cons.prems(1) by auto
qed

end
