(* ===== verification/Byte_Arrays.thy ===== *)
theory Byte_Arrays
  imports Prelude
begin

text \<open>
  Fixed-length byte arrays \<open>[u8; N]\<close> with Rust's derived equality and lexicographic order,
  and the two contracts byte encoders are held to: \<open>prefix_code\<close> (an encoding can be split
  off the front of a longer string in one way only) and \<open>fixed_width\<close> (all encodings have
  the same length).  The lemmas proved here once in the locales are what the injectivity
  results on canonical encodings rest on.
\<close>

section \<open>Arrays\<close>

typedef (overloaded) ('n::len) barray = "{bs :: bytes. length bs = LENGTH('n)}"
  morphisms arr_bytes Arr
proof
  show "replicate LENGTH('n) 0 \<in> {bs :: bytes. length bs = LENGTH('n)}" by simp
qed

text \<open>\<open>[b; N]\<close> and the checked conversion \<open>try_into\<close> from a slice.\<close>

definition arr_rep :: "u8 \<Rightarrow> 'n::len barray" where
  "arr_rep b = Arr (replicate LENGTH('n) b)"

definition arr_try :: "bytes \<Rightarrow> 'n::len barray option" where
  "arr_try bs = (if length bs = LENGTH('n) then Some (Arr bs) else None)"

definition arr_val :: "'n::len barray \<Rightarrow> nat" where
  "arr_val a = be_val (arr_bytes a)"

lemma length_arr_bytes [simp]: "length (arr_bytes (a :: 'n::len barray)) = LENGTH('n)"
  using arr_bytes [of a] by simp

lemma arr_bytes_nonempty [simp]: "arr_bytes (a :: 'n::len barray) \<noteq> []"
  using length_arr_bytes [of a] len_gt_0 [where 'a = 'n] by (metis list.size(3) less_irrefl)

lemma arr_bytes_Arr [simp]: "length bs = LENGTH('n) \<Longrightarrow> arr_bytes (Arr bs :: 'n::len barray) = bs"
  by (simp add: Arr_inverse)

lemma Arr_arr_bytes [simp]: "Arr (arr_bytes a) = a"
  by (rule arr_bytes_inverse)

lemma arr_eq_iff: "a = b \<longleftrightarrow> arr_bytes a = arr_bytes b"
  by (simp add: arr_bytes_inject)

lemma Arr_eq_iff [simp]:
  "length xs = LENGTH('n) \<Longrightarrow> length ys = LENGTH('n) \<Longrightarrow>
    (Arr xs :: 'n::len barray) = Arr ys \<longleftrightarrow> xs = ys"
  by (simp add: Arr_inject)

lemma arr_bytes_arr_rep [simp]: "arr_bytes (arr_rep b :: 'n::len barray) = replicate LENGTH('n) b"
  by (simp add: arr_rep_def)

lemma arr_try_eq_Some:
  "arr_try bs = Some (a :: 'n::len barray) \<longleftrightarrow> arr_bytes a = bs"
  by (auto simp: arr_try_def)

lemma arr_try_arr_bytes [simp]: "arr_try (arr_bytes a) = Some a"
  by (simp add: arr_try_eq_Some)

lemma arr_val_lt: "arr_val (a :: 'n::len barray) < 256 ^ LENGTH('n)"
  using be_val_lt [of "arr_bytes a"] by (simp add: arr_val_def)

lemma arr_val_inj: "arr_val a = arr_val b \<longleftrightarrow> a = b"
  by (metis arr_val_def arr_eq_iff be_val_inj length_arr_bytes)

instantiation barray :: (len) equal
begin

definition equal_barray :: "'a barray \<Rightarrow> 'a barray \<Rightarrow> bool" where
  "equal_barray a b \<longleftrightarrow> arr_bytes a = arr_bytes b"

instance
  by standard (simp add: equal_barray_def arr_eq_iff)

end

section \<open>The lexicographic order is the numeric order\<close>

fun lex_le :: "bytes \<Rightarrow> bytes \<Rightarrow> bool" where
  "lex_le [] ys = True"
| "lex_le (x # xs) [] = False"
| "lex_le (x # xs) (y # ys) = (x < y \<or> (x = y \<and> lex_le xs ys))"

lemma be_val_cons_less:
  assumes "length xs = length ys" "x < y"
  shows "be_val (x # xs) < be_val (y # ys)"
proof -
  have "unat x + 1 \<le> unat y" using assms(2) by (simp add: word_less_nat_alt)
  then have "(unat x + 1) * 256 ^ length xs \<le> unat y * 256 ^ length xs"
    by (rule mult_right_mono) simp
  then show ?thesis using be_val_lt [of xs] assms(1) by simp
qed

lemma lex_le_iff_be_val:
  "length xs = length ys \<Longrightarrow> lex_le xs ys \<longleftrightarrow> be_val xs \<le> be_val ys"
proof (induction xs ys rule: list_induct2)
  case Nil
  then show ?case by simp
next
  case (Cons x xs y ys)
  consider "x < y" | "x = y" | "y < x" by (rule linorder_cases)
  then show ?case
  proof cases
    case 1
    then show ?thesis using be_val_cons_less [OF Cons.hyps] by (auto simp: less_imp_le)
  next
    case 2
    then show ?thesis using Cons by simp
  next
    case 3
    then have "be_val (y # ys) < be_val (x # xs)"
      using be_val_cons_less [of ys xs y x] Cons.hyps by simp
    then show ?thesis using 3 by auto
  qed
qed

instantiation barray :: (len) linorder
begin

definition less_eq_barray :: "'a barray \<Rightarrow> 'a barray \<Rightarrow> bool" where
  "less_eq_barray a b \<longleftrightarrow> lex_le (arr_bytes a) (arr_bytes b)"

definition less_barray :: "'a barray \<Rightarrow> 'a barray \<Rightarrow> bool" where
  "less_barray a b \<longleftrightarrow> lex_le (arr_bytes a) (arr_bytes b) \<and> a \<noteq> b"

instance
proof
  fix a b c :: "'a barray"
  have le: "x \<le> y \<longleftrightarrow> arr_val x \<le> arr_val y" for x y :: "'a barray"
    by (simp add: less_eq_barray_def arr_val_def lex_le_iff_be_val)
  show "a < b \<longleftrightarrow> a \<le> b \<and> \<not> b \<le> a"
    using le [of a b] le [of b a] arr_val_inj [of a b]
    by (auto simp: less_barray_def less_eq_barray_def [symmetric])
  show "a \<le> a" by (simp add: le)
  show "a \<le> b \<Longrightarrow> b \<le> c \<Longrightarrow> a \<le> c" by (simp add: le)
  show "a \<le> b \<Longrightarrow> b \<le> a \<Longrightarrow> a = b" by (simp add: le arr_val_inj [symmetric])
  show "a \<le> b \<or> b \<le> a" by (auto simp: le)
qed

end

lemma arr_le_iff_val: "a \<le> b \<longleftrightarrow> arr_val a \<le> arr_val b" for a b :: "'n::len barray"
  by (simp add: less_eq_barray_def arr_val_def lex_le_iff_be_val)

lemma arr_less_iff_val: "a < b \<longleftrightarrow> arr_val a < arr_val b" for a b :: "'n::len barray"
  by (metis arr_le_iff_val not_less)

section \<open>Contracts of byte encoders\<close>

locale prefix_code =
  fixes enc :: "'a \<Rightarrow> bytes" and ok :: "'a \<Rightarrow> bool"
  assumes cancel: "ok x \<Longrightarrow> ok y \<Longrightarrow> enc x @ r = enc y @ s \<Longrightarrow> x = y \<and> r = s"
begin

lemma append_eq_iff: "ok x \<Longrightarrow> ok y \<Longrightarrow> enc x @ r = enc y @ s \<longleftrightarrow> x = y \<and> r = s"
  using cancel by blast

lemma enc_eq_iff: "ok x \<Longrightarrow> ok y \<Longrightarrow> enc x = enc y \<longleftrightarrow> x = y"
  using append_eq_iff [of x y "[]" "[]"] by simp

lemma concat_cancel:
  assumes "length xs = length ys" "list_all ok xs" "list_all ok ys"
    and "concat (map enc xs) @ r = concat (map enc ys) @ s"
  shows "xs = ys \<and> r = s"
  using assms
proof (induction xs ys rule: list_induct2)
  case Nil
  then show ?case by simp
next
  case (Cons x xs y ys)
  then have "enc x @ concat (map enc xs) @ r = enc y @ concat (map enc ys) @ s" by simp
  then have "x = y" "concat (map enc xs) @ r = concat (map enc ys) @ s"
    using cancel Cons.prems by auto
  then show ?case using Cons by simp
qed

end

locale fixed_width =
  fixes enc :: "'a \<Rightarrow> bytes" and width :: nat
  assumes width: "length (enc x) = width"
    and enc_inj: "enc x = enc y \<Longrightarrow> x = y"

sublocale fixed_width \<subseteq> prefix_code enc "\<lambda>_. True"
  by unfold_locales (metis append_eq_append_conv enc_inj width)

context fixed_width begin

lemma length_concat_enc: "length (concat (map enc xs)) = width * length xs"
  by (induction xs) (auto simp: width)

end

interpretation arr_code: fixed_width "arr_bytes :: 'n::len barray \<Rightarrow> bytes" "LENGTH('n)"
  by unfold_locales (auto simp: arr_eq_iff)

interpretation be64: fixed_width "to_be_bytes :: u64 \<Rightarrow> bytes" 8
  by unfold_locales (auto dest: injD [OF inj_to_be_bytes, rotated])

interpretation be128: fixed_width "to_be_bytes :: u128 \<Rightarrow> bytes" 16
  by unfold_locales (auto dest: injD [OF inj_to_be_bytes, rotated])

end
