(* ===== verification/Primitives.thy ===== *)
theory Primitives
  imports Byte_Arrays
begin

text \<open>
  \<open>crates/blq-primitives/src/lib.rs\<close>: the constants of the chain, hashes and addresses with
  their hexadecimal forms, the amounts and their serialised forms, transactions, receipts,
  headers and blocks, and the canonical byte encodings that are hashed.

  Functions of third-party crates are fields of the record \<open>ext\<close>, passed to every
  definition that calls them: hexadecimal coding (crate hex), SHA-256 (sha2), BLAKE3 (blake3),
  Keccak-256 (alloy), the RandomX hash behind the C interface, and of the secp256k1 signatures
  of alloy the test for a high \<open>s\<close> (\<open>normalize_s().is_some()\<close>) and the recovery of the
  signer from a digest.  The field
  \<open>x_native_randomx\<close> is the Cargo feature native-randomx.
\<close>

type_synonym hash256 = "32 barray"
type_synonym address = "20 barray"
type_synonym bix = u128

record ext =
  x_native_randomx :: bool
  x_hex_encode :: "bytes \<Rightarrow> string"
  x_hex_decode :: "string \<Rightarrow> bytes option"
  x_sha256 :: "bytes \<Rightarrow> hash256"
  x_blake3 :: "bytes \<Rightarrow> hash256"
  x_keccak256 :: "bytes \<Rightarrow> hash256"
  x_randomx :: "bytes \<Rightarrow> bytes \<Rightarrow> hash256"
  x_high_s :: "hash256 \<Rightarrow> hash256 \<Rightarrow> bool \<Rightarrow> bool"
  x_recover :: "hash256 \<Rightarrow> hash256 \<Rightarrow> bool \<Rightarrow> hash256 \<Rightarrow> address option"

section \<open>Constants\<close>

named_theorems blq_consts

definition BIX_PER_BLQ :: u128 where [blq_consts]: "BIX_PER_BLQ = 1000000000000000000"
definition TARGET_BLOCK_TIME_SECONDS :: u64 where [blq_consts]: "TARGET_BLOCK_TIME_SECONDS = 30"
definition MIN_ACCEPTABLE_BLOCK_TIME_SECONDS :: u64 where
  [blq_consts]: "MIN_ACCEPTABLE_BLOCK_TIME_SECONDS = 15"
definition MAX_ACCEPTABLE_BLOCK_TIME_SECONDS :: u64 where
  [blq_consts]: "MAX_ACCEPTABLE_BLOCK_TIME_SECONDS = 45"
definition MAX_DIFFICULTY_ADJUSTMENT_PERCENT :: u64 where
  [blq_consts]: "MAX_DIFFICULTY_ADJUSTMENT_PERCENT = 25"
definition BLOCK_TIME_V2_MEDIAN_WINDOW :: nat where
  [blq_consts]: "BLOCK_TIME_V2_MEDIAN_WINDOW = 16"
definition BLOCK_TIME_V2_TARGET_SECONDS :: u64 where
  [blq_consts]: "BLOCK_TIME_V2_TARGET_SECONDS = 15"
definition BLOCK_TIME_V2_FAST_MEDIAN_SECONDS :: u64 where
  [blq_consts]: "BLOCK_TIME_V2_FAST_MEDIAN_SECONDS = 3"
definition BLOCK_TIME_V2_SLOW_INTERVAL_SECONDS :: u64 where
  [blq_consts]: "BLOCK_TIME_V2_SLOW_INTERVAL_SECONDS = 60"
definition BLOCK_TIME_V2_NORMAL_CAP_NUMERATOR :: u64 where
  [blq_consts]: "BLOCK_TIME_V2_NORMAL_CAP_NUMERATOR = 17"
definition BLOCK_TIME_V2_NORMAL_CAP_DENOMINATOR :: u64 where
  [blq_consts]: "BLOCK_TIME_V2_NORMAL_CAP_DENOMINATOR = 16"
definition BLOCK_TIME_V2_SLOW_CAP_NUMERATOR :: u64 where
  [blq_consts]: "BLOCK_TIME_V2_SLOW_CAP_NUMERATOR = 9"
definition BLOCK_TIME_V2_SLOW_CAP_DENOMINATOR :: u64 where
  [blq_consts]: "BLOCK_TIME_V2_SLOW_CAP_DENOMINATOR = 8"
definition DIFFICULTY_ADJUSTMENT_INTERVAL :: u64 where
  [blq_consts]: "DIFFICULTY_ADJUSTMENT_INTERVAL = 60"
definition BLQ_ISSUANCE_PER_INTERVAL_BIX :: u128 where
  [blq_consts]: "BLQ_ISSUANCE_PER_INTERVAL_BIX = BIX_PER_BLQ"
definition MAX_REWARD_INTERVAL_SECONDS :: u64 where
  [blq_consts]: "MAX_REWARD_INTERVAL_SECONDS = 120"
definition MIN_BURN_PERCENT :: u8 where [blq_consts]: "MIN_BURN_PERCENT = 5"
definition MAX_BURN_PERCENT :: u8 where [blq_consts]: "MAX_BURN_PERCENT = 40"
definition MAX_UTILIZATION_BASIS_POINTS :: u64 where
  [blq_consts]: "MAX_UTILIZATION_BASIS_POINTS = 10000"
definition MAINNET_CHAIN_ID :: u64 where [blq_consts]: "MAINNET_CHAIN_ID = 707070"
definition ZERO_HASH :: hash256 where "ZERO_HASH = arr_rep 0"
definition ZERO_ADDRESS :: address where "ZERO_ADDRESS = arr_rep 0"
definition EMPTY_TRANSACTIONS_ROOT :: hash256 where "EMPTY_TRANSACTIONS_ROOT = arr_rep 0"
definition EMPTY_RECEIPTS_ROOT :: hash256 where "EMPTY_RECEIPTS_ROOT = arr_rep 0"
definition GENESIS_GAS_LIMIT :: u64 where [blq_consts]: "GENESIS_GAS_LIMIT = 30000000"
definition GENESIS_TIMESTAMP_SECONDS :: u64 where [blq_consts]: "GENESIS_TIMESTAMP_SECONDS = 0"
definition GENESIS_DIFFICULTY_TARGET :: hash256 where "GENESIS_DIFFICULTY_TARGET = arr_rep 0x0f"
definition INITIAL_BASE_FEE_PER_GAS_BIX :: u128 where
  [blq_consts]: "INITIAL_BASE_FEE_PER_GAS_BIX = 1000000000"
definition EIP1559_ELASTICITY_MULTIPLIER :: u64 where
  [blq_consts]: "EIP1559_ELASTICITY_MULTIPLIER = 2"
definition EIP1559_BASE_FEE_MAX_CHANGE_DENOMINATOR :: u64 where
  [blq_consts]: "EIP1559_BASE_FEE_MAX_CHANGE_DENOMINATOR = 8"
definition MAX_TRANSACTION_PAYLOAD_BYTES :: nat where
  [blq_consts]: "MAX_TRANSACTION_PAYLOAD_BYTES = 128 * 1024"
definition MAX_BLOCK_BYTES :: nat where [blq_consts]: "MAX_BLOCK_BYTES = 2 * 1024 * 1024"
definition MAX_ACCESS_LIST_ENTRIES :: nat where [blq_consts]: "MAX_ACCESS_LIST_ENTRIES = 256"
definition MAX_ACCESS_LIST_STORAGE_KEYS_PER_ENTRY :: nat where
  [blq_consts]: "MAX_ACCESS_LIST_STORAGE_KEYS_PER_ENTRY = 1024"
definition MAX_ACCESS_LIST_STORAGE_KEYS :: nat where
  [blq_consts]: "MAX_ACCESS_LIST_STORAGE_KEYS = 4096"

definition DEFAULT_POW_ALGORITHM :: "ext \<Rightarrow> string" where
  "DEFAULT_POW_ALGORITHM e = (if x_native_randomx e then ''BLQ-RX/2'' else ''BLQ-RX/1'')"

datatype node_mode = Full | Partial

fun node_mode_as_str :: "node_mode \<Rightarrow> string" where
  "node_mode_as_str Full = ''full''"
| "node_mode_as_str Partial = ''partial''"

section \<open>Hashes and addresses\<close>

datatype hex_hash_error = InvalidHex | InvalidLength nat

text \<open>\<open>value.strip_prefix("0x").unwrap_or(value)\<close>\<close>

fun strip_0x :: "string \<Rightarrow> string" where
  "strip_0x (a # b # cs) = (if a = CHR ''0'' \<and> b = CHR ''x'' then cs else a # b # cs)"
| "strip_0x cs = cs"

definition hash_to_hex :: "ext \<Rightarrow> hash256 \<Rightarrow> string" where
  "hash_to_hex e h = x_hex_encode e (arr_bytes h)"

definition hash_from_hex :: "ext \<Rightarrow> string \<Rightarrow> hex_hash_error + hash256" where
  "hash_from_hex e value =
     (case x_hex_decode e (strip_0x value) of
        None \<Rightarrow> Inl InvalidHex
      | Some bs \<Rightarrow> if length bs \<noteq> 32 then Inl (InvalidLength (length bs)) else Inr (Arr bs))"

definition address_to_hex :: "ext \<Rightarrow> address \<Rightarrow> string" where
  "address_to_hex e a = ''0x'' @ x_hex_encode e (arr_bytes a)"

definition address_from_hex :: "ext \<Rightarrow> string \<Rightarrow> hex_hash_error + address" where
  "address_from_hex e value =
     (case x_hex_decode e (strip_0x value) of
        None \<Rightarrow> Inl InvalidHex
      | Some bs \<Rightarrow> if length bs \<noteq> 20 then Inl (InvalidLength (length bs)) else Inr (Arr bs))"

definition address_from_word :: "hash256 \<Rightarrow> address" where
  "address_from_word value = Arr (drop 12 (arr_bytes value))"

definition address_to_word :: "address \<Rightarrow> hash256" where
  "address_to_word a = Arr (replicate 12 0 @ arr_bytes a)"

text \<open>
  \<open>parse_beneficiary\<close> has an \<open>unreachable!\<close> arm; the model returns \<open>None\<close> there, so that
  its absence is something to prove.
\<close>

definition parse_beneficiary :: "ext \<Rightarrow> string \<Rightarrow> (hex_hash_error + hash256) option" where
  "parse_beneficiary e value =
     (case address_from_hex e value of
        Inr a \<Rightarrow> Some (Inr (address_to_word a))
      | Inl (InvalidLength n) \<Rightarrow> if n = 20 then None else Some (hash_from_hex e value)
      | Inl InvalidHex \<Rightarrow> Some (hash_from_hex e value))"

section \<open>Serialised addresses and amounts\<close>

text \<open>What a serde deserializer can hand to the two hand-written visitors.\<close>

datatype de_input = DeStr string | DeSeq bytes | DeU64 u64 | DeU128 u128

datatype de_error = DeHex hex_hash_error | DeAddressLength nat | DeBix | DeInvalidType

definition address_serialize :: "ext \<Rightarrow> address \<Rightarrow> de_input" where
  "address_serialize e a = DeStr (address_to_hex e a)"

fun address_deserialize :: "ext \<Rightarrow> de_input \<Rightarrow> de_error + address" where
  "address_deserialize e (DeStr value) = res_map_err DeHex (address_from_hex e value)"
| "address_deserialize e (DeSeq bs) =
     (if length bs = 20 then Inr (Arr bs)
      else if length bs = 32 then Inr (address_from_word (Arr bs))
      else Inl (DeAddressLength (length bs)))"
| "address_deserialize e (DeU64 _) = Inl DeInvalidType"
| "address_deserialize e (DeU128 _) = Inl DeInvalidType"

text \<open>\<open>u128::to_string\<close> and \<open>str::parse::<u128>\<close> of the standard library.\<close>

definition dec_digit :: "nat \<Rightarrow> char" where
  "dec_digit d = char_of (48 + d)"

fun dec_string :: "nat \<Rightarrow> string" where
  "dec_string n = (if n < 10 then [dec_digit n] else dec_string (n div 10) @ [dec_digit (n mod 10)])"

declare dec_string.simps [simp del]

definition digit_val :: "char \<Rightarrow> nat option" where
  "digit_val c = (let n = of_char c in if 48 \<le> n \<and> n \<le> 57 then Some (n - 48) else None)"

fun parse_u128_digits :: "nat \<Rightarrow> string \<Rightarrow> nat option" where
  "parse_u128_digits acc [] = Some acc"
| "parse_u128_digits acc (c # cs) =
     (case digit_val c of
        None \<Rightarrow> None
      | Some d \<Rightarrow> if acc * 10 + d < 2 ^ 128 then parse_u128_digits (acc * 10 + d) cs else None)"

definition parse_u128 :: "string \<Rightarrow> u128 option" where
  "parse_u128 s =
     (case s of
        [] \<Rightarrow> None
      | c # cs \<Rightarrow>
          if cs = [] \<and> (c = CHR ''+'' \<or> c = CHR ''-'') then None
          else map_option of_nat (parse_u128_digits 0 (if c = CHR ''+'' then cs else s)))"

definition bix_serialize :: "bix \<Rightarrow> de_input" where
  "bix_serialize b = DeStr (dec_string (unat b))"

fun bix_deserialize :: "de_input \<Rightarrow> de_error + bix" where
  "bix_deserialize (DeU64 v) = Inr (ucast v)"
| "bix_deserialize (DeU128 v) = Inr v"
| "bix_deserialize (DeStr s) = res_of_option DeBix (parse_u128 s)"
| "bix_deserialize (DeSeq _) = Inl DeInvalidType"

section \<open>Transactions, receipts, headers and blocks\<close>

record transaction_access_list_item =
  al_address :: address
  al_storage_keys :: "hash256 list"

record transaction_signature =
  sig_y_parity :: bool
  sig_r :: hash256
  sig_s :: hash256

record transaction =
  tx_chain_id :: u64
  tx_type :: u8
  tx_nonce :: u64
  tx_from :: address
  tx_to :: "address option"
  tx_value :: bix
  tx_gas_limit :: u64
  tx_max_fee_per_gas :: bix
  tx_max_priority_fee_per_gas :: bix
  tx_payload :: bytes
  tx_access_list :: "transaction_access_list_item list"
  tx_signature :: "transaction_signature option"
  tx_external_hash :: "hash256 option"

record log_entry =
  log_address :: address
  log_topics :: "hash256 list"
  log_data :: bytes

record receipt =
  rc_transaction_hash :: hash256
  rc_success :: bool
  rc_gas_used :: u64
  rc_logs_root :: hash256
  rc_logs :: "log_entry list"

record block_header =
  h_parent_hash :: hash256
  h_number :: u64
  h_state_root :: hash256
  h_transactions_root :: hash256
  h_receipts_root :: hash256
  h_beneficiary :: hash256
  h_difficulty_target :: hash256
  h_base_fee_per_gas :: bix
  h_gas_limit :: u64
  h_gas_used :: u64
  h_timestamp_seconds :: u64
  h_pow_algorithm :: string
  h_pow_epoch :: u64
  h_extra_nonce :: u64
  h_mix_hash :: hash256
  h_nonce :: u64

record block =
  b_header :: block_header
  b_transactions :: "transaction list"
  b_receipts :: "receipt list"

definition beneficiary_address :: "block_header \<Rightarrow> address" where
  "beneficiary_address h = address_from_word (h_beneficiary h)"

section \<open>Canonical encodings\<close>

text \<open>Each \<open>put\<close> function appends to a buffer; the model is the string it appends.\<close>

definition put_hash :: "hash256 \<Rightarrow> bytes" where "put_hash v = arr_bytes v"
definition put_address :: "address \<Rightarrow> bytes" where "put_address v = arr_bytes v"
definition put_u64 :: "u64 \<Rightarrow> bytes" where "put_u64 v = to_be_bytes v"
definition put_u128 :: "u128 \<Rightarrow> bytes" where "put_u128 v = to_be_bytes v"
definition put_bytes :: "bytes \<Rightarrow> bytes" where "put_bytes bs = put_u64 (of_nat (length bs)) @ bs"
definition put_bool :: "bool \<Rightarrow> bytes" where "put_bool b = [if b then 1 else 0]"

definition put_access_list_item :: "transaction_access_list_item \<Rightarrow> bytes" where
  "put_access_list_item item =
     put_address (al_address item) @ put_u64 (of_nat (length (al_storage_keys item))) @
     concat (map put_hash (al_storage_keys item))"

definition transaction_canonical_bytes :: "transaction \<Rightarrow> bytes" where
  "transaction_canonical_bytes t =
     put_u64 (tx_chain_id t) @ put_u64 (tx_nonce t) @ put_address (tx_from t) @
     (case tx_to t of Some a \<Rightarrow> 1 # put_address a | None \<Rightarrow> [0]) @
     put_u128 (tx_value t) @ put_u64 (tx_gas_limit t) @ put_u128 (tx_max_fee_per_gas t) @
     put_u128 (tx_max_priority_fee_per_gas t) @ put_bytes (tx_payload t) @
     (if tx_access_list t \<noteq> [] \<or> tx_type t = 1
      then 0xa5 # tx_type t # put_u64 (of_nat (length (tx_access_list t))) @
           concat (map put_access_list_item (tx_access_list t))
      else []) @
     (case tx_signature t of
        Some sg \<Rightarrow> 1 # put_bool (sig_y_parity sg) @ put_hash (sig_r sg) @ put_hash (sig_s sg)
      | None \<Rightarrow> [0])"

definition hash_bytes :: "ext \<Rightarrow> bytes \<Rightarrow> hash256" where
  "hash_bytes e bs = x_sha256 e bs"

definition transaction_hash :: "ext \<Rightarrow> transaction \<Rightarrow> hash256" where
  "transaction_hash e t = hash_bytes e (transaction_canonical_bytes t)"

definition rpc_hash :: "ext \<Rightarrow> transaction \<Rightarrow> hash256" where
  "rpc_hash e t = (case tx_external_hash t of Some h \<Rightarrow> h | None \<Rightarrow> transaction_hash e t)"

definition log_entry_canonical_bytes :: "log_entry \<Rightarrow> bytes" where
  "log_entry_canonical_bytes l =
     arr_bytes (log_address l) @ put_u64 (of_nat (length (log_topics l))) @
     concat (map put_hash (log_topics l)) @ put_bytes (log_data l)"

definition receipt_canonical_bytes :: "receipt \<Rightarrow> bytes" where
  "receipt_canonical_bytes r =
     put_hash (rc_transaction_hash r) @ put_bool (rc_success r) @ put_u64 (rc_gas_used r) @
     put_hash (rc_logs_root r) @
     (if rc_logs r \<noteq> []
      then put_u64 (of_nat (length (rc_logs r))) @
           concat (map (\<lambda>l. put_bytes (log_entry_canonical_bytes l)) (rc_logs r))
      else [])"

text \<open>The fields that the header encoding and the proof-of-work preimage share.\<close>

definition header_common_bytes :: "block_header \<Rightarrow> bytes" where
  "header_common_bytes h =
     put_hash (h_parent_hash h) @ put_u64 (h_number h) @ put_hash (h_state_root h) @
     put_hash (h_transactions_root h) @ put_hash (h_receipts_root h) @
     put_hash (h_beneficiary h) @ put_hash (h_difficulty_target h) @
     put_u128 (h_base_fee_per_gas h) @ put_u64 (h_gas_limit h) @ put_u64 (h_gas_used h) @
     put_u64 (h_timestamp_seconds h) @ put_bytes (as_bytes (h_pow_algorithm h)) @
     put_u64 (h_pow_epoch h) @ put_u64 (h_extra_nonce h)"

definition header_canonical_bytes :: "block_header \<Rightarrow> bytes" where
  "header_canonical_bytes h =
     header_common_bytes h @ put_hash (h_mix_hash h) @ put_u64 (h_nonce h)"

definition pow_preimage_bytes :: "block_header \<Rightarrow> bytes" where
  "pow_preimage_bytes h = header_common_bytes h @ put_u64 (h_nonce h)"

definition header_hash :: "ext \<Rightarrow> block_header \<Rightarrow> hash256" where
  "header_hash e h = hash_bytes e (header_canonical_bytes h)"

definition block_canonical_bytes :: "block \<Rightarrow> bytes" where
  "block_canonical_bytes b =
     header_canonical_bytes (b_header b) @
     put_u64 (of_nat (length (b_transactions b))) @
     concat (map (\<lambda>t. put_bytes (transaction_canonical_bytes t)) (b_transactions b)) @
     put_u64 (of_nat (length (b_receipts b))) @
     concat (map (\<lambda>r. put_bytes (receipt_canonical_bytes r)) (b_receipts b))"

text \<open>
  \<open>merkle_like_root\<close> feeds a hasher item by item; the digest is that of the concatenation,
  and the empty sequence is the zero hash.
\<close>

definition merkle_preimage :: "bytes list \<Rightarrow> bytes" where
  "merkle_preimage items =
     concat (map put_bytes items) @ put_u64 (of_nat (length items))"

definition merkle_like_root :: "ext \<Rightarrow> bytes list \<Rightarrow> hash256" where
  "merkle_like_root e items =
     (if items = [] then ZERO_HASH else x_sha256 e (merkle_preimage items))"

definition transactions_root :: "ext \<Rightarrow> transaction list \<Rightarrow> hash256" where
  "transactions_root e ts = merkle_like_root e (map transaction_canonical_bytes ts)"

definition receipts_root :: "ext \<Rightarrow> receipt list \<Rightarrow> hash256" where
  "receipts_root e rs = merkle_like_root e (map receipt_canonical_bytes rs)"

definition logs_root :: "ext \<Rightarrow> log_entry list \<Rightarrow> hash256" where
  "logs_root e ls =
     (if ls = [] then ZERO_HASH else merkle_like_root e (map log_entry_canonical_bytes ls))"

definition genesis_header :: "ext \<Rightarrow> block_header" where
  "genesis_header e = \<lparr>
     h_parent_hash = ZERO_HASH, h_number = 0, h_state_root = ZERO_HASH,
     h_transactions_root = EMPTY_TRANSACTIONS_ROOT, h_receipts_root = EMPTY_RECEIPTS_ROOT,
     h_beneficiary = ZERO_HASH, h_difficulty_target = GENESIS_DIFFICULTY_TARGET,
     h_base_fee_per_gas = INITIAL_BASE_FEE_PER_GAS_BIX, h_gas_limit = GENESIS_GAS_LIMIT,
     h_gas_used = 0, h_timestamp_seconds = GENESIS_TIMESTAMP_SECONDS,
     h_pow_algorithm = DEFAULT_POW_ALGORITHM e, h_pow_epoch = 0, h_extra_nonce = 0,
     h_mix_hash = ZERO_HASH, h_nonce = 0\<rparr>"

definition genesis_block :: "ext \<Rightarrow> block" where
  "genesis_block e = \<lparr>b_header = genesis_header e, b_transactions = [], b_receipts = []\<rparr>"

end
