(* ===== verification/Canonical.thy ===== *)
theory Canonical
  imports Primitives
begin

text \<open>
  Properties of \<open>blq-primitives\<close>: the textual forms of hashes, addresses and amounts are
  read back as written, and the canonical encodings of transactions, receipts and headers
  determine what they encode, so that block hashes and the roots in a header bind the contents
  of the block up to collisions of the hash function.
\<close>

section \<open>Hexadecimal forms\<close>

text \<open>
  What the node relies on of the crate hex: decoding inverts encoding, and an encoding consists
  of hexadecimal digits, so that it holds no \<open>x\<close> (and \<open>strip_prefix\<close> leaves it alone).
\<close>

definition hex_spec :: "ext \<Rightarrow> bool" where
  "hex_spec e \<longleftrightarrow>
     (\<forall>bs. x_hex_decode e (x_hex_encode e bs) = Some bs) \<and>
     (\<forall>bs. CHR ''x'' \<notin> set (x_hex_encode e bs))"

lemma strip_0x_no_x: "CHR ''x'' \<notin> set s \<Longrightarrow> strip_0x s = s"
  by (cases s rule: strip_0x.cases) auto

lemma hash_hex_roundtrip:
  assumes "hex_spec e"
  shows "hash_from_hex e (hash_to_hex e h) = Inr h"
  using assms by (simp add: hex_spec_def hash_from_hex_def hash_to_hex_def strip_0x_no_x)

lemma address_hex_roundtrip:
  assumes "hex_spec e"
  shows "address_from_hex e (address_to_hex e a) = Inr a"
  using assms by (simp add: hex_spec_def address_from_hex_def address_to_hex_def)

lemma address_word_roundtrip: "address_from_word (address_to_word a) = a"
  by (simp add: address_from_word_def address_to_word_def)

lemma address_from_hex_length: "address_from_hex e v = Inl (InvalidLength n) \<Longrightarrow> n \<noteq> 20"
  by (auto simp: address_from_hex_def split: option.splits if_splits)

lemma parse_beneficiary_total: "parse_beneficiary e v \<noteq> None"
  using address_from_hex_length [of e v]
  by (auto simp: parse_beneficiary_def split: sum.splits hex_hash_error.splits)

lemma parse_beneficiary_address:
  assumes "hex_spec e"
  shows "parse_beneficiary e (address_to_hex e a) = Some (Inr (address_to_word a))"
  using assms by (simp add: parse_beneficiary_def address_hex_roundtrip)

lemma parse_beneficiary_hash:
  assumes "hex_spec e"
  shows "parse_beneficiary e (hash_to_hex e h) = Some (Inr h)"
proof -
  have "address_from_hex e (hash_to_hex e h) = Inl (InvalidLength 32)"
    using assms by (simp add: hex_spec_def address_from_hex_def hash_to_hex_def strip_0x_no_x)
  then show ?thesis using assms by (simp add: parse_beneficiary_def hash_hex_roundtrip)
qed

section \<open>Decimal amounts\<close>

lemma digit_val_dec_digit: "d < 10 \<Longrightarrow> digit_val (dec_digit d) = Some d"
  by (simp add: digit_val_def dec_digit_def Let_def)

lemma parse_digits_append:
  "parse_u128_digits acc (xs @ ys) =
     Option.bind (parse_u128_digits acc xs) (\<lambda>a. parse_u128_digits a ys)"
  by (induction xs arbitrary: acc) (auto split: option.splits)

lemma parse_digits_dec_string:
  "n < 2 ^ 128 \<Longrightarrow> parse_u128_digits 0 (dec_string n) = Some n"
proof (induction n rule: dec_string.induct)
  case (1 n)
  show ?case
  proof (cases "n < 10")
    case True
    then show ?thesis using 1(2) by (subst dec_string.simps) (simp add: digit_val_dec_digit)
  next
    case False
    have "n div 10 < 2 ^ 128" using 1(2) by simp
    then have "parse_u128_digits 0 (dec_string (n div 10)) = Some (n div 10)"
      using 1(1) False by simp
    then show ?thesis
      using False 1(2)
      by (subst dec_string.simps) (simp add: parse_digits_append digit_val_dec_digit)
  qed
qed

lemma dec_digit_not_sign: "d < 10 \<Longrightarrow> dec_digit d \<noteq> CHR ''+'' \<and> dec_digit d \<noteq> CHR ''-''"
proof -
  assume "d < 10"
  then have "of_char (dec_digit d) = 48 + d" by (simp add: dec_digit_def)
  then show ?thesis by auto
qed

lemma dec_string_head: "\<exists>d cs. d < 10 \<and> dec_string n = dec_digit d # cs"
proof (induction n rule: dec_string.induct)
  case (1 n)
  show ?case
  proof (cases "n < 10")
    case True
    then show ?thesis by (subst dec_string.simps) auto
  next
    case False
    then show ?thesis using 1 by (subst dec_string.simps) auto
  qed
qed

lemma parse_u128_dec_string: "parse_u128 (dec_string (unat b)) = Some b"
proof -
  obtain d cs where d: "d < 10" and s: "dec_string (unat b) = dec_digit d # cs"
    using dec_string_head by blast
  have "parse_u128_digits 0 (dec_string (unat b)) = Some (unat b)"
    using unat_lt_len [of b] by (intro parse_digits_dec_string) simp
  then show ?thesis
    using dec_digit_not_sign [OF d] by (simp add: parse_u128_def s)
qed

lemma bix_serde_roundtrip: "bix_deserialize (bix_serialize b) = Inr b"
  by (simp add: bix_serialize_def parse_u128_dec_string)

section \<open>The elementary encoders are codes\<close>

lemma of_nat_u64_eq:
  "m < 2 ^ 64 \<Longrightarrow> n < 2 ^ 64 \<Longrightarrow> (of_nat m :: u64) = of_nat n \<longleftrightarrow> m = n"
  by (simp add: word_of_nat_eq_iff take_bit_nat_eq_self)

interpretation hash_code: fixed_width put_hash 32
  by unfold_locales (auto simp: put_hash_def arr_eq_iff)

interpretation address_code: fixed_width put_address 20
  by unfold_locales (auto simp: put_address_def arr_eq_iff)

interpretation u64_code: fixed_width put_u64 8
  by unfold_locales (auto simp: put_u64_def be64.enc_eq_iff)

interpretation u128_code: fixed_width put_u128 16
  by unfold_locales (auto simp: put_u128_def be128.enc_eq_iff)

interpretation bool_code: fixed_width put_bool 1
  by unfold_locales (auto simp: put_bool_def split: if_splits)

text \<open>A vector of the program has fewer than \<open>2 ^ 64\<close> elements.\<close>

abbreviation vec_len :: "'a list \<Rightarrow> bool" where
  "vec_len xs \<equiv> length xs < 2 ^ 64"

lemma put_len_eq: "vec_len xs \<Longrightarrow> vec_len ys \<Longrightarrow>
    put_u64 (of_nat (length xs)) @ r = put_u64 (of_nat (length ys)) @ s \<longleftrightarrow>
    length xs = length ys \<and> r = s"
  by (simp add: u64_code.append_eq_iff of_nat_u64_eq)

interpretation bytes_code: prefix_code put_bytes vec_len
  by unfold_locales (auto simp: put_bytes_def put_len_eq append_eq_append_conv)

lemmas code_iffs =
  hash_code.append_eq_iff address_code.append_eq_iff u64_code.append_eq_iff
  u128_code.append_eq_iff bool_code.append_eq_iff bytes_code.append_eq_iff put_len_eq
  hash_code.enc_eq_iff address_code.enc_eq_iff u64_code.enc_eq_iff
  u128_code.enc_eq_iff bool_code.enc_eq_iff bytes_code.enc_eq_iff

text \<open>A counted list of encodings is a code.\<close>

lemma counted_list_cancel:
  assumes "prefix_code enc ok" and "vec_len xs" "vec_len ys" "list_all ok xs" "list_all ok ys"
    and "put_u64 (of_nat (length xs)) @ concat (map enc xs) @ r =
         put_u64 (of_nat (length ys)) @ concat (map enc ys) @ s"
  shows "xs = ys \<and> r = s"
proof -
  have "length xs = length ys" "concat (map enc xs) @ r = concat (map enc ys) @ s"
    using assms(2,3,6) by (auto simp: put_len_eq)
  then show ?thesis using prefix_code.concat_cancel [OF assms(1)] assms(4,5) by blast
qed

lemma list_all_True: "list_all (\<lambda>_. True) xs"
  by (simp add: list_all_iff)

section \<open>Canonical transaction bytes\<close>

definition item_sized :: "transaction_access_list_item \<Rightarrow> bool" where
  "item_sized i \<longleftrightarrow> vec_len (al_storage_keys i)"

definition tx_sized :: "transaction \<Rightarrow> bool" where
  "tx_sized t \<longleftrightarrow> vec_len (tx_payload t) \<and> vec_len (tx_access_list t) \<and>
     list_all item_sized (tx_access_list t)"

interpretation item_code: prefix_code put_access_list_item item_sized
proof
  fix x y :: transaction_access_list_item and r s
  assume a: "item_sized x" "item_sized y"
    and eq: "put_access_list_item x @ r = put_access_list_item y @ s"
  have "al_address x = al_address y"
    and l: "put_u64 (of_nat (length (al_storage_keys x))) @ concat (map put_hash (al_storage_keys x)) @ r
       = put_u64 (of_nat (length (al_storage_keys y))) @ concat (map put_hash (al_storage_keys y)) @ s"
    using eq by (auto simp: put_access_list_item_def code_iffs)
  moreover have "al_storage_keys x = al_storage_keys y \<and> r = s"
    using counted_list_cancel [OF hash_code.prefix_code_axioms _ _ list_all_True list_all_True l] a
    by (simp add: item_sized_def)
  ultimately show "x = y \<and> r = s" by simp
qed

text \<open>
  What the encoding keeps of a transaction: it drops the external hash, and of a transaction
  without access list it keeps only whether the type is 1.
\<close>

definition canonical_view :: "transaction \<Rightarrow> transaction" where
  "canonical_view t = t\<lparr>tx_external_hash := None,
     tx_type := if tx_access_list t \<noteq> [] \<or> tx_type t = 1 then tx_type t else 2\<rparr>"

definition opt_address_bytes :: "address option \<Rightarrow> bytes" where
  "opt_address_bytes a = (case a of Some a \<Rightarrow> 1 # put_address a | None \<Rightarrow> [0])"

definition signature_bytes :: "transaction_signature option \<Rightarrow> bytes" where
  "signature_bytes g = (case g of
     Some sg \<Rightarrow> 1 # put_bool (sig_y_parity sg) @ put_hash (sig_r sg) @ put_hash (sig_s sg)
   | None \<Rightarrow> [0])"

definition access_bytes :: "transaction \<Rightarrow> bytes" where
  "access_bytes t = (if tx_access_list t \<noteq> [] \<or> tx_type t = 1
      then 0xa5 # tx_type t # put_u64 (of_nat (length (tx_access_list t))) @
           concat (map put_access_list_item (tx_access_list t))
      else [])"

lemma opt_address_cancel:
  "opt_address_bytes a @ r = opt_address_bytes b @ s \<longleftrightarrow> a = b \<and> r = s"
  by (auto simp: opt_address_bytes_def code_iffs split: option.splits)

lemma signature_cancel:
  "signature_bytes a @ r = signature_bytes b @ s \<longleftrightarrow> a = b \<and> r = s"
  by (auto simp: signature_bytes_def code_iffs split: option.splits)

lemma signature_bytes_tag: "0xa5 # xs \<noteq> signature_bytes g @ s" "signature_bytes g @ s \<noteq> 0xa5 # xs"
  by (auto simp: signature_bytes_def split: option.splits)

lemma access_cancel:
  assumes "tx_sized a" "tx_sized b"
    and "access_bytes a @ signature_bytes g @ r = access_bytes b @ signature_bytes h @ s"
  shows "tx_access_list a = tx_access_list b \<and> tx_type (canonical_view a) = tx_type (canonical_view b)
    \<and> signature_bytes g @ r = signature_bytes h @ s"
proof -
  let ?p = "\<lambda>t. tx_access_list t \<noteq> [] \<or> tx_type t = 1"
  have pq: "?p a \<longleftrightarrow> ?p b"
    using assms(3) signature_bytes_tag by (auto simp: access_bytes_def split: if_splits)
  show ?thesis
  proof (cases "?p a")
    case True
    with pq assms(3) have t: "tx_type a = tx_type b"
      and l: "put_u64 (of_nat (length (tx_access_list a))) @
           concat (map put_access_list_item (tx_access_list a)) @ signature_bytes g @ r =
         put_u64 (of_nat (length (tx_access_list b))) @
           concat (map put_access_list_item (tx_access_list b)) @ signature_bytes h @ s"
      by (auto simp: access_bytes_def)
    then have "tx_access_list a = tx_access_list b \<and> signature_bytes g @ r = signature_bytes h @ s"
      using counted_list_cancel [OF item_code.prefix_code_axioms _ _ _ _ l] assms(1,2)
      by (simp add: tx_sized_def)
    then show ?thesis using t by (simp add: canonical_view_def)
  next
    case False
    then show ?thesis using pq assms(3) by (simp add: access_bytes_def canonical_view_def)
  qed
qed

lemma transaction_bytes_split:
  "transaction_canonical_bytes t =
     put_u64 (tx_chain_id t) @ put_u64 (tx_nonce t) @ put_address (tx_from t) @
     opt_address_bytes (tx_to t) @
     put_u128 (tx_value t) @ put_u64 (tx_gas_limit t) @ put_u128 (tx_max_fee_per_gas t) @
     put_u128 (tx_max_priority_fee_per_gas t) @ put_bytes (tx_payload t) @
     access_bytes t @ signature_bytes (tx_signature t)"
  by (simp add: transaction_canonical_bytes_def opt_address_bytes_def access_bytes_def
      signature_bytes_def)

lemma transaction_bytes_cancel:
  assumes "tx_sized a" "tx_sized b"
    and "transaction_canonical_bytes a @ r = transaction_canonical_bytes b @ s"
  shows "canonical_view a = canonical_view b \<and> r = s"
proof -
  have vl: "vec_len (tx_payload a)" "vec_len (tx_payload b)"
    using assms(1,2) by (auto simp: tx_sized_def)
  have eqs: "tx_chain_id a = tx_chain_id b" "tx_nonce a = tx_nonce b" "tx_from a = tx_from b"
      "tx_to a = tx_to b" "tx_value a = tx_value b" "tx_gas_limit a = tx_gas_limit b"
      "tx_max_fee_per_gas a = tx_max_fee_per_gas b"
      "tx_max_priority_fee_per_gas a = tx_max_priority_fee_per_gas b"
      "tx_payload a = tx_payload b"
    and rest: "access_bytes a @ signature_bytes (tx_signature a) @ r =
      access_bytes b @ signature_bytes (tx_signature b) @ s"
    using assms(3) vl by (simp_all add: transaction_bytes_split code_iffs opt_address_cancel)
  have "tx_access_list a = tx_access_list b"
    "tx_type (canonical_view a) = tx_type (canonical_view b)"
    "tx_signature a = tx_signature b" "r = s"
    using access_cancel [OF assms(1,2) rest] by (auto simp: signature_cancel)
  then show ?thesis using eqs by (simp add: canonical_view_def)
qed

lemma canonical_view_bytes: "transaction_canonical_bytes (canonical_view t) = transaction_canonical_bytes t"
  by (simp add: transaction_canonical_bytes_def canonical_view_def)

lemma transaction_bytes_eq_iff:
  assumes "tx_sized a" "tx_sized b"
  shows "transaction_canonical_bytes a = transaction_canonical_bytes b \<longleftrightarrow>
    canonical_view a = canonical_view b"
  using transaction_bytes_cancel [OF assms, of "[]" "[]"] by (auto simp: canonical_view_bytes
      dest: arg_cong [where f = transaction_canonical_bytes])

section \<open>Headers, receipts and roots\<close>

definition header_sized :: "block_header \<Rightarrow> bool" where
  "header_sized h \<longleftrightarrow> vec_len (h_pow_algorithm h)"

interpretation header_code: prefix_code header_canonical_bytes header_sized
proof
  fix x y r s
  assume "header_sized x" "header_sized y"
    and eq: "header_canonical_bytes x @ r = header_canonical_bytes y @ s"
  then have v: "vec_len (as_bytes (h_pow_algorithm x))" "vec_len (as_bytes (h_pow_algorithm y))"
    by (auto simp: header_sized_def)
  show "x = y \<and> r = s"
    using eq v by (simp add: header_canonical_bytes_def header_common_bytes_def code_iffs as_bytes_inj)
qed

text \<open>The proof-of-work preimage covers every header field but the mix hash.\<close>

lemma pow_preimage_eq_iff:
  assumes "header_sized x" "header_sized y"
  shows "pow_preimage_bytes x = pow_preimage_bytes y \<longleftrightarrow>
    x\<lparr>h_mix_hash := m\<rparr> = y\<lparr>h_mix_hash := m\<rparr>"
proof -
  have v: "vec_len (as_bytes (h_pow_algorithm x))" "vec_len (as_bytes (h_pow_algorithm y))"
    using assms by (auto simp: header_sized_def)
  show ?thesis
    using v by (cases x; cases y) (auto simp: pow_preimage_bytes_def header_common_bytes_def
        code_iffs as_bytes_inj)
qed

definition log_sized :: "log_entry \<Rightarrow> bool" where
  "log_sized l \<longleftrightarrow> vec_len (log_topics l) \<and> vec_len (log_data l) \<and>
     vec_len (log_entry_canonical_bytes l)"

interpretation log_code: prefix_code log_entry_canonical_bytes log_sized
proof
  fix x y r s
  assume a: "log_sized x" "log_sized y"
    and eq: "log_entry_canonical_bytes x @ r = log_entry_canonical_bytes y @ s"
  have "log_address x = log_address y"
    and l: "put_u64 (of_nat (length (log_topics x))) @ concat (map put_hash (log_topics x)) @
        put_bytes (log_data x) @ r =
      put_u64 (of_nat (length (log_topics y))) @ concat (map put_hash (log_topics y)) @
        put_bytes (log_data y) @ s"
    using eq by (auto simp: log_entry_canonical_bytes_def arr_bytes_inject)
  moreover have "log_topics x = log_topics y \<and> put_bytes (log_data x) @ r = put_bytes (log_data y) @ s"
    using counted_list_cancel [OF hash_code.prefix_code_axioms _ _ list_all_True list_all_True l] a
    by (simp add: log_sized_def)
  ultimately show "x = y \<and> r = s" using a by (simp add: log_sized_def code_iffs)
qed

definition receipt_sized :: "receipt \<Rightarrow> bool" where
  "receipt_sized r \<longleftrightarrow> vec_len (rc_logs r) \<and> list_all log_sized (rc_logs r)"

interpretation log_item_code: prefix_code "\<lambda>l. put_bytes (log_entry_canonical_bytes l)" log_sized
proof
  fix x y r s
  assume a: "log_sized x" "log_sized y"
    and "put_bytes (log_entry_canonical_bytes x) @ r = put_bytes (log_entry_canonical_bytes y) @ s"
  then have "log_entry_canonical_bytes x = log_entry_canonical_bytes y \<and> r = s"
    by (intro bytes_code.cancel) (auto simp: log_sized_def)
  then show "x = y \<and> r = s" using a by (simp add: log_code.enc_eq_iff)
qed

definition log_list_bytes :: "log_entry list \<Rightarrow> bytes" where
  "log_list_bytes ls = (if ls \<noteq> []
    then put_u64 (of_nat (length ls)) @ concat (map (\<lambda>l. put_bytes (log_entry_canonical_bytes l)) ls)
    else [])"

lemma log_list_bytes_inj:
  assumes "vec_len xs" "vec_len ys" "list_all log_sized xs" "list_all log_sized ys"
    and "log_list_bytes xs = log_list_bytes ys"
  shows "xs = ys"
proof (cases "xs = [] \<or> ys = []")
  case True
  have "put_u64 n @ zs \<noteq> []" for n zs using u64_code.width [of n] by auto
  then show ?thesis using True assms(5) by (auto simp: log_list_bytes_def split: if_splits)
next
  case False
  then show ?thesis
    using counted_list_cancel [OF log_item_code.prefix_code_axioms assms(1-4), of "[]" "[]"] assms(5)
    by (simp add: log_list_bytes_def)
qed

lemma receipt_bytes_split:
  "receipt_canonical_bytes r =
     put_hash (rc_transaction_hash r) @ put_bool (rc_success r) @ put_u64 (rc_gas_used r) @
     put_hash (rc_logs_root r) @ log_list_bytes (rc_logs r)"
  by (simp add: receipt_canonical_bytes_def log_list_bytes_def)

lemma receipt_bytes_eq_iff:
  assumes "receipt_sized a" "receipt_sized b"
  shows "receipt_canonical_bytes a = receipt_canonical_bytes b \<longleftrightarrow> a = b"
  using assms log_list_bytes_inj [of "rc_logs a" "rc_logs b"]
  by (auto simp: receipt_bytes_split code_iffs receipt_sized_def)

lemma merkle_preimage_inj:
  assumes "vec_len xs" "vec_len ys" "list_all vec_len xs" "list_all vec_len ys"
    and "merkle_preimage xs = merkle_preimage ys"
  shows "xs = ys"
proof -
  have "put_u64 (of_nat (length xs)) = put_u64 (of_nat (length ys))"
    and c: "concat (map put_bytes xs) = concat (map put_bytes ys)"
    using assms(5) unfolding merkle_preimage_def
    by (auto simp: append_eq_append_conv u64_code.width)
  then have "length xs = length ys"
    using assms(1,2) by (simp add: u64_code.enc_eq_iff of_nat_u64_eq)
  then show ?thesis
    using bytes_code.concat_cancel [of xs ys "[]" "[]"] assms(3,4) c by simp
qed

text \<open>
  Two item lists with the same root are equal, or the root function collides on them: the
  preimages differ and hash to the same value, or the preimage of one hashes to the zero hash
  that stands for the empty list.
\<close>

lemma merkle_root_binding:
  assumes "vec_len xs" "vec_len ys" "list_all vec_len xs" "list_all vec_len ys"
    and "merkle_like_root e xs = merkle_like_root e ys"
    and "xs \<noteq> ys"
  shows "(merkle_preimage xs \<noteq> merkle_preimage ys \<and>
      x_sha256 e (merkle_preimage xs) = x_sha256 e (merkle_preimage ys)) \<or>
    (xs = [] \<and> x_sha256 e (merkle_preimage ys) = ZERO_HASH) \<or>
    (ys = [] \<and> x_sha256 e (merkle_preimage xs) = ZERO_HASH)"
  using assms merkle_preimage_inj [OF assms(1-4)]
  by (auto simp: merkle_like_root_def split: if_splits)

lemma length_header_bytes:
  "length (header_canonical_bytes h) = 304 + length (h_pow_algorithm h)"
  by (simp add: header_canonical_bytes_def header_common_bytes_def put_bytes_def u64_code.width
      u128_code.width hash_code.width)

end
