(* ===== verification/Demo.thy ===== *)
theory Demo
  imports Canonical
begin

text \<open>
  A concrete instance of the third-party functions, for evaluating the model: hexadecimal coding
  as crate hex documents it, and simple stand-ins for the digests, the proof-of-work hash and the
  signature scheme.  Nothing but concrete evaluations uses it.
\<close>

definition nibble_char :: "nat \<Rightarrow> char" where
  "nibble_char n = char_of (if n < 10 then 48 + n else 87 + n)"

definition nibble_val :: "char \<Rightarrow> nat option" where
  "nibble_val c = (let n = of_char c in
     if 48 \<le> n \<and> n \<le> 57 then Some (n - 48)
     else if 97 \<le> n \<and> n \<le> 102 then Some (n - 87)
     else if 65 \<le> n \<and> n \<le> 70 then Some (n - 55) else None)"

definition hex_enc :: "bytes \<Rightarrow> string" where
  "hex_enc bs = concat (map (\<lambda>b. [nibble_char (unat b div 16), nibble_char (unat b mod 16)]) bs)"

fun hex_dec :: "string \<Rightarrow> bytes option" where
  "hex_dec [] = Some []"
| "hex_dec [c] = None"
| "hex_dec (c # d # cs) =
     (case (nibble_val c, nibble_val d, hex_dec cs) of
        (Some a, Some b, Some bs) \<Rightarrow> Some (of_nat (a * 16 + b) # bs)
      | _ \<Rightarrow> None)"

definition demo_digest :: "bytes \<Rightarrow> hash256" where
  "demo_digest bs = Arr (take 32 (to_be_bytes (of_nat (length bs) :: u64) @ bs @ replicate 32 0))"

definition demo_ext :: ext where
  "demo_ext = \<lparr>x_native_randomx = False, x_hex_encode = hex_enc, x_hex_decode = hex_dec,
     x_sha256 = demo_digest, x_blake3 = demo_digest, x_keccak256 = demo_digest,
     x_randomx = (\<lambda>key bs. demo_digest (key @ bs)), x_high_s = (\<lambda>_ _ _. False),
     x_recover = (\<lambda>_ _ _ _. Some (arr_rep 7))\<rparr>"

lemma nibble_roundtrip: "n < 16 \<Longrightarrow> nibble_val (nibble_char n) = Some n"
  by (simp add: nibble_val_def nibble_char_def Let_def)

lemma hex_dec_enc: "hex_dec (hex_enc bs) = Some bs"
proof (induction bs)
  case Nil
  then show ?case by (simp add: hex_enc_def)
next
  case (Cons b bs)
  have "unat b < 256" using unat_lt_len [of b] by simp
  then have "nibble_val (nibble_char (unat b div 16)) = Some (unat b div 16)"
    "nibble_val (nibble_char (unat b mod 16)) = Some (unat b mod 16)"
    by (simp_all add: nibble_roundtrip less_mult_imp_div_less)
  moreover have "(of_nat (unat b div 16 * 16 + unat b mod 16) :: u8) = b"
    unfolding div_mult_mod_eq by simp
  ultimately show ?case using Cons by (simp add: hex_enc_def)
qed

lemma nibble_not_x: "n < 16 \<Longrightarrow> nibble_char n \<noteq> CHR ''x''"
proof
  assume "n < 16" "nibble_char n = CHR ''x''"
  then have "nibble_val (CHR ''x'') = Some n" using nibble_roundtrip [of n] by simp
  moreover have "nibble_val (CHR ''x'') = None" by (simp add: nibble_val_def Let_def)
  ultimately show False by simp
qed

lemma demo_hex_spec: "hex_spec demo_ext"
proof -
  have "unat b div 16 < 16" for b :: u8
    using unat_lt_len [of b] by (simp add: less_mult_imp_div_less)
  then have "nibble_char (unat b div 16) \<noteq> CHR ''x''" "nibble_char (unat b mod 16) \<noteq> CHR ''x''" for b :: u8
    by (simp_all add: nibble_not_x)
  then have "CHR ''x'' \<notin> set (hex_enc bs)" for bs
    by (induction bs) (simp_all add: hex_enc_def eq_commute [of "CHR ''x''"])
  then show ?thesis by (simp add: hex_spec_def demo_ext_def hex_dec_enc)
qed

definition demo_signature :: transaction_signature where
  "demo_signature = \<lparr>sig_y_parity = False, sig_r = arr_rep 1, sig_s = arr_rep 2\<rparr>"

definition demo_tx :: transaction where
  "demo_tx = \<lparr>tx_chain_id = 707070, tx_type = 2, tx_nonce = 0, tx_from = arr_rep 7,
     tx_to = Some (arr_rep 9), tx_value = 5, tx_gas_limit = 21000, tx_max_fee_per_gas = 2000000000,
     tx_max_priority_fee_per_gas = 1000000, tx_payload = [], tx_access_list = [],
     tx_signature = Some demo_signature, tx_external_hash = None\<rparr>"

end
