(* ===== verification/Encoding_Props.thy ===== *)
theory Encoding_Props
  imports Demo
begin

text \<open>
  What the encodings and digests of \<open>blq-primitives\<close> commit to.  SHA-256 is a parameter, so a
  commitment is stated as: equal digests of different data exhibit a collision of SHA-256 on the
  two byte strings that were hashed.
\<close>

definition sha_collision :: "ext \<Rightarrow> bytes \<Rightarrow> bytes \<Rightarrow> bool" where
  "sha_collision e a b \<longleftrightarrow> a \<noteq> b \<and> x_sha256 e a = x_sha256 e b"

text \<open>A root that collides: with another list, or with the constant of the empty list.\<close>

definition root_collision :: "ext \<Rightarrow> bytes list \<Rightarrow> bytes list \<Rightarrow> bool" where
  "root_collision e xs ys \<longleftrightarrow> sha_collision e (merkle_preimage xs) (merkle_preimage ys) \<or>
     (xs = [] \<and> x_sha256 e (merkle_preimage ys) = ZERO_HASH) \<or>
     (ys = [] \<and> x_sha256 e (merkle_preimage xs) = ZERO_HASH)"

lemma merkle_root_eqD:
  assumes "vec_len xs" "vec_len ys" "list_all vec_len xs" "list_all vec_len ys"
    and "merkle_like_root e xs = merkle_like_root e ys"
  shows "xs = ys \<or> root_collision e xs ys"
  using merkle_root_binding [OF assms] by (auto simp: root_collision_def sha_collision_def)

definition txs_sized :: "transaction list \<Rightarrow> bool" where
  "txs_sized ts \<longleftrightarrow> vec_len ts \<and> list_all (\<lambda>t. tx_sized t \<and> vec_len (transaction_canonical_bytes t)) ts"

definition receipts_sized :: "receipt list \<Rightarrow> bool" where
  "receipts_sized rs \<longleftrightarrow> vec_len rs \<and> list_all (\<lambda>r. receipt_sized r \<and> vec_len (receipt_canonical_bytes r)) rs"

lemma map_eq_onD:
  assumes "list_all p xs" "list_all p ys" "map f xs = map f ys"
    and "\<And>x y. p x \<Longrightarrow> p y \<Longrightarrow> f x = f y \<Longrightarrow> g x = g y"
  shows "map g xs = map g ys"
proof -
  have "length xs = length ys" using assms(3) map_eq_imp_length_eq by blast
  then show ?thesis
    using assms(1-3)
  proof (induction xs ys rule: list_induct2)
    case Nil
    then show ?case by simp
  next
    case (Cons x xs y ys)
    then show ?case using assms(4) [of x y] by simp
  qed
qed

lemma transactions_root_eqD:
  assumes "txs_sized xs" "txs_sized ys" "transactions_root e xs = transactions_root e ys"
  shows "map canonical_view xs = map canonical_view ys \<or>
    root_collision e (map transaction_canonical_bytes xs) (map transaction_canonical_bytes ys)"
proof -
  let ?f = "map transaction_canonical_bytes"
  have "list_all vec_len (?f xs)" "list_all vec_len (?f ys)"
    using assms(1,2) by (auto simp: txs_sized_def list_all_iff)
  then have "?f xs = ?f ys \<or> root_collision e (?f xs) (?f ys)"
    using assms by (intro merkle_root_eqD) (auto simp: txs_sized_def transactions_root_def)
  moreover have "map canonical_view xs = map canonical_view ys" if "?f xs = ?f ys"
    using assms(1,2) map_eq_onD [OF _ _ that, of "\<lambda>t. tx_sized t \<and> vec_len (transaction_canonical_bytes t)"
      canonical_view] transaction_bytes_eq_iff by (simp add: txs_sized_def)
  ultimately show ?thesis by blast
qed

text \<open>
  C24. The transactions root of a block commits to every transaction up to the canonical view:
  two lists with the same root agree on every field but the external hash and the
  type of transactions without access list, or SHA-256 collides.
\<close>

theorem transactions_root_binding:
  assumes "txs_sized xs" "txs_sized ys" "transactions_root e xs = transactions_root e ys"
  shows "map canonical_view xs = map canonical_view ys \<or>
    root_collision e (map transaction_canonical_bytes xs) (map transaction_canonical_bytes ys)"
  by (rule transactions_root_eqD [OF assms])

lemma demo_tx_sized: "txs_sized [demo_tx]"
proof -
  have "transaction_canonical_bytes demo_tx = concat [put_u64 (tx_chain_id demo_tx),
     put_u64 (tx_nonce demo_tx), put_address (tx_from demo_tx), 1 # put_address (arr_rep 9),
     put_u128 (tx_value demo_tx), put_u64 (tx_gas_limit demo_tx),
     put_u128 (tx_max_fee_per_gas demo_tx), put_u128 (tx_max_priority_fee_per_gas demo_tx),
     put_u64 0, 1 # put_bool False, put_hash (arr_rep 1), put_hash (arr_rep 2)]"
    by (simp add: transaction_canonical_bytes_def demo_tx_def demo_signature_def put_bytes_def)
  then have "vec_len (transaction_canonical_bytes demo_tx)"
    by (simp add: u64_code.width u128_code.width hash_code.width address_code.width bool_code.width)
  then show ?thesis by (simp add: txs_sized_def tx_sized_def demo_tx_def)
qed

theorem transactions_root_binding_witness:
  "map canonical_view [demo_tx] = map canonical_view [demo_tx\<lparr>tx_external_hash := Some (arr_rep 3)\<rparr>] \<or>
    root_collision demo_ext (map transaction_canonical_bytes [demo_tx])
      (map transaction_canonical_bytes [demo_tx\<lparr>tx_external_hash := Some (arr_rep 3)\<rparr>])"
proof (rule transactions_root_binding [OF demo_tx_sized])
  have b: "transaction_canonical_bytes (demo_tx\<lparr>tx_external_hash := Some (arr_rep 3)\<rparr>) =
      transaction_canonical_bytes demo_tx"
    by (simp add: transaction_canonical_bytes_def)
  show "txs_sized [demo_tx\<lparr>tx_external_hash := Some (arr_rep 3)\<rparr>]"
    using demo_tx_sized by (simp add: txs_sized_def tx_sized_def b)
  show "transactions_root demo_ext [demo_tx] =
      transactions_root demo_ext [demo_tx\<lparr>tx_external_hash := Some (arr_rep 3)\<rparr>]"
    by (simp add: transactions_root_def b)
qed

lemma receipts_root_eqD:
  assumes "receipts_sized xs" "receipts_sized ys" "receipts_root e xs = receipts_root e ys"
  shows "xs = ys \<or> root_collision e (map receipt_canonical_bytes xs) (map receipt_canonical_bytes ys)"
proof -
  let ?f = "map receipt_canonical_bytes"
  have "list_all vec_len (?f xs)" "list_all vec_len (?f ys)"
    using assms(1,2) by (auto simp: receipts_sized_def list_all_iff)
  then have "?f xs = ?f ys \<or> root_collision e (?f xs) (?f ys)"
    using assms by (intro merkle_root_eqD) (auto simp: receipts_sized_def receipts_root_def)
  moreover have "map id xs = map id ys" if "?f xs = ?f ys"
    using assms(1,2) map_eq_onD [OF _ _ that, of "\<lambda>r. receipt_sized r \<and> vec_len (receipt_canonical_bytes r)"
      id] receipt_bytes_eq_iff by (simp add: receipts_sized_def)
  ultimately show ?thesis by auto
qed

text \<open>
  The receipts root commits to every receipt with all of its logs, or SHA-256 collides.
\<close>

theorem receipts_root_binding:
  assumes "receipts_sized xs" "receipts_sized ys" "receipts_root e xs = receipts_root e ys"
  shows "xs = ys \<or> root_collision e (map receipt_canonical_bytes xs) (map receipt_canonical_bytes ys)"
  by (rule receipts_root_eqD [OF assms])

definition demo_receipt :: receipt where
  "demo_receipt = \<lparr>rc_transaction_hash = arr_rep 3, rc_success = True, rc_gas_used = 21000,
     rc_logs_root = ZERO_HASH, rc_logs = []\<rparr>"

lemma demo_receipt_sized: "receipts_sized [demo_receipt\<lparr>rc_gas_used := g\<rparr>]"
  by (simp add: receipts_sized_def receipt_sized_def receipt_canonical_bytes_def demo_receipt_def
      u64_code.width hash_code.width bool_code.width)

theorem receipts_root_binding_witness:
  "root_collision (demo_ext\<lparr>x_sha256 := \<lambda>_. arr_rep 1\<rparr>)
     (map receipt_canonical_bytes [demo_receipt\<lparr>rc_gas_used := 1\<rparr>])
     (map receipt_canonical_bytes [demo_receipt\<lparr>rc_gas_used := 2\<rparr>])"
proof -
  have "receipts_root (demo_ext\<lparr>x_sha256 := \<lambda>_. arr_rep 1\<rparr>) [demo_receipt\<lparr>rc_gas_used := 1\<rparr>] =
      receipts_root (demo_ext\<lparr>x_sha256 := \<lambda>_. arr_rep 1\<rparr>) [demo_receipt\<lparr>rc_gas_used := 2\<rparr>]"
    by (simp add: receipts_root_def merkle_like_root_def)
  from receipts_root_binding [OF demo_receipt_sized demo_receipt_sized this]
  show ?thesis by (simp add: demo_receipt_def)
qed

text \<open>
  C25. The header hash commits to every field of the header, and the proof-of-work preimage to
  every field but the mix hash that the proof of work produces.
\<close>

theorem header_commitments:
  assumes "header_sized x" "header_sized y"
  shows "(header_hash e x = header_hash e y \<longrightarrow>
      x = y \<or> sha_collision e (header_canonical_bytes x) (header_canonical_bytes y)) \<and>
    (pow_preimage_bytes x = pow_preimage_bytes y \<longleftrightarrow>
      x\<lparr>h_mix_hash := ZERO_HASH\<rparr> = y\<lparr>h_mix_hash := ZERO_HASH\<rparr>)"
  using assms pow_preimage_eq_iff [OF assms] header_code.enc_eq_iff [OF assms]
  by (auto simp: header_hash_def hash_bytes_def sha_collision_def)

theorem header_commitments_witness:
  "pow_preimage_bytes (genesis_header demo_ext) \<noteq>
     pow_preimage_bytes ((genesis_header demo_ext)\<lparr>h_nonce := 1\<rparr>)"
proof -
  have "header_sized (genesis_header demo_ext)" "header_sized ((genesis_header demo_ext)\<lparr>h_nonce := 1\<rparr>)"
    by (simp_all add: header_sized_def genesis_header_def DEFAULT_POW_ALGORITHM_def demo_ext_def)
  from header_commitments [OF this, of demo_ext] show ?thesis by (simp add: genesis_header_def)
qed

text \<open>
  The text forms the chain's data is stored and sent in lose nothing: an amount survives
  its decimal form, an address its hexadecimal form and its 32-byte word, and the beneficiary
  parser accepts both the address form and the word form of a beneficiary and never reaches its
  unreachable arm.
\<close>

theorem text_forms_roundtrip:
  assumes "hex_spec e"
  shows "bix_deserialize (bix_serialize b) = Inr b \<and>
    address_deserialize e (address_serialize e a) = Inr a \<and>
    hash_from_hex e (hash_to_hex e h) = Inr h \<and>
    parse_beneficiary e (address_to_hex e a) = Some (Inr (address_to_word a)) \<and>
    parse_beneficiary e (hash_to_hex e h) = Some (Inr h) \<and>
    beneficiary_address (hdr\<lparr>h_beneficiary := address_to_word a\<rparr>) = a \<and>
    parse_beneficiary e v \<noteq> None"
  using assms
  by (simp add: bix_serde_roundtrip address_serialize_def address_hex_roundtrip
      hash_hex_roundtrip parse_beneficiary_address parse_beneficiary_hash
      parse_beneficiary_total beneficiary_address_def address_word_roundtrip)

theorem text_forms_roundtrip_witness:
  "parse_beneficiary demo_ext (address_to_hex demo_ext (arr_rep 5)) =
     Some (Inr (address_to_word (arr_rep 5)))"
  using text_forms_roundtrip [OF demo_hex_spec, of 0 "arr_rep 5" ZERO_HASH "genesis_header demo_ext" "[]"]
  by blast

end
