(* ===== verification/Rlp.thy ===== *)
theory Rlp
  imports Canonical
begin

text \<open>
  Recursive length prefix coding.  The encoders occur twice in the sources, in
  \<open>blq-primitives\<close> (functions \<open>eip1559_rlp_...\<close>) and in \<open>blq-node\<close> (functions
  \<open>rlp_encode_...\<close>); the decoders are in \<open>blq-node/src/main.rs\<close>.  A decoder advances a
  slice; the model takes the slice and returns the value with the rest of the slice.
\<close>

datatype raw_error =
    UnexpectedEnd | ShortString | ShortLongString | ShortList | ShortLongList
  | InvalidRlpLength | RlpLengthOverflow | ExpectedBytes | IntTooLong | NonCanonicalInt
  | IntOutOfRange | ScalarTooLong | BadRecipient | TrailingBytes | NotAList
  | FieldTrailingBytes | MissingSignatureFields | AccessListNotList | AccessListTooLargeRaw
  | BadAccessAddress | BadStorageKeys | BadStorageKey | PayloadTooLargeRaw | BadParity
  | TrailingFields | WrongChainId | HighS | NoSigner | UnprotectedLegacy | BadLegacyV
  | BadLegacyRecipient | UnsupportedRawType | RawHex | NoSignature | SenderMismatch
  | ExternalHashMismatch | UnsupportedType | ExpectedType2

section \<open>Encoders of blq-node\<close>

text \<open>The loop that collects the bytes of a length, least significant first.\<close>

fun len_bytes_le :: "nat \<Rightarrow> bytes" where
  "len_bytes_le v = (if v = 0 then [] else of_nat (v mod 256) # len_bytes_le (v div 256))"

declare len_bytes_le.simps [simp del]

definition rlp_encode_header :: "u8 \<Rightarrow> nat \<Rightarrow> bytes" where
  "rlp_encode_header offset len =
     (if len < 56 then [offset + of_nat len]
      else (let len_bytes = rev (len_bytes_le len)
            in (offset + 55 + of_nat (length len_bytes)) # len_bytes))"

definition rlp_encode_list_payload :: "bytes \<Rightarrow> bytes" where
  "rlp_encode_list_payload payload = rlp_encode_header 0xc0 (length payload) @ payload"

definition encode_typed_rlp :: "u8 \<Rightarrow> bytes \<Rightarrow> bytes" where
  "encode_typed_rlp ty payload = ty # rlp_encode_list_payload payload"

definition encode_rlp_list :: "bytes list \<Rightarrow> bytes" where
  "encode_rlp_list fs = rlp_encode_list_payload (concat fs)"

definition rlp_encode_bytes :: "bytes \<Rightarrow> bytes" where
  "rlp_encode_bytes bs =
     (if length bs = 1 \<and> hd bs < 0x80 then [hd bs]
      else rlp_encode_header 0x80 (length bs) @ bs)"

text \<open>\<open>iter().position(..)\<close>: the index of the first element that satisfies a predicate.\<close>

fun position :: "('a \<Rightarrow> bool) \<Rightarrow> 'a list \<Rightarrow> nat option" where
  "position p [] = None"
| "position p (x # xs) = (if p x then Some 0 else map_option Suc (position p xs))"

definition unwrap_or :: "'a option \<Rightarrow> 'a \<Rightarrow> 'a" where
  "unwrap_or m d = (case m of Some x \<Rightarrow> x | None \<Rightarrow> d)"

definition rlp_encode_u64 :: "u64 \<Rightarrow> bytes" where
  "rlp_encode_u64 v =
     (if v = 0 then rlp_encode_bytes []
      else rlp_encode_bytes
        (drop (unwrap_or (position (\<lambda>b. b \<noteq> 0) (to_be_bytes v)) 7) (to_be_bytes v)))"

definition rlp_encode_u128 :: "u128 \<Rightarrow> bytes" where
  "rlp_encode_u128 v =
     (if v = 0 then rlp_encode_bytes []
      else rlp_encode_bytes
        (drop (unwrap_or (position (\<lambda>b. b \<noteq> 0) (to_be_bytes v)) 15) (to_be_bytes v)))"

definition rlp_encode_word :: "hash256 \<Rightarrow> bytes" where
  "rlp_encode_word w =
     (let first = unwrap_or (position (\<lambda>b. b \<noteq> 0) (arr_bytes w)) 31
      in if list_all (\<lambda>b. b = 0) (arr_bytes w) then rlp_encode_bytes []
         else rlp_encode_bytes (drop first (arr_bytes w)))"

definition encode_access_list :: "transaction_access_list_item list \<Rightarrow> bytes" where
  "encode_access_list al =
     encode_rlp_list (map (\<lambda>item.
       encode_rlp_list [rlp_encode_bytes (arr_bytes (al_address item)),
         encode_rlp_list (map (\<lambda>key. rlp_encode_bytes (arr_bytes key)) (al_storage_keys item))]) al)"

section \<open>Encoders of blq-primitives\<close>

definition eip1559_rlp_header :: "u8 \<Rightarrow> nat \<Rightarrow> bytes" where
  "eip1559_rlp_header offset len =
     (if len < 56 then [offset + of_nat len]
      else (let len_bytes = rev (len_bytes_le len)
            in (offset + 55 + of_nat (length len_bytes)) # len_bytes))"

definition eip1559_rlp_list_payload :: "bytes \<Rightarrow> bytes" where
  "eip1559_rlp_list_payload payload = eip1559_rlp_header 0xc0 (length payload) @ payload"

definition eip1559_typed_rlp :: "bytes \<Rightarrow> bytes" where
  "eip1559_typed_rlp payload = 0x02 # eip1559_rlp_list_payload payload"

definition eip1559_rlp_list :: "bytes list \<Rightarrow> bytes" where
  "eip1559_rlp_list fs = eip1559_rlp_list_payload (concat fs)"

definition eip1559_rlp_bytes :: "bytes \<Rightarrow> bytes" where
  "eip1559_rlp_bytes bs =
     (if length bs = 1 \<and> hd bs < 0x80 then [hd bs]
      else eip1559_rlp_header 0x80 (length bs) @ bs)"

definition eip1559_rlp_u64 :: "u64 \<Rightarrow> bytes" where
  "eip1559_rlp_u64 v =
     (if v = 0 then eip1559_rlp_bytes []
      else eip1559_rlp_bytes
        (drop (unwrap_or (position (\<lambda>b. b \<noteq> 0) (to_be_bytes v)) 7) (to_be_bytes v)))"

definition eip1559_rlp_u128 :: "u128 \<Rightarrow> bytes" where
  "eip1559_rlp_u128 v =
     (if v = 0 then eip1559_rlp_bytes []
      else eip1559_rlp_bytes
        (drop (unwrap_or (position (\<lambda>b. b \<noteq> 0) (to_be_bytes v)) 15) (to_be_bytes v)))"

definition eip1559_rlp_word :: "hash256 \<Rightarrow> bytes" where
  "eip1559_rlp_word w =
     (if list_all (\<lambda>b. b = 0) (arr_bytes w) then eip1559_rlp_bytes []
      else eip1559_rlp_bytes
        (drop (unwrap_or (position (\<lambda>b. b \<noteq> 0) (arr_bytes w)) 31) (arr_bytes w)))"

definition eip1559_encode_access_list :: "transaction_access_list_item list \<Rightarrow> bytes" where
  "eip1559_encode_access_list al =
     eip1559_rlp_list (map (\<lambda>item.
       eip1559_rlp_list [eip1559_rlp_bytes (arr_bytes (al_address item)),
         eip1559_rlp_list (map (\<lambda>key. eip1559_rlp_bytes (arr_bytes key)) (al_storage_keys item))]) al)"

definition recipient_bytes :: "transaction \<Rightarrow> bytes" where
  "recipient_bytes t = (case tx_to t of Some a \<Rightarrow> arr_bytes a | None \<Rightarrow> [])"

definition eip1559_signing_payload :: "transaction \<Rightarrow> raw_error + bytes" where
  "eip1559_signing_payload t =
     (if tx_type t \<noteq> 2 then Inl ExpectedType2
      else Inr (eip1559_typed_rlp (concat [
        eip1559_rlp_u64 (tx_chain_id t), eip1559_rlp_u64 (tx_nonce t),
        eip1559_rlp_u128 (tx_max_priority_fee_per_gas t),
        eip1559_rlp_u128 (tx_max_fee_per_gas t), eip1559_rlp_u64 (tx_gas_limit t),
        eip1559_rlp_bytes (recipient_bytes t), eip1559_rlp_u128 (tx_value t),
        eip1559_rlp_bytes (tx_payload t), eip1559_encode_access_list (tx_access_list t)])))"

definition eip1559_signed_bytes :: "transaction \<Rightarrow> raw_error + bytes" where
  "eip1559_signed_bytes t =
     (if tx_type t \<noteq> 2 then Inl ExpectedType2
      else case tx_signature t of
        None \<Rightarrow> Inl NoSignature
      | Some sg \<Rightarrow> Inr (eip1559_typed_rlp (concat [
          eip1559_rlp_u64 (tx_chain_id t), eip1559_rlp_u64 (tx_nonce t),
          eip1559_rlp_u128 (tx_max_priority_fee_per_gas t),
          eip1559_rlp_u128 (tx_max_fee_per_gas t), eip1559_rlp_u64 (tx_gas_limit t),
          eip1559_rlp_bytes (recipient_bytes t), eip1559_rlp_u128 (tx_value t),
          eip1559_rlp_bytes (tx_payload t), eip1559_encode_access_list (tx_access_list t),
          eip1559_rlp_u64 (if sig_y_parity sg then 1 else 0),
          eip1559_rlp_word (sig_r sg), eip1559_rlp_word (sig_s sg)])))"

section \<open>Decoders\<close>

fun rlp_length_loop :: "nat \<Rightarrow> bytes \<Rightarrow> nat option" where
  "rlp_length_loop len [] = Some len"
| "rlp_length_loop len (b # bs) =
     (if len * 256 < 2 ^ 64 \<and> len * 256 + unat b < 2 ^ 64
      then rlp_length_loop (len * 256 + unat b) bs else None)"

definition rlp_decode_length :: "bytes \<Rightarrow> nat \<Rightarrow> raw_error + (nat \<times> bytes)" where
  "rlp_decode_length input len_of_len =
     (if len_of_len = 0 \<or> 8 < len_of_len \<or> length input < len_of_len then Inl InvalidRlpLength
      else case rlp_length_loop 0 (take len_of_len input) of
        None \<Rightarrow> Inl RlpLengthOverflow
      | Some len \<Rightarrow> Inr (len, drop len_of_len input))"

definition rlp_take_item :: "bytes \<Rightarrow> raw_error + ((bool \<times> bytes) \<times> bytes)" where
  "rlp_take_item original = (case original of
     [] \<Rightarrow> Inl UnexpectedEnd
   | prefix # rest \<Rightarrow>
       if prefix \<le> 0x7f then Inr ((False, [prefix]), rest)
       else if prefix \<le> 0xb7 then
         (let len = unat (prefix - 0x80)
          in if length rest < len then Inl ShortString
             else Inr ((False, take len rest), drop len rest))
       else if prefix \<le> 0xbf then
         res_bind (rlp_decode_length rest (unat (prefix - 0xb7))) (\<lambda>(len, after_len).
           if length after_len < len then Inl ShortLongString
           else Inr ((False, take len after_len), drop len after_len))
       else if prefix \<le> 0xf7 then
         (let len = unat (prefix - 0xc0)
          in if length rest < len then Inl ShortList
             else Inr ((True, take len rest), drop len rest))
       else
         res_bind (rlp_decode_length rest (unat (prefix - 0xf7))) (\<lambda>(len, after_len).
           if length after_len < len then Inl ShortLongList
           else Inr ((True, take len after_len), drop len after_len)))"

definition rlp_take_raw :: "bytes \<Rightarrow> raw_error + (bytes \<times> bytes)" where
  "rlp_take_raw start = res_bind (rlp_take_item start) (\<lambda>(_, input).
     Inr (take (length start - length input) start, input))"

definition rlp_take_bytes :: "bytes \<Rightarrow> raw_error + (bytes \<times> bytes)" where
  "rlp_take_bytes input = res_bind (rlp_take_item input) (\<lambda>((is_list, payload), rest).
     if is_list then Inl ExpectedBytes else Inr (payload, rest))"

definition u128_of_bytes :: "bytes \<Rightarrow> u128" where
  "u128_of_bytes bs = foldl (\<lambda>value b. push_bit 8 value OR ucast b) 0 bs"

definition rlp_take_u128 :: "bytes \<Rightarrow> raw_error + (u128 \<times> bytes)" where
  "rlp_take_u128 input = res_bind (rlp_take_bytes input) (\<lambda>(bs, rest).
     if 16 < length bs then Inl IntTooLong
     else if 1 < length bs \<and> hd bs = 0 then Inl NonCanonicalInt
     else Inr (u128_of_bytes bs, rest))"

definition rlp_take_u64 :: "bytes \<Rightarrow> raw_error + (u64 \<times> bytes)" where
  "rlp_take_u64 input = res_bind (rlp_take_u128 input) (\<lambda>(value, rest).
     if unat value < 2 ^ 64 then Inr (ucast value, rest) else Inl IntOutOfRange)"

definition rlp_take_word :: "bytes \<Rightarrow> raw_error + (hash256 \<times> bytes)" where
  "rlp_take_word input = res_bind (rlp_take_bytes input) (\<lambda>(bs, rest).
     if 32 < length bs then Inl ScalarTooLong
     else Inr (Arr (replicate (32 - length bs) 0 @ bs), rest))"

definition rlp_take_optional_address :: "bytes \<Rightarrow> raw_error + (address option \<times> bytes)" where
  "rlp_take_optional_address input = res_bind (rlp_take_bytes input) (\<lambda>(bs, rest).
     if bs = [] then Inr (None, rest)
     else if length bs \<noteq> 20 then Inl BadRecipient
     else Inr (Some (Arr bs), rest))"

definition decode_rlp_list :: "bytes \<Rightarrow> raw_error + bytes" where
  "decode_rlp_list bs = res_bind (rlp_take_item bs) (\<lambda>((is_list, payload), input).
     if input \<noteq> [] then Inl TrailingBytes
     else if \<not> is_list then Inl NotAList else Inr payload)"

definition decode_bytes_field :: "bytes \<Rightarrow> raw_error + bytes" where
  "decode_bytes_field field = res_bind (rlp_take_bytes field) (\<lambda>(bs, input).
     if input \<noteq> [] then Inl FieldTrailingBytes else Inr bs)"

definition decode_u64_field :: "bytes \<Rightarrow> raw_error + u64" where
  "decode_u64_field field = res_bind (rlp_take_u64 field) (\<lambda>(v, input).
     if input \<noteq> [] then Inl FieldTrailingBytes else Inr v)"

definition decode_u128_field :: "bytes \<Rightarrow> raw_error + u128" where
  "decode_u128_field field = res_bind (rlp_take_u128 field) (\<lambda>(v, input).
     if input \<noteq> [] then Inl FieldTrailingBytes else Inr v)"

text \<open>Every successful step of a decoder consumes at least one byte.\<close>

lemma rlp_decode_length_shorter:
  "rlp_decode_length xs n = Inr (l, ys) \<Longrightarrow> length ys \<le> length xs"
  by (auto simp: rlp_decode_length_def split: if_splits option.splits)

lemma rlp_take_item_shorter:
  assumes "rlp_take_item xs = Inr (it, ys)"
  shows "length ys < length xs"
  using assms
  by (auto simp: rlp_take_item_def Let_def res_simps split: list.splits if_splits
      dest: rlp_decode_length_shorter)

lemma rlp_take_bytes_shorter: "rlp_take_bytes xs = Inr (b, ys) \<Longrightarrow> length ys < length xs"
  by (auto simp: rlp_take_bytes_def res_simps split: if_splits dest: rlp_take_item_shorter)

lemma rlp_take_raw_shorter: "rlp_take_raw xs = Inr (b, ys) \<Longrightarrow> length ys < length xs"
  by (auto simp: rlp_take_raw_def res_simps dest: rlp_take_item_shorter)

text \<open>The two nested loops of \<open>rlp_decode_access_list\<close>.\<close>

function take_storage_keys ::
  "hash256 list \<Rightarrow> nat \<Rightarrow> bytes \<Rightarrow> raw_error + (hash256 list \<times> nat)" where
  "take_storage_keys storage_keys total_keys keys =
     (if keys = [] then Inr (storage_keys, total_keys)
      else if MAX_ACCESS_LIST_STORAGE_KEYS_PER_ENTRY \<le> length storage_keys \<or>
              MAX_ACCESS_LIST_STORAGE_KEYS \<le> total_keys then Inl AccessListTooLargeRaw
      else case rlp_take_bytes keys of
        Inl e \<Rightarrow> Inl e
      | Inr (key, rest) \<Rightarrow>
          if length key \<noteq> 32 then Inl BadStorageKey
          else take_storage_keys (storage_keys @ [Arr key]) (total_keys + 1) rest)"
  by pat_completeness auto
termination
  by (relation "measure (\<lambda>(_, _, keys). length keys)") (auto dest: rlp_take_bytes_shorter)

declare take_storage_keys.simps [simp del]

function take_entries ::
  "transaction_access_list_item list \<Rightarrow> nat \<Rightarrow> bytes \<Rightarrow>
     raw_error + transaction_access_list_item list" where
  "take_entries access_list total_keys entries =
     (if entries = [] then Inr access_list
      else if MAX_ACCESS_LIST_ENTRIES \<le> length access_list then Inl AccessListTooLargeRaw
      else case rlp_take_raw entries of
        Inl e \<Rightarrow> Inl e
      | Inr (entry, rest) \<Rightarrow>
          res_bind (decode_rlp_list entry) (\<lambda>entry_payload.
          res_bind (rlp_take_bytes entry_payload) (\<lambda>(address, entry_payload).
          if length address \<noteq> 20 then Inl BadAccessAddress
          else res_bind (rlp_take_item entry_payload) (\<lambda>((storage_list, keys), entry_payload).
          if \<not> storage_list \<or> entry_payload \<noteq> [] then Inl BadStorageKeys
          else res_bind (take_storage_keys [] total_keys keys) (\<lambda>(storage_keys, total_keys).
            take_entries (access_list @
              [\<lparr>al_address = Arr address, al_storage_keys = storage_keys\<rparr>]) total_keys rest)))))"
  by pat_completeness auto
termination
  by (relation "measure (\<lambda>(_, _, entries). length entries)") (auto dest: rlp_take_raw_shorter)

declare take_entries.simps [simp del]

definition rlp_decode_access_list ::
  "bytes \<Rightarrow> raw_error + (transaction_access_list_item list \<times> bytes)" where
  "rlp_decode_access_list input = res_bind (rlp_take_item input) (\<lambda>((is_list, entries), rest).
     if \<not> is_list then Inl AccessListNotList
     else res_bind (take_entries [] 0 entries) (\<lambda>al. Inr (al, rest)))"

section \<open>Decoding inverts encoding\<close>

text \<open>
  The contract of an encoder and the decoder that goes with it: the decoder takes exactly the
  encoding off the front of the input.  Such an encoder is a prefix code.
\<close>

locale take_codec =
  fixes enc :: "'a \<Rightarrow> bytes" and tk :: "bytes \<Rightarrow> raw_error + ('a \<times> bytes)" and ok :: "'a \<Rightarrow> bool"
  assumes roundtrip: "ok x \<Longrightarrow> tk (enc x @ rest) = Inr (x, rest)"
begin

lemma roundtrip_end: "ok x \<Longrightarrow> tk (enc x) = Inr (x, [])"
  using roundtrip [of x "[]"] by simp

end

sublocale take_codec \<subseteq> prefix_code enc ok
proof
  fix x y r s
  assume "ok x" "ok y" and eq: "enc x @ r = enc y @ s"
  have "tk (enc x @ r) = Inr (x, r)" by (rule roundtrip) fact
  moreover have "tk (enc y @ s) = Inr (y, s)" by (rule roundtrip) fact
  ultimately show "x = y \<and> r = s" unfolding eq by simp
qed

lemma be_val_rev_len_bytes: "be_val (rev (len_bytes_le n)) = n"
proof (induction n rule: len_bytes_le.induct)
  case (1 v)
  show ?case
  proof (cases "v = 0")
    case True
    then show ?thesis by (subst len_bytes_le.simps) simp
  next
    case False
    then have "be_val (rev (len_bytes_le (v div 256))) = v div 256" using 1 by simp
    then show ?thesis
      using False by (subst len_bytes_le.simps) (simp add: be_simps unat_of_nat)
  qed
qed

lemma length_len_bytes: "n < 256 ^ k \<Longrightarrow> length (len_bytes_le n) \<le> k"
proof (induction k arbitrary: n)
  case 0
  then show ?case by (subst len_bytes_le.simps) simp
next
  case (Suc k)
  then have "n div 256 < 256 ^ k" by (simp add: less_mult_imp_div_less mult.commute)
  then show ?case using Suc.IH by (subst len_bytes_le.simps) auto
qed

lemma len_bytes_nonempty: "n \<noteq> 0 \<Longrightarrow> len_bytes_le n \<noteq> []"
  by (subst len_bytes_le.simps) simp

lemma rlp_length_loop_val:
  "acc * 256 ^ length bs + be_val bs < 2 ^ 64 \<Longrightarrow>
    rlp_length_loop acc bs = Some (acc * 256 ^ length bs + be_val bs)"
proof (induction bs arbitrary: acc)
  case Nil
  then show ?case by simp
next
  case (Cons b bs)
  have e: "acc * 256 ^ length (b # bs) + be_val (b # bs) =
      (acc * 256 + unat b) * 256 ^ length bs + be_val bs"
    by (simp add: algebra_simps)
  have "acc * 256 + unat b \<le> (acc * 256 + unat b) * 256 ^ length bs" by simp
  then have "acc * 256 + unat b < 2 ^ 64" using Cons.prems unfolding e by linarith
  then show ?case using Cons.IH [of "acc * 256 + unat b"] Cons.prems unfolding e by simp
qed

text \<open>A header followed by its payload is read back as that payload.\<close>

lemma rlp_decode_length_header:
  assumes "56 \<le> n" "n < 2 ^ 64"
  shows "rlp_decode_length (rev (len_bytes_le n) @ xs) (length (len_bytes_le n)) = Inr (n, xs)"
proof -
  have "length (len_bytes_le n) \<le> 8" using assms by (intro length_len_bytes) simp
  moreover have "len_bytes_le n \<noteq> []" using assms by (intro len_bytes_nonempty) simp
  moreover have "rlp_length_loop 0 (rev (len_bytes_le n)) = Some n"
    using rlp_length_loop_val [of 0 "rev (len_bytes_le n)"] assms by (simp add: be_val_rev_len_bytes)
  ultimately show ?thesis by (simp add: rlp_decode_length_def)
qed

lemma u8_add_val: "a + n < 256 \<Longrightarrow> unat (of_nat a + of_nat n :: u8) = a + n"
  by (simp add: unat_word_ariths unat_of_nat)

lemma take_item_short:
  assumes "length p < 56"
  shows "rlp_take_item (rlp_encode_header 0x80 (length p) @ p @ rest) = Inr ((False, p), rest)"
    and "rlp_take_item (rlp_encode_header 0xc0 (length p) @ p @ rest) = Inr ((True, p), rest)"
proof -
  have s: "unat (0x80 + of_nat (length p) :: u8) = 128 + length p"
    and l: "unat (0xc0 + of_nat (length p) :: u8) = 192 + length p"
    using assms u8_add_val [of 128 "length p"] u8_add_val [of 192 "length p"] by auto
  have d: "unat (0x80 + of_nat (length p) - 0x80 :: u8) = length p"
    "unat (0xc0 + of_nat (length p) - 0xc0 :: u8) = length p"
    using assms by (simp_all add: unat_of_nat)
  show "rlp_take_item (rlp_encode_header 0x80 (length p) @ p @ rest) = Inr ((False, p), rest)"
    using assms s d by (simp add: rlp_encode_header_def rlp_take_item_def word_le_nat_alt Let_def)
  show "rlp_take_item (rlp_encode_header 0xc0 (length p) @ p @ rest) = Inr ((True, p), rest)"
    using assms l d by (simp add: rlp_encode_header_def rlp_take_item_def word_le_nat_alt Let_def)
qed

lemma take_item_long:
  assumes "56 \<le> length p" "length p < 2 ^ 64"
  shows "rlp_take_item (rlp_encode_header 0x80 (length p) @ p @ rest) = Inr ((False, p), rest)"
    and "rlp_take_item (rlp_encode_header 0xc0 (length p) @ p @ rest) = Inr ((True, p), rest)"
proof -
  define k where "k = length (len_bytes_le (length p))"
  have "k \<le> 8" using assms unfolding k_def by (intro length_len_bytes) simp
  moreover have "length p \<noteq> 0" using assms by linarith
  then have "k \<noteq> 0" using len_bytes_nonempty [of "length p"] by (simp add: k_def)
  ultimately have k: "1 \<le> k" "k \<le> 8" by auto
  have s: "unat (0x80 + 55 + of_nat k :: u8) = 183 + k"
    and l: "unat (0xc0 + 55 + of_nat k :: u8) = 247 + k"
    using k u8_add_val [of 183 k] u8_add_val [of 247 k] by auto
  have d: "unat (0x80 + 55 + of_nat k - 0xb7 :: u8) = k" "unat (0xc0 + 55 + of_nat k - 0xf7 :: u8) = k"
    using k by (simp_all add: unat_of_nat)
  have dl: "rlp_decode_length (rev (len_bytes_le (length p)) @ p @ rest) k = Inr (length p, p @ rest)"
    unfolding k_def by (rule rlp_decode_length_header) (use assms in auto)
  have h: "rlp_encode_header off (length p) = (off + 55 + of_nat k) # rev (len_bytes_le (length p))" for off
    using assms by (simp add: rlp_encode_header_def k_def Let_def)
  show "rlp_take_item (rlp_encode_header 0x80 (length p) @ p @ rest) = Inr ((False, p), rest)"
    unfolding h rlp_take_item_def using s d dl k by (simp add: word_le_nat_alt)
  show "rlp_take_item (rlp_encode_header 0xc0 (length p) @ p @ rest) = Inr ((True, p), rest)"
    unfolding h rlp_take_item_def using l d dl k by (simp add: word_le_nat_alt)
qed

lemma take_item_header:
  assumes "vec_len p"
  shows "rlp_take_item (rlp_encode_header 0x80 (length p) @ p @ rest) = Inr ((False, p), rest)"
    and "rlp_take_item (rlp_encode_header 0xc0 (length p) @ p @ rest) = Inr ((True, p), rest)"
  using assms take_item_short take_item_long by (meson not_less)+

lemma take_item_bytes:
  assumes "vec_len bs"
  shows "rlp_take_item (rlp_encode_bytes bs @ rest) = Inr ((False, bs), rest)"
proof (cases "length bs = 1 \<and> hd bs < 0x80")
  case True
  then obtain b where b: "bs = [b]" "b < 0x80" by (cases bs) auto
  then have "b \<le> 0x7f" by (simp add: word_le_nat_alt word_less_nat_alt)
  then show ?thesis using b by (simp add: rlp_encode_bytes_def rlp_take_item_def)
next
  case False
  then have "rlp_encode_bytes bs = rlp_encode_header 0x80 (length bs) @ bs"
    unfolding rlp_encode_bytes_def by (simp only: if_False)
  then show ?thesis using take_item_header(1) [OF assms] by simp
qed

lemma take_item_list:
  "vec_len p \<Longrightarrow> rlp_take_item (rlp_encode_list_payload p @ rest) = Inr ((True, p), rest)"
  by (simp add: rlp_encode_list_payload_def take_item_header(2))

interpretation bytes_codec: take_codec rlp_encode_bytes rlp_take_bytes vec_len
  by unfold_locales (simp add: rlp_take_bytes_def take_item_bytes)

interpretation list_codec: take_codec
  "\<lambda>(l, p). if l then rlp_encode_list_payload p else rlp_encode_bytes p" rlp_take_item
  "\<lambda>(l, p). vec_len p"
  by unfold_locales (auto simp: take_item_bytes take_item_list)

section \<open>Integers and scalars\<close>

lemma drop_position_nonzero:
  fixes bs :: bytes
  assumes "\<not> list_all (\<lambda>b. b = 0) bs"
  shows "drop (unwrap_or (position (\<lambda>b. b \<noteq> 0) bs) d) bs = dropWhile (\<lambda>b. b = 0) bs"
proof -
  have "\<exists>n. position (\<lambda>b. b \<noteq> 0) bs = Some n \<and> drop n bs = dropWhile (\<lambda>b. b = 0) bs"
    using assms by (induction bs) auto
  then show ?thesis by (auto simp: unwrap_or_def)
qed

lemma be_val_zero_iff: "be_val bs = 0 \<longleftrightarrow> list_all (\<lambda>b. b = 0) bs"
proof (induction bs)
  case Nil
  then show ?case by simp
next
  case (Cons b bs)
  then show ?case by (auto simp: unat_eq_zero)
qed

text \<open>The bytes of an integer without its leading zeros.\<close>

definition min_be :: "bytes \<Rightarrow> bytes" where
  "min_be bs = dropWhile (\<lambda>b. b = 0) bs"

lemma min_be_length: "length (min_be bs) \<le> length bs"
  by (simp add: min_be_def length_dropWhile_le)

lemma min_be_head: "min_be bs \<noteq> [] \<Longrightarrow> hd (min_be bs) \<noteq> 0"
  unfolding min_be_def by (rule hd_dropWhile)

lemma min_be_zero: "list_all (\<lambda>b. b = 0) bs \<Longrightarrow> min_be bs = []"
  by (simp add: min_be_def list_all_iff)

lemma rlp_encode_u64_min: "rlp_encode_u64 v = rlp_encode_bytes (min_be (to_be_bytes v))"
proof -
  have "list_all (\<lambda>b. b = 0) (to_be_bytes v) \<longleftrightarrow> v = 0"
    by (simp add: be_val_zero_iff [symmetric] be_simps unat_eq_zero)
  then show ?thesis
    using drop_position_nonzero [of "to_be_bytes v" 7] min_be_zero [of "to_be_bytes v"]
    by (cases "v = 0") (simp_all add: rlp_encode_u64_def flip: min_be_def)
qed

lemma rlp_encode_u128_min: "rlp_encode_u128 v = rlp_encode_bytes (min_be (to_be_bytes v))"
proof -
  have "list_all (\<lambda>b. b = 0) (to_be_bytes v) \<longleftrightarrow> v = 0"
    by (simp add: be_val_zero_iff [symmetric] be_simps unat_eq_zero)
  then show ?thesis
    using drop_position_nonzero [of "to_be_bytes v" 15] min_be_zero [of "to_be_bytes v"]
    by (cases "v = 0") (simp_all add: rlp_encode_u128_def flip: min_be_def)
qed

lemma rlp_encode_word_min: "rlp_encode_word w = rlp_encode_bytes (min_be (arr_bytes w))"
  using drop_position_nonzero [of "arr_bytes w" 31] min_be_zero [of "arr_bytes w"]
  by (cases "list_all (\<lambda>b. b = 0) (arr_bytes w)") (simp_all add: rlp_encode_word_def Let_def flip: min_be_def)

lemma shift_or_val: "push_bit 8 v OR ucast b = v * 256 + ucast (b :: u8)" for v :: u128
proof -
  have "\<not> (bit (push_bit 8 v) n \<and> bit (ucast b :: u128) n)" for n
    by (auto simp: bit_push_bit_iff bit_unsigned_iff dest: bit_imp_le_length)
  then have "push_bit 8 v AND ucast b = 0"
    by (intro bit_eqI) (auto simp: bit_and_iff)
  then have "push_bit 8 v + ucast b = push_bit 8 v OR ucast b"
    by (rule disjunctive_add_eq_or [symmetric, THEN sym])
  then show ?thesis by (simp add: push_bit_eq_mult)
qed

lemma u128_of_bytes_foldl:
  "foldl (\<lambda>v b. push_bit 8 v OR ucast b) v bs = v * 256 ^ length bs + (of_nat (be_val bs) :: u128)"
proof (induction bs arbitrary: v)
  case Nil
  then show ?case by simp
next
  case (Cons b bs)
  have "(ucast b :: u128) = of_nat (unat b)" by simp
  then show ?case unfolding foldl_Cons Cons.IH unfolding shift_or_val by (simp add: distrib_right mult.assoc)
qed

lemma u128_of_bytes_val: "u128_of_bytes bs = of_nat (be_val bs)"
  using u128_of_bytes_foldl [of 0 bs] by (simp add: u128_of_bytes_def)

lemma u128_of_min_be: "LENGTH('a) mod 8 = 0 \<Longrightarrow>
  u128_of_bytes (min_be (to_be_bytes (v :: 'a::len word))) = of_nat (unat v)"
  by (simp add: u128_of_bytes_val min_be_def be_simps)


lemma u64_word_roundtrip: "(ucast (ucast v :: u128) :: u64) = v"
  by (rule bit_word_eqI) (simp add: bit_simps)

lemma min_be_canonical: "\<not> (1 < length (min_be bs) \<and> hd (min_be bs) = 0)"
  by (cases "min_be bs = []") (simp_all add: min_be_head)

lemma vec_len_short: "length bs \<le> 64 \<Longrightarrow> vec_len bs"
  by simp

interpretation u128_codec: take_codec rlp_encode_u128 rlp_take_u128 "\<lambda>_. True"
proof
  fix v :: u128 and rest
  have l: "length (min_be (to_be_bytes v)) \<le> 16"
    using min_be_length [of "to_be_bytes v"] by (simp add: be_simps)
  have "rlp_take_bytes (rlp_encode_u128 v @ rest) = Inr (min_be (to_be_bytes v), rest)"
    unfolding rlp_encode_u128_min by (rule bytes_codec.roundtrip) (use l in simp)
  then show "rlp_take_u128 (rlp_encode_u128 v @ rest) = Inr (v, rest)"
    using l min_be_canonical [of "to_be_bytes v"] u128_of_min_be [of v]
    by (simp add: rlp_take_u128_def)
qed

interpretation u64_codec: take_codec rlp_encode_u64 rlp_take_u64 "\<lambda>_. True"
proof
  fix v :: u64 and rest
  have l: "length (min_be (to_be_bytes v)) \<le> 8"
    using min_be_length [of "to_be_bytes v"] by (simp add: be_simps)
  have "rlp_take_bytes (rlp_encode_u64 v @ rest) = Inr (min_be (to_be_bytes v), rest)"
    unfolding rlp_encode_u64_min by (rule bytes_codec.roundtrip) (use l in simp)
  then have "rlp_take_u128 (rlp_encode_u64 v @ rest) = Inr (of_nat (unat v), rest)"
    using l min_be_canonical [of "to_be_bytes v"] u128_of_min_be [of v]
    by (simp add: rlp_take_u128_def)
  moreover have "unat v < 2 ^ 64" using unat_lt_len [of v] by simp
  ultimately show "rlp_take_u64 (rlp_encode_u64 v @ rest) = Inr (v, rest)"
    using u64_word_roundtrip [of v] by (simp add: rlp_take_u64_def unat_widen)
qed

interpretation word_codec: take_codec rlp_encode_word rlp_take_word "\<lambda>_. True"
proof
  fix w :: hash256 and rest
  have l: "length (min_be (arr_bytes w)) \<le> 32"
    using min_be_length [of "arr_bytes w"] by simp
  have "rlp_take_bytes (rlp_encode_word w @ rest) = Inr (min_be (arr_bytes w), rest)"
    unfolding rlp_encode_word_min by (rule bytes_codec.roundtrip) (use l in simp)
  moreover have "replicate (32 - length (min_be (arr_bytes w))) 0 @ min_be (arr_bytes w) = arr_bytes w"
    using replicate_zeros_dropWhile [of "arr_bytes w"] by (simp add: min_be_def)
  ultimately show "rlp_take_word (rlp_encode_word w @ rest) = Inr (w, rest)"
    using l by (simp add: rlp_take_word_def)
qed

definition rlp_encode_optional_address :: "address option \<Rightarrow> bytes" where
  "rlp_encode_optional_address a = rlp_encode_bytes (case a of Some x \<Rightarrow> arr_bytes x | None \<Rightarrow> [])"

interpretation recipient_codec: take_codec
  rlp_encode_optional_address rlp_take_optional_address "\<lambda>_. True"
proof
  fix a :: "address option" and rest
  define bs where "bs = (case a of Some x \<Rightarrow> arr_bytes x | None \<Rightarrow> [])"
  have "vec_len bs" by (simp add: bs_def split: option.splits)
  then have "rlp_take_bytes (rlp_encode_optional_address a @ rest) = Inr (bs, rest)"
    unfolding rlp_encode_optional_address_def bs_def [symmetric] by (rule bytes_codec.roundtrip)
  then show "rlp_take_optional_address (rlp_encode_optional_address a @ rest) = Inr (a, rest)"
    by (auto simp: rlp_take_optional_address_def bs_def split: option.splits)
qed


section \<open>Access lists\<close>

lemma rlp_encode_bytes_nonempty [simp]: "rlp_encode_bytes bs \<noteq> []"
  by (simp add: rlp_encode_bytes_def rlp_encode_header_def Let_def)

lemma rlp_encode_list_payload_nonempty [simp]: "rlp_encode_list_payload p \<noteq> []"
  by (simp add: rlp_encode_list_payload_def rlp_encode_header_def Let_def)

lemma take_raw_item: "rlp_take_item (enc @ rest) = Inr (it, rest) \<Longrightarrow> rlp_take_raw (enc @ rest) = Inr (enc, rest)"
  by (simp add: rlp_take_raw_def)

lemma decode_list_payload: "vec_len p \<Longrightarrow> decode_rlp_list (rlp_encode_list_payload p) = Inr p"
  using take_item_list [of p "[]"] by (simp add: decode_rlp_list_def)

definition key_list_bytes :: "hash256 list \<Rightarrow> bytes" where
  "key_list_bytes ks = concat (map (\<lambda>k. rlp_encode_bytes (arr_bytes k)) ks)"

definition entry_bytes :: "transaction_access_list_item \<Rightarrow> bytes" where
  "entry_bytes item = encode_rlp_list [rlp_encode_bytes (arr_bytes (al_address item)),
     encode_rlp_list (map (\<lambda>key. rlp_encode_bytes (arr_bytes key)) (al_storage_keys item))]"

lemma take_storage_keys_roundtrip:
  assumes "length acc + length ks \<le> MAX_ACCESS_LIST_STORAGE_KEYS_PER_ENTRY"
    and "n + length ks \<le> MAX_ACCESS_LIST_STORAGE_KEYS"
  shows "take_storage_keys acc n (key_list_bytes ks) = Inr (acc @ ks, n + length ks)"
  using assms
proof (induction ks arbitrary: acc n)
  case Nil
  then show ?case by (simp add: key_list_bytes_def take_storage_keys.simps)
next
  case (Cons k ks)
  have "rlp_take_bytes (rlp_encode_bytes (arr_bytes k) @ key_list_bytes ks) =
      Inr (arr_bytes k, key_list_bytes ks)"
    by (rule bytes_codec.roundtrip) simp
  then show ?case
    using Cons.prems Cons.IH [of "acc @ [k]" "n + 1"]
    by (subst take_storage_keys.simps) (simp add: key_list_bytes_def)
qed

definition total_keys_of :: "transaction_access_list_item list \<Rightarrow> nat" where
  "total_keys_of al = sum_list (map (\<lambda>i. length (al_storage_keys i)) al)"

text \<open>The limits \<open>rlp_decode_access_list\<close> enforces.\<close>

definition access_list_limits :: "transaction_access_list_item list \<Rightarrow> bool" where
  "access_list_limits al \<longleftrightarrow> length al \<le> MAX_ACCESS_LIST_ENTRIES \<and>
     list_all (\<lambda>i. length (al_storage_keys i) \<le> MAX_ACCESS_LIST_STORAGE_KEYS_PER_ENTRY) al \<and>
     total_keys_of al \<le> MAX_ACCESS_LIST_STORAGE_KEYS"


lemma access_list_limits_snoc:
  "access_list_limits (al @ [i]) \<longleftrightarrow>
     length al < MAX_ACCESS_LIST_ENTRIES \<and>
     list_all (\<lambda>i. length (al_storage_keys i) \<le> MAX_ACCESS_LIST_STORAGE_KEYS_PER_ENTRY) al \<and>
     length (al_storage_keys i) \<le> MAX_ACCESS_LIST_STORAGE_KEYS_PER_ENTRY \<and>
     total_keys_of al + length (al_storage_keys i) \<le> MAX_ACCESS_LIST_STORAGE_KEYS"
  by (auto simp: access_list_limits_def total_keys_of_def)

lemma access_list_limits_prefix: "access_list_limits (xs @ ys) \<Longrightarrow> access_list_limits xs"
  by (auto simp: access_list_limits_def total_keys_of_def)

text \<open>Sizes, to discharge the 64-bit length of the list headers.\<close>

lemma length_rlp_header: "n < 2 ^ 64 \<Longrightarrow> length (rlp_encode_header a n) \<le> 9" for a
  using length_len_bytes [of n 8] by (simp add: rlp_encode_header_def Let_def)

lemma length_rlp_bytes: "vec_len bs \<Longrightarrow> length (rlp_encode_bytes bs) \<le> 9 + length bs"
  using length_rlp_header [of "length bs"] by (simp add: rlp_encode_bytes_def)

lemma length_rlp_list: "vec_len p \<Longrightarrow> length (rlp_encode_list_payload p) \<le> 9 + length p"
  using length_rlp_header [of "length p"] by (simp add: rlp_encode_list_payload_def)

lemma length_key_list: "length (key_list_bytes ks) \<le> 41 * length ks"
proof (induction ks)
  case Nil
  then show ?case by (simp add: key_list_bytes_def)
next
  case (Cons k ks)
  then show ?case using length_rlp_bytes [of "arr_bytes k"] by (simp add: key_list_bytes_def)
qed

lemma entry_bytes_payload:
  "entry_bytes i = rlp_encode_list_payload
     (rlp_encode_bytes (arr_bytes (al_address i)) @ rlp_encode_list_payload (key_list_bytes (al_storage_keys i)))"
  by (simp add: entry_bytes_def encode_rlp_list_def key_list_bytes_def)

lemma entry_sizes:
  assumes "length (al_storage_keys i) \<le> MAX_ACCESS_LIST_STORAGE_KEYS_PER_ENTRY"
  shows "vec_len (key_list_bytes (al_storage_keys i))"
    and "vec_len (rlp_encode_bytes (arr_bytes (al_address i)) @
           rlp_encode_list_payload (key_list_bytes (al_storage_keys i)))"
    and "length (entry_bytes i) \<le> 50000"
proof -
  have k: "length (key_list_bytes (al_storage_keys i)) \<le> 41 * 1024"
    using length_key_list [of "al_storage_keys i"] assms by (simp add: blq_consts)
  then show v: "vec_len (key_list_bytes (al_storage_keys i))" by simp
  have p: "length (rlp_encode_bytes (arr_bytes (al_address i)) @
      rlp_encode_list_payload (key_list_bytes (al_storage_keys i))) \<le> 41 * 1024 + 38"
    using k length_rlp_list [OF v] length_rlp_bytes [of "arr_bytes (al_address i)"] by simp
  then show v2: "vec_len (rlp_encode_bytes (arr_bytes (al_address i)) @
      rlp_encode_list_payload (key_list_bytes (al_storage_keys i)))" by simp
  show "length (entry_bytes i) \<le> 50000"
    using length_rlp_list [OF v2] p unfolding entry_bytes_payload by simp
qed

text \<open>One round of the outer loop reads one entry.\<close>

lemma take_entries_step:
  assumes lim: "access_list_limits (acc @ [i])"
  shows "take_entries acc (total_keys_of acc) (entry_bytes i @ rest) =
    take_entries (acc @ [i]) (total_keys_of (acc @ [i])) rest"
proof -
  define ks where "ks = key_list_bytes (al_storage_keys i)"
  define ep where "ep = rlp_encode_bytes (arr_bytes (al_address i)) @ rlp_encode_list_payload ks"
  have eb: "entry_bytes i = rlp_encode_list_payload ep"
    by (simp add: entry_bytes_payload ep_def ks_def)
  have l: "length acc < MAX_ACCESS_LIST_ENTRIES"
    "length (al_storage_keys i) \<le> MAX_ACCESS_LIST_STORAGE_KEYS_PER_ENTRY"
    "total_keys_of acc + length (al_storage_keys i) \<le> MAX_ACCESS_LIST_STORAGE_KEYS"
    using lim by (auto simp: access_list_limits_snoc)
  have v: "vec_len ks" "vec_len ep" using entry_sizes [OF l(2)] by (simp_all add: ks_def ep_def)
  have raw: "rlp_take_raw (entry_bytes i @ rest) = Inr (entry_bytes i, rest)"
    unfolding eb by (rule take_raw_item) (rule take_item_list [OF v(2)])
  have lst: "decode_rlp_list (entry_bytes i) = Inr ep"
    unfolding eb by (rule decode_list_payload) (rule v(2))
  have adr: "rlp_take_bytes ep = Inr (arr_bytes (al_address i), rlp_encode_list_payload ks)"
    unfolding ep_def by (rule bytes_codec.roundtrip) simp
  have keys: "rlp_take_item (rlp_encode_list_payload ks) = Inr ((True, ks), [])"
    using take_item_list [OF v(1), of "[]"] by simp
  have stor: "take_storage_keys [] (total_keys_of acc) ks =
      Inr (al_storage_keys i, total_keys_of (acc @ [i]))"
    unfolding ks_def using l by (subst take_storage_keys_roundtrip) (simp_all add: total_keys_of_def)
  have "entry_bytes i \<noteq> []" by (simp add: eb)
  then show ?thesis
    by (subst take_entries.simps) (use l raw lst adr keys stor in \<open>cases i, simp\<close>)
qed

lemma take_entries_roundtrip:
  "access_list_limits (acc @ al) \<Longrightarrow>
     take_entries acc (total_keys_of acc) (concat (map entry_bytes al)) = Inr (acc @ al)"
proof (induction al arbitrary: acc)
  case Nil
  then show ?case by (simp add: take_entries.simps)
next
  case (Cons i al)
  then have "access_list_limits ((acc @ [i]) @ al)" by simp
  then show ?case
    using Cons.IH [of "acc @ [i]"] take_entries_step [of acc i] access_list_limits_prefix by fastforce
qed

lemma encode_access_list_entries:
  "encode_access_list al = rlp_encode_list_payload (concat (map entry_bytes al))"
  by (simp add: encode_access_list_def encode_rlp_list_def entry_bytes_def [abs_def])

lemma access_list_payload_len:
  assumes "access_list_limits al"
  shows "length (concat (map entry_bytes al)) \<le> 50000 * 256"
proof -
  have "length (concat (map entry_bytes al)) \<le> 50000 * length al"
    if "list_all (\<lambda>i. length (al_storage_keys i) \<le> MAX_ACCESS_LIST_STORAGE_KEYS_PER_ENTRY) al"
    using that by (induction al) (auto dest: entry_sizes(3))
  then show ?thesis using assms by (auto simp: access_list_limits_def blq_consts)
qed

interpretation access_list_codec: take_codec
  encode_access_list rlp_decode_access_list access_list_limits
proof
  fix al rest
  assume lim: "access_list_limits al"
  have "rlp_take_item (encode_access_list al @ rest) = Inr ((True, concat (map entry_bytes al)), rest)"
    unfolding encode_access_list_entries
    by (rule take_item_list) (use access_list_payload_len [OF lim] in simp)
  moreover have "take_entries [] 0 (concat (map entry_bytes al)) = Inr al"
    using take_entries_roundtrip [of "[]" al] lim by (simp add: total_keys_of_def)
  ultimately show "rlp_decode_access_list (encode_access_list al @ rest) = Inr (al, rest)"
    by (simp add: rlp_decode_access_list_def)
qed

text \<open>Whatever the decoder accepts is within the limits.\<close>

lemma take_storage_keys_sound:
  assumes "take_storage_keys acc n bs = Inr (ks, m)"
    and "length acc \<le> MAX_ACCESS_LIST_STORAGE_KEYS_PER_ENTRY" "n \<le> MAX_ACCESS_LIST_STORAGE_KEYS"
    and "length acc \<le> n"
  shows "length ks \<le> MAX_ACCESS_LIST_STORAGE_KEYS_PER_ENTRY \<and> m \<le> MAX_ACCESS_LIST_STORAGE_KEYS \<and>
    m + length acc = n + length ks"
  using assms
proof (induction acc n bs rule: take_storage_keys.induct)
  case (1 acc n bs)
  show ?case
  proof (cases "bs = []")
    case True
    then show ?thesis using 1 by (simp add: take_storage_keys.simps)
  next
    case False
    with "1.prems" obtain key rest where
      g: "\<not> (MAX_ACCESS_LIST_STORAGE_KEYS_PER_ENTRY \<le> length acc \<or> MAX_ACCESS_LIST_STORAGE_KEYS \<le> n)"
      and t: "rlp_take_bytes bs = Inr (key, rest)" "length key = 32"
      and r: "take_storage_keys (acc @ [Arr key]) (n + 1) rest = Inr (ks, m)"
      by (subst (asm) take_storage_keys.simps) (auto split: if_splits sum.splits prod.splits)
    then show ?thesis
      using "1.IH" [OF False g t(1) refl] t r "1.prems" by auto
  qed
qed

lemma take_entries_sound:
  assumes "take_entries acc n bs = Inr al" and "access_list_limits acc" and "n = total_keys_of acc"
  shows "access_list_limits al"
  using assms
proof (induction acc n bs rule: take_entries.induct)
  case (1 acc n bs)
  show ?case
  proof (cases "bs = []")
    case True
    then show ?thesis using 1 by (simp add: take_entries.simps)
  next
    case False
    with "1.prems"(1) obtain entry rest ep ad ep2 keys sk m where
      g: "\<not> MAX_ACCESS_LIST_ENTRIES \<le> length acc"
      and t: "rlp_take_raw bs = Inr (entry, rest)" "decode_rlp_list entry = Inr ep"
        "rlp_take_bytes ep = Inr (ad, ep2)" "length ad = 20"
        "rlp_take_item ep2 = Inr ((True, keys), [])" "take_storage_keys [] n keys = Inr (sk, m)"
      and r: "take_entries (acc @ [\<lparr>al_address = Arr ad, al_storage_keys = sk\<rparr>]) m rest = Inr al"
      by (subst (asm) take_entries.simps)
        (auto simp: res_simps split: if_splits sum.splits prod.splits)
    have s: "length sk \<le> MAX_ACCESS_LIST_STORAGE_KEYS_PER_ENTRY" "m \<le> MAX_ACCESS_LIST_STORAGE_KEYS"
      "m = n + length sk"
      using take_storage_keys_sound [OF t(6)] "1.prems" by (auto simp: access_list_limits_def)
    then have "access_list_limits (acc @ [\<lparr>al_address = Arr ad, al_storage_keys = sk\<rparr>])"
      using "1.prems" g unfolding access_list_limits_snoc by (simp add: access_list_limits_def)
    then show ?thesis
      using "1.IH" [OF False g t(1) refl] t r s "1.prems" by (simp add: total_keys_of_def)
  qed
qed

lemma decode_access_list_sound:
  "rlp_decode_access_list bs = Inr (al, rest) \<Longrightarrow> access_list_limits al"
  by (auto simp: rlp_decode_access_list_def res_simps access_list_limits_def total_keys_of_def
      split: if_splits prod.splits dest!: take_entries_sound)

section \<open>The two encoders agree\<close>

lemma eip1559_rlp_eq:
  "eip1559_rlp_header = rlp_encode_header" "eip1559_rlp_list_payload = rlp_encode_list_payload"
  "eip1559_rlp_list = encode_rlp_list" "eip1559_rlp_bytes = rlp_encode_bytes"
  "eip1559_rlp_u64 = rlp_encode_u64" "eip1559_rlp_u128 = rlp_encode_u128"
  "eip1559_rlp_word = rlp_encode_word" "eip1559_encode_access_list = encode_access_list"
  "eip1559_typed_rlp = encode_typed_rlp 2"
proof -
  show h: "eip1559_rlp_header = rlp_encode_header"
    by (intro ext) (simp add: eip1559_rlp_header_def rlp_encode_header_def)
  show p: "eip1559_rlp_list_payload = rlp_encode_list_payload"
    by (intro ext) (simp add: eip1559_rlp_list_payload_def rlp_encode_list_payload_def h)
  show l: "eip1559_rlp_list = encode_rlp_list"
    by (intro ext) (simp add: eip1559_rlp_list_def encode_rlp_list_def p)
  show b: "eip1559_rlp_bytes = rlp_encode_bytes"
    by (intro ext) (simp add: eip1559_rlp_bytes_def rlp_encode_bytes_def h)
  show "eip1559_rlp_u64 = rlp_encode_u64" "eip1559_rlp_u128 = rlp_encode_u128"
    by (intro ext, simp add: eip1559_rlp_u64_def rlp_encode_u64_def b
        eip1559_rlp_u128_def rlp_encode_u128_def)+
  show "eip1559_rlp_word = rlp_encode_word"
    by (intro ext) (simp add: eip1559_rlp_word_def rlp_encode_word_def b Let_def)
  show "eip1559_encode_access_list = encode_access_list"
    by (intro ext) (simp add: eip1559_encode_access_list_def encode_access_list_def b l)
  show "eip1559_typed_rlp = encode_typed_rlp 2"
    by (intro ext) (simp add: eip1559_typed_rlp_def encode_typed_rlp_def p)
qed

end
