(* ===== verification/Raw_Tx.thy ===== *)
theory Raw_Tx
  imports Rlp Demo
begin

text \<open>
  Signed transactions as wallets send them: the decoders of \<open>blq-node/src/main.rs\<close> for the
  three wire formats, the signing payloads and signed bytes the node recomputes, and the
  signature check of transactions that arrive from peers or inside blocks.
\<close>

definition decode_hex :: "ext \<Rightarrow> string \<Rightarrow> raw_error + bytes" where
  "decode_hex e value = res_of_option RawHex (x_hex_decode e (strip_0x value))"

definition validate_raw_chain_id :: "u64 \<Rightarrow> raw_error + unit" where
  "validate_raw_chain_id chain_id = ensure (chain_id = MAINNET_CHAIN_ID) WrongChainId"

definition reject_high_s_signature :: "ext \<Rightarrow> transaction_signature \<Rightarrow> raw_error + unit" where
  "reject_high_s_signature e sg =
     ensure (\<not> x_high_s e (sig_r sg) (sig_s sg) (sig_y_parity sg)) HighS"

definition recover_signer :: "ext \<Rightarrow> transaction_signature \<Rightarrow> bytes \<Rightarrow> raw_error + address" where
  "recover_signer e sg signing_payload =
     res_of_option NoSigner
       (x_recover e (sig_r sg) (sig_s sg) (sig_y_parity sg) (x_keccak256 e signing_payload))"

text \<open>The loop that cuts off the raw bytes of the first \<open>n\<close> items.\<close>

fun take_raw_fields :: "nat \<Rightarrow> bytes \<Rightarrow> raw_error + (bytes list \<times> bytes)" where
  "take_raw_fields 0 rest = Inr ([], rest)"
| "take_raw_fields (Suc n) rest =
     res_bind (rlp_take_raw rest) (\<lambda>(f, rest).
     res_bind (take_raw_fields n rest) (\<lambda>(fs, rest). Inr (f # fs, rest)))"

definition encode_typed_signing_payload :: "bytes \<Rightarrow> nat \<Rightarrow> u8 \<Rightarrow> raw_error + bytes" where
  "encode_typed_signing_payload payload field_count transaction_type =
     res_bind (take_raw_fields field_count payload) (\<lambda>(fs, rest).
       if rest = [] then Inl MissingSignatureFields
       else Inr (encode_typed_rlp transaction_type (concat fs)))"

definition decode_eip1559_transaction :: "ext \<Rightarrow> bytes \<Rightarrow> raw_error + transaction" where
  "decode_eip1559_transaction e raw_bytes =
     res_bind (decode_rlp_list (drop 1 raw_bytes)) (\<lambda>payload.
     res_bind (encode_typed_signing_payload payload 9 0x02) (\<lambda>signing_payload.
     res_bind (rlp_take_u64 payload) (\<lambda>(chain_id, payload).
     res_bind (validate_raw_chain_id chain_id) (\<lambda>_.
     res_bind (rlp_take_u64 payload) (\<lambda>(nonce, payload).
     res_bind (rlp_take_u128 payload) (\<lambda>(max_priority_fee_per_gas, payload).
     res_bind (rlp_take_u128 payload) (\<lambda>(max_fee_per_gas, payload).
     res_bind (rlp_take_u64 payload) (\<lambda>(gas_limit, payload).
     res_bind (rlp_take_optional_address payload) (\<lambda>(to, payload).
     res_bind (rlp_take_u128 payload) (\<lambda>(value, payload).
     res_bind (rlp_take_bytes payload) (\<lambda>(input, payload).
     if MAX_TRANSACTION_PAYLOAD_BYTES < length input then Inl PayloadTooLargeRaw else
     res_bind (rlp_decode_access_list payload) (\<lambda>(access_list, payload).
     res_bind (rlp_take_u64 payload) (\<lambda>(y_parity, payload).
     if 1 < y_parity then Inl BadParity else
     res_bind (rlp_take_word payload) (\<lambda>(r, payload).
     res_bind (rlp_take_word payload) (\<lambda>(s, payload).
     if payload \<noteq> [] then Inl TrailingFields else
     let sg = \<lparr>sig_y_parity = (y_parity = 1), sig_r = r, sig_s = s\<rparr> in
     res_bind (reject_high_s_signature e sg) (\<lambda>_.
     res_bind (recover_signer e sg signing_payload) (\<lambda>signer.
     Inr \<lparr>tx_chain_id = chain_id, tx_type = 2, tx_nonce = nonce, tx_from = signer, tx_to = to,
       tx_value = value, tx_gas_limit = gas_limit, tx_max_fee_per_gas = max_fee_per_gas,
       tx_max_priority_fee_per_gas = max_priority_fee_per_gas, tx_payload = input,
       tx_access_list = access_list, tx_signature = Some sg,
       tx_external_hash = Some (x_keccak256 e raw_bytes)\<rparr>)))))))))))))))))"

definition decode_eip2930_transaction :: "ext \<Rightarrow> bytes \<Rightarrow> raw_error + transaction" where
  "decode_eip2930_transaction e raw_bytes =
     res_bind (decode_rlp_list (drop 1 raw_bytes)) (\<lambda>payload.
     res_bind (encode_typed_signing_payload payload 8 0x01) (\<lambda>signing_payload.
     res_bind (rlp_take_u64 payload) (\<lambda>(chain_id, payload).
     res_bind (validate_raw_chain_id chain_id) (\<lambda>_.
     res_bind (rlp_take_u64 payload) (\<lambda>(nonce, payload).
     res_bind (rlp_take_u128 payload) (\<lambda>(gas_price, payload).
     res_bind (rlp_take_u64 payload) (\<lambda>(gas_limit, payload).
     res_bind (rlp_take_optional_address payload) (\<lambda>(to, payload).
     res_bind (rlp_take_u128 payload) (\<lambda>(value, payload).
     res_bind (rlp_take_bytes payload) (\<lambda>(input, payload).
     if MAX_TRANSACTION_PAYLOAD_BYTES < length input then Inl PayloadTooLargeRaw else
     res_bind (rlp_decode_access_list payload) (\<lambda>(access_list, payload).
     res_bind (rlp_take_u64 payload) (\<lambda>(y_parity, payload).
     if 1 < y_parity then Inl BadParity else
     res_bind (rlp_take_word payload) (\<lambda>(r, payload).
     res_bind (rlp_take_word payload) (\<lambda>(s, payload).
     if payload \<noteq> [] then Inl TrailingFields else
     let sg = \<lparr>sig_y_parity = (y_parity = 1), sig_r = r, sig_s = s\<rparr> in
     res_bind (reject_high_s_signature e sg) (\<lambda>_.
     res_bind (recover_signer e sg signing_payload) (\<lambda>signer.
     Inr \<lparr>tx_chain_id = chain_id, tx_type = 1, tx_nonce = nonce, tx_from = signer, tx_to = to,
       tx_value = value, tx_gas_limit = gas_limit, tx_max_fee_per_gas = gas_price,
       tx_max_priority_fee_per_gas = 0, tx_payload = input,
       tx_access_list = access_list, tx_signature = Some sg,
       tx_external_hash = Some (x_keccak256 e raw_bytes)\<rparr>))))))))))))))))"

text \<open>The match on \<open>v\<close>: the chain id, the parity and the fields appended for signing.\<close>

definition legacy_chain :: "u64 \<Rightarrow> raw_error + (u64 \<times> bool \<times> bytes list)" where
  "legacy_chain v =
     (if v = 27 \<or> v = 28 then Inl UnprotectedLegacy
      else if 35 \<le> v then
        (let adjusted = v - 35; chain_id = adjusted div 2
         in Inr (chain_id, adjusted mod 2 = 1,
              [rlp_encode_u64 chain_id, rlp_encode_bytes [], rlp_encode_bytes []]))
      else Inl BadLegacyV)"

definition decode_legacy_transaction :: "ext \<Rightarrow> bytes \<Rightarrow> raw_error + transaction" where
  "decode_legacy_transaction e raw_bytes =
     res_bind (decode_rlp_list raw_bytes) (\<lambda>payload.
     res_bind (take_raw_fields 6 payload) (\<lambda>(signing_fields, payload).
     res_bind (decode_u64_field (signing_fields ! 0)) (\<lambda>nonce.
     res_bind (decode_u128_field (signing_fields ! 1)) (\<lambda>gas_price.
     res_bind (decode_u64_field (signing_fields ! 2)) (\<lambda>gas_limit.
     res_bind (rlp_take_optional_address (signing_fields ! 3)) (\<lambda>(to, to_input).
     if to_input \<noteq> [] then Inl BadLegacyRecipient else
     res_bind (decode_u128_field (signing_fields ! 4)) (\<lambda>value.
     res_bind (decode_bytes_field (signing_fields ! 5)) (\<lambda>input.
     if MAX_TRANSACTION_PAYLOAD_BYTES < length input then Inl PayloadTooLargeRaw else
     res_bind (rlp_take_u64 payload) (\<lambda>(v, payload).
     res_bind (rlp_take_word payload) (\<lambda>(r, payload).
     res_bind (rlp_take_word payload) (\<lambda>(s, payload).
     if payload \<noteq> [] then Inl TrailingFields else
     res_bind (legacy_chain v) (\<lambda>(chain_id, y_parity, chain_fields).
     res_bind (validate_raw_chain_id chain_id) (\<lambda>_.
     let sg = \<lparr>sig_y_parity = y_parity, sig_r = r, sig_s = s\<rparr> in
     res_bind (reject_high_s_signature e sg) (\<lambda>_.
     res_bind (recover_signer e sg (encode_rlp_list (signing_fields @ chain_fields))) (\<lambda>signer.
     Inr \<lparr>tx_chain_id = chain_id, tx_type = 0, tx_nonce = nonce, tx_from = signer, tx_to = to,
       tx_value = value, tx_gas_limit = gas_limit, tx_max_fee_per_gas = gas_price,
       tx_max_priority_fee_per_gas = 0, tx_payload = input,
       tx_access_list = [], tx_signature = Some sg,
       tx_external_hash = Some (x_keccak256 e raw_bytes)\<rparr>)))))))))))))))"

definition decode_raw_transaction :: "ext \<Rightarrow> string \<Rightarrow> raw_error + transaction" where
  "decode_raw_transaction e raw =
     res_bind (decode_hex e raw) (\<lambda>raw_bytes.
       case raw_bytes of
         [] \<Rightarrow> Inl UnsupportedRawType
       | v # _ \<Rightarrow>
           if v = 0x01 then decode_eip2930_transaction e raw_bytes
           else if v = 0x02 then decode_eip1559_transaction e raw_bytes
           else if 0xc0 \<le> v then decode_legacy_transaction e raw_bytes
           else Inl UnsupportedRawType)"

section \<open>What a transaction signs, and its signed bytes\<close>

definition transaction_signing_payload :: "transaction \<Rightarrow> raw_error + bytes" where
  "transaction_signing_payload t =
     (let recipient = recipient_bytes t; access_list = encode_access_list (tx_access_list t)
      in if tx_type t = 1 then
           Inr (encode_typed_rlp 0x01 (concat [
             rlp_encode_u64 (tx_chain_id t), rlp_encode_u64 (tx_nonce t),
             rlp_encode_u128 (tx_max_fee_per_gas t), rlp_encode_u64 (tx_gas_limit t),
             rlp_encode_bytes recipient, rlp_encode_u128 (tx_value t),
             rlp_encode_bytes (tx_payload t), access_list]))
         else if tx_type t = 2 then eip1559_signing_payload t
         else if tx_type t = 0 then
           Inr (encode_rlp_list [
             rlp_encode_u64 (tx_nonce t), rlp_encode_u128 (tx_max_fee_per_gas t),
             rlp_encode_u64 (tx_gas_limit t), rlp_encode_bytes recipient,
             rlp_encode_u128 (tx_value t), rlp_encode_bytes (tx_payload t),
             rlp_encode_u64 (tx_chain_id t), rlp_encode_bytes [], rlp_encode_bytes []])
         else Inl UnsupportedType)"

definition transaction_signed_bytes :: "transaction \<Rightarrow> raw_error + bytes" where
  "transaction_signed_bytes t =
     (let recipient = recipient_bytes t; access_list = encode_access_list (tx_access_list t)
      in case tx_signature t of
        None \<Rightarrow> Inl NoSignature
      | Some sg \<Rightarrow>
          (let r = rlp_encode_word (sig_r sg); s = rlp_encode_word (sig_s sg)
           in if tx_type t = 1 then
             Inr (encode_typed_rlp 0x01 (concat [
               rlp_encode_u64 (tx_chain_id t), rlp_encode_u64 (tx_nonce t),
               rlp_encode_u128 (tx_max_fee_per_gas t), rlp_encode_u64 (tx_gas_limit t),
               rlp_encode_bytes recipient, rlp_encode_u128 (tx_value t),
               rlp_encode_bytes (tx_payload t), access_list,
               rlp_encode_u64 (if sig_y_parity sg then 1 else 0), r, s]))
           else if tx_type t = 2 then eip1559_signed_bytes t
           else if tx_type t = 0 then
             Inr (encode_rlp_list [
               rlp_encode_u64 (tx_nonce t), rlp_encode_u128 (tx_max_fee_per_gas t),
               rlp_encode_u64 (tx_gas_limit t), rlp_encode_bytes recipient,
               rlp_encode_u128 (tx_value t), rlp_encode_bytes (tx_payload t),
               rlp_encode_u64 (saturating_add (saturating_add (saturating_mul (tx_chain_id t) 2) 35)
                 (if sig_y_parity sg then 1 else 0)), r, s])
           else Inl UnsupportedType))"

definition verify_transaction_signature :: "ext \<Rightarrow> transaction \<Rightarrow> raw_error + unit" where
  "verify_transaction_signature e t =
     (case tx_signature t of
        None \<Rightarrow> Inl NoSignature
      | Some sg \<Rightarrow>
          res_bind (reject_high_s_signature e sg) (\<lambda>_.
          res_bind (transaction_signing_payload t) (\<lambda>payload.
          res_bind (recover_signer e sg payload) (\<lambda>recovered.
          if recovered \<noteq> tx_from t then Inl SenderMismatch
          else case tx_external_hash t of
            None \<Rightarrow> Inr ()
          | Some external_hash \<Rightarrow>
              res_bind (transaction_signed_bytes t) (\<lambda>bs.
                ensure (external_hash = x_keccak256 e bs) ExternalHashMismatch)))))"

section \<open>Decoding what the node encodes\<close>

text \<open>A byte string that is exactly one item of the coding.\<close>

definition rlp_item :: "bytes \<Rightarrow> bool" where
  "rlp_item f \<longleftrightarrow> (\<forall>rest. \<exists>it. rlp_take_item (f @ rest) = Inr (it, rest))"

lemma rlp_item_bytes [simp]: "vec_len bs \<Longrightarrow> rlp_item (rlp_encode_bytes bs)"
  using take_item_bytes unfolding rlp_item_def by blast

lemma rlp_item_list [simp]: "vec_len p \<Longrightarrow> rlp_item (rlp_encode_list_payload p)"
  using take_item_list unfolding rlp_item_def by blast

lemma min_be_short: "length bs \<le> 64 \<Longrightarrow> vec_len (min_be bs)"
  using min_be_length [of bs] by simp

lemma rlp_item_u64 [simp]: "rlp_item (rlp_encode_u64 v)"
  unfolding rlp_encode_u64_min by (intro rlp_item_bytes min_be_short) (simp add: be_simps)

lemma rlp_item_u128 [simp]: "rlp_item (rlp_encode_u128 v)"
  unfolding rlp_encode_u128_min by (intro rlp_item_bytes min_be_short) (simp add: be_simps)

lemma rlp_item_address [simp]: "rlp_item (rlp_encode_optional_address a)"
  by (simp add: rlp_encode_optional_address_def split: option.splits)

lemma rlp_item_access_list [simp]: "access_list_limits al \<Longrightarrow> rlp_item (encode_access_list al)"
  using access_list_payload_len [of al] by (simp add: encode_access_list_entries)

lemma take_raw_rlp_item: "rlp_item f \<Longrightarrow> rlp_take_raw (f @ rest) = Inr (f, rest)"
  unfolding rlp_item_def using take_raw_item by blast

lemma take_raw_fields_concat:
  "list_all rlp_item fs \<Longrightarrow> length fs = n \<Longrightarrow> take_raw_fields n (concat fs @ rest) = Inr (fs, rest)"
  by (induction fs arbitrary: n) (auto simp: take_raw_rlp_item)

lemma encode_recipient: "rlp_encode_bytes (recipient_bytes t) = rlp_encode_optional_address (tx_to t)"
  by (simp add: recipient_bytes_def rlp_encode_optional_address_def)

lemmas roundtrips = u64_codec.roundtrip u128_codec.roundtrip word_codec.roundtrip
  recipient_codec.roundtrip bytes_codec.roundtrip access_list_codec.roundtrip
  word_codec.roundtrip_end u64_codec.roundtrip_end u128_codec.roundtrip_end
  bytes_codec.roundtrip_end recipient_codec.roundtrip_end

text \<open>What both decoders of typed transactions demand of the fields.\<close>

definition raw_fields_ok :: "transaction \<Rightarrow> bool" where
  "raw_fields_ok t \<longleftrightarrow> tx_chain_id t = MAINNET_CHAIN_ID \<and>
     length (tx_payload t) \<le> MAX_TRANSACTION_PAYLOAD_BYTES \<and> access_list_limits (tx_access_list t)"

text \<open>
  The type 2 payload with the parity field as a parameter: the decoder accepts more than one
  spelling of the parity.
\<close>

definition eip1559_fields :: "transaction \<Rightarrow> bytes list" where
  "eip1559_fields t = [rlp_encode_u64 (tx_chain_id t), rlp_encode_u64 (tx_nonce t),
     rlp_encode_u128 (tx_max_priority_fee_per_gas t), rlp_encode_u128 (tx_max_fee_per_gas t),
     rlp_encode_u64 (tx_gas_limit t), rlp_encode_optional_address (tx_to t),
     rlp_encode_u128 (tx_value t), rlp_encode_bytes (tx_payload t),
     encode_access_list (tx_access_list t)]"

definition eip1559_wire :: "transaction \<Rightarrow> bytes \<Rightarrow> bytes" where
  "eip1559_wire t parity = (case tx_signature t of None \<Rightarrow> [] | Some sg \<Rightarrow>
     encode_typed_rlp 2 (concat (eip1559_fields t) @ parity @
       rlp_encode_word (sig_r sg) @ rlp_encode_word (sig_s sg)))"

definition parity_bytes :: "bool \<Rightarrow> bytes \<Rightarrow> bool" where
  "parity_bytes y p \<longleftrightarrow> (\<forall>rest. rlp_take_u64 (p @ rest) = Inr (if y then 1 else 0, rest)) \<and>
     p \<noteq> [] \<and> length p \<le> 9"

lemma length_word_enc: "length (rlp_encode_word w) \<le> 41"
  using min_be_length [of "arr_bytes w"] length_rlp_bytes [of "min_be (arr_bytes w)"]
  by (simp add: rlp_encode_word_min)

lemma length_u64_enc: "length (rlp_encode_u64 v) \<le> 17"
  using min_be_length [of "to_be_bytes v"] length_rlp_bytes [of "min_be (to_be_bytes v)"]
  by (simp add: rlp_encode_u64_min be_simps)

lemma length_u128_enc: "length (rlp_encode_u128 v) \<le> 25"
  using min_be_length [of "to_be_bytes v"] length_rlp_bytes [of "min_be (to_be_bytes v)"]
  by (simp add: rlp_encode_u128_min be_simps)

lemma length_recipient_enc: "length (rlp_encode_optional_address a) \<le> 29"
  using length_rlp_bytes [of "[]"] length_rlp_bytes [of "arr_bytes (the a)"]
  by (cases a) (simp_all add: rlp_encode_optional_address_def)

lemma length_access_enc: "access_list_limits al \<Longrightarrow> length (encode_access_list al) \<le> 12800009"
  using access_list_payload_len [of al] length_rlp_list [of "concat (map entry_bytes al)"]
  by (simp add: encode_access_list_entries)

lemma length_payload_enc:
  "length p \<le> MAX_TRANSACTION_PAYLOAD_BYTES \<Longrightarrow> length (rlp_encode_bytes p) \<le> 131081"
  using length_rlp_bytes [of p] by (simp add: blq_consts)

lemma eip1559_wire_size:
  assumes "raw_fields_ok t" "length parity \<le> 9"
  shows "vec_len (concat (eip1559_fields t) @ parity @ rlp_encode_word r @ rlp_encode_word s)"
  using assms length_word_enc [of r] length_word_enc [of s] length_u64_enc [of "tx_chain_id t"]
    length_u64_enc [of "tx_nonce t"] length_u64_enc [of "tx_gas_limit t"]
    length_u128_enc [of "tx_max_priority_fee_per_gas t"] length_u128_enc [of "tx_max_fee_per_gas t"]
    length_u128_enc [of "tx_value t"] length_recipient_enc [of "tx_to t"]
    length_payload_enc [of "tx_payload t"] length_access_enc [of "tx_access_list t"]
  by (simp add: eip1559_fields_def raw_fields_ok_def)

lemma payload_vec_len: "length p \<le> MAX_TRANSACTION_PAYLOAD_BYTES \<Longrightarrow> vec_len p"
  by (simp add: blq_consts)

lemma eip1559_fields_items: "raw_fields_ok t \<Longrightarrow> list_all rlp_item (eip1559_fields t)"
  using rlp_item_bytes [OF payload_vec_len, of "tx_payload t"]
  by (simp add: eip1559_fields_def raw_fields_ok_def)

lemma typed_signing_payload_fields:
  assumes "list_all rlp_item fs" "length fs = n" "rest \<noteq> []"
  shows "encode_typed_signing_payload (concat fs @ rest) n ty = Inr (encode_typed_rlp ty (concat fs))"
  using take_raw_fields_concat [OF assms(1,2), of rest] assms(3)
  by (simp add: encode_typed_signing_payload_def)

lemma decode_eip1559_wire:
  assumes ok: "raw_fields_ok t" and sg: "tx_signature t = Some sg"
    and par: "parity_bytes (sig_y_parity sg) parity"
    and ty: "tx_type t = 2" and low: "\<not> x_high_s e (sig_r sg) (sig_s sg) (sig_y_parity sg)"
    and rec: "recover_signer e sg (encode_typed_rlp 2 (concat (eip1559_fields t))) = Inr (tx_from t)"
  shows "decode_eip1559_transaction e (eip1559_wire t parity) =
    Inr (t\<lparr>tx_external_hash := Some (x_keccak256 e (eip1559_wire t parity))\<rparr>)"
proof -
  define body where "body = concat (eip1559_fields t) @ parity @
    rlp_encode_word (sig_r sg) @ rlp_encode_word (sig_s sg)"
  have wire: "drop 1 (eip1559_wire t parity) = rlp_encode_list_payload body"
    by (simp add: eip1559_wire_def sg encode_typed_rlp_def body_def)
  have "decode_rlp_list (drop 1 (eip1559_wire t parity)) = Inr body"
    unfolding wire using eip1559_wire_size [OF ok, of parity] par
    by (intro decode_list_payload) (simp add: body_def parity_bytes_def)
  moreover have "encode_typed_signing_payload body 9 2 =
      Inr (encode_typed_rlp 2 (concat (eip1559_fields t)))"
    unfolding body_def using par eip1559_fields_items [OF ok]
    by (intro typed_signing_payload_fields) (simp_all add: eip1559_fields_def parity_bytes_def)
  moreover have b: "body = rlp_encode_u64 (tx_chain_id t) @ rlp_encode_u64 (tx_nonce t) @
     rlp_encode_u128 (tx_max_priority_fee_per_gas t) @ rlp_encode_u128 (tx_max_fee_per_gas t) @
     rlp_encode_u64 (tx_gas_limit t) @ rlp_encode_optional_address (tx_to t) @
     rlp_encode_u128 (tx_value t) @ rlp_encode_bytes (tx_payload t) @
     encode_access_list (tx_access_list t) @ parity @
     rlp_encode_word (sig_r sg) @ rlp_encode_word (sig_s sg)"
    by (simp add: body_def eip1559_fields_def)
  moreover have "length (tx_payload t) \<le> MAX_TRANSACTION_PAYLOAD_BYTES" "vec_len (tx_payload t)"
    "access_list_limits (tx_access_list t)" "tx_chain_id t = MAINNET_CHAIN_ID"
    using ok payload_vec_len [of "tx_payload t"] by (simp_all add: raw_fields_ok_def)
  moreover have "rlp_take_u64 (parity @ rest) = Inr (if sig_y_parity sg then 1 else 0, rest)" for rest
    using par by (simp add: parity_bytes_def)
  ultimately show ?thesis
    using sg ty low rec unfolding decode_eip1559_transaction_def
    by (cases t; cases sg; cases "sig_y_parity sg") (simp_all add: Let_def roundtrips validate_raw_chain_id_def ensure_def
        reject_high_s_signature_def not_less)
qed


lemma parity_canonical: "parity_bytes y (rlp_encode_u64 (if y then 1 else 0))"
proof -
  have "length (rlp_encode_u64 1) \<le> 9" "length (rlp_encode_u64 0) \<le> 9"
    by code_simp+
  then have "length (rlp_encode_u64 (if y then 1 else 0)) \<le> 9"
    by simp
  moreover have "rlp_encode_u64 v \<noteq> []" for v
    by (simp add: rlp_encode_u64_min)
  ultimately show ?thesis by (simp add: parity_bytes_def roundtrips)
qed

text \<open>A parity of zero may also be spelled as the single byte \<open>0x00\<close>.\<close>

lemma parity_zero_byte: "parity_bytes False [0]"
  by (simp add: parity_bytes_def rlp_take_u64_def rlp_take_u128_def rlp_take_bytes_def
      rlp_take_item_def u128_of_bytes_def)

lemma eip1559_payloads:
  assumes "tx_type t = 2"
  shows "transaction_signing_payload t = Inr (encode_typed_rlp 2 (concat (eip1559_fields t)))"
    and "tx_signature t = Some sg \<Longrightarrow> transaction_signed_bytes t =
      Inr (eip1559_wire t (rlp_encode_u64 (if sig_y_parity sg then 1 else 0)))"
  using assms
  by (simp_all add: transaction_signing_payload_def transaction_signed_bytes_def Let_def
      eip1559_signing_payload_def eip1559_signed_bytes_def eip1559_rlp_eq eip1559_fields_def
      eip1559_wire_def encode_recipient)

section \<open>Access-list transactions of type 1\<close>

definition eip2930_fields :: "transaction \<Rightarrow> bytes list" where
  "eip2930_fields t = [rlp_encode_u64 (tx_chain_id t), rlp_encode_u64 (tx_nonce t),
     rlp_encode_u128 (tx_max_fee_per_gas t),
     rlp_encode_u64 (tx_gas_limit t), rlp_encode_optional_address (tx_to t),
     rlp_encode_u128 (tx_value t), rlp_encode_bytes (tx_payload t),
     encode_access_list (tx_access_list t)]"

definition eip2930_body :: "transaction \<Rightarrow> transaction_signature \<Rightarrow> bytes" where
  "eip2930_body t sg = concat (eip2930_fields t) @ rlp_encode_u64 (if sig_y_parity sg then 1 else 0) @
     rlp_encode_word (sig_r sg) @ rlp_encode_word (sig_s sg)"

lemma eip2930_body_size:
  assumes "raw_fields_ok t"
  shows "vec_len (eip2930_body t sg)"
  using assms length_word_enc [of "sig_r sg"] length_word_enc [of "sig_s sg"]
    length_u64_enc [of "if sig_y_parity sg then 1 else 0"] length_u64_enc [of "tx_chain_id t"]
    length_u64_enc [of "tx_nonce t"] length_u64_enc [of "tx_gas_limit t"]
    length_u128_enc [of "tx_max_fee_per_gas t"]
    length_u128_enc [of "tx_value t"] length_recipient_enc [of "tx_to t"]
    length_payload_enc [of "tx_payload t"] length_access_enc [of "tx_access_list t"]
  unfolding eip2930_body_def eip2930_fields_def raw_fields_ok_def by simp

lemma eip2930_fields_items: "raw_fields_ok t \<Longrightarrow> list_all rlp_item (eip2930_fields t)"
  using rlp_item_bytes [OF payload_vec_len, of "tx_payload t"]
  by (simp add: eip2930_fields_def raw_fields_ok_def)

lemma rlp_encode_u64_nonempty [simp]: "rlp_encode_u64 v \<noteq> []"
  by (simp add: rlp_encode_u64_min)

lemma eip2930_payloads:
  assumes "tx_type t = 1"
  shows "transaction_signing_payload t = Inr (encode_typed_rlp 1 (concat (eip2930_fields t)))"
    and "tx_signature t = Some sg \<Longrightarrow>
      transaction_signed_bytes t = Inr (encode_typed_rlp 1 (eip2930_body t sg))"
  using assms
  by (simp_all add: transaction_signing_payload_def transaction_signed_bytes_def Let_def
      eip2930_fields_def eip2930_body_def encode_recipient)

lemma decode_eip2930_wire:
  assumes ok: "raw_fields_ok t" and sg: "tx_signature t = Some sg" and ty: "tx_type t = 1"
    and prio: "tx_max_priority_fee_per_gas t = 0"
    and low: "\<not> x_high_s e (sig_r sg) (sig_s sg) (sig_y_parity sg)"
    and rec: "recover_signer e sg (encode_typed_rlp 1 (concat (eip2930_fields t))) = Inr (tx_from t)"
  shows "decode_eip2930_transaction e (encode_typed_rlp 1 (eip2930_body t sg)) =
    Inr (t\<lparr>tx_external_hash := Some (x_keccak256 e (encode_typed_rlp 1 (eip2930_body t sg)))\<rparr>)"
proof -
  have wire: "drop 1 (encode_typed_rlp 1 (eip2930_body t sg)) = rlp_encode_list_payload (eip2930_body t sg)"
    by (simp add: encode_typed_rlp_def)
  have "decode_rlp_list (drop 1 (encode_typed_rlp 1 (eip2930_body t sg))) = Inr (eip2930_body t sg)"
    unfolding wire using eip2930_body_size [OF ok] by (intro decode_list_payload)
  moreover have "encode_typed_signing_payload (eip2930_body t sg) 8 1 =
      Inr (encode_typed_rlp 1 (concat (eip2930_fields t)))"
    unfolding eip2930_body_def using eip2930_fields_items [OF ok]
    by (intro typed_signing_payload_fields) (simp_all add: eip2930_fields_def)
  moreover have b: "eip2930_body t sg = rlp_encode_u64 (tx_chain_id t) @ rlp_encode_u64 (tx_nonce t) @
     rlp_encode_u128 (tx_max_fee_per_gas t) @
     rlp_encode_u64 (tx_gas_limit t) @ rlp_encode_optional_address (tx_to t) @
     rlp_encode_u128 (tx_value t) @ rlp_encode_bytes (tx_payload t) @
     encode_access_list (tx_access_list t) @ rlp_encode_u64 (if sig_y_parity sg then 1 else 0) @
     rlp_encode_word (sig_r sg) @ rlp_encode_word (sig_s sg)"
    by (simp add: eip2930_body_def eip2930_fields_def)
  moreover have "length (tx_payload t) \<le> MAX_TRANSACTION_PAYLOAD_BYTES" "vec_len (tx_payload t)"
    "access_list_limits (tx_access_list t)" "tx_chain_id t = MAINNET_CHAIN_ID"
    using ok payload_vec_len [of "tx_payload t"] by (simp_all add: raw_fields_ok_def)
  ultimately show ?thesis
    using sg ty low rec prio unfolding decode_eip2930_transaction_def
    by (cases t; cases sg; cases "sig_y_parity sg") (simp_all add: Let_def roundtrips validate_raw_chain_id_def ensure_def
        reject_high_s_signature_def not_less)
qed

section \<open>Legacy transactions\<close>

definition legacy_fields :: "transaction \<Rightarrow> bytes list" where
  "legacy_fields t = [rlp_encode_u64 (tx_nonce t), rlp_encode_u128 (tx_max_fee_per_gas t),
     rlp_encode_u64 (tx_gas_limit t), rlp_encode_optional_address (tx_to t),
     rlp_encode_u128 (tx_value t), rlp_encode_bytes (tx_payload t)]"

definition legacy_v :: "transaction \<Rightarrow> transaction_signature \<Rightarrow> u64" where
  "legacy_v t sg = saturating_add (saturating_add (saturating_mul (tx_chain_id t) 2) 35)
     (if sig_y_parity sg then 1 else 0)"

definition legacy_body :: "transaction \<Rightarrow> transaction_signature \<Rightarrow> bytes" where
  "legacy_body t sg = concat (legacy_fields t) @ rlp_encode_u64 (legacy_v t sg) @
     rlp_encode_word (sig_r sg) @ rlp_encode_word (sig_s sg)"

definition legacy_signing :: "transaction \<Rightarrow> bytes" where
  "legacy_signing t = encode_rlp_list (legacy_fields t @
     [rlp_encode_u64 (tx_chain_id t), rlp_encode_bytes [], rlp_encode_bytes []])"

lemma legacy_chain_v:
  assumes "tx_chain_id t = MAINNET_CHAIN_ID"
  shows "legacy_chain (legacy_v t sg) = Inr (tx_chain_id t, sig_y_parity sg,
    [rlp_encode_u64 (tx_chain_id t), rlp_encode_bytes [], rlp_encode_bytes []])"
proof -
  have "legacy_v t sg = (if sig_y_parity sg then 1414176 else 1414175)"
    by (cases "sig_y_parity sg")
      (simp_all add: legacy_v_def assms blq_consts saturating_add_def saturating_mul_def)
  then show ?thesis by (simp add: legacy_chain_def assms blq_consts)
qed

lemma legacy_body_size:
  assumes "raw_fields_ok t"
  shows "vec_len (legacy_body t sg)"
  using assms length_word_enc [of "sig_r sg"] length_word_enc [of "sig_s sg"]
    length_u64_enc [of "legacy_v t sg"]
    length_u64_enc [of "tx_nonce t"] length_u64_enc [of "tx_gas_limit t"]
    length_u128_enc [of "tx_max_fee_per_gas t"]
    length_u128_enc [of "tx_value t"] length_recipient_enc [of "tx_to t"]
    length_payload_enc [of "tx_payload t"]
  unfolding legacy_body_def legacy_fields_def raw_fields_ok_def by simp

lemma legacy_fields_items: "raw_fields_ok t \<Longrightarrow> list_all rlp_item (legacy_fields t)"
  using rlp_item_bytes [OF payload_vec_len, of "tx_payload t"]
  by (simp add: legacy_fields_def raw_fields_ok_def)

lemma legacy_payloads:
  assumes "tx_type t = 0"
  shows "transaction_signing_payload t = Inr (legacy_signing t)"
    and "tx_signature t = Some sg \<Longrightarrow>
      transaction_signed_bytes t = Inr (rlp_encode_list_payload (legacy_body t sg))"
  using assms
  by (simp_all add: transaction_signing_payload_def transaction_signed_bytes_def Let_def
      legacy_fields_def legacy_body_def legacy_signing_def legacy_v_def encode_rlp_list_def
      encode_recipient)

lemma decode_legacy_wire:
  assumes ok: "raw_fields_ok t" and sg: "tx_signature t = Some sg" and ty: "tx_type t = 0"
    and prio: "tx_max_priority_fee_per_gas t = 0" and al: "tx_access_list t = []"
    and low: "\<not> x_high_s e (sig_r sg) (sig_s sg) (sig_y_parity sg)"
    and rec: "recover_signer e sg (legacy_signing t) = Inr (tx_from t)"
  shows "decode_legacy_transaction e (rlp_encode_list_payload (legacy_body t sg)) =
    Inr (t\<lparr>tx_external_hash := Some (x_keccak256 e (rlp_encode_list_payload (legacy_body t sg)))\<rparr>)"
proof -
  have "decode_rlp_list (rlp_encode_list_payload (legacy_body t sg)) = Inr (legacy_body t sg)"
    using legacy_body_size [OF ok] by (intro decode_list_payload)
  moreover have "take_raw_fields 6 (legacy_body t sg) = Inr (legacy_fields t,
      rlp_encode_u64 (legacy_v t sg) @ rlp_encode_word (sig_r sg) @ rlp_encode_word (sig_s sg))"
    unfolding legacy_body_def using legacy_fields_items [OF ok]
    by (intro take_raw_fields_concat) (simp_all add: legacy_fields_def)
  moreover have "length (tx_payload t) \<le> MAX_TRANSACTION_PAYLOAD_BYTES" "vec_len (tx_payload t)"
    "tx_chain_id t = MAINNET_CHAIN_ID"
    using ok payload_vec_len [of "tx_payload t"] by (simp_all add: raw_fields_ok_def)
  ultimately show ?thesis
    using sg ty low rec prio al legacy_chain_v [of t sg] unfolding decode_legacy_transaction_def
    by (cases t; cases sg; cases "sig_y_parity sg") (simp_all add: Let_def roundtrips validate_raw_chain_id_def ensure_def
        reject_high_s_signature_def not_less legacy_fields_def legacy_signing_def
        decode_u64_field_def decode_u128_field_def decode_bytes_field_def)
qed


section \<open>Admission of signed transactions\<close>

text \<open>
  The shape of transactions the wire formats can carry: a type 0 or 1 transaction has no
  priority fee, a type 0 transaction no access list.
\<close>

definition wire_shape :: "transaction \<Rightarrow> bool" where
  "wire_shape t \<longleftrightarrow> raw_fields_ok t \<and> (tx_type t = 0 \<or> tx_type t = 1 \<or> tx_type t = 2) \<and>
     (tx_type t = 2 \<or> tx_max_priority_fee_per_gas t = 0) \<and>
     (tx_type t \<noteq> 0 \<or> tx_access_list t = [])"

text \<open>The signature is in the lower half and recovers the sender from the signing payload.\<close>

definition signed_by_sender :: "ext \<Rightarrow> transaction \<Rightarrow> bool" where
  "signed_by_sender e t = (case (tx_signature t, transaction_signing_payload t) of
     (Some sg, Inr p) \<Rightarrow> \<not> x_high_s e (sig_r sg) (sig_s sg) (sig_y_parity sg) \<and>
        x_recover e (sig_r sg) (sig_s sg) (sig_y_parity sg) (x_keccak256 e p) = Some (tx_from t)
   | _ \<Rightarrow> False)"

lemma signed_by_senderE:
  assumes "signed_by_sender e t"
  obtains sg p where "tx_signature t = Some sg" "transaction_signing_payload t = Inr p"
    "\<not> x_high_s e (sig_r sg) (sig_s sg) (sig_y_parity sg)" "recover_signer e sg p = Inr (tx_from t)"
  using assms by (auto simp: signed_by_sender_def recover_signer_def split: option.splits sum.splits)

lemma list_prefix_byte:
  assumes "vec_len p"
  shows "\<exists>b bs. rlp_encode_list_payload p = b # bs \<and> 0xc0 \<le> b"
proof (cases "length p < 56")
  case True
  then have "unat (0xc0 + of_nat (length p) :: u8) = 192 + length p"
    using u8_add_val [of 192 "length p"] by simp
  then show ?thesis
    using True by (simp add: rlp_encode_list_payload_def rlp_encode_header_def word_le_nat_alt)
next
  case False
  define k where "k = length (len_bytes_le (length p))"
  have "k \<le> 8" using assms unfolding k_def by (intro length_len_bytes) simp
  then have "unat (0xc0 + 55 + of_nat k :: u8) = 247 + k"
    using u8_add_val [of 247 k] by simp
  then show ?thesis
    using False by (simp add: rlp_encode_list_payload_def rlp_encode_header_def word_le_nat_alt
        Let_def k_def)
qed

lemma decode_hex_encoded: "hex_spec e \<Longrightarrow> decode_hex e (''0x'' @ x_hex_encode e bs) = Inr bs"
  by (simp add: hex_spec_def decode_hex_def)

lemma decode_raw_dispatch:
  assumes "hex_spec e"
  shows "decode_raw_transaction e (''0x'' @ x_hex_encode e (encode_typed_rlp 1 p)) =
      decode_eip2930_transaction e (encode_typed_rlp 1 p)"
    and "decode_raw_transaction e (''0x'' @ x_hex_encode e (encode_typed_rlp 2 p)) =
      decode_eip1559_transaction e (encode_typed_rlp 2 p)"
    and "vec_len p \<Longrightarrow> decode_raw_transaction e (''0x'' @ x_hex_encode e (rlp_encode_list_payload p)) =
      decode_legacy_transaction e (rlp_encode_list_payload p)"
proof -
  show "decode_raw_transaction e (''0x'' @ x_hex_encode e (encode_typed_rlp 1 p)) =
      decode_eip2930_transaction e (encode_typed_rlp 1 p)"
    "decode_raw_transaction e (''0x'' @ x_hex_encode e (encode_typed_rlp 2 p)) =
      decode_eip1559_transaction e (encode_typed_rlp 2 p)"
    unfolding decode_raw_transaction_def decode_hex_encoded [OF assms]
    by (simp_all add: encode_typed_rlp_def)
  assume "vec_len p"
  then obtain b bs where "rlp_encode_list_payload p = b # bs" "0xc0 \<le> b"
    using list_prefix_byte by blast
  moreover from this have "b \<noteq> 1" "b \<noteq> 2" by (auto simp: word_le_nat_alt)
  ultimately show "decode_raw_transaction e (''0x'' @ x_hex_encode e (rlp_encode_list_payload p)) =
      decode_legacy_transaction e (rlp_encode_list_payload p)"
    unfolding decode_raw_transaction_def decode_hex_encoded [OF assms] by simp
qed

lemma decode_raw_signed_bytes:
  assumes hex: "hex_spec e" and shape: "wire_shape t" and sgn: "signed_by_sender e t"
  obtains bs where "transaction_signed_bytes t = Inr bs"
    "decode_raw_transaction e (''0x'' @ x_hex_encode e bs) =
      Inr (t\<lparr>tx_external_hash := Some (x_keccak256 e bs)\<rparr>)"
proof -
  from sgn obtain sg p where sg: "tx_signature t = Some sg" and
    p: "transaction_signing_payload t = Inr p" and
    low: "\<not> x_high_s e (sig_r sg) (sig_s sg) (sig_y_parity sg)" and
    rec: "recover_signer e sg p = Inr (tx_from t)"
    by (rule signed_by_senderE)
  have ok: "raw_fields_ok t" using shape by (simp add: wire_shape_def)
  consider "tx_type t = 0" | "tx_type t = 1" | "tx_type t = 2"
    using shape by (auto simp: wire_shape_def)
  then show thesis
  proof cases
    case 1
    have "recover_signer e sg (legacy_signing t) = Inr (tx_from t)"
      using rec p legacy_payloads(1) [OF 1] by simp
    then show ?thesis
      using that legacy_payloads(2) [OF 1 sg] decode_raw_dispatch(3) [OF hex legacy_body_size [OF ok]]
        decode_legacy_wire [OF ok sg 1 _ _ low] shape 1 by (simp add: wire_shape_def)
  next
    case 2
    have "recover_signer e sg (encode_typed_rlp 1 (concat (eip2930_fields t))) = Inr (tx_from t)"
      using rec p eip2930_payloads(1) [OF 2] by simp
    then show ?thesis
      using that eip2930_payloads(2) [OF 2 sg] decode_raw_dispatch(1) [OF hex]
        decode_eip2930_wire [OF ok sg 2 _ low] shape 2 by (simp add: wire_shape_def)
  next
    case 3
    have r: "recover_signer e sg (encode_typed_rlp 2 (concat (eip1559_fields t))) = Inr (tx_from t)"
      using rec p eip1559_payloads(1) [OF 3] by simp
    show ?thesis
      using that eip1559_payloads(2) [OF 3 sg] decode_raw_dispatch(2) [OF hex]
        decode_eip1559_wire [OF ok sg parity_canonical 3 low r]
      by (simp add: eip1559_wire_def sg)
  qed
qed

lemma signing_payload_external [simp]:
  "transaction_signing_payload (t\<lparr>tx_external_hash := h\<rparr>) = transaction_signing_payload t"
  "transaction_signed_bytes (t\<lparr>tx_external_hash := h\<rparr>) = transaction_signed_bytes t"
  by (simp_all add: transaction_signing_payload_def transaction_signed_bytes_def Let_def
      eip1559_signing_payload_def eip1559_signed_bytes_def recipient_bytes_def cong: if_cong option.case_cong)

lemma signed_by_sender_external [simp]:
  "signed_by_sender e (t\<lparr>tx_external_hash := h\<rparr>) = signed_by_sender e t"
  by (simp add: signed_by_sender_def split: option.splits sum.splits)

lemma verify_accepts:
  assumes "signed_by_sender e t" "transaction_signed_bytes t = Inr bs"
    and "tx_external_hash t = None \<or> tx_external_hash t = Some (x_keccak256 e bs)"
  shows "verify_transaction_signature e t = Inr ()"
proof -
  obtain sg p where "tx_signature t = Some sg" "transaction_signing_payload t = Inr p"
    "\<not> x_high_s e (sig_r sg) (sig_s sg) (sig_y_parity sg)" "recover_signer e sg p = Inr (tx_from t)"
    using signed_by_senderE [OF assms(1)] .
  then show ?thesis
    using assms(2,3) by (auto simp: verify_transaction_signature_def reject_high_s_signature_def ensure_def)
qed

lemma verify_sound:
  "verify_transaction_signature e t = Inr () \<Longrightarrow> signed_by_sender e t \<and>
     (tx_external_hash t = None \<or>
      (\<exists>bs. transaction_signed_bytes t = Inr bs \<and> tx_external_hash t = Some (x_keccak256 e bs)))"
  by (auto simp: verify_transaction_signature_def signed_by_sender_def recover_signer_def
      reject_high_s_signature_def res_simps split: option.splits sum.splits if_splits)

lemma signing_payload_signed_bytes:
  "signed_by_sender e t \<Longrightarrow> \<exists>bs. transaction_signed_bytes t = Inr bs"
  by (auto simp: signed_by_sender_def transaction_signing_payload_def transaction_signed_bytes_def
      eip1559_signing_payload_def eip1559_signed_bytes_def Let_def
      split: option.splits sum.splits if_splits)

text \<open>
  C12. A transaction of one of the three wire formats that its sender has signed decodes, from
  the hexadecimal form of its signed bytes, to exactly that transaction with the Keccak hash of
  those bytes as its external hash; and the decoded transaction passes the signature check that
  peers and block validation run on it.
\<close>

theorem signed_transaction_admitted:
  assumes "hex_spec e" "wire_shape t" "signed_by_sender e t"
  shows "\<exists>bs t'. transaction_signed_bytes t = Inr bs \<and>
    t' = t\<lparr>tx_external_hash := Some (x_keccak256 e bs)\<rparr> \<and>
    decode_raw_transaction e (''0x'' @ x_hex_encode e bs) = Inr t' \<and>
    verify_transaction_signature e t' = Inr ()"
proof -
  obtain bs where bs: "transaction_signed_bytes t = Inr bs"
    "decode_raw_transaction e (''0x'' @ x_hex_encode e bs) =
      Inr (t\<lparr>tx_external_hash := Some (x_keccak256 e bs)\<rparr>)"
    using decode_raw_signed_bytes [OF assms] .
  show ?thesis using bs assms(3) by (auto intro: verify_accepts)
qed


lemma demo_tx_facts:
  "wire_shape demo_tx" "signed_by_sender demo_ext demo_tx"
proof -
  show "wire_shape demo_tx"
    by (simp add: wire_shape_def raw_fields_ok_def demo_tx_def blq_consts access_list_limits_def
        total_keys_of_def)
  show "signed_by_sender demo_ext demo_tx"
    by (simp add: signed_by_sender_def transaction_signing_payload_def eip1559_signing_payload_def
        demo_tx_def demo_ext_def demo_signature_def Let_def)
qed

theorem signed_transaction_admitted_witness:
  "\<exists>bs t'. transaction_signed_bytes demo_tx = Inr bs \<and>
    t' = demo_tx\<lparr>tx_external_hash := Some (x_keccak256 demo_ext bs)\<rparr> \<and>
    decode_raw_transaction demo_ext (''0x'' @ x_hex_encode demo_ext bs) = Inr t' \<and>
    verify_transaction_signature demo_ext t' = Inr ()"
  by (rule signed_transaction_admitted [OF demo_hex_spec demo_tx_facts])

lemma decode_eip1559_sound:
  "decode_eip1559_transaction e bs = Inr t \<Longrightarrow>
    wire_shape t \<and> tx_type t = 2 \<and> tx_external_hash t = Some (x_keccak256 e bs) \<and>
    (\<exists>sg. tx_signature t = Some sg \<and> \<not> x_high_s e (sig_r sg) (sig_s sg) (sig_y_parity sg))"
  by (auto simp: decode_eip1559_transaction_def res_simps wire_shape_def raw_fields_ok_def Let_def
      validate_raw_chain_id_def reject_high_s_signature_def not_less
      dest: decode_access_list_sound split: if_splits)

lemma decode_eip2930_sound:
  "decode_eip2930_transaction e bs = Inr t \<Longrightarrow>
    wire_shape t \<and> tx_type t = 1 \<and> tx_external_hash t = Some (x_keccak256 e bs) \<and>
    (\<exists>sg. tx_signature t = Some sg \<and> \<not> x_high_s e (sig_r sg) (sig_s sg) (sig_y_parity sg))"
  by (auto simp: decode_eip2930_transaction_def res_simps wire_shape_def raw_fields_ok_def Let_def
      validate_raw_chain_id_def reject_high_s_signature_def not_less
      dest: decode_access_list_sound split: if_splits)

lemma decode_legacy_sound:
  "decode_legacy_transaction e bs = Inr t \<Longrightarrow>
    wire_shape t \<and> tx_type t = 0 \<and> tx_external_hash t = Some (x_keccak256 e bs) \<and>
    (\<exists>sg. tx_signature t = Some sg \<and> \<not> x_high_s e (sig_r sg) (sig_s sg) (sig_y_parity sg))"
  by (auto simp: decode_legacy_transaction_def res_simps wire_shape_def raw_fields_ok_def Let_def
      validate_raw_chain_id_def reject_high_s_signature_def not_less access_list_limits_def
      total_keys_of_def split: if_splits)


text \<open>
  C13. Whatever raw transaction the decoder accepts is for this chain, is of type 0, 1 or 2, is
  within the limits on payload and access list, carries a low-\<open>s\<close> signature, and has the Keccak
  hash of the submitted bytes as its external hash.
\<close>

theorem decode_raw_transaction_sound:
  assumes "decode_raw_transaction e raw = Inr t"
  shows "wire_shape t \<and>
    (\<exists>sg. tx_signature t = Some sg \<and> \<not> x_high_s e (sig_r sg) (sig_s sg) (sig_y_parity sg)) \<and>
    (\<exists>bs. decode_hex e raw = Inr bs \<and> tx_external_hash t = Some (x_keccak256 e bs))"
proof -
  obtain v bs where "decode_hex e raw = Inr (v # bs)"
    and "decode_eip1559_transaction e (v # bs) = Inr t \<or>
      decode_eip2930_transaction e (v # bs) = Inr t \<or> decode_legacy_transaction e (v # bs) = Inr t"
  proof -
    obtain bs where bs: "decode_hex e raw = Inr bs"
      using assms by (auto simp: decode_raw_transaction_def res_simps)
    then show ?thesis
      using assms that by (cases bs) (auto simp: decode_raw_transaction_def split: if_splits)
  qed
  then show ?thesis
    using decode_eip1559_sound decode_eip2930_sound decode_legacy_sound by blast
qed

definition demo_raw :: string where
  "demo_raw = ''0x'' @ hex_enc (eip1559_wire demo_tx (rlp_encode_u64 0))"

lemma demo_raw_decodes:
  "decode_raw_transaction demo_ext demo_raw =
    Inr (demo_tx\<lparr>tx_external_hash := Some (demo_digest (eip1559_wire demo_tx (rlp_encode_u64 0)))\<rparr>)"
proof -
  obtain bs where "transaction_signed_bytes demo_tx = Inr bs"
    "decode_raw_transaction demo_ext (''0x'' @ x_hex_encode demo_ext bs) =
      Inr (demo_tx\<lparr>tx_external_hash := Some (x_keccak256 demo_ext bs)\<rparr>)"
    using decode_raw_signed_bytes [OF demo_hex_spec demo_tx_facts] .
  moreover have "transaction_signed_bytes demo_tx = Inr (eip1559_wire demo_tx (rlp_encode_u64 0))"
    using eip1559_payloads(2) [of demo_tx demo_signature] by (simp add: demo_tx_def demo_signature_def)
  ultimately show ?thesis by (simp add: demo_raw_def demo_ext_def)
qed

theorem decode_raw_transaction_sound_witness:
  "\<exists>t. decode_raw_transaction demo_ext demo_raw = Inr t \<and> wire_shape t"
  using decode_raw_transaction_sound [OF demo_raw_decodes] demo_raw_decodes by blast

text \<open>
  The signature check accepts a transaction exactly when its signature is in the lower half
  and recovers the sender from the payload recomputed from the fields, and the external hash it
  claims, if any, is the Keccak hash of the signed bytes recomputed from the fields.
\<close>

theorem verify_transaction_signature_iff:
  "verify_transaction_signature e t = Inr () \<longleftrightarrow> signed_by_sender e t \<and>
     (tx_external_hash t = None \<or>
      (\<exists>bs. transaction_signed_bytes t = Inr bs \<and> tx_external_hash t = Some (x_keccak256 e bs)))"
proof
  assume "verify_transaction_signature e t = Inr ()"
  then show "signed_by_sender e t \<and> (tx_external_hash t = None \<or>
      (\<exists>bs. transaction_signed_bytes t = Inr bs \<and> tx_external_hash t = Some (x_keccak256 e bs)))"
    by (rule verify_sound)
next
  assume a: "signed_by_sender e t \<and> (tx_external_hash t = None \<or>
      (\<exists>bs. transaction_signed_bytes t = Inr bs \<and> tx_external_hash t = Some (x_keccak256 e bs)))"
  then obtain bs where "transaction_signed_bytes t = Inr bs"
    "tx_external_hash t = None \<or> tx_external_hash t = Some (x_keccak256 e bs)"
    using signing_payload_signed_bytes by blast
  then show "verify_transaction_signature e t = Inr ()" using a verify_accepts by blast
qed

lemma list_payload_eq:
  "length x = length y \<Longrightarrow> rlp_encode_list_payload x = rlp_encode_list_payload y \<longleftrightarrow> x = y"
  by (simp add: rlp_encode_list_payload_def)

text \<open>
  C23. The RPC decoder also accepts a non-canonical spelling of a zero parity (the byte
  \<open>0x00\<close> instead of the empty string \<open>0x80\<close>), and peers reject the transaction it yields:
  unless Keccak collides on the two spellings, the external hash is not the hash of the
  recomputed signed bytes.
\<close>

theorem noncanonical_parity_rejected_by_peers:
  assumes "hex_spec e" "wire_shape t" "signed_by_sender e t" "tx_type t = 2"
    and "tx_signature t = Some sg" "\<not> sig_y_parity sg"
  shows "\<exists>bs. transaction_signed_bytes t = Inr bs \<and> eip1559_wire t [0] \<noteq> bs \<and>
    decode_raw_transaction e (''0x'' @ x_hex_encode e (eip1559_wire t [0])) =
      Inr (t\<lparr>tx_external_hash := Some (x_keccak256 e (eip1559_wire t [0]))\<rparr>) \<and>
    (x_keccak256 e (eip1559_wire t [0]) = x_keccak256 e bs \<or>
     verify_transaction_signature e (t\<lparr>tx_external_hash := Some (x_keccak256 e (eip1559_wire t [0]))\<rparr>)
       = Inl ExternalHashMismatch)"
proof -
  have ok: "raw_fields_ok t" using assms by (simp add: wire_shape_def)
  obtain sg' p where p: "tx_signature t = Some sg'" "transaction_signing_payload t = Inr p"
    "\<not> x_high_s e (sig_r sg') (sig_s sg') (sig_y_parity sg')" "recover_signer e sg' p = Inr (tx_from t)"
    using signed_by_senderE [OF assms(3)] .
  have sg: "sg' = sg" using p assms by simp
  have dec: "decode_eip1559_transaction e (eip1559_wire t [0]) =
      Inr (t\<lparr>tx_external_hash := Some (x_keccak256 e (eip1559_wire t [0]))\<rparr>)"
    using p assms eip1559_payloads(1) [OF assms(4)] parity_zero_byte
    by (intro decode_eip1559_wire [OF ok assms(5)]) (auto simp: sg)
  define bs where "bs = eip1559_wire t (rlp_encode_u64 0)"
  have bs: "transaction_signed_bytes t = Inr bs"
    using eip1559_payloads(2) [OF assms(4,5)] assms(6) by (simp add: bs_def)
  have u0: "rlp_encode_u64 0 = [0x80]" by code_simp
  have "eip1559_wire t [0] \<noteq> bs"
    unfolding bs_def u0 by (simp add: eip1559_wire_def assms(5) encode_typed_rlp_def list_payload_eq)
  moreover have "decode_raw_transaction e (''0x'' @ x_hex_encode e (eip1559_wire t [0])) =
      decode_eip1559_transaction e (eip1559_wire t [0])"
    using decode_raw_dispatch(2) [OF assms(1)] by (simp add: eip1559_wire_def assms(5))
  moreover have "verify_transaction_signature e (t\<lparr>tx_external_hash := Some h\<rparr>) = Inl ExternalHashMismatch"
    if "h \<noteq> x_keccak256 e bs" for h
    using that p bs by (simp add: verify_transaction_signature_def reject_high_s_signature_def ensure_def)
  ultimately show ?thesis using bs dec by auto
qed

lemma demo_tx_signature:
  "tx_type demo_tx = 2" "tx_signature demo_tx = Some demo_signature" "\<not> sig_y_parity demo_signature"
  by (simp_all add: demo_tx_def demo_signature_def)

theorem noncanonical_parity_rejected_by_peers_witness:
  "\<exists>bs. transaction_signed_bytes demo_tx = Inr bs \<and> eip1559_wire demo_tx [0] \<noteq> bs"
  using noncanonical_parity_rejected_by_peers [OF demo_hex_spec demo_tx_facts demo_tx_signature]
  by blast

end
