(* ===== verification/Pow.thy ===== *)
theory Pow
  imports Demo
begin

text \<open>
  \<open>crates/blq-pow/src/lib.rs\<close>: the proof of work.  The portable algorithm fills a
  scratchpad with BLAKE3 digests and then reads and rewrites it in data-dependent order; with
  the feature native-randomx the hash is RandomX keyed by the epoch seed, reached through the C
  interface, which is a parameter.
\<close>

definition POW_ALGORITHM :: "ext \<Rightarrow> string" where
  "POW_ALGORITHM e = (if x_native_randomx e then ''BLQ-RX/2'' else ''BLQ-RX/1'')"

definition POW_EPOCH_LENGTH :: u64 where [blq_consts]: "POW_EPOCH_LENGTH = 2048"
definition TEST_SCRATCHPAD_BYTES :: nat where [blq_consts]: "TEST_SCRATCHPAD_BYTES = 256 * 1024"

datatype pow_error = UnsupportedAlgorithm | InvalidEpoch | InvalidMixHash

record pow_result =
  pr_mix_hash :: hash256
  pr_final_hash :: hash256

definition epoch_for_height :: "u64 \<Rightarrow> u64" where
  "epoch_for_height height = height div POW_EPOCH_LENGTH"

definition epoch_seed :: "ext \<Rightarrow> u64 \<Rightarrow> hash256 \<Rightarrow> hash256" where
  "epoch_seed e epoch genesis_hash =
     x_blake3 e (as_bytes (POW_ALGORITHM e) @ as_bytes ''-EPOCH-SEED'' @
       to_be_bytes MAINNET_CHAIN_ID @ to_be_bytes epoch @ arr_bytes genesis_hash)"

definition pow_preimage :: "block_header \<Rightarrow> bytes" where
  "pow_preimage header = pow_preimage_bytes header"

text \<open>\<open>usize::next_power_of_two\<close>: the least power of two that is not below the argument.\<close>

function next_power_of_two_from :: "nat \<Rightarrow> nat \<Rightarrow> nat" where
  "next_power_of_two_from p n = (if n \<le> p \<or> p = 0 then p else next_power_of_two_from (2 * p) n)"
  by pat_completeness auto
termination by (relation "measure (\<lambda>(p, n). n - p)") auto

declare next_power_of_two_from.simps [simp del]

definition next_power_of_two :: "nat \<Rightarrow> nat" where
  "next_power_of_two n = next_power_of_two_from 1 n"

definition scratch_lane :: "ext \<Rightarrow> hash256 \<Rightarrow> bytes \<Rightarrow> nat \<Rightarrow> hash256" where
  "scratch_lane e seed input index =
     x_blake3 e (as_bytes (POW_ALGORITHM e) @ as_bytes ''-SCRATCHPAD'' @ arr_bytes seed @ input @
       to_be_bytes (of_nat index :: u64))"

definition mix_pick :: "hash256 \<Rightarrow> nat \<Rightarrow> nat" where
  "mix_pick acc lanes = unat (from_be_bytes (take 8 (arr_bytes acc)) AND (of_nat (lanes - 1)) :: u64)"

text \<open>One round: the accumulator selects a lane, absorbs it and is written back to it.\<close>

definition mix_round ::
  "ext \<Rightarrow> bytes \<Rightarrow> nat \<Rightarrow> hash256 \<times> hash256 list \<Rightarrow> nat \<Rightarrow> hash256 \<times> hash256 list" where
  "mix_round e input lanes st rnd =
     (let (acc, memory) = st;
          pick = mix_pick acc lanes;
          lane = memory ! pick;
          acc' = x_blake3 e (as_bytes (POW_ALGORITHM e) @ as_bytes ''-MIX'' @ arr_bytes acc @
                   arr_bytes lane @ input @ to_be_bytes (of_nat rnd :: u64))
      in (acc', memory[pick := acc']))"

definition scratch_lanes :: "nat \<Rightarrow> nat" where
  "scratch_lanes scratchpad_bytes = next_power_of_two (max scratchpad_bytes 32) div 32"

definition mix_start :: "ext \<Rightarrow> hash256 \<Rightarrow> bytes \<Rightarrow> nat \<Rightarrow> hash256 \<times> hash256 list" where
  "mix_start e seed input lanes = (seed, map (scratch_lane e seed input) [0..<lanes])"

definition blq_rx_hash_with_scratchpad :: "ext \<Rightarrow> block_header \<Rightarrow> hash256 \<Rightarrow> nat \<Rightarrow> pow_result" where
  "blq_rx_hash_with_scratchpad e header genesis_hash scratchpad_bytes =
     (let epoch = epoch_for_height (h_number header);
          seed = epoch_seed e epoch genesis_hash;
          input = pow_preimage header;
          lanes = scratch_lanes scratchpad_bytes;
          rounds = max (lanes * 2) 1024;
          (acc, memory) = foldl (mix_round e input lanes) (mix_start e seed input lanes) [0..<rounds]
      in \<lparr>pr_mix_hash = acc,
          pr_final_hash = x_blake3 e (as_bytes ''BLQ-POW-FINAL'' @ arr_bytes acc @ input)\<rparr>)"

definition native_randomx_hash :: "ext \<Rightarrow> block_header \<Rightarrow> hash256 \<Rightarrow> pow_result" where
  "native_randomx_hash e header genesis_hash =
     (let key = epoch_seed e (epoch_for_height (h_number header)) genesis_hash;
          output = x_randomx e (arr_bytes key) (pow_preimage header)
      in \<lparr>pr_mix_hash = output, pr_final_hash = output\<rparr>)"

definition blq_rx_hash :: "ext \<Rightarrow> block_header \<Rightarrow> hash256 \<Rightarrow> pow_result" where
  "blq_rx_hash e header genesis_hash =
     (if x_native_randomx e then native_randomx_hash e header genesis_hash
      else blq_rx_hash_with_scratchpad e header genesis_hash TEST_SCRATCHPAD_BYTES)"

definition validate_pow_fields :: "ext \<Rightarrow> block_header \<Rightarrow> hash256 \<Rightarrow> pow_error + unit" where
  "validate_pow_fields e header genesis_hash =
     (if h_pow_algorithm header \<noteq> POW_ALGORITHM e then Inl UnsupportedAlgorithm
      else if h_pow_epoch header \<noteq> epoch_for_height (h_number header) then Inl InvalidEpoch
      else if h_mix_hash header \<noteq> pr_mix_hash (blq_rx_hash e header genesis_hash) then Inl InvalidMixHash
      else Inr ())"

section \<open>Properties\<close>

lemma next_power_of_two_from_props:
  assumes "0 < p"
  shows "n \<le> next_power_of_two_from p n \<and> (\<exists>k. next_power_of_two_from p n = p * 2 ^ k)"
  using assms
proof (induction p n rule: next_power_of_two_from.induct)
  case (1 p n)
  show ?case
  proof (cases "n \<le> p")
    case True
    then show ?thesis by (subst (1 2) next_power_of_two_from.simps) (auto intro: exI [of _ 0])
  next
    case False
    then have eq: "next_power_of_two_from p n = next_power_of_two_from (2 * p) n"
      using 1 by (subst next_power_of_two_from.simps) simp
    obtain k where "next_power_of_two_from (2 * p) n = 2 * p * 2 ^ k"
      using 1 False by auto
    then have "next_power_of_two_from p n = p * 2 ^ Suc k" unfolding eq by simp
    moreover have "n \<le> next_power_of_two_from p n" using 1 False unfolding eq by simp
    ultimately show ?thesis by blast
  qed
qed

lemma scratch_lanes_power: "\<exists>k. scratch_lanes n = 2 ^ k"
proof -
  obtain k where k: "next_power_of_two (max n 32) = 2 ^ k" "32 \<le> next_power_of_two (max n 32)"
    using next_power_of_two_from_props [of 1 "max n 32"] by (auto simp: next_power_of_two_def)
  have "(2::nat) ^ 5 \<le> 2 ^ k" using k by simp
  then have "5 \<le> k" by (rule power_le_imp_le_exp [rotated]) simp
  then have "scratch_lanes n = 2 ^ (k - 5)"
    using k by (simp add: scratch_lanes_def power_diff)
  then show ?thesis ..
qed

lemma unat_of_nat_le: "unat (of_nat m :: 'a::len word) \<le> m"
  by (simp add: unat_of_nat)

lemma mix_pick_less: "mix_pick acc (2 ^ k) < 2 ^ k"
proof -
  have "mix_pick acc (2 ^ k) \<le> unat (of_nat (2 ^ k - 1) :: u64)"
    unfolding mix_pick_def by (simp add: word_le_nat_alt [symmetric] word_and_le1)
  also have "\<dots> \<le> 2 ^ k - 1" by (rule unat_of_nat_le)
  finally show ?thesis by (simp add: le_less_trans)
qed

lemma mix_round_length: "length (snd (mix_round e input lanes st r)) = length (snd st)"
  by (simp add: mix_round_def Let_def split: prod.splits)

lemma mix_rounds_length: "length (snd (foldl (mix_round e input lanes) st rs)) = length (snd st)"
  by (induction rs arbitrary: st) (simp_all add: mix_round_length)

text \<open>The proof-of-work hash does not depend on the mix hash the header carries.\<close>

lemma pow_preimage_mix [simp]: "pow_preimage (h\<lparr>h_mix_hash := m\<rparr>) = pow_preimage h"
  by (simp add: pow_preimage_def pow_preimage_bytes_def header_common_bytes_def)

lemma blq_rx_hash_mix [simp]: "blq_rx_hash e (h\<lparr>h_mix_hash := m\<rparr>) g = blq_rx_hash e h g"
  by (simp add: blq_rx_hash_def native_randomx_hash_def blq_rx_hash_with_scratchpad_def)

text \<open>
  In every round of the scratchpad loop, whatever size was asked for, the lane picked by the
  accumulator exists: no round indexes outside the scratchpad.
\<close>

theorem scratchpad_pick_in_range:
  "let lanes = scratch_lanes scratchpad_bytes;
       (acc, memory) = foldl (mix_round e input lanes) (mix_start e seed input lanes) [0..<k]
   in mix_pick acc lanes < length memory"
proof -
  obtain m where m: "scratch_lanes scratchpad_bytes = 2 ^ m" using scratch_lanes_power by blast
  have "length (snd (foldl (mix_round e input (2 ^ m)) (mix_start e seed input (2 ^ m)) [0..<k])) = 2 ^ m"
    by (simp add: mix_rounds_length mix_start_def)
  then show ?thesis using mix_pick_less by (auto simp: m Let_def split: prod.splits)
qed

end
