(* ===== verification/Difficulty.thy ===== *)
theory Difficulty
  imports Primitives
begin

text \<open>
  The difficulty controller of \<open>crates/blq-consensus/src/lib.rs\<close>: byte-wise arithmetic on
  256-bit targets and the three adjustment rules.  The loops run over the bytes of an array with a
  carry in 128 bits; those that run from the last byte to the first are written on the reversed
  bytes.  The lemmas show that no intermediate value wraps and that the loops compute
  multiplication, addition and division of the 256-bit value, saturating at the largest target.
\<close>

section \<open>The loops\<close>

fun divide_loop :: "u128 \<Rightarrow> u128 \<Rightarrow> bytes \<Rightarrow> bytes \<times> u128" where
  "divide_loop divisor remainder [] = ([], remainder)"
| "divide_loop divisor remainder (byte # bs) =
     (let value = push_bit 8 remainder + ucast byte;
          (out, r) = divide_loop divisor (value mod divisor) bs
      in (ucast (value div divisor) # out, r))"

definition divide_hash_with_remainder :: "hash256 \<Rightarrow> u64 \<Rightarrow> hash256 \<times> u64" where
  "divide_hash_with_remainder hash divisor =
     (let (out, remainder) = divide_loop (ucast divisor) 0 (arr_bytes hash)
      in (Arr out, ucast remainder))"

fun multiply_loop :: "u128 \<Rightarrow> u128 \<Rightarrow> bytes \<Rightarrow> bytes \<times> u128" where
  "multiply_loop multiplier carry [] = ([], carry)"
| "multiply_loop multiplier carry (byte # bs) =
     (let value = ucast byte * multiplier + carry;
          (out, c) = multiply_loop multiplier (drop_bit 8 value) bs
      in (ucast (value AND 0xff) # out, c))"

definition multiply_hash_u64 :: "hash256 \<Rightarrow> u64 \<Rightarrow> hash256" where
  "multiply_hash_u64 hash multiplier =
     (let (out, carry) = multiply_loop (ucast multiplier) 0 (rev (arr_bytes hash))
      in if carry > 0 then arr_rep 0xff else Arr (rev out))"

fun add_loop :: "u128 \<Rightarrow> bytes \<Rightarrow> bytes \<times> u128" where
  "add_loop carry [] = ([], carry)"
| "add_loop carry (byte # bs) =
     (let value = ucast byte + (carry AND 0xff);
          (out, c) = add_loop (drop_bit 8 carry + drop_bit 8 value) bs
      in (ucast (value AND 0xff) # out, c))"

definition scale_target_fraction :: "hash256 \<Rightarrow> u64 \<Rightarrow> u64 \<Rightarrow> hash256" where
  "scale_target_fraction target numerator denominator =
     (let (quotient, remainder) = divide_hash_with_remainder target denominator;
          out = multiply_hash_u64 quotient numerator;
          carry = (ucast remainder * ucast numerator) div ucast denominator;
          (out', carry') = add_loop carry (rev (arr_bytes out))
      in if carry' > 0 then arr_rep 0xff else Arr (rev out'))"

definition scale_target :: "hash256 \<Rightarrow> u64 \<Rightarrow> u64 \<Rightarrow> hash256" where
  "scale_target target numerator denominator =
     (if denominator = 0 then arr_rep 0xff
      else
        (let (quotient, remainder) = divide_hash_with_remainder target denominator;
             out = multiply_hash_u64 quotient numerator;
             remainder' = ucast ((ucast remainder * ucast numerator :: u128) div ucast denominator) :: u64;
             (out', carry') = add_loop (ucast remainder') (rev (arr_bytes out))
         in if carry' > 0 then arr_rep 0xff else Arr (rev out')))"

section \<open>The adjustment rules\<close>

definition clamp :: "'a::linorder \<Rightarrow> 'a \<Rightarrow> 'a \<Rightarrow> 'a" where
  "clamp x lo hi = (if x < lo then lo else if hi < x then hi else x)"

definition next_difficulty_target :: "hash256 \<Rightarrow> u64 \<Rightarrow> hash256" where
  "next_difficulty_target current_target actual_window_seconds =
     (let expected = TARGET_BLOCK_TIME_SECONDS * DIFFICULTY_ADJUSTMENT_INTERVAL;
          bounded_actual = clamp actual_window_seconds (expected div 4) (expected * 4)
      in scale_target current_target bounded_actual expected)"

definition next_block_difficulty_target :: "hash256 \<Rightarrow> u64 \<Rightarrow> hash256" where
  "next_block_difficulty_target current_target actual_seconds =
     (if MIN_ACCEPTABLE_BLOCK_TIME_SECONDS \<le> actual_seconds \<and>
         actual_seconds \<le> MAX_ACCEPTABLE_BLOCK_TIME_SECONDS then current_target
      else
        (let (numerator, denominator) =
               (if actual_seconds > MAX_ACCEPTABLE_BLOCK_TIME_SECONDS
                then (100 + MAX_DIFFICULTY_ADJUSTMENT_PERCENT, 100)
                else (100 - MAX_DIFFICULTY_ADJUSTMENT_PERCENT, 100))
         in scale_target_fraction current_target numerator denominator))"

definition next_block_difficulty_target_v2 :: "hash256 \<Rightarrow> u64 \<Rightarrow> u64 \<Rightarrow> hash256" where
  "next_block_difficulty_target_v2 current_target median_interval_seconds latest_interval_seconds =
     (if median_interval_seconds < BLOCK_TIME_V2_FAST_MEDIAN_SECONDS then
        scale_target_fraction current_target 75 100
      else if latest_interval_seconds \<ge> BLOCK_TIME_V2_SLOW_INTERVAL_SECONDS then
        scale_target_fraction current_target BLOCK_TIME_V2_SLOW_CAP_NUMERATOR
          BLOCK_TIME_V2_SLOW_CAP_DENOMINATOR
      else
        (let numerator = saturating_mul median_interval_seconds BLOCK_TIME_V2_NORMAL_CAP_DENOMINATOR;
             denominator = saturating_mul BLOCK_TIME_V2_TARGET_SECONDS BLOCK_TIME_V2_NORMAL_CAP_DENOMINATOR
         in if saturating_mul numerator BLOCK_TIME_V2_NORMAL_CAP_DENOMINATOR
                < saturating_mul denominator (BLOCK_TIME_V2_NORMAL_CAP_DENOMINATOR - 1) then
              scale_target_fraction current_target (BLOCK_TIME_V2_NORMAL_CAP_DENOMINATOR - 1)
                BLOCK_TIME_V2_NORMAL_CAP_DENOMINATOR
            else if saturating_mul numerator BLOCK_TIME_V2_NORMAL_CAP_DENOMINATOR
                > saturating_mul denominator BLOCK_TIME_V2_NORMAL_CAP_NUMERATOR then
              scale_target_fraction current_target BLOCK_TIME_V2_NORMAL_CAP_NUMERATOR
                BLOCK_TIME_V2_NORMAL_CAP_DENOMINATOR
            else scale_target current_target numerator denominator))"

section \<open>The loops compute arithmetic on the value\<close>

text \<open>The value of the reversed bytes.\<close>

definition le_val :: "bytes \<Rightarrow> nat" where
  "le_val bs = be_val (rev bs)"

lemma le_val_simps [simp]: "le_val [] = 0" "le_val (b # bs) = unat b + 256 * le_val bs"
  by (simp_all add: le_val_def be_simps)

lemma le_val_rev: "le_val (rev bs) = be_val bs" "be_val (rev bs) = le_val bs"
  by (simp_all add: le_val_def)

lemma mask_byte: "unat (v AND 0xff :: u128) = unat v mod 256"
proof -
  have "v AND 0xff = take_bit 8 v" by (simp add: take_bit_eq_mask mask_eq_exp_minus_1)
  also have "\<dots> = v mod 256" by (simp add: take_bit_eq_mod)
  finally show ?thesis by (simp add: unat_mod)
qed

lemma low_byte: "unat (ucast (v AND 0xff :: u128) :: u8) = unat v mod 256"
  using mask_byte [of v] by (simp add: unsigned_ucast_eq take_bit_eq_mod)

lemma shift_byte: "unat (drop_bit 8 v :: u128) = unat v div 256"
  by (simp add: drop_bit_eq_div unat_div)

lemma u8_less: "unat (b :: u8) \<le> 255"
proof -
  have "unat b < 256" using unat_lt_len [of b] by simp
  then show ?thesis by linarith
qed

lemma u64_less: "unat (m :: u64) < 2 ^ 64"
  using unat_lt_len [of m] by simp

lemma divide_loop_correct:
  assumes "unat r < unat d" "unat d < 2 ^ 64" "divide_loop d r bs = (out, r')"
  shows "be_val out * unat d + unat r' = unat r * 256 ^ length bs + be_val bs \<and>
    unat r' < unat d \<and> length out = length bs"
  using assms
proof (induction bs arbitrary: r out)
  case Nil
  then show ?case by simp
next
  case (Cons b bs)
  define v where "v = push_bit 8 r + ucast b"
  obtain o2 where rec: "divide_loop d (v mod d) bs = (o2, r')" and o: "out = ucast (v div d) # o2"
    using Cons.prems(3) by (auto simp: v_def Let_def split: prod.splits)
  have "unat (push_bit 8 r) = unat r * 256"
    using Cons.prems(1,2) by (simp add: push_bit_eq_mult unat_mul_no_wrap)
  then have v: "unat v = unat r * 256 + unat b"
    using Cons.prems(1,2) u8_less [of b] unfolding v_def
    by (subst unat_add_no_wrap) (simp_all add: word_nat del: unsigned_less)
  have "unat v < 256 * unat d" using Cons.prems(1) u8_less [of b] v by linarith
  then have "unat (v div d) < 256" by (simp add: unat_div less_mult_imp_div_less)
  then have q: "unat (ucast (v div d) :: u8) = unat v div unat d"
    by (simp add: unsigned_ucast_eq take_bit_eq_mod unat_div)
  have m: "unat (v mod d) = unat v mod unat d" by (rule unat_mod)
  have IH: "be_val o2 * unat d + unat r' = unat (v mod d) * 256 ^ length bs + be_val bs \<and>
      unat r' < unat d \<and> length o2 = length bs"
    using Cons.prems by (intro Cons.IH [OF _ _ rec]) (simp_all add: m)
  have "be_val out * unat d + unat r' =
      unat v div unat d * unat d * 256 ^ length bs + (be_val o2 * unat d + unat r')"
    using IH by (simp add: o q algebra_simps)
  also have "\<dots> = (unat v div unat d * unat d + unat v mod unat d) * 256 ^ length bs + be_val bs"
    unfolding add_mult_distrib using IH m by simp
  also have "\<dots> = unat r * 256 ^ length (b # bs) + be_val (b # bs)"
    unfolding div_mult_mod_eq v by (simp add: algebra_simps)
  finally show ?case using IH by (simp add: o)
qed

lemma multiply_loop_correct:
  assumes "unat m < 2 ^ 64" "unat c \<le> unat m" "multiply_loop m c bs = (out, c')"
  shows "le_val out + unat c' * 256 ^ length bs = le_val bs * unat m + unat c \<and>
    length out = length bs"
  using assms
proof (induction bs arbitrary: c out)
  case Nil
  then show ?case by simp
next
  case (Cons b bs)
  define v where "v = ucast b * m + c"
  obtain o2 where rec: "multiply_loop m (drop_bit 8 v) bs = (o2, c')" and o: "out = ucast (v AND 0xff) # o2"
    using Cons.prems(3) by (auto simp: v_def Let_def split: prod.splits)
  have b: "unat b * unat m \<le> 255 * unat m" by (rule mult_right_mono [OF u8_less]) simp
  have p: "unat (ucast b * m) = unat b * unat m"
  proof (subst unat_mul_no_wrap)
    have "255 * unat m < 2 ^ 128" using Cons.prems(1) by simp
    from le_less_trans [OF b this] show "unat (ucast b :: u128) * unat m < 2 ^ LENGTH(128)"
      by (simp add: word_nat)
  qed (simp add: word_nat)
  have v: "unat v = unat b * unat m + unat c"
  proof -
    have "unat b * unat m + unat c \<le> 255 * unat m + unat m"
      using b Cons.prems(2) by (rule add_mono)
    moreover have "255 * unat m + unat m < 2 ^ 128" using Cons.prems(1) by simp
    ultimately have "unat b * unat m + unat c < 2 ^ 128" by (rule le_less_trans)
    then show ?thesis unfolding v_def by (subst unat_add_no_wrap) (simp_all add: p)
  qed
  have "unat v \<le> 256 * unat m" using v b Cons.prems(2) by linarith
  then have "unat v div 256 \<le> unat m" by simp
  then have IH: "le_val o2 + unat c' * 256 ^ length bs = le_val bs * unat m + unat v div 256 \<and>
      length o2 = length bs"
    using Cons.prems(1) Cons.IH [OF _ _ rec] by (simp add: shift_byte)
  have "le_val out + unat c' * 256 ^ length (b # bs) =
      unat v mod 256 + 256 * (le_val o2 + unat c' * 256 ^ length bs)"
    by (simp add: o low_byte)
  also have "\<dots> = 256 * (le_val bs * unat m) + (unat v mod 256 + 256 * (unat v div 256))"
    using IH by simp
  also have "\<dots> = 256 * (le_val bs * unat m) + (unat b * unat m + unat c)"
    using v by simp
  finally show ?case using IH by (simp add: o algebra_simps)
qed

lemma add_loop_correct:
  assumes "unat c < 2 ^ 64" "add_loop c bs = (out, c')"
  shows "le_val out + unat c' * 256 ^ length bs = le_val bs + unat c \<and> length out = length bs"
  using assms
proof (induction bs arbitrary: c out)
  case Nil
  then show ?case by simp
next
  case (Cons b bs)
  define v where "v = ucast b + (c AND 0xff)"
  define k where "k = drop_bit 8 c + drop_bit 8 v"
  obtain o2 where rec: "add_loop k bs = (o2, c')" and o: "out = ucast (v AND 0xff) # o2"
    using Cons.prems(2) by (auto simp: v_def k_def Let_def split: prod.splits)
  have v: "unat v = unat b + unat c mod 256"
    using u8_less [of b] unfolding v_def by (subst unat_add_no_wrap) (simp_all add: word_nat mask_byte)
  have "unat c div 256 < 2 ^ 56" using Cons.prems(1) by (simp add: less_mult_imp_div_less)
  moreover have "unat v div 256 \<le> 1" using v u8_less [of b] by simp
  ultimately have k: "unat k = unat c div 256 + unat v div 256"
    unfolding k_def by (subst unat_add_no_wrap) (simp_all add: shift_byte)
  then have "unat k < 2 ^ 64" using \<open>unat c div 256 < 2 ^ 56\<close> \<open>unat v div 256 \<le> 1\<close> by simp
  then have IH: "le_val o2 + unat c' * 256 ^ length bs = le_val bs + unat k \<and> length o2 = length bs"
    by (rule Cons.IH) (rule rec)
  have "le_val out + unat c' * 256 ^ length (b # bs) =
      unat v mod 256 + 256 * (le_val o2 + unat c' * 256 ^ length bs)"
    by (simp add: o low_byte)
  also have "\<dots> = 256 * le_val bs + (unat v mod 256 + 256 * (unat v div 256)) + 256 * (unat c div 256)"
    using IH k by simp
  also have "\<dots> = 256 * le_val bs + unat b + unat c"
    using v by (simp add: mult.commute)
  finally show ?case using IH by (simp add: o)
qed


lemma be_val_ones: "be_val (replicate n 0xff) = 256 ^ n - 1"
proof (induction n)
  case 0
  then show ?case by simp
next
  case (Suc n)
  have u: "unat (0xff :: u8) = 255" by simp
  have "(1::nat) \<le> 256 ^ n" by simp
  then have "255 * 256 ^ n + (256 ^ n - 1) = (256 :: nat) ^ Suc n - 1" by simp
  then show ?case by (simp only: replicate_Suc be_val.simps length_replicate u Suc)
qed

lemma arr_val_max: "arr_val (arr_rep 0xff :: hash256) = 2 ^ 256 - 1"
  unfolding arr_val_def arr_bytes_arr_rep be_val_ones byte_power by simp

lemma arr_val_Arr: "length bs = 32 \<Longrightarrow> arr_val (Arr bs :: hash256) = be_val bs"
  by (simp add: arr_val_def)

text \<open>
  The tail both loops share: an array and a carry out, which saturates the array when it is not
  zero.
\<close>

lemma saturate_val:
  assumes "le_val out + unat (c :: u128) * 256 ^ 32 = n" "length out = 32"
  shows "arr_val (if c > 0 then arr_rep 0xff else Arr (rev out) :: hash256) = min (2 ^ 256 - 1) n"
proof (cases "c > 0")
  case True
  then have "1 * 256 ^ 32 \<le> unat c * 256 ^ 32" by (intro mult_right_mono) (auto simp: word_less_nat_alt)
  then have "(2::nat) ^ 256 - 1 \<le> n" using assms(1) by simp
  then show ?thesis using True by (simp add: arr_val_max min_def)
next
  case False
  then have "unat c = 0" by (simp add: word_less_nat_alt)
  moreover have "le_val out < 256 ^ 32" using be_val_lt [of "rev out"] assms(2) by (simp add: le_val_def)
  ultimately have "n \<le> 2 ^ 256 - 1" "le_val out = n" using assms(1) by simp_all
  then show ?thesis using False assms(2) by (simp add: arr_val_Arr le_val_rev min_def)
qed

lemma multiply_hash_val:
  "arr_val (multiply_hash_u64 h m) = min (2 ^ 256 - 1) (arr_val h * unat m)"
proof -
  obtain out c where l: "multiply_loop (ucast m) 0 (rev (arr_bytes h)) = (out, c)" by fastforce
  have "le_val out + unat c * 256 ^ 32 = arr_val h * unat m" "length out = 32"
    using multiply_loop_correct [OF _ _ l] u64_less [of m]
    by (simp_all add: word_nat le_val_rev arr_val_def)
  then show ?thesis unfolding multiply_hash_u64_def l by (simp only: Let_def prod.case saturate_val)
qed

lemma divide_hash_val:
  assumes "d \<noteq> 0"
  shows "arr_val (fst (divide_hash_with_remainder h d)) = arr_val h div unat d"
    and "unat (snd (divide_hash_with_remainder h d)) = arr_val h mod unat d"
proof -
  obtain out r where l: "divide_loop (ucast d) 0 (arr_bytes h) = (out, r)" by fastforce
  have d: "0 < unat d" using assms by (simp add: unat_gt_0)
  have c: "be_val out * unat d + unat r = arr_val h" "unat r < unat d" "length out = 32"
    using divide_loop_correct [OF _ _ l] d u64_less [of d] by (simp_all add: word_nat arr_val_def)
  then have q: "be_val out = arr_val h div unat d" and r: "unat r = arr_val h mod unat d"
    unfolding c(1) [symmetric] using c(2) by simp_all
  have "unat r < 2 ^ 64" using c(2) u64_less [of d] by linarith
  then have "unat (ucast r :: u64) = unat r" by (simp add: unsigned_ucast_eq take_bit_eq_mod)
  then show "unat (snd (divide_hash_with_remainder h d)) = arr_val h mod unat d"
    by (simp add: divide_hash_with_remainder_def l r)
  show "arr_val (fst (divide_hash_with_remainder h d)) = arr_val h div unat d"
    using c(3) by (simp add: divide_hash_with_remainder_def l arr_val_Arr q)
qed

lemma min_add_min: "min m (min m a + b) = min m (a + b)" for m :: nat
  by (simp add: min_def)

lemma scale_split: "0 < d \<Longrightarrow> t div d * n + (t mod d * n) div d = t * n div d" for t n d :: nat
proof -
  assume "0 < d"
  have "t * n = (t div d * n) * d + t mod d * n"
    by (metis add_mult_distrib div_mult_mod_eq mult.commute mult.left_commute)
  then have "t * n div d = ((t div d * n) * d + t mod d * n) div d" by simp
  then show ?thesis using \<open>0 < d\<close> by simp
qed

text \<open>The correction term added after the multiplication.\<close>

lemma remainder_term:
  fixes r n d :: u64
  assumes "unat r < unat d"
  shows "unat ((ucast r * ucast n :: u128) div ucast d) = unat r * unat n div unat d"
    and "unat r * unat n div unat d < 2 ^ 64"
proof -
  have "unat r * unat n \<le> (2 ^ 64 - 1) * (2 ^ 64 - 1)"
    using u64_less [of r] u64_less [of n] by (intro mult_mono) simp_all
  then have "unat (ucast r * ucast n :: u128) = unat r * unat n"
    by (subst unat_mul_no_wrap) (simp_all add: word_nat)
  then show "unat ((ucast r * ucast n :: u128) div ucast d) = unat r * unat n div unat d"
    by (simp add: unat_div word_nat)
  have "unat r * unat n \<le> unat d * unat n" using assms by (intro mult_right_mono) simp_all
  then have "unat r * unat n div unat d \<le> unat n"
    using div_le_mono [of "unat r * unat n" "unat d * unat n" "unat d"] assms by simp
  then show "unat r * unat n div unat d < 2 ^ 64" using u64_less [of n] by linarith
qed

lemma add_to_hash_val:
  fixes h :: hash256
  assumes "unat c < 2 ^ 64" "add_loop c (rev (arr_bytes h)) = (out, c')"
  shows "arr_val (if c' > 0 then arr_rep 0xff else Arr (rev out) :: hash256) =
    min (2 ^ 256 - 1) (arr_val h + unat c)"
  using add_loop_correct [OF assms] by (intro saturate_val) (simp_all add: le_val_rev arr_val_def)

lemma scale_target_fraction_val:
  assumes "d \<noteq> 0"
  shows "arr_val (scale_target_fraction t n d) = min (2 ^ 256 - 1) (arr_val t * unat n div unat d)"
proof -
  obtain q r where qr: "divide_hash_with_remainder t d = (q, r)" by fastforce
  have d: "0 < unat d" using assms by (simp add: unat_gt_0)
  have q: "arr_val q = arr_val t div unat d" and r: "unat r = arr_val t mod unat d"
    using divide_hash_val [OF assms, of t] by (simp_all add: qr)
  then have rd: "unat r < unat d" using d by simp
  obtain out c where l: "add_loop ((ucast r * ucast n) div ucast d)
      (rev (arr_bytes (multiply_hash_u64 q n))) = (out, c)" by fastforce
  have "arr_val (scale_target_fraction t n d) =
      min (2 ^ 256 - 1) (arr_val (multiply_hash_u64 q n) + unat r * unat n div unat d)"
    using add_to_hash_val [OF _ l] remainder_term [OF rd, of n]
    by (simp add: scale_target_fraction_def qr l)
  also have "\<dots> = min (2 ^ 256 - 1) (arr_val t div unat d * unat n + arr_val t mod unat d * unat n div unat d)"
    unfolding multiply_hash_val min_add_min q r ..
  finally show ?thesis unfolding scale_split [OF d] .
qed

lemma scale_target_val:
  assumes "d \<noteq> 0"
  shows "arr_val (scale_target t n d) = min (2 ^ 256 - 1) (arr_val t * unat n div unat d)"
proof -
  obtain q r where qr: "divide_hash_with_remainder t d = (q, r)" by fastforce
  have "unat r = arr_val t mod unat d"
    using divide_hash_val [OF assms, of t] by (simp add: qr)
  then have rd: "unat r < unat d" using assms by (simp add: unat_gt_0)
  define k where "k = (ucast r * ucast n :: u128) div ucast d"
  have "unat k < 2 ^ 64" using remainder_term [OF rd, of n] by (simp add: k_def)
  then have "(ucast (ucast k :: u64) :: u128) = k"
    by (simp add: word_unat_eq_iff word_nat unsigned_ucast_eq take_bit_eq_mod unat_mod)
  then have "scale_target t n d = scale_target_fraction t n d"
    using assms by (simp add: scale_target_def scale_target_fraction_def qr k_def [symmetric])
  then show ?thesis by (simp add: scale_target_fraction_val [OF assms])
qed


section \<open>Properties\<close>

text \<open>A target scaled by a fraction, rounded down and saturating at the largest target.\<close>

definition scaled :: "hash256 \<Rightarrow> nat \<Rightarrow> nat \<Rightarrow> nat" where
  "scaled t n d = min (2 ^ 256 - 1) (arr_val t * n div d)"

lemma scaled_one: "0 < d \<Longrightarrow> scaled t d d = arr_val t"
  using arr_val_lt [of t] by (simp add: scaled_def byte_power)

lemma scaled_mono: "n * d' \<le> n' * d \<Longrightarrow> 0 < d \<Longrightarrow> 0 < d' \<Longrightarrow> scaled t n d \<le> scaled t n' d'"
proof -
  assume h: "n * d' \<le> n' * d" "0 < d" "0 < d'"
  have "arr_val t * n div d = arr_val t * n * d' div (d * d')" using h by simp
  also have "\<dots> \<le> arr_val t * n' * d div (d * d')"
    using h(1) by (intro div_le_mono) (metis mult.assoc mult_le_mono2)
  also have "\<dots> = arr_val t * n' div d'" using h by (simp add: mult.commute [of d d'])
  finally show ?thesis unfolding scaled_def by (rule min.mono [OF order_refl])
qed

text \<open>
  C26. The byte-wise routines that scale a target, with the remainder carried separately, compute
  exactly the target times the numerator divided by the denominator, rounded down and
  saturating at the largest 256-bit target: no 128-bit intermediate wraps and no precision is
  lost by dividing before multiplying.
\<close>

theorem scale_target_exact:
  assumes "d \<noteq> 0"
  shows "arr_val (scale_target t n d) = scaled t (unat n) (unat d) \<and>
    arr_val (scale_target_fraction t n d) = scaled t (unat n) (unat d)"
  using scale_target_val [OF assms] scale_target_fraction_val [OF assms] by (simp add: scaled_def)

theorem scale_target_exact_witness:
  "arr_val (scale_target (arr_rep 0x0f) 9 8) = scaled (arr_rep 0x0f) 9 8"
  using scale_target_exact [of 8 "arr_rep 0x0f" 9] by simp

lemmas v2_consts = BLOCK_TIME_V2_FAST_MEDIAN_SECONDS_def BLOCK_TIME_V2_SLOW_INTERVAL_SECONDS_def
  BLOCK_TIME_V2_SLOW_CAP_NUMERATOR_def BLOCK_TIME_V2_SLOW_CAP_DENOMINATOR_def
  BLOCK_TIME_V2_NORMAL_CAP_NUMERATOR_def BLOCK_TIME_V2_NORMAL_CAP_DENOMINATOR_def
  BLOCK_TIME_V2_TARGET_SECONDS_def

text \<open>The cadence controller in one table: the fraction by which it scales the target.\<close>

definition v2_fraction :: "nat \<Rightarrow> nat \<Rightarrow> nat \<times> nat" where
  "v2_fraction median latest =
     (if median < 3 then (75, 100) else if 60 \<le> latest then (9, 8)
      else if median < 15 then (15, 16) else if median = 15 then (1, 1) else (17, 16))"

lemma v2_median_tests:
  "saturating_mul (saturating_mul m 16) 16 < saturating_mul (saturating_mul 15 16) (15 :: u64) \<longleftrightarrow> unat m < 15"
  "saturating_mul (saturating_mul m 16) 16 > saturating_mul (saturating_mul 15 16) (17 :: u64) \<longleftrightarrow> 15 < unat m"
  for m :: u64
  by (simp_all add: word_less_nat_alt word_nat min_def) linarith+

lemma v2_cases:
  "next_block_difficulty_target_v2 t m l =
    (if unat m < 3 then scale_target_fraction t 75 100
     else if 60 \<le> unat l then scale_target_fraction t 9 8
     else if unat m < 15 then scale_target_fraction t 15 16
     else if 15 < unat m then scale_target_fraction t 17 16
     else scale_target t (saturating_mul m 16) (saturating_mul 15 16))"
  using v2_median_tests [of m]
  by (simp add: next_block_difficulty_target_v2_def v2_consts Let_def word_less_nat_alt word_le_nat_alt)

lemma v2_val:
  "arr_val (next_block_difficulty_target_v2 t m l) =
    (case v2_fraction (unat m) (unat l) of (n, d) \<Rightarrow> scaled t n d)"
proof (cases "unat m = 15 \<and> unat l < 60")
  case True
  then have m: "m = 15" by (simp add: word_unat_eq_iff)
  have "saturating_mul 15 (16 :: u64) = 240" by (simp add: saturating_mul_def)
  then have "arr_val (next_block_difficulty_target_v2 t m l) = scaled t 240 240"
    using True scale_target_val [of 240 t 240] by (simp add: v2_cases m scaled_def)
  then show ?thesis using True by (simp add: v2_fraction_def scaled_one)
next
  case False
  then show ?thesis
    by (auto simp: v2_cases v2_fraction_def scale_target_fraction_val scaled_def)
qed

text \<open>
  The second cadence controller, in closed form: for a median interval below 3 seconds the
  target shrinks to three quarters; otherwise after an interval of at least a minute it grows by
  an eighth; otherwise it shrinks or grows by a sixteenth as the median is below or above
  15 seconds, and at a median of exactly 15 seconds it stays.  Every step therefore keeps the
  target between three quarters and nine eighths of its value.
\<close>

theorem next_block_difficulty_target_v2_closed_form:
  "arr_val (next_block_difficulty_target_v2 t m l) =
      (case v2_fraction (unat m) (unat l) of (n, d) \<Rightarrow> scaled t n d) \<and>
    scaled t 3 4 \<le> arr_val (next_block_difficulty_target_v2 t m l) \<and>
    arr_val (next_block_difficulty_target_v2 t m l) \<le> scaled t 9 8"
  unfolding v2_val by (auto simp: v2_fraction_def intro!: scaled_mono)

text \<open>
  The first per-block rule leaves the target alone for an interval of 15 to 45 seconds and
  otherwise scales it by three quarters or five quarters; the window rule scales it by the
  measured window over the expected half hour, with the window clamped to a factor of four.
\<close>

theorem difficulty_rules_closed_form:
  "arr_val (next_block_difficulty_target t s) =
      (if unat s < 15 then scaled t 3 4 else if unat s \<le> 45 then arr_val t else scaled t 5 4) \<and>
    arr_val (next_difficulty_target t w) = scaled t (max 450 (min 7200 (unat w))) 1800"
proof
  have "scaled t 75 100 = scaled t 3 4" "scaled t 125 100 = scaled t 5 4"
    by (intro order_antisym scaled_mono; simp)+
  then show "arr_val (next_block_difficulty_target t s) =
      (if unat s < 15 then scaled t 3 4 else if unat s \<le> 45 then arr_val t else scaled t 5 4)"
    by (auto simp: next_block_difficulty_target_def blq_consts scale_target_fraction_val scaled_def
        word_less_nat_alt word_le_nat_alt)
  show "arr_val (next_difficulty_target t w) = scaled t (max 450 (min 7200 (unat w))) 1800"
    by (auto simp: next_difficulty_target_def blq_consts clamp_def scale_target_val scaled_def
        word_less_nat_alt word_le_nat_alt)
qed

end
