(* ===== verification/Consensus.thy ===== *)
theory Consensus
  imports Pow Difficulty Encoding_Props Rlp
begin

text \<open>
  \<open>crates/blq-consensus/src/lib.rs\<close>: issuance, the split of fees between burning and the
  miner, the base fee, and the validation of headers, blocks and transaction fees.  Arithmetic
  that the release build wraps (\<open>number + 1\<close>, the products of the base fee) is word arithmetic.
\<close>

datatype consensus_error =
    GasUsedExceedsLimit | InvalidProofOfWork | InvalidProofOfWorkFields | InvalidBlockNumber
  | InvalidTimestamp | InvalidParentHash | BlockTooLarge | InvalidTransactionsRoot
  | InvalidReceiptsRoot | ReceiptTransactionMismatch | InvalidTransactionChainId
  | MaxFeeBelowBaseFee | PriorityFeeExceedsMaxFee | UnsupportedTransactionType
  | TransactionPayloadTooLarge | AccessListTooLarge | InvalidBaseFee

section \<open>Issuance and fees\<close>

record fee_split =
  fs_burn_percent :: u8
  fs_miner_percent :: u8

definition split_fee :: "fee_split \<Rightarrow> bix \<Rightarrow> bix \<times> bix" where
  "split_fee fs fee =
     (let burn = saturating_mul fee (ucast (fs_burn_percent fs)) div 100
      in (burn, saturating_sub fee burn))"

definition block_subsidy_bix :: bix where
  "block_subsidy_bix = BLQ_ISSUANCE_PER_INTERVAL_BIX div ucast DIFFICULTY_ADJUSTMENT_INTERVAL"

definition issuance_interval_remainder_bix :: bix where
  "issuance_interval_remainder_bix = BLQ_ISSUANCE_PER_INTERVAL_BIX mod ucast DIFFICULTY_ADJUSTMENT_INTERVAL"

definition block_reward_bix :: "u64 \<Rightarrow> bix" where
  "block_reward_bix block_number =
     (if block_number = 0 then 0
      else
        (let reward = block_subsidy_bix
         in if block_number mod DIFFICULTY_ADJUSTMENT_INTERVAL = 0
            then saturating_add reward issuance_interval_remainder_bix else reward))"

definition block_reward_for_interval_bix :: "u64 \<Rightarrow> u64 \<Rightarrow> bix" where
  "block_reward_for_interval_bix parent_timestamp child_timestamp =
     (let elapsed = min (saturating_sub child_timestamp parent_timestamp) MAX_REWARD_INTERVAL_SECONDS
      in saturating_mul BLQ_ISSUANCE_PER_INTERVAL_BIX (ucast elapsed) div (10 * 60))"

definition fee_split_for_utilization :: "u64 \<Rightarrow> fee_split" where
  "fee_split_for_utilization utilization =
     (let bounded = min utilization MAX_UTILIZATION_BASIS_POINTS;
          burn_range = ucast (MAX_BURN_PERCENT - MIN_BURN_PERCENT) :: u64;
          burn = ucast MIN_BURN_PERCENT + (burn_range * bounded div MAX_UTILIZATION_BASIS_POINTS)
      in \<lparr>fs_burn_percent = ucast burn, fs_miner_percent = 100 - ucast burn\<rparr>)"

definition utilization_basis_points :: "u64 \<Rightarrow> u64 \<Rightarrow> u64" where
  "utilization_basis_points gas_used gas_limit =
     (if gas_limit = 0 then 0
      else saturating_mul gas_used MAX_UTILIZATION_BASIS_POINTS div gas_limit)"

definition next_base_fee_per_gas :: "block_header \<Rightarrow> bix" where
  "next_base_fee_per_gas parent =
     (let target_gas = max (h_gas_limit parent div EIP1559_ELASTICITY_MULTIPLIER) 1;
          parent_base_fee = h_base_fee_per_gas parent
      in if h_gas_used parent = target_gas then parent_base_fee
         else if h_gas_used parent > target_gas then
           (let gas_delta = ucast (h_gas_used parent - target_gas);
                change = max (parent_base_fee * gas_delta div ucast target_gas
                               div ucast EIP1559_BASE_FEE_MAX_CHANGE_DENOMINATOR) 1
            in saturating_add parent_base_fee change)
         else
           (let gas_delta = ucast (target_gas - h_gas_used parent);
                change = parent_base_fee * gas_delta div ucast target_gas
                           div ucast EIP1559_BASE_FEE_MAX_CHANGE_DENOMINATOR
            in saturating_sub parent_base_fee change))"

section \<open>Validation\<close>

definition satisfies_pow :: "hash256 \<Rightarrow> hash256 \<Rightarrow> bool" where
  "satisfies_pow hash target \<longleftrightarrow> hash \<le> target"

fun map_pow_error :: "pow_error \<Rightarrow> consensus_error" where
  "map_pow_error UnsupportedAlgorithm = InvalidProofOfWorkFields"
| "map_pow_error InvalidEpoch = InvalidProofOfWorkFields"
| "map_pow_error InvalidMixHash = InvalidProofOfWorkFields"

definition validate_header_with_genesis ::
  "ext \<Rightarrow> block_header \<Rightarrow> block_header \<Rightarrow> hash256 \<Rightarrow> consensus_error + unit" where
  "validate_header_with_genesis e parent child genesis_hash =
     (if h_number child \<noteq> h_number parent + 1 then Inl InvalidBlockNumber
      else if h_timestamp_seconds child \<le> h_timestamp_seconds parent then Inl InvalidTimestamp
      else if h_gas_used child > h_gas_limit child then Inl GasUsedExceedsLimit
      else
        res_bind (res_map_err map_pow_error (validate_pow_fields e child genesis_hash)) (\<lambda>_.
          if \<not> satisfies_pow (pr_final_hash (blq_rx_hash e child genesis_hash)) (h_difficulty_target child)
          then Inl InvalidProofOfWork else Inr ()))"

definition validate_header :: "ext \<Rightarrow> block_header \<Rightarrow> block_header \<Rightarrow> consensus_error + unit" where
  "validate_header e parent child =
     validate_header_with_genesis e parent child (header_hash e (genesis_header e))"

definition block_size_rule_active :: "u64 \<Rightarrow> u64 option \<Rightarrow> bool" where
  "block_size_rule_active height activation_height =
     (case activation_height of None \<Rightarrow> False | Some activation \<Rightarrow> height \<ge> activation)"

definition validate_block_size :: "block \<Rightarrow> consensus_error + unit" where
  "validate_block_size b = ensure (length (block_canonical_bytes b) \<le> MAX_BLOCK_BYTES) BlockTooLarge"

definition validate_transaction_fee :: "transaction \<Rightarrow> bix \<Rightarrow> consensus_error + unit" where
  "validate_transaction_fee t base_fee_per_gas =
     (if tx_chain_id t \<noteq> MAINNET_CHAIN_ID then Inl InvalidTransactionChainId
      else if tx_type t > 2 \<or> (tx_type t = 0 \<and> tx_access_list t \<noteq> []) then Inl UnsupportedTransactionType
      else if length (tx_payload t) > MAX_TRANSACTION_PAYLOAD_BYTES then Inl TransactionPayloadTooLarge
      else if length (tx_access_list t) > MAX_ACCESS_LIST_ENTRIES \<or>
         list_ex (\<lambda>item. length (al_storage_keys item) > MAX_ACCESS_LIST_STORAGE_KEYS_PER_ENTRY) (tx_access_list t) \<or>
         sum_list (map (\<lambda>item. length (al_storage_keys item)) (tx_access_list t)) > MAX_ACCESS_LIST_STORAGE_KEYS
        then Inl AccessListTooLarge
      else if tx_max_fee_per_gas t < base_fee_per_gas then Inl MaxFeeBelowBaseFee
      else if tx_max_priority_fee_per_gas t > tx_max_fee_per_gas t then Inl PriorityFeeExceedsMaxFee
      else Inr ())"

fun validate_fees :: "bix \<Rightarrow> transaction list \<Rightarrow> consensus_error + unit" where
  "validate_fees base_fee [] = Inr ()"
| "validate_fees base_fee (t # ts) =
     res_bind (validate_transaction_fee t base_fee) (\<lambda>_. validate_fees base_fee ts)"

definition validate_block_with_genesis_and_activation ::
  "ext \<Rightarrow> block_header \<Rightarrow> block \<Rightarrow> hash256 \<Rightarrow> u64 option \<Rightarrow> consensus_error + unit" where
  "validate_block_with_genesis_and_activation e parent b genesis_hash activation_height =
     res_bind (validate_header_with_genesis e parent (b_header b) genesis_hash) (\<lambda>_.
     if h_parent_hash (b_header b) \<noteq> header_hash e parent then Inl InvalidParentHash else
     res_bind (if block_size_rule_active (h_number (b_header b)) activation_height
               then validate_block_size b else Inr ()) (\<lambda>_.
     if length (b_transactions b) \<noteq> length (b_receipts b) then Inl ReceiptTransactionMismatch
     else if h_transactions_root (b_header b) \<noteq> transactions_root e (b_transactions b)
       then Inl InvalidTransactionsRoot
     else if h_receipts_root (b_header b) \<noteq> receipts_root e (b_receipts b) then Inl InvalidReceiptsRoot
     else if h_base_fee_per_gas (b_header b) \<noteq> next_base_fee_per_gas parent then Inl InvalidBaseFee
     else validate_fees (h_base_fee_per_gas (b_header b)) (b_transactions b)))"

definition validate_block_with_genesis ::
  "ext \<Rightarrow> block_header \<Rightarrow> block \<Rightarrow> hash256 \<Rightarrow> consensus_error + unit" where
  "validate_block_with_genesis e parent b genesis_hash =
     validate_block_with_genesis_and_activation e parent b genesis_hash (Some 0)"

definition validate_block :: "ext \<Rightarrow> block_header \<Rightarrow> block \<Rightarrow> consensus_error + unit" where
  "validate_block e parent b = validate_block_with_genesis e parent b (header_hash e (genesis_header e))"

section \<open>What acceptance means\<close>

lemma validate_fees_iff: "validate_fees f ts = Inr () \<longleftrightarrow> list_all (\<lambda>t. validate_transaction_fee t f = Inr ()) ts"
  by (induction ts) (auto simp: res_simps)

lemma validate_transaction_fee_iff:
  "validate_transaction_fee t f = Inr () \<longleftrightarrow>
     tx_chain_id t = MAINNET_CHAIN_ID \<and> tx_type t \<le> 2 \<and> (tx_type t \<noteq> 0 \<or> tx_access_list t = []) \<and>
     length (tx_payload t) \<le> MAX_TRANSACTION_PAYLOAD_BYTES \<and> access_list_limits (tx_access_list t) \<and>
     f \<le> tx_max_fee_per_gas t \<and> tx_max_priority_fee_per_gas t \<le> tx_max_fee_per_gas t"
  by (auto simp: validate_transaction_fee_def access_list_limits_def total_keys_of_def not_less not_le
      list_all_iff list_ex_iff)

lemma validate_header_iff:
  "validate_header_with_genesis e p c g = Inr () \<longleftrightarrow>
     h_number c = h_number p + 1 \<and> h_timestamp_seconds p < h_timestamp_seconds c \<and>
     h_gas_used c \<le> h_gas_limit c \<and> validate_pow_fields e c g = Inr () \<and>
     pr_final_hash (blq_rx_hash e c g) \<le> h_difficulty_target c"
  by (auto simp: validate_header_with_genesis_def satisfies_pow_def res_simps not_le not_less)

lemma validate_block_iff:
  "validate_block_with_genesis_and_activation e p b g a = Inr () \<longleftrightarrow>
     validate_header_with_genesis e p (b_header b) g = Inr () \<and>
     h_parent_hash (b_header b) = header_hash e p \<and>
     (block_size_rule_active (h_number (b_header b)) a \<longrightarrow> length (block_canonical_bytes b) \<le> MAX_BLOCK_BYTES) \<and>
     length (b_transactions b) = length (b_receipts b) \<and>
     h_transactions_root (b_header b) = transactions_root e (b_transactions b) \<and>
     h_receipts_root (b_header b) = receipts_root e (b_receipts b) \<and>
     h_base_fee_per_gas (b_header b) = next_base_fee_per_gas p \<and>
     list_all (\<lambda>t. validate_transaction_fee t (h_base_fee_per_gas (b_header b)) = Inr ()) (b_transactions b)"
  by (auto simp: validate_block_with_genesis_and_activation_def validate_block_size_def res_simps
      validate_fees_iff split: if_splits)


section \<open>Fees and issuance in closed form\<close>

lemma fee_split_val:
  "unat (fs_burn_percent (fee_split_for_utilization u)) = 5 + 35 * min (unat u) 10000 div 10000"
  "unat (fs_miner_percent (fee_split_for_utilization u)) = 95 - 35 * min (unat u) 10000 div 10000"
proof -
  define b where "b = min u (10000 :: u64)"
  have b: "unat b = min (unat u) 10000" by (auto simp: b_def min_def word_le_nat_alt)
  define r where "r = 35 * min (unat u) 10000 div 10000"
  have r: "r \<le> 35" unfolding r_def by (simp add: div_le_mono)
  have p: "unat (35 * b) = 35 * unat b" using b by (subst unat_mul_no_wrap) simp_all
  have "unat (35 * b div 10000) = r" by (simp add: unat_div p b r_def)
  then have burn: "unat (5 + 35 * b div 10000 :: u64) = 5 + r"
    using r by (subst unat_add_no_wrap) simp_all
  then have u8: "unat (ucast (5 + 35 * b div 10000 :: u64) :: u8) = 5 + r"
    using r by (simp add: unsigned_ucast_eq take_bit_eq_mod del: unsigned_less)
  have fs: "fee_split_for_utilization u = \<lparr>fs_burn_percent = ucast (5 + 35 * b div 10000),
      fs_miner_percent = 100 - ucast (5 + 35 * b div 10000)\<rparr>"
    by (simp add: fee_split_for_utilization_def blq_consts b_def Let_def)
  show "unat (fs_burn_percent (fee_split_for_utilization u)) = 5 + 35 * min (unat u) 10000 div 10000"
    using u8 by (simp add: fs r_def)
  have "unat (100 - ucast (5 + 35 * b div 10000 :: u64) :: u8) = 100 - (5 + r)"
    using u8 r by (subst unat_sub) (simp_all add: word_le_nat_alt)
  then show "unat (fs_miner_percent (fee_split_for_utilization u)) = 95 - 35 * min (unat u) 10000 div 10000"
    by (simp add: fs r_def)
qed

lemma split_fee_burn:
  "unat (fst (split_fee fs fee)) = min (unat fee * unat (fs_burn_percent fs)) (2 ^ 128 - 1) div 100"
  by (simp add: split_fee_def unat_div word_nat Let_def)

lemma split_fee_total:
  assumes "unat (fs_burn_percent fs) \<le> 100"
  shows "unat (fst (split_fee fs fee)) + unat (snd (split_fee fs fee)) = unat fee"
proof -
  have "unat (fst (split_fee fs fee)) \<le> unat fee * 100 div 100"
    unfolding split_fee_burn using assms by (intro div_le_mono) (simp add: min_le_iff_disj)
  moreover have "snd (split_fee fs fee) = saturating_sub fee (fst (split_fee fs fee))"
    by (simp add: split_fee_def Let_def)
  ultimately show ?thesis by (simp add: word_nat)
qed

lemma burn_percent_bounds:
  "5 \<le> unat (fs_burn_percent (fee_split_for_utilization u))"
  "unat (fs_burn_percent (fee_split_for_utilization u)) \<le> 40"
  unfolding fee_split_val by (simp_all add: div_le_mono)

text \<open>
  The fee split.  The burnt percentage lies between 5 and 40 and rises with the
  utilization, the two percentages make 100, and whatever the fee, burnt part and miner part
  add up to exactly the fee, the burnt part being at most 40 percent of it.
\<close>

theorem fee_split_conserves:
  "let fs = fee_split_for_utilization u; (burn, tip) = split_fee fs fee in
     5 \<le> unat (fs_burn_percent fs) \<and> unat (fs_burn_percent fs) \<le> 40 \<and>
     unat (fs_burn_percent fs) + unat (fs_miner_percent fs) = 100 \<and>
     unat burn + unat tip = unat fee \<and> unat burn \<le> unat fee * 40 div 100"
proof -
  define p where "p = unat (fs_burn_percent (fee_split_for_utilization u))"
  have p: "5 \<le> p" "p \<le> 40" unfolding p_def by (rule burn_percent_bounds)+
  have m: "unat (fs_miner_percent (fee_split_for_utilization u)) = 100 - p"
    unfolding p_def fee_split_val by simp
  have "unat (fst (split_fee (fee_split_for_utilization u) fee)) \<le> unat fee * 40 div 100"
    unfolding split_fee_burn using p(2) by (intro div_le_mono) (simp add: min_le_iff_disj p_def)
  then show ?thesis
    using p m split_fee_total [of "fee_split_for_utilization u" fee]
    by (auto simp: Let_def p_def split: prod.splits)
qed

lemma unat_of_nat_small: "m < 2 ^ LENGTH('a) \<Longrightarrow> unat (of_nat m :: 'a::len word) = m"
  by (simp add: unat_of_nat)

lemma block_reward_val:
  "n \<noteq> 0 \<Longrightarrow> unat (block_reward_bix n) =
    (if unat n mod 60 = 0 then 16666666666666706 else 16666666666666666)"
  by (simp add: block_reward_bix_def block_subsidy_bix_def issuance_interval_remainder_bix_def
      blq_consts Let_def word_unat_eq_iff unat_mod saturating_add_def)


text \<open>
  C27. Issuance.  Over any sixty consecutive blocks that end at a multiple of sixty the block
  rewards add up to exactly one BLQ, and the reward for a time interval is one BLQ per ten minutes
  of the interval, rounded down, for at most two minutes.
\<close>

theorem issuance:
  assumes "60 * k + 60 < 2 ^ 64"
  shows "sum_list (map (\<lambda>i. unat (block_reward_bix (of_nat (60 * k + i)))) [1..<61]) = 10 ^ 18 \<and>
    unat (block_reward_for_interval_bix p c) = 10 ^ 18 * min 120 (unat c - unat p) div 600"
proof
  have "unat (block_reward_bix (of_nat (60 * k + i))) =
      (if i mod 60 = 0 then 16666666666666706 else 16666666666666666)" if "i \<in> set [1..<61]" for i
  proof -
    define n :: u64 where "n = of_nat (60 * k + i)"
    have n: "unat n = 60 * k + i"
      unfolding n_def by (rule unat_of_nat_small) (use assms that in simp)
    have "n \<noteq> 0" using n that by auto
    then show ?thesis using block_reward_val [of n] n by (simp add: n_def)
  qed
  then have "map (\<lambda>i. unat (block_reward_bix (of_nat (60 * k + i)))) [1..<61] =
      map (\<lambda>i. if i mod 60 = 0 then 16666666666666706 else 16666666666666666) [1..<61]"
    by (intro map_cong refl)
  moreover have "sum_list (map (\<lambda>i::nat. if i mod 60 = 0 then 16666666666666706 else 16666666666666666) [1..<61])
      = (10 ^ 18 :: nat)" by (simp add: upt_conv_Cons)
  ultimately show "sum_list (map (\<lambda>i. unat (block_reward_bix (of_nat (60 * k + i)))) [1..<61]) = 10 ^ 18"
    by (simp only:)
  have "unat (min (saturating_sub c p) 120) = min 120 (unat c - unat p)"
    using unat_saturating_sub [of c p] by (auto simp: min_def word_le_nat_alt)
  then show "unat (block_reward_for_interval_bix p c) = 10 ^ 18 * min 120 (unat c - unat p) div 600"
    by (simp add: block_reward_for_interval_bix_def blq_consts unat_div word_nat Let_def)
qed

theorem issuance_witness:
  "sum_list (map (\<lambda>i. unat (block_reward_bix (of_nat (60 * 7 + i)))) [1..<61]) = 10 ^ 18"
  using issuance [of 7 0 0] by simp

definition gas_target :: "block_header \<Rightarrow> nat" where
  "gas_target h = max (unat (h_gas_limit h) div 2) 1"

lemma gas_target_word:
  "unat (max (h_gas_limit h div EIP1559_ELASTICITY_MULTIPLIER) 1) = gas_target h"
  by (auto simp: gas_target_def blq_consts max_def word_le_nat_alt unat_div)

lemma base_fee_change:
  fixes base :: u128 and d t :: u64
  assumes "unat base * unat d < 2 ^ 128"
  shows "unat (base * ucast d div ucast t div ucast EIP1559_BASE_FEE_MAX_CHANGE_DENOMINATOR) =
    unat base * unat d div unat t div 8"
proof -
  have "unat (base * ucast d) = unat base * unat d"
    using assms by (subst unat_mul_no_wrap) (simp_all add: word_nat)
  then show ?thesis by (simp add: unat_div word_nat blq_consts)
qed

lemma fee_step_bound: "d \<le> t \<Longrightarrow> b * d div t div 8 \<le> b div 8" for b d t :: nat
proof -
  assume "d \<le> t"
  then have "b * d div t \<le> b * t div t" by (intro div_le_mono mult_le_mono2)
  then have "b * d div t \<le> b" by (cases "t = 0") simp_all
  then show ?thesis by (rule div_le_mono)
qed

lemma base_fee_above:
  assumes "gas_target h < unat (h_gas_used h)"
    and "unat (h_base_fee_per_gas h) * (unat (h_gas_used h) - gas_target h) < 2 ^ 128"
  shows "unat (next_base_fee_per_gas h) = min (2 ^ 128 - 1) (unat (h_base_fee_per_gas h) +
    max 1 (unat (h_base_fee_per_gas h) * (unat (h_gas_used h) - gas_target h) div gas_target h div 8))"
proof -
  define t where "t = max (h_gas_limit h div EIP1559_ELASTICITY_MULTIPLIER) 1"
  have t: "unat t = gas_target h" by (simp add: t_def gas_target_word)
  then have lt: "t < h_gas_used h" using assms by (simp add: word_less_nat_alt)
  then have d: "unat (h_gas_used h - t) = unat (h_gas_used h) - gas_target h"
    by (simp add: unat_sub t)
  have "next_base_fee_per_gas h = saturating_add (h_base_fee_per_gas h)
      (max (h_base_fee_per_gas h * ucast (h_gas_used h - t) div ucast t
        div ucast EIP1559_BASE_FEE_MAX_CHANGE_DENOMINATOR) 1)"
    using lt less_imp_neq [OF lt] less_not_sym [OF lt]
    by (simp add: next_base_fee_per_gas_def t_def [symmetric] Let_def)
  moreover have "unat (max x 1) = max 1 (unat x)" for x :: u128
    by (auto simp: max_def word_le_nat_alt)
  ultimately show ?thesis
    using base_fee_change [of "h_base_fee_per_gas h" "h_gas_used h - t" t] assms(2)
    by (simp add: word_nat d t min.commute)
qed

lemma base_fee_below:
  assumes "unat (h_gas_used h) < gas_target h"
    and "unat (h_base_fee_per_gas h) * (gas_target h - unat (h_gas_used h)) < 2 ^ 128"
  shows "unat (next_base_fee_per_gas h) = unat (h_base_fee_per_gas h) -
    unat (h_base_fee_per_gas h) * (gas_target h - unat (h_gas_used h)) div gas_target h div 8"
proof -
  define t where "t = max (h_gas_limit h div EIP1559_ELASTICITY_MULTIPLIER) 1"
  have t: "unat t = gas_target h" by (simp add: t_def gas_target_word)
  then have lt: "h_gas_used h < t" using assms by (simp add: word_less_nat_alt)
  then have d: "unat (t - h_gas_used h) = gas_target h - unat (h_gas_used h)"
    by (simp add: unat_sub t)
  have "next_base_fee_per_gas h = saturating_sub (h_base_fee_per_gas h)
      (h_base_fee_per_gas h * ucast (t - h_gas_used h) div ucast t
        div ucast EIP1559_BASE_FEE_MAX_CHANGE_DENOMINATOR)"
    using lt less_imp_neq [OF lt] less_not_sym [OF lt]
    by (simp add: next_base_fee_per_gas_def t_def [symmetric] Let_def)
  then show ?thesis
    using base_fee_change [of "h_base_fee_per_gas h" "t - h_gas_used h" t] assms(2)
    by (simp add: word_nat d t)
qed




section \<open>Blocks and chains\<close>


text \<open>A chain of blocks, each validated on the header before it.\<close>

fun valid_chain :: "ext \<Rightarrow> hash256 \<Rightarrow> u64 option \<Rightarrow> block_header \<Rightarrow> block list \<Rightarrow> bool" where
  "valid_chain e g a p [] = True"
| "valid_chain e g a p (b # bs) =
     (validate_block_with_genesis_and_activation e p b g a = Inr () \<and> valid_chain e g a (b_header b) bs)"

lemma valid_chain_timestamps:
  "valid_chain e g a p bs \<Longrightarrow>
     sorted_wrt (\<lambda>x y. h_timestamp_seconds x < h_timestamp_seconds y) (p # map b_header bs)"
proof (induction bs arbitrary: p)
  case Nil
  then show ?case by simp
next
  case (Cons b bs)
  then have "sorted_wrt (\<lambda>x y. h_timestamp_seconds x < h_timestamp_seconds y) (b_header b # map b_header bs)"
    using Cons.IH [of "b_header b"] by auto
  moreover have "h_timestamp_seconds p < h_timestamp_seconds (b_header b)"
    using Cons.prems by (simp add: validate_block_iff validate_header_iff)
  ultimately show ?case by (auto intro: less_trans)
qed

lemma valid_chain_nth:
  "valid_chain e g a p bs \<Longrightarrow> i < length bs \<Longrightarrow>
    h_number (b_header (bs ! i)) = h_number p + of_nat (Suc i) \<and>
    validate_block_with_genesis_and_activation e (if i = 0 then p else b_header (bs ! (i - 1))) (bs ! i) g a = Inr ()"
proof (induction bs arbitrary: p i)
  case Nil
  then show ?case by simp
next
  case (Cons b bs)
  have n: "h_number (b_header b) = h_number p + 1"
    using Cons.prems(1) by (simp add: validate_block_iff validate_header_iff)
  show ?case
  proof (cases i)
    case 0
    then show ?thesis using Cons.prems n by simp
  next
    case (Suc j)
    then show ?thesis
      using Cons.prems Cons.IH [of "b_header b" j] n by (cases j) simp_all
  qed
qed

lemma sorted_distinct:
  "sorted_wrt (\<lambda>x y. f x < f y) xs \<Longrightarrow> distinct xs" for f :: "'a \<Rightarrow> 'b::order"
  by (induction xs) auto


definition demo_rx :: ext where
  "demo_rx = demo_ext\<lparr>x_native_randomx := True, x_randomx := \<lambda>_ _. arr_rep 0\<rparr>"

definition demo_child :: block where
  "demo_child = \<lparr>b_header = (genesis_header demo_rx)\<lparr>h_parent_hash := header_hash demo_rx (genesis_header demo_rx),
       h_number := 1, h_timestamp_seconds := 30, h_mix_hash := arr_rep 0,
       h_base_fee_per_gas := 875000000\<rparr>,
     b_transactions = [], b_receipts = []\<rparr>"

lemma demo_genesis_fee: "next_base_fee_per_gas (genesis_header demo_rx) = 875000000"
  by (simp add: next_base_fee_per_gas_def genesis_header_def blq_consts Let_def saturating_sub_def)

lemma demo_child_fields:
  "h_number (b_header demo_child) = 1" "h_number (genesis_header e) = 0"
  "h_timestamp_seconds (b_header demo_child) = 30" "h_timestamp_seconds (genesis_header e) = 0"
  "h_gas_used (b_header demo_child) = 0" "b_transactions demo_child = []" "b_receipts demo_child = []"
  "h_parent_hash (b_header demo_child) = header_hash demo_rx (genesis_header demo_rx)"
  "h_transactions_root (b_header demo_child) = transactions_root demo_rx []"
  "h_receipts_root (b_header demo_child) = receipts_root demo_rx []"
  "h_base_fee_per_gas (b_header demo_child) = 875000000"
  by (simp_all add: demo_child_def genesis_header_def transactions_root_def receipts_root_def
        merkle_like_root_def EMPTY_TRANSACTIONS_ROOT_def EMPTY_RECEIPTS_ROOT_def ZERO_HASH_def blq_consts)

lemma demo_child_valid:
  "validate_block_with_genesis_and_activation demo_rx (genesis_header demo_rx) demo_child g None = Inr ()"
proof -
  have "validate_pow_fields demo_rx (b_header demo_child) g = Inr ()"
    by (simp add: validate_pow_fields_def blq_rx_hash_def native_randomx_hash_def demo_rx_def
        demo_child_def genesis_header_def DEFAULT_POW_ALGORITHM_def POW_ALGORITHM_def
        epoch_for_height_def blq_consts Let_def)
  moreover have "pr_final_hash (blq_rx_hash demo_rx (b_header demo_child) g) \<le> h_difficulty_target (b_header demo_child)"
    by (simp add: blq_rx_hash_def native_randomx_hash_def demo_rx_def demo_child_def
        genesis_header_def GENESIS_DIFFICULTY_TARGET_def Let_def arr_le_iff_val arr_val_def
        be_val_zeros [of _ "[]", simplified])
  moreover have "block_size_rule_active n None = False" for n by (simp add: block_size_rule_active_def)
  ultimately show ?thesis
    unfolding validate_block_iff validate_header_iff by (simp add: demo_child_fields demo_genesis_fee)
qed



end
