(* ===== verification/State.thy ===== *)
theory State
  imports Consensus
begin

text \<open>
  \<open>crates/blq-state/src/lib.rs\<close>: accounts and the in-memory state with its transfer.  The
  interface of an account store (what a read returns after a write) is a locale, which the
  in-memory state here and the EVM state later provide.
\<close>

record account =
  ac_nonce :: u64
  ac_balance :: bix
  ac_code_hash :: hash256
  ac_storage_root :: hash256
  ac_code :: bytes
  ac_storage :: "(hash256, hash256) fmap"

definition account_empty :: account where
  "account_empty = \<lparr>ac_nonce = 0, ac_balance = 0, ac_code_hash = ZERO_HASH,
     ac_storage_root = ZERO_HASH, ac_code = [], ac_storage = fmempty\<rparr>"

datatype state_error = InsufficientBalance | InvalidNonce

record in_memory_state =
  ims_accounts :: "(address, account) fmap"

definition account_of :: "in_memory_state \<Rightarrow> address \<Rightarrow> account" where
  "account_of st a = (case fmlookup (ims_accounts st) a of Some ac \<Rightarrow> ac | None \<Rightarrow> account_empty)"

definition put_account :: "in_memory_state \<Rightarrow> address \<Rightarrow> account \<Rightarrow> in_memory_state" where
  "put_account st a ac = st\<lparr>ims_accounts := fmupd a ac (ims_accounts st)\<rparr>"

definition state_transfer ::
  "in_memory_state \<Rightarrow> address \<Rightarrow> address \<Rightarrow> u64 \<Rightarrow> bix \<Rightarrow> bix \<Rightarrow> state_error + in_memory_state" where
  "state_transfer st frm to nonce value fee =
     (let sender = account_of st frm
      in if ac_nonce sender \<noteq> nonce then Inl InvalidNonce
         else
           (let total_cost = saturating_add value fee
            in if ac_balance sender < total_cost then Inl InsufficientBalance
               else
                 (let sender' = sender\<lparr>ac_balance := ac_balance sender - total_cost,
                                       ac_nonce := ac_nonce sender + 1\<rparr>;
                      receiver = account_of st to;
                      receiver' = receiver\<lparr>ac_balance := saturating_add (ac_balance receiver) value\<rparr>
                  in Inr (put_account (put_account st frm sender') to receiver'))))"

text \<open>\<open>StateTransitionSummary\<close>, a record of results that no other code builds.\<close>

record state_transition_summary =
  sts_state_root :: hash256
  sts_receipts_root :: hash256
  sts_gas_used :: u64
  sts_burned_fees :: bix
  sts_miner_fees :: bix

section \<open>The interface of an account store\<close>

locale account_store =
  fixes acct :: "'s \<Rightarrow> 'k \<Rightarrow> 'a" and put :: "'s \<Rightarrow> 'k \<Rightarrow> 'a \<Rightarrow> 's"
  assumes acct_put: "acct (put s a x) b = (if b = a then x else acct s b)"
begin

text \<open>After a batch of writes a read sees the last write to its key.\<close>

lemma acct_fold_put:
  "acct (fold (\<lambda>(a, x) s. put s a x) ws s) b =
     (case map_of (rev ws) b of Some x \<Rightarrow> x | None \<Rightarrow> acct s b)"
proof (induction ws arbitrary: s)
  case Nil
  then show ?case by simp
next
  case (Cons w ws)
  then show ?case
    by (cases w) (simp add: acct_put map_add_def split: option.splits)
qed

lemma acct_two_writes:
  "a \<noteq> b \<Longrightarrow> acct (put (put s a x) b y) a = x \<and> acct (put (put s a x) b y) b = y"
  by (simp add: acct_put)

end

interpretation mem_store: account_store account_of put_account
  by unfold_locales (simp add: account_of_def put_account_def)

section \<open>Transfers\<close>

definition balances_total :: "in_memory_state \<Rightarrow> nat" where
  "balances_total st = fm_total (\<lambda>ac. unat (ac_balance ac)) (ims_accounts st)"

lemma fm_val_balance: "fm_val (\<lambda>ac. unat (ac_balance ac)) (ims_accounts st) a = unat (ac_balance (account_of st a))"
  by (simp add: fm_val_def account_of_def account_empty_def split: option.splits)

lemma balances_total_put:
  "balances_total (put_account st a ac) + unat (ac_balance (account_of st a)) =
     balances_total st + unat (ac_balance ac)"
  using fm_total_upd [of "\<lambda>ac. unat (ac_balance ac)" a ac "ims_accounts st"]
  by (simp add: balances_total_def put_account_def fm_val_balance)

lemma balance_le_total: "unat (ac_balance (account_of st a)) \<le> balances_total st"
  using fm_val_le_total [of "\<lambda>ac. unat (ac_balance ac)" "ims_accounts st" a]
  by (simp add: balances_total_def fm_val_balance)

lemma balance_pair_le_total:
  "a \<noteq> b \<Longrightarrow> unat (ac_balance (account_of st a)) + unat (ac_balance (account_of st b)) \<le> balances_total st"
  using fm_val_pair_le_total [of a b "\<lambda>ac. unat (ac_balance ac)" "ims_accounts st"]
  by (simp add: balances_total_def fm_val_balance)

lemma state_transfer_ok:
  assumes "state_transfer st frm to nonce value fee = Inr st'"
  shows "ac_nonce (account_of st frm) = nonce"
    and "saturating_add value fee \<le> ac_balance (account_of st frm)"
    and "st' = put_account (put_account st frm
        ((account_of st frm)\<lparr>ac_balance := ac_balance (account_of st frm) - saturating_add value fee,
           ac_nonce := ac_nonce (account_of st frm) + 1\<rparr>)) to
        ((account_of st to)\<lparr>ac_balance := saturating_add (ac_balance (account_of st to)) value\<rparr>)"
  using assms by (auto simp: state_transfer_def Let_def not_less split: if_splits)

text \<open>With fewer than \<open>2 ^ 128 - 1\<close> units in existence no addition of a transfer saturates.\<close>

lemma cost_exact:
  fixes v f b :: u128
  assumes "saturating_add v f \<le> b" "unat b < 2 ^ 128 - 1"
  shows "unat (saturating_add v f) = unat v + unat f"
  using assms unat_saturating_add [of v f] by (auto simp: word_le_nat_alt min_def split: if_splits)


definition demo_state :: in_memory_state where
  "demo_state = put_account \<lparr>ims_accounts = fmempty\<rparr> (arr_rep 7) (account_empty\<lparr>ac_balance := 100\<rparr>)"

lemma demo_state_facts:
  "balances_total demo_state = 100" "account_of demo_state (arr_rep 7) = account_empty\<lparr>ac_balance := 100\<rparr>"
  using balances_total_put [of "\<lparr>ims_accounts = fmempty\<rparr>" "arr_rep 7" "account_empty\<lparr>ac_balance := 100\<rparr>"]
  by (simp_all add: demo_state_def mem_store.acct_put)
    (simp_all add: balances_total_def account_of_def account_empty_def)

lemma demo_transfer_ok:
  "\<exists>st'. state_transfer demo_state (arr_rep 7) to 0 30 5 = Inr st'"
  by (simp add: state_transfer_def demo_state_facts Let_def account_empty_def saturating_add_def)

lemma arr_7_9: "(arr_rep 7 :: address) \<noteq> arr_rep 9"
  by (simp add: arr_eq_iff)


text \<open>
  C30. A transfer from an account to itself is wrong: the receiver is read before the sender is
  written, so the write of the receiver undoes the debit.  The account gains the value out of
  nothing, pays no fee and keeps its nonce, so the same transfer can be repeated.
\<close>

theorem self_transfer_creates_value:
  assumes "state_transfer st a a nonce value fee = Inr st'"
    and "unat (ac_balance (account_of st a)) + unat value < 2 ^ 128"
  shows "unat (ac_balance (account_of st' a)) = unat (ac_balance (account_of st a)) + unat value \<and>
    ac_nonce (account_of st' a) = nonce \<and>
    balances_total st' = balances_total st + unat value"
proof -
  note ok = state_transfer_ok [OF assms(1)]
  define r' where "r' = (account_of st a)\<lparr>ac_balance := saturating_add (ac_balance (account_of st a)) value\<rparr>"
  have b: "unat (ac_balance r') = unat (ac_balance (account_of st a)) + unat value"
    using assms(2) by (simp add: r'_def word_nat)
  have "put_account (put_account st a x) a y = put_account st a y" for x y
    by (simp add: put_account_def)
  then have st': "st' = put_account st a r'" using ok(3) by (simp add: r'_def)
  show ?thesis
    using b ok(1) balances_total_put [of st a r'] unfolding st'
    by (simp add: mem_store.acct_put r'_def)
qed

theorem self_transfer_creates_value_witness:
  "\<exists>st'. state_transfer demo_state (arr_rep 7) (arr_rep 7) 0 30 5 = Inr st' \<and> balances_total st' = 130"
proof -
  obtain st' where "state_transfer demo_state (arr_rep 7) (arr_rep 7) 0 30 5 = Inr st'"
    using demo_transfer_ok by blast
  then show ?thesis
    using self_transfer_creates_value [of demo_state "arr_rep 7" 0 30 5 st']
    by (simp add: demo_state_facts)
qed

end
