(* ===== verification/Mempool.thy ===== *)
theory Mempool
  imports Consensus
begin

text \<open>
  \<open>crates/blq-mempool/src/lib.rs\<close>: the pool of pending transactions.  The clock is an argument
  \<open>now\<close>.  The file that \<open>load\<close> reads and \<open>save\<close> writes is represented by the entries that
  serde reads from it or writes to it.
\<close>

definition MAX_MEMPOOL_TRANSACTIONS :: nat where [blq_consts]: "MAX_MEMPOOL_TRANSACTIONS = 5000"
definition MIN_GAS_PRICE_BIX :: u128 where [blq_consts]: "MIN_GAS_PRICE_BIX = 1000000000"

datatype mempool_error =
  ConsensusRejected consensus_error | ReplacementFeeTooLow | MempoolFull | FeeTooLow

record mempool =
  mp_transactions :: "transaction list"
  mp_first_seen :: "(hash256, u64) fmap"

record persisted_entry =
  pe_transaction :: transaction
  pe_first_seen :: u64

definition mempool_default :: mempool where
  "mempool_default = \<lparr>mp_transactions = [], mp_first_seen = fmempty\<rparr>"

text \<open>The pair of fees that orders the pool, compared as a tuple.\<close>

definition priority_le :: "transaction \<Rightarrow> transaction \<Rightarrow> bool" where
  "priority_le a b \<longleftrightarrow> tx_max_priority_fee_per_gas a < tx_max_priority_fee_per_gas b \<or>
     (tx_max_priority_fee_per_gas a = tx_max_priority_fee_per_gas b \<and>
      tx_max_fee_per_gas a \<le> tx_max_fee_per_gas b)"

text \<open>The comparison of \<open>sort_by_fee\<close>: descending fees.\<close>

definition fee_order :: "transaction \<Rightarrow> transaction \<Rightarrow> bool" where
  "fee_order a b = priority_le b a"

definition sort_by_fee :: "mempool \<Rightarrow> mempool" where
  "sort_by_fee mp = mp\<lparr>mp_transactions := sort_by fee_order (mp_transactions mp)\<rparr>"

definition same_slot :: "transaction \<Rightarrow> transaction \<Rightarrow> bool" where
  "same_slot a b \<longleftrightarrow> tx_from a = tx_from b \<and> tx_nonce a = tx_nonce b"

fun replace_first :: "('a \<Rightarrow> bool) \<Rightarrow> 'a \<Rightarrow> 'a list \<Rightarrow> 'a list" where
  "replace_first p y [] = []"
| "replace_first p y (x # xs) = (if p x then y # xs else x # replace_first p y xs)"

definition insert_seen :: "ext \<Rightarrow> transaction \<Rightarrow> u64 \<Rightarrow> mempool \<Rightarrow> mempool" where
  "insert_seen e t now mp = mp\<lparr>mp_first_seen := fmupd (rpc_hash e t) now (mp_first_seen mp)\<rparr>"

definition mempool_add ::
  "ext \<Rightarrow> mempool \<Rightarrow> transaction \<Rightarrow> bix \<Rightarrow> u64 \<Rightarrow> mempool_error + mempool" where
  "mempool_add e mp t base_fee_per_gas now =
     (if tx_max_fee_per_gas t < MIN_GAS_PRICE_BIX then Inl FeeTooLow
      else res_bind (res_map_err ConsensusRejected (validate_transaction_fee t base_fee_per_gas)) (\<lambda>_.
        if list_ex (\<lambda>existing. rpc_hash e existing = rpc_hash e t) (mp_transactions mp) then Inr mp
        else case find (\<lambda>existing. same_slot existing t) (mp_transactions mp) of
          Some existing \<Rightarrow>
            if tx_max_fee_per_gas t \<le> tx_max_fee_per_gas existing then Inl ReplacementFeeTooLow
            else Inr (sort_by_fee (insert_seen e t now
                   (mp\<lparr>mp_transactions := replace_first (\<lambda>x. same_slot x t) t (mp_transactions mp)\<rparr>)))
        | None \<Rightarrow>
            res_bind
              (if MAX_MEMPOOL_TRANSACTIONS \<le> length (mp_transactions mp) then
                 (let lowest = last (mp_transactions mp)
                  in if priority_le t lowest then Inl MempoolFull
                     else Inr \<lparr>mp_transactions = butlast (mp_transactions mp),
                               mp_first_seen = fmdrop (rpc_hash e lowest) (mp_first_seen mp)\<rparr>)
               else Inr mp)
              (\<lambda>mp. Inr (sort_by_fee (insert_seen e t now
                 (mp\<lparr>mp_transactions := mp_transactions mp @ [t]\<rparr>))))))"

definition pending :: "mempool \<Rightarrow> transaction list" where
  "pending mp = mp_transactions mp"

definition seen_or :: "ext \<Rightarrow> mempool \<Rightarrow> u64 \<Rightarrow> transaction \<Rightarrow> u64" where
  "seen_or e mp now t = (case fmlookup (mp_first_seen mp) (rpc_hash e t) of Some s \<Rightarrow> s | None \<Rightarrow> now)"

definition pending_with_age :: "ext \<Rightarrow> mempool \<Rightarrow> u64 \<Rightarrow> (transaction \<times> u64) list" where
  "pending_with_age e mp now =
     map (\<lambda>t. (t, saturating_sub now (seen_or e mp now t))) (mp_transactions mp)"

text \<open>The three removals drop transactions and then the entries of the removed hashes.\<close>

definition drop_hashes :: "hash256 list \<Rightarrow> (hash256, u64) fmap \<Rightarrow> (hash256, u64) fmap" where
  "drop_hashes hs m = fold fmdrop hs m"

definition remove_expired :: "ext \<Rightarrow> mempool \<Rightarrow> u64 \<Rightarrow> u64 \<Rightarrow> mempool \<times> nat" where
  "remove_expired e mp now max_age_seconds =
     (let removed = map (rpc_hash e) (filter (\<lambda>t.
            saturating_sub now (seen_or e mp now t) \<ge> max_age_seconds) (mp_transactions mp))
      in (\<lparr>mp_transactions = filter (\<lambda>t. rpc_hash e t \<notin> set removed) (mp_transactions mp),
           mp_first_seen = drop_hashes removed (mp_first_seen mp)\<rparr>, length removed))"

definition has_nonce_chain :: "mempool \<Rightarrow> address \<Rightarrow> u64 \<Rightarrow> u64 \<Rightarrow> bool" where
  "has_nonce_chain mp sender start target =
     list_all (\<lambda>n. list_ex (\<lambda>t. tx_from t = sender \<and> tx_nonce t = of_nat n) (mp_transactions mp))
       [unat start..<unat target]"

definition remove_stale_nonces :: "ext \<Rightarrow> mempool \<Rightarrow> (address \<Rightarrow> u64) \<Rightarrow> mempool" where
  "remove_stale_nonces e mp expected_nonce =
     (let removed = map (rpc_hash e) (filter (\<lambda>t. tx_nonce t < expected_nonce (tx_from t)) (mp_transactions mp))
      in \<lparr>mp_transactions = filter (\<lambda>t. tx_nonce t \<ge> expected_nonce (tx_from t)) (mp_transactions mp),
          mp_first_seen = drop_hashes removed (mp_first_seen mp)\<rparr>)"

definition remove_included :: "ext \<Rightarrow> mempool \<Rightarrow> hash256 list \<Rightarrow> mempool" where
  "remove_included e mp hashes =
     (let removed = map (rpc_hash e) (filter (\<lambda>t.
            transaction_hash e t \<in> set hashes \<or> rpc_hash e t \<in> set hashes) (mp_transactions mp))
      in \<lparr>mp_transactions = filter (\<lambda>t.
            transaction_hash e t \<notin> set hashes \<and> rpc_hash e t \<notin> set hashes) (mp_transactions mp),
          mp_first_seen = drop_hashes removed (mp_first_seen mp)\<rparr>)"

text \<open>
  What reading the mempool file gives: no file, entries with times, the transactions alone of
  older versions, or an error.
\<close>

datatype mempool_persistence_error = MpIo | MpSerialization

datatype mempool_file =
    NoFile | Entries "persisted_entry list" | LegacyEntries "transaction list"
  | Unreadable mempool_persistence_error

definition load_entry :: "ext \<Rightarrow> bix \<Rightarrow> u64 \<Rightarrow> persisted_entry \<Rightarrow> mempool \<Rightarrow> mempool" where
  "load_entry e base_fee now entry mp =
     (case mempool_add e mp (pe_transaction entry) base_fee now of
        Inr mp' \<Rightarrow> insert_seen e (pe_transaction entry) (pe_first_seen entry) mp'
      | Inl _ \<Rightarrow> mp)"

definition load_legacy :: "ext \<Rightarrow> bix \<Rightarrow> u64 \<Rightarrow> transaction \<Rightarrow> mempool \<Rightarrow> mempool" where
  "load_legacy e base_fee now t mp =
     (case mempool_add e mp t base_fee now of Inr mp' \<Rightarrow> mp' | Inl _ \<Rightarrow> mp)"

fun mempool_load ::
  "ext \<Rightarrow> mempool_file \<Rightarrow> bix \<Rightarrow> u64 \<Rightarrow> mempool_persistence_error + mempool" where
  "mempool_load e NoFile base_fee now = Inr mempool_default"
| "mempool_load e (Entries es) base_fee now = Inr (fold (load_entry e base_fee now) es mempool_default)"
| "mempool_load e (LegacyEntries ts) base_fee now = Inr (fold (load_legacy e base_fee now) ts mempool_default)"
| "mempool_load e (Unreadable err) base_fee now = Inl err"

definition mempool_save :: "ext \<Rightarrow> mempool \<Rightarrow> u64 \<Rightarrow> mempool_file" where
  "mempool_save e mp now =
     Entries (map (\<lambda>t. \<lparr>pe_transaction = t, pe_first_seen = seen_or e mp now t\<rparr>) (mp_transactions mp))"

text \<open>
  \<open>drain_for_block\<close> sorts with a comparison that orders transactions of one sender by nonce and
  all others by fee.  The order \<open>slice::sort_by\<close> produces is specified for total orders only,
  which this comparison is not, so the sorted list is an argument.
\<close>

definition drain_before :: "transaction \<Rightarrow> transaction \<Rightarrow> bool" where
  "drain_before a b =
     (if tx_from a = tx_from b then tx_nonce a < tx_nonce b
      else \<not> priority_le a b)"

fun drain_select :: "u64 \<Rightarrow> u64 \<Rightarrow> transaction list \<Rightarrow> transaction list" where
  "drain_select gas_limit gas [] = []"
| "drain_select gas_limit gas (t # ts) =
     (if saturating_add gas (tx_gas_limit t) > gas_limit then drain_select gas_limit gas ts
      else t # drain_select gas_limit (saturating_add gas (tx_gas_limit t)) ts)"

definition drain_for_block :: "(transaction list \<Rightarrow> transaction list) \<Rightarrow> mempool \<Rightarrow> u64 \<Rightarrow> transaction list" where
  "drain_for_block sorter mp gas_limit = drain_select gas_limit 0 (sorter (mp_transactions mp))"


section \<open>The order of the pool\<close>

interpretation fee_total: total_preorder fee_order
  by unfold_locales (auto simp: fee_order_def priority_le_def)

lemma sorted_filter_wrt: "sorted_wrt r xs \<Longrightarrow> sorted_wrt r (filter p xs)"
  by (induction xs) auto

lemma sort_by_sorted_id: "sorted_wrt le xs \<Longrightarrow> sort_by le xs = xs"
proof (induction xs)
  case Nil
  then show ?case by (simp add: sort_by_def)
next
  case (Cons x xs)
  then have "sort_by le xs = xs" by simp
  moreover have "insort_by le x xs = x # xs" using Cons.prems by (cases xs) simp_all
  ultimately show ?case by (simp add: sort_by_def)
qed

section \<open>The invariant\<close>

definition slot :: "transaction \<Rightarrow> address \<times> u64" where
  "slot t = (tx_from t, tx_nonce t)"

lemma same_slot_iff: "same_slot a b \<longleftrightarrow> slot a = slot b"
  by (auto simp: same_slot_def slot_def)

text \<open>
  The pool is sorted by descending fees and bounded; no two entries share a hash or a sender and
  nonce; every entry passed the fee check with at least the minimum gas price; and the time of
  every entry is recorded.
\<close>

definition mempool_inv :: "ext \<Rightarrow> mempool \<Rightarrow> bool" where
  "mempool_inv e mp \<longleftrightarrow>
     sorted_wrt fee_order (mp_transactions mp) \<and>
     length (mp_transactions mp) \<le> MAX_MEMPOOL_TRANSACTIONS \<and>
     distinct (map (rpc_hash e) (mp_transactions mp)) \<and>
     distinct (map slot (mp_transactions mp)) \<and>
     list_all (\<lambda>t. validate_transaction_fee t MIN_GAS_PRICE_BIX = Inr ()) (mp_transactions mp) \<and>
     rpc_hash e ` set (mp_transactions mp) \<subseteq> fset (fmdom (mp_first_seen mp))"

lemma mempool_inv_default: "mempool_inv e mempool_default"
  by (simp add: mempool_inv_def mempool_default_def)

lemma fee_check_min:
  "validate_transaction_fee t f = Inr () \<Longrightarrow> MIN_GAS_PRICE_BIX \<le> tx_max_fee_per_gas t \<Longrightarrow>
     validate_transaction_fee t MIN_GAS_PRICE_BIX = Inr ()"
  by (simp add: validate_transaction_fee_iff)

text \<open>Replacing the transaction of a slot keeps the slots and changes one hash.\<close>

lemma replace_first_props:
  assumes "find (\<lambda>x. same_slot x t) ts = Some x"
  shows "map slot (replace_first (\<lambda>x. same_slot x t) t ts) = map slot ts"
    and "length (replace_first (\<lambda>x. same_slot x t) t ts) = length ts"
    and "set (replace_first (\<lambda>x. same_slot x t) t ts) \<subseteq> insert t (set ts)"
    and "t \<in> set (replace_first (\<lambda>x. same_slot x t) t ts)"
    and "h t \<notin> h ` set ts \<Longrightarrow> distinct (map h ts) \<Longrightarrow>
      distinct (map h (replace_first (\<lambda>x. same_slot x t) t ts))"
  using assms
proof (induction ts)
  case Nil
  { case 1 then show ?case by simp }
  { case 2 then show ?case by simp }
  { case 3 then show ?case by simp }
  { case 4 then show ?case by simp }
  { case 5 then show ?case by simp }
next
  case (Cons y ts)
  { case 1 then show ?case using Cons by (auto simp: same_slot_iff split: if_splits) }
  { case 2 then show ?case using Cons by (auto split: if_splits) }
  { case 3 then show ?case using Cons by (auto split: if_splits) }
  { case 4 then show ?case using Cons by (auto split: if_splits) }
  { case 5 then show ?case using Cons(3,5) by (auto split: if_splits) }
qed


text \<open>What a list must satisfy for the pool to be in order once it is sorted.\<close>

lemma mempool_inv_settle:
  assumes "length (mp_transactions mp) \<le> MAX_MEMPOOL_TRANSACTIONS"
    and "distinct (map (rpc_hash e) (mp_transactions mp))"
    and "distinct (map slot (mp_transactions mp))"
    and "list_all (\<lambda>t. validate_transaction_fee t MIN_GAS_PRICE_BIX = Inr ()) (mp_transactions mp)"
    and "rpc_hash e ` set (mp_transactions mp) \<subseteq> insert (rpc_hash e t) (fset (fmdom (mp_first_seen mp)))"
  shows "mempool_inv e (sort_by_fee (insert_seen e t now mp))"
  using assms
  by (simp add: mempool_inv_def sort_by_fee_def insert_seen_def fee_total.sorted_sort_by
      distinct_map_sort_by list_all_iff)

lemma add_cases:
  assumes "mempool_add e mp t f now = Inr mp'"
  obtains (duplicate) "rpc_hash e t \<in> rpc_hash e ` set (mp_transactions mp)" "mp' = mp"
  | (replace) x where "find (\<lambda>x. same_slot x t) (mp_transactions mp) = Some x"
      "tx_max_fee_per_gas x < tx_max_fee_per_gas t"
      "rpc_hash e t \<notin> rpc_hash e ` set (mp_transactions mp)"
      "validate_transaction_fee t MIN_GAS_PRICE_BIX = Inr ()"
      "mp' = sort_by_fee (insert_seen e t now
         (mp\<lparr>mp_transactions := replace_first (\<lambda>x. same_slot x t) t (mp_transactions mp)\<rparr>))"
  | (evict) "slot t \<notin> slot ` set (mp_transactions mp)"
      "rpc_hash e t \<notin> rpc_hash e ` set (mp_transactions mp)"
      "validate_transaction_fee t MIN_GAS_PRICE_BIX = Inr ()"
      "MAX_MEMPOOL_TRANSACTIONS \<le> length (mp_transactions mp)"
      "\<not> priority_le t (last (mp_transactions mp))"
      "mp' = sort_by_fee (insert_seen e t now
         \<lparr>mp_transactions = butlast (mp_transactions mp) @ [t],
          mp_first_seen = fmdrop (rpc_hash e (last (mp_transactions mp))) (mp_first_seen mp)\<rparr>)"
  | (append) "slot t \<notin> slot ` set (mp_transactions mp)"
      "rpc_hash e t \<notin> rpc_hash e ` set (mp_transactions mp)"
      "validate_transaction_fee t MIN_GAS_PRICE_BIX = Inr ()"
      "length (mp_transactions mp) < MAX_MEMPOOL_TRANSACTIONS"
      "mp' = sort_by_fee (insert_seen e t now (mp\<lparr>mp_transactions := mp_transactions mp @ [t]\<rparr>))"
proof -
  have v: "validate_transaction_fee t MIN_GAS_PRICE_BIX = Inr ()"
    using assms fee_check_min [of t f] by (auto simp: mempool_add_def res_simps split: if_splits)
  show thesis
  proof (cases "rpc_hash e t \<in> rpc_hash e ` set (mp_transactions mp)")
    case True
    then have "list_ex (\<lambda>x. rpc_hash e x = rpc_hash e t) (mp_transactions mp)"
      by (force simp: list_ex_iff)
    then show ?thesis
      using assms True by (intro duplicate) (auto simp: mempool_add_def res_simps split: if_splits)
  next
    case False
    then have nd: "\<not> list_ex (\<lambda>x. rpc_hash e x = rpc_hash e t) (mp_transactions mp)"
      unfolding list_ex_iff by (metis image_eqI)
    show ?thesis
    proof (cases "find (\<lambda>x. same_slot x t) (mp_transactions mp)")
      case None
      then have "slot t \<notin> slot ` set (mp_transactions mp)"
        by (auto simp: find_None_iff same_slot_iff)
      then show ?thesis
        using assms None nd False v evict append
        by (auto simp: mempool_add_def res_simps Let_def not_le split: if_splits)
    next
      case (Some x)
      then show ?thesis
        using assms nd False v replace [of x]
        by (auto simp: mempool_add_def res_simps not_le split: if_splits)
    qed
  qed
qed

lemma mempool_inv_add:
  assumes "mempool_inv e mp" "mempool_add e mp t f now = Inr mp'"
  shows "mempool_inv e mp'"
  using assms(2)
proof (cases rule: add_cases)
  case duplicate
  then show ?thesis using assms(1) by simp
next
  case (replace x)
  note r = replace_first_props [OF replace(1)]
  let ?ts = "replace_first (\<lambda>x. same_slot x t) t (mp_transactions mp)"
  have "rpc_hash e ` set ?ts \<subseteq> insert (rpc_hash e t) (fset (fmdom (mp_first_seen mp)))"
    "list_all (\<lambda>t. validate_transaction_fee t MIN_GAS_PRICE_BIX = Inr ()) ?ts"
    using assms(1) r(3) replace(4) unfolding mempool_inv_def list_all_iff by blast+
  then show ?thesis
    unfolding replace(5) using assms(1) r(1,2) r(5) [OF replace(3)]
    by (intro mempool_inv_settle) (auto simp: mempool_inv_def)
next
  case evict
  have "mp_transactions mp \<noteq> []" using evict(4) by (auto simp: blq_consts)
  then obtain init low where ts: "mp_transactions mp = init @ [low]" by (meson rev_exhaust)
  have hs: "rpc_hash e ` set init \<subseteq> fset (fmdom (mp_first_seen mp)) - {rpc_hash e low}"
    using assms(1) by (simp add: mempool_inv_def ts subset_Diff_insert)
  show ?thesis
    unfolding evict(6) using assms(1) evict(1-4) hs
    by (intro mempool_inv_settle) (auto simp: mempool_inv_def ts)
next
  case append
  show ?thesis
    unfolding append(5) using assms(1) append(1-4)
    by (intro mempool_inv_settle) (auto simp: mempool_inv_def)
qed

lemma drop_hashes_dom: "fset (fmdom (drop_hashes hs m)) = fset (fmdom m) - set hs"
  unfolding drop_hashes_def by (induction hs arbitrary: m) auto

lemma distinct_map_filter_key: "distinct (map f xs) \<Longrightarrow> distinct (map f (filter p xs))"
  by (rule distinct_map_filter)

text \<open>A removal that drops the recorded times of removed entries only keeps the invariant.\<close>

lemma mempool_inv_remove:
  assumes "mempool_inv e mp"
    and "rs = map (rpc_hash e) (filter (\<lambda>t. \<not> p t) (mp_transactions mp))"
  shows "mempool_inv e \<lparr>mp_transactions = filter p (mp_transactions mp),
    mp_first_seen = drop_hashes rs (mp_first_seen mp)\<rparr>"
proof -
  have "rpc_hash e t \<notin> set rs" if "t \<in> set (mp_transactions mp)" "p t" for t
    using assms that by (auto simp: mempool_inv_def dest: filter_none_of_key)
  moreover have "length (filter p (mp_transactions mp)) \<le> MAX_MEMPOOL_TRANSACTIONS"
    using assms(1) unfolding mempool_inv_def by (meson le_trans length_filter_le)
  ultimately show ?thesis
    using assms(1)
    by (auto simp: mempool_inv_def sorted_filter_wrt distinct_map_filter list_all_iff drop_hashes_dom)
qed

lemma mempool_inv_stale: "mempool_inv e mp \<Longrightarrow> mempool_inv e (remove_stale_nonces e mp g)"
  unfolding remove_stale_nonces_def Let_def by (rule mempool_inv_remove) (simp_all add: not_le)

lemma mempool_inv_included: "mempool_inv e mp \<Longrightarrow> mempool_inv e (remove_included e mp hs)"
  unfolding remove_included_def Let_def by (rule mempool_inv_remove) simp_all

lemma mempool_inv_expired: "mempool_inv e mp \<Longrightarrow> mempool_inv e (fst (remove_expired e mp now m))"
proof -
  assume inv: "mempool_inv e mp"
  define old where "old t \<longleftrightarrow> m \<le> saturating_sub now (seen_or e mp now t)" for t
  define rs where "rs = map (rpc_hash e) (filter old (mp_transactions mp))"
  have "filter (\<lambda>t. rpc_hash e t \<notin> set rs) (mp_transactions mp) = filter (\<lambda>t. \<not> old t) (mp_transactions mp)"
    using inv by (intro filter_cong refl) (auto simp: rs_def mempool_inv_def dest: filter_none_of_key)
  moreover have "mempool_inv e \<lparr>mp_transactions = filter (\<lambda>t. \<not> old t) (mp_transactions mp),
      mp_first_seen = drop_hashes rs (mp_first_seen mp)\<rparr>"
    using inv by (rule mempool_inv_remove) (simp add: rs_def)
  ultimately show ?thesis
    unfolding remove_expired_def Let_def old_def [symmetric] rs_def [symmetric] by simp
qed

section \<open>Reachable pools\<close>

inductive mempool_step :: "ext \<Rightarrow> mempool \<Rightarrow> mempool \<Rightarrow> bool" for e where
  step_add: "mempool_add e mp t f now = Inr mp' \<Longrightarrow> mempool_step e mp mp'"
| step_expire: "mempool_step e mp (fst (remove_expired e mp now m))"
| step_stale: "mempool_step e mp (remove_stale_nonces e mp g)"
| step_included: "mempool_step e mp (remove_included e mp hs)"

inductive mempool_reachable :: "ext \<Rightarrow> mempool \<Rightarrow> bool" for e where
  start: "mempool_reachable e mempool_default"
| step: "mempool_reachable e mp \<Longrightarrow> mempool_step e mp mp' \<Longrightarrow> mempool_reachable e mp'"

inductive_cases mempool_stepE: "mempool_step e mp mp'"

lemma mempool_inv_step: "mempool_step e mp mp' \<Longrightarrow> mempool_inv e mp \<Longrightarrow> mempool_inv e mp'"
  by (cases rule: mempool_step.cases)
    (auto intro: mempool_inv_add mempool_inv_expired mempool_inv_stale mempool_inv_included)

text \<open>
  C21. In every state the pool can reach by any sequence of additions, expiries, removals of
  stale nonces and removals of included transactions, at any times and base fees: the pool holds
  at most 5000 transactions, sorted by descending fees, at most one per hash and one per sender
  and nonce, each of which passes the fee check at the minimum gas price, and the arrival time
  of each is recorded.
\<close>

theorem reachable_mempool_inv:
  assumes "mempool_reachable e mp"
  shows "mempool_inv e mp"
  using assms by (induction rule: mempool_reachable.induct) (auto intro: mempool_inv_default mempool_inv_step)

lemma demo_add: "\<exists>mp. mempool_add demo_ext mempool_default demo_tx 1000000000 5 = Inr mp \<and> mp_transactions mp = [demo_tx]"
proof -
  have "validate_transaction_fee demo_tx 1000000000 = Inr ()"
    by (simp add: validate_transaction_fee_iff demo_tx_def blq_consts access_list_limits_def total_keys_of_def)
  then show ?thesis
    by (simp add: mempool_add_def mempool_default_def blq_consts sort_by_fee_def insert_seen_def sort_by_def)
      (simp add: demo_tx_def)
qed

theorem reachable_mempool_inv_witness:
  "\<exists>mp. mp_transactions mp = [demo_tx] \<and> mempool_inv demo_ext mp"
proof -
  obtain mp where "mempool_add demo_ext mempool_default demo_tx 1000000000 5 = Inr mp"
    "mp_transactions mp = [demo_tx]"
    using demo_add by blast
  moreover from this have "mempool_reachable demo_ext mp"
    by (blast intro: mempool_reachable.intros mempool_step.intros)
  ultimately show ?thesis using reachable_mempool_inv by blast
qed


section \<open>What an addition does\<close>

lemma replace_first_keeps:
  "find p ts = Some x \<Longrightarrow> z \<in> set ts \<Longrightarrow> z = x \<or> z \<in> set (replace_first p y ts)"
  by (induction ts) (auto split: if_splits)

lemma find_SomeD: "find p ts = Some x \<Longrightarrow> x \<in> set ts \<and> p x"
  by (induction ts) (auto split: if_splits)

lemma mp_transactions_settled [simp]:
  "mp_transactions (sort_by_fee (insert_seen e t now mp)) = sort_by fee_order (mp_transactions mp)"
  "mp_first_seen (sort_by_fee (insert_seen e t now mp)) = fmupd (rpc_hash e t) now (mp_first_seen mp)"
  by (simp_all add: sort_by_fee_def insert_seen_def)


lemma demo_add_inv:
  "\<exists>mp. mempool_add demo_ext mempool_default demo_tx 1000000000 5 = Inr mp"
  using demo_add by blast



lemma load_entry_append:
  assumes "sorted_wrt fee_order (mp_transactions mp @ [t])"
    and "rpc_hash e t \<notin> rpc_hash e ` set (mp_transactions mp)" "slot t \<notin> slot ` set (mp_transactions mp)"
    and "length (mp_transactions mp) < MAX_MEMPOOL_TRANSACTIONS"
    and "validate_transaction_fee t f = Inr ()" "MIN_GAS_PRICE_BIX \<le> tx_max_fee_per_gas t"
  shows "load_entry e f now \<lparr>pe_transaction = t, pe_first_seen = s\<rparr> mp =
    \<lparr>mp_transactions = mp_transactions mp @ [t], mp_first_seen = fmupd (rpc_hash e t) s (mp_first_seen mp)\<rparr>"
proof -
  have "\<not> list_ex (\<lambda>x. rpc_hash e x = rpc_hash e t) (mp_transactions mp)"
    unfolding list_ex_iff using assms(2) by (metis image_eqI)
  moreover have "find (\<lambda>x. same_slot x t) (mp_transactions mp) = None"
    using assms(3) unfolding find_None_iff same_slot_iff by (metis image_eqI)
  ultimately have "mempool_add e mp t f now =
      Inr (sort_by_fee (insert_seen e t now (mp\<lparr>mp_transactions := mp_transactions mp @ [t]\<rparr>)))"
    using assms(4-6) by (simp add: mempool_add_def not_less)
  then show ?thesis
    using assms(1) by (simp add: load_entry_def sort_by_fee_def insert_seen_def sort_by_sorted_id)
qed


definition entries_of :: "(transaction \<Rightarrow> u64) \<Rightarrow> transaction list \<Rightarrow> persisted_entry list" where
  "entries_of g ts = map (\<lambda>t. \<lparr>pe_transaction = t, pe_first_seen = g t\<rparr>) ts"

lemma load_entries:
  assumes "sorted_wrt fee_order ts" "length ts \<le> MAX_MEMPOOL_TRANSACTIONS"
    and "distinct (map (rpc_hash e) ts)" "distinct (map slot ts)"
    and "list_all (\<lambda>t. validate_transaction_fee t f = Inr () \<and> MIN_GAS_PRICE_BIX \<le> tx_max_fee_per_gas t) ts"
  shows "fold (load_entry e f now) (entries_of g ts) mempool_default =
    \<lparr>mp_transactions = ts, mp_first_seen = fold (\<lambda>t. fmupd (rpc_hash e t) (g t)) ts fmempty\<rparr>"
  using assms
proof (induction ts rule: rev_induct)
  case Nil
  then show ?case by (simp add: entries_of_def mempool_default_def)
next
  case (snoc t ts)
  then show ?case
    by (simp add: entries_of_def sorted_wrt_append load_entry_append)
qed

lemma fold_seen_lookup:
  "distinct (map h ts) \<Longrightarrow> t \<in> set ts \<Longrightarrow>
    fmlookup (fold (\<lambda>t. fmupd (h t) (g t)) ts m) (h t) = Some (g t)"
proof (induction ts rule: rev_induct)
  case Nil
  then show ?case by simp
next
  case (snoc x ts)
  then show ?case by (cases "t = x") (auto dest: filter_none_of_key)
qed



definition demo_bump :: transaction where
  "demo_bump = demo_tx\<lparr>tx_max_fee_per_gas := 3000000000, tx_external_hash := Some (arr_rep 5)\<rparr>"



section \<open>Filling a block\<close>

definition gas_total :: "transaction list \<Rightarrow> nat" where
  "gas_total ts = sum_list (map (\<lambda>t. unat (tx_gas_limit t)) ts)"

lemma gas_total_simps [simp]:
  "gas_total [] = 0" "gas_total (t # ts) = unat (tx_gas_limit t) + gas_total ts"
  by (simp_all add: gas_total_def)

lemma drain_fits:
  fixes l g x :: u64
  assumes "unat l < 2 ^ 64 - 1"
  shows "saturating_add g x > l \<longleftrightarrow> unat l < unat g + unat x"
    and "\<not> saturating_add g x > l \<Longrightarrow> unat (saturating_add g x) = unat g + unat x"
  using assms unat_saturating_add [of g x] by (auto simp: word_less_nat_alt min_def split: if_splits)

lemma drain_select_props:
  assumes "unat l < 2 ^ 64 - 1" "unat g \<le> unat l"
  shows "unat g + gas_total (drain_select l g ts) \<le> unat l \<and>
    mset (drain_select l g ts) \<subseteq># mset ts \<and>
    (\<forall>t\<in>#mset ts - mset (drain_select l g ts).
       unat l < unat g + gas_total (drain_select l g ts) + unat (tx_gas_limit t))"
  using assms(2)
proof (induction ts arbitrary: g)
  case Nil
  then show ?case by simp
next
  case (Cons t ts)
  show ?case
  proof (cases "saturating_add g (tx_gas_limit t) > l")
    case True
    then have out: "unat l < unat g + unat (tx_gas_limit t)" using drain_fits(1) [OF assms(1)] by simp
    have "mset (t # ts) - mset (drain_select l g (t # ts)) =
        add_mset t (mset ts - mset (drain_select l g ts))"
    proof -
      obtain d where "mset ts = mset (drain_select l g ts) + d"
        using Cons.IH [OF Cons.prems] by (auto simp: mset_subset_eq_exists_conv)
      then show ?thesis using True by simp
    qed
    then show ?thesis
      using True out Cons.IH [OF Cons.prems] by (auto intro: subset_mset.order_trans)
  next
    case False
    then have g: "unat (saturating_add g (tx_gas_limit t)) = unat g + unat (tx_gas_limit t)"
      and le: "unat (saturating_add g (tx_gas_limit t)) \<le> unat l"
      using drain_fits [OF assms(1), of g "tx_gas_limit t"] by (auto simp: word_less_nat_alt)
    show ?thesis using False g Cons.IH [OF le] by (auto simp: add.assoc)
  qed
qed

text \<open>
  C34. Whatever permutation of the pool the sort yields, the transactions taken for a block are
  pending ones, none taken twice, their gas limits add up to at most the block's gas limit, and
  every pending transaction left out would not have fitted any more.
\<close>

theorem drain_for_block_fills:
  assumes "mset (sorter (pending mp)) = mset (pending mp)" "unat gas_limit < 2 ^ 64 - 1"
  shows "gas_total (drain_for_block sorter mp gas_limit) \<le> unat gas_limit \<and>
    mset (drain_for_block sorter mp gas_limit) \<subseteq># mset (pending mp) \<and>
    (\<forall>t\<in>#mset (pending mp) - mset (drain_for_block sorter mp gas_limit).
       unat gas_limit < gas_total (drain_for_block sorter mp gas_limit) + unat (tx_gas_limit t))"
  using drain_select_props [OF assms(2), of 0 "sorter (pending mp)"] assms(1)
  by (simp add: drain_for_block_def pending_def)

theorem drain_for_block_fills_witness:
  "gas_total (drain_for_block id \<lparr>mp_transactions = [demo_tx, demo_bump], mp_first_seen = fmempty\<rparr> 30000) \<le> 30000"
  using drain_for_block_fills [of id "\<lparr>mp_transactions = [demo_tx, demo_bump], mp_first_seen = fmempty\<rparr>" 30000]
  by simp

text \<open>
  C35. The comparison that \<open>drain_for_block\<close> sorts with is not an order: there are three
  transactions, two of them of one sender, of which each must come before the next in a cycle,
  so that no arrangement of them is sorted and the nonces of a sender need not come out in order.
\<close>

theorem drain_comparison_cyclic:
  "\<exists>a b c. tx_from a = tx_from c \<and> tx_nonce a < tx_nonce c \<and>
     {xs. set xs = {a, b, c} \<and> sorted_wrt (\<lambda>x y. \<not> drain_before y x) xs} = {}"
proof -
  define a where "a = demo_tx\<lparr>tx_max_priority_fee_per_gas := 1\<rparr>"
  define b where "b = demo_tx\<lparr>tx_from := arr_rep 1, tx_max_priority_fee_per_gas := 2\<rparr>"
  define c where "c = demo_tx\<lparr>tx_nonce := 1, tx_max_priority_fee_per_gas := 3\<rparr>"
  have cyc: "drain_before a c" "drain_before c b" "drain_before b a"
    by (simp_all add: a_def b_def c_def drain_before_def priority_le_def demo_tx_def arr_eq_iff)
  have False if s: "set xs = {a, b, c}" "sorted_wrt (\<lambda>x y. \<not> drain_before y x) xs" for xs
  proof -
    obtain i j k where i: "i < length xs" "xs ! i = a" and j: "j < length xs" "xs ! j = b"
      and k: "k < length xs" "xs ! k = c"
      using s(1) by (metis in_set_conv_nth insertI1 insertI2)
    have "\<not> k < i" "\<not> j < k" "\<not> i < j"
      using s(2) cyc i j k unfolding sorted_wrt_iff_nth_less by metis+
    moreover have "a \<noteq> b" by (simp add: a_def b_def demo_tx_def)
    then have "i \<noteq> j" using i j by auto
    ultimately show False by linarith
  qed
  then have "{xs. set xs = {a, b, c} \<and> sorted_wrt (\<lambda>x y. \<not> drain_before y x) xs} = {}" by blast
  moreover have "tx_from a = tx_from c \<and> tx_nonce a < tx_nonce c" by (simp add: a_def c_def demo_tx_def)
  ultimately show ?thesis by blast
qed

end
