(* ===== verification/Network.thy ===== *)
theory Network
  imports Consensus
begin

text \<open>
  \<open>crates/blq-network/src/lib.rs\<close>: scores and bans of peers, and the comparison of branches by
  accumulated work.  A score is an \<open>i32\<close>, kept as an integer with its saturating subtraction and
  wrapping absolute value written out; the 256-bit integers of the work computation are words.
\<close>

section \<open>Peer scores\<close>

definition PEER_BAN_THRESHOLD :: int where [blq_consts]: "PEER_BAN_THRESHOLD = - 100"
definition PEER_MAX_SCORE :: int where [blq_consts]: "PEER_MAX_SCORE = 100"
definition PEER_BAN_COOLDOWN_SECS :: u64 where [blq_consts]: "PEER_BAN_COOLDOWN_SECS = 30"

definition I32_MIN :: int where "I32_MIN = - (2 ^ 31)"
definition I32_MAX :: int where "I32_MAX = 2 ^ 31 - 1"

definition i32_saturating_sub :: "int \<Rightarrow> int \<Rightarrow> int" where
  "i32_saturating_sub a b = max I32_MIN (min I32_MAX (a - b))"

text \<open>\<open>i32::abs\<close> of the release build: the least value is its own absolute value.\<close>

definition i32_abs :: "int \<Rightarrow> int" where
  "i32_abs a = (if a = I32_MIN then I32_MIN else \<bar>a\<bar>)"

type_synonym peer_id = hash256

definition to_ascii_lowercase :: "string \<Rightarrow> string" where
  "to_ascii_lowercase s = map (\<lambda>c. let n = of_char c :: nat in
     if 65 \<le> n \<and> n \<le> 90 then char_of (n + 32) else c) s"

definition from_advertised_address :: "ext \<Rightarrow> string \<Rightarrow> peer_id" where
  "from_advertised_address e a = x_blake3 e (as_bytes a)"

definition from_identity_public_key :: "ext \<Rightarrow> string \<Rightarrow> peer_id" where
  "from_identity_public_key e public_key =
     x_blake3 e (as_bytes ''BLQ-PEER-IDENTITY-v1'' @ [0] @ as_bytes (to_ascii_lowercase public_key))"

record peer_score =
  ps_score :: int
  ps_consecutive_failures :: u32
  ps_banned :: bool
  ps_ban_until_epoch :: "u64 option"
  ps_last_failure_epoch :: "u64 option"

definition peer_score_default :: peer_score where
  "peer_score_default = \<lparr>ps_score = 0, ps_consecutive_failures = 0, ps_banned = False,
     ps_ban_until_epoch = None, ps_last_failure_epoch = None\<rparr>"

type_synonym peer_score_book = "(peer_id, peer_score) fmap"

definition score_get :: "peer_score_book \<Rightarrow> peer_id \<Rightarrow> peer_score" where
  "score_get book peer = (case fmlookup book peer of Some s \<Rightarrow> s | None \<Rightarrow> peer_score_default)"

definition observe_valid :: "peer_score_book \<Rightarrow> peer_id \<Rightarrow> peer_score_book" where
  "observe_valid book peer =
     (let entry = score_get book peer
      in if ps_banned entry then fmupd peer entry book
         else fmupd peer (entry\<lparr>ps_score := min (ps_score entry + 1) PEER_MAX_SCORE,
                ps_consecutive_failures := 0\<rparr>) book)"

definition clear_entry :: "peer_score \<Rightarrow> peer_score" where
  "clear_entry entry = entry\<lparr>ps_score := 0, ps_consecutive_failures := 0, ps_banned := False,
     ps_ban_until_epoch := None\<rparr>"

definition clear_ban :: "peer_score_book \<Rightarrow> peer_id \<Rightarrow> peer_score_book" where
  "clear_ban book peer = fmupd peer (clear_entry (score_get book peer)) book"

definition penalize :: "peer_score_book \<Rightarrow> peer_id \<Rightarrow> int \<Rightarrow> u64 \<Rightarrow> peer_score_book" where
  "penalize book peer penalty now =
     (let entry = score_get book peer;
          entry = entry\<lparr>ps_score := i32_saturating_sub (ps_score entry) (i32_abs penalty),
            ps_consecutive_failures := saturating_add (ps_consecutive_failures entry) 1,
            ps_last_failure_epoch := Some now\<rparr>
      in if ps_score entry \<le> PEER_BAN_THRESHOLD
         then fmupd peer (entry\<lparr>ps_banned := True,
                ps_ban_until_epoch := Some (saturating_add now PEER_BAN_COOLDOWN_SECS)\<rparr>) book
         else fmupd peer entry book)"

definition is_banned :: "peer_score_book \<Rightarrow> peer_id \<Rightarrow> u64 \<Rightarrow> bool" where
  "is_banned book peer now =
     (case fmlookup book peer of
        None \<Rightarrow> False
      | Some s \<Rightarrow> ps_banned s \<and>
          (case ps_ban_until_epoch s of Some until \<Rightarrow> now < until | None \<Rightarrow> True))"

definition needs_clearing :: "peer_score \<Rightarrow> bool" where
  "needs_clearing s \<longleftrightarrow> ps_banned s \<or> ps_score s \<noteq> 0 \<or> ps_consecutive_failures s \<noteq> 0"

definition clear_all_bans :: "peer_score_book \<Rightarrow> peer_score_book \<times> nat" where
  "clear_all_bans book =
     (fmmap clear_entry book, fcard (ffilter (\<lambda>p. needs_clearing (score_get book p)) (fmdom book)))"

text \<open>
  The file of scores, as the entries serde writes and as what reading it gives: an error, no
  file, or entries.
\<close>

definition scores_save :: "peer_score_book \<Rightarrow> (peer_id \<times> peer_score) list" where
  "scores_save book = map (\<lambda>p. (p, score_get book p)) (sorted_list_of_set (fset (fmdom book)))"

definition scores_load :: "string + (peer_id \<times> peer_score) list option \<Rightarrow> string + peer_score_book" where
  "scores_load file = res_bind file (\<lambda>content.
     Inr (case content of None \<Rightarrow> fmempty | Some es \<Rightarrow> fold (\<lambda>(p, s). fmupd p s) es fmempty))"

section \<open>Branches\<close>

record branch_tip =
  bt_height :: u64
  bt_hash :: hash256
  bt_difficulty_target :: hash256
  bt_cumulative_work :: u128

definition u256_of :: "hash256 \<Rightarrow> u256" where
  "u256_of h = from_be_bytes (arr_bytes h)"

definition work_for_target :: "hash256 \<Rightarrow> u128" where
  "work_for_target target =
     (if target = arr_rep 0xff then 1
      else
        (let denominator = u256_of target + 1;
             m = (- 1 :: u256);
             quotient = m div denominator;
             quotient = (if m mod denominator = denominator - 1 \<and> quotient \<noteq> m
                         then quotient + 1 else quotient)
         in if quotient > ucast (- 1 :: u128) then - 1 else max (ucast quotient) 1))"

definition branch_tip_new :: "u64 \<Rightarrow> hash256 \<Rightarrow> hash256 \<Rightarrow> branch_tip" where
  "branch_tip_new height hash difficulty_target =
     \<lparr>bt_height = height, bt_hash = hash, bt_difficulty_target = difficulty_target,
      bt_cumulative_work = work_for_target difficulty_target\<rparr>"

definition branch_tip_extend :: "branch_tip \<Rightarrow> hash256 \<Rightarrow> hash256 \<Rightarrow> branch_tip" where
  "branch_tip_extend tip hash difficulty_target =
     \<lparr>bt_height = saturating_add (bt_height tip) 1, bt_hash = hash,
      bt_difficulty_target = difficulty_target,
      bt_cumulative_work = saturating_add (bt_cumulative_work tip) (work_for_target difficulty_target)\<rparr>"

text \<open>The comparison of tuples with the hash reversed: more work, then height, then lower hash.\<close>

definition better_branch :: "branch_tip \<Rightarrow> branch_tip \<Rightarrow> bool" where
  "better_branch candidate current \<longleftrightarrow>
     bt_cumulative_work candidate > bt_cumulative_work current \<or>
     (bt_cumulative_work candidate = bt_cumulative_work current \<and>
      (bt_height candidate > bt_height current \<or>
       (bt_height candidate = bt_height current \<and> bt_hash candidate < bt_hash current)))"

section \<open>Bans\<close>

lemma score_get_upd [simp]: "score_get (fmupd p s book) q = (if q = p then s else score_get book q)"
  by (simp add: score_get_def)

lemma is_banned_get:
  "is_banned book p now \<longleftrightarrow> ps_banned (score_get book p) \<and>
     (case ps_ban_until_epoch (score_get book p) of Some until \<Rightarrow> now < until | None \<Rightarrow> True)"
  by (auto simp: is_banned_def score_get_def peer_score_default_def split: option.splits)

text \<open>
  The score is at most 100, and a peer is marked banned exactly when its score is at or below the
  threshold, always with an end of the ban.
\<close>

definition score_ok :: "peer_score \<Rightarrow> bool" where
  "score_ok s \<longleftrightarrow> I32_MIN \<le> ps_score s \<and> ps_score s \<le> PEER_MAX_SCORE \<and>
     (ps_banned s \<longleftrightarrow> ps_score s \<le> PEER_BAN_THRESHOLD) \<and>
     (ps_banned s \<longleftrightarrow> ps_ban_until_epoch s \<noteq> None)"

definition book_ok :: "peer_score_book \<Rightarrow> bool" where
  "book_ok book \<longleftrightarrow> (\<forall>p. score_ok (score_get book p))"

lemma book_ok_upd: "book_ok book \<Longrightarrow> score_ok s \<Longrightarrow> book_ok (fmupd p s book)"
  by (simp add: book_ok_def)

lemma book_ok_empty: "book_ok fmempty"
  by (simp add: book_ok_def score_get_def score_ok_def peer_score_default_def blq_consts I32_MIN_def)

lemma book_ok_observe: "book_ok book \<Longrightarrow> book_ok (observe_valid book p)"
proof -
  assume ok: "book_ok book"
  then have "score_ok (score_get book p)" by (simp add: book_ok_def)
  then show ?thesis
    unfolding observe_valid_def Let_def using ok
    by (auto simp: score_ok_def blq_consts intro!: book_ok_upd)
qed

lemma book_ok_clear: "book_ok book \<Longrightarrow> book_ok (clear_ban book p)"
  unfolding clear_ban_def
  by (rule book_ok_upd) (simp_all add: score_ok_def clear_entry_def blq_consts I32_MIN_def)

lemma book_ok_penalize:
  assumes "book_ok book" "I32_MIN < penalty" "penalty \<le> I32_MAX"
  shows "book_ok (penalize book p penalty now)"
proof -
  have "score_ok (score_get book p)" using assms(1) by (simp add: book_ok_def)
  then show ?thesis
    unfolding penalize_def Let_def using assms
    by (auto simp: score_ok_def blq_consts i32_abs_def i32_saturating_sub_def I32_MIN_def I32_MAX_def
        intro!: book_ok_upd)
qed

lemma book_ok_clear_all: "book_ok (fst (clear_all_bans book))"
  by (auto simp: book_ok_def clear_all_bans_def score_get_def score_ok_def clear_entry_def
      peer_score_default_def blq_consts I32_MIN_def split: option.splits)

inductive book_step :: "peer_score_book \<Rightarrow> peer_score_book \<Rightarrow> bool" where
  book_observe: "book_step book (observe_valid book p)"
| book_penalize: "I32_MIN < penalty \<Longrightarrow> penalty \<le> I32_MAX \<Longrightarrow> book_step book (penalize book p penalty now)"
| book_clear: "book_step book (clear_ban book p)"
| book_clear_all: "book_step book (fst (clear_all_bans book))"

lemma book_ok_step: "book_step book book' \<Longrightarrow> book_ok book \<Longrightarrow> book_ok book'"
  by (induction rule: book_step.induct)
    (auto intro: book_ok_observe book_ok_penalize book_ok_clear book_ok_clear_all)

text \<open>
  C36. After any sequence of observations, penalties (of any amount but the least \<open>i32\<close>) and
  operator resets, every score is within its bounds and a peer is marked banned exactly when its
  score is at or below the threshold, always with an end of the ban recorded.
\<close>

theorem reachable_scores_ok:
  assumes "book_step\<^sup>*\<^sup>* fmempty book"
  shows "book_ok book"
  using assms by (induction rule: rtranclp_induct) (auto intro: book_ok_empty book_ok_step)

theorem reachable_scores_ok_witness:
  "book_ok (penalize (observe_valid fmempty (arr_rep 1)) (arr_rep 1) 150 9)"
proof (rule reachable_scores_ok)
  have "book_step fmempty (observe_valid fmempty (arr_rep 1))" by (rule book_observe)
  moreover have "book_step (observe_valid fmempty (arr_rep 1))
      (penalize (observe_valid fmempty (arr_rep 1)) (arr_rep 1) 150 9)"
    by (rule book_penalize) (simp_all add: I32_MIN_def I32_MAX_def)
  ultimately show "book_step\<^sup>*\<^sup>* fmempty (penalize (observe_valid fmempty (arr_rep 1)) (arr_rep 1) 150 9)"
    by (meson rtranclp.rtrancl_into_rtrancl rtranclp.rtrancl_refl)
qed

lemma observe_valid_banned:
  "ps_banned (score_get book p) \<Longrightarrow> score_get (observe_valid book p) q = score_get book q"
  by (simp add: observe_valid_def Let_def)

text \<open>
  C37. A penalty that takes the score to the threshold isolates the peer from that moment for
  exactly the cooldown of 30 seconds: no number of valid messages shortens the ban, and the ban
  lapses by itself when the cooldown is over, although the peer stays marked as banned.
\<close>

theorem ban_lasts_cooldown:
  assumes "ps_score (score_get (penalize book p penalty now) p) \<le> PEER_BAN_THRESHOLD"
    and "unat now + 30 < 2 ^ 64"
  shows "is_banned (((\<lambda>b. observe_valid b p) ^^ n) (penalize book p penalty now)) p t \<longleftrightarrow> unat t < unat now + 30"
proof -
  define b where "b = penalize book p penalty now"
  have s: "ps_banned (score_get b p) \<and> ps_ban_until_epoch (score_get b p) = Some (saturating_add now 30)"
    using assms(1) by (auto simp: b_def penalize_def Let_def blq_consts split: if_splits)
  have "score_get (((\<lambda>b. observe_valid b p) ^^ n) b) p = score_get b p"
    by (induction n) (simp_all add: observe_valid_banned s)
  then show ?thesis
    using s assms(2) unfolding b_def [symmetric] is_banned_get
    by (simp add: word_less_nat_alt word_nat)
qed


theorem ban_lasts_cooldown_witness:
  "is_banned (((\<lambda>b. observe_valid b (arr_rep 1)) ^^ 3) (penalize fmempty (arr_rep 1) 150 1000)) (arr_rep 1) 1029"
  using ban_lasts_cooldown [of fmempty "arr_rep 1" 150 1000 3 1029]
  by (simp add: penalize_def Let_def score_get_def peer_score_default_def i32_abs_def
      i32_saturating_sub_def I32_MIN_def I32_MAX_def blq_consts)

text \<open>Saving and loading keeps every score.\<close>

lemma fold_upd_lookup:
  "distinct (map fst es) \<Longrightarrow> fmlookup (fold (\<lambda>(p, s). fmupd p s) es m) q =
    (case map_of es q of Some s \<Rightarrow> Some s | None \<Rightarrow> fmlookup m q)"
proof (induction es arbitrary: m)
  case Nil
  then show ?case by simp
next
  case (Cons x es)
  moreover have "map_of es (fst x) = None" using Cons.prems by (simp add: map_of_eq_None_iff)
  ultimately show ?case by (cases x) (auto split: option.splits)
qed

lemma scores_roundtrip: "scores_load (Inr (Some (scores_save book))) = Inr book"
proof -
  let ?ps = "sorted_list_of_set (fset (fmdom book))"
  have m: "map_of (scores_save book) q = (if q |\<in>| fmdom book then Some (score_get book q) else None)" for q
    unfolding scores_save_def by (simp add: map_of_map_restrict restrict_map_def)
  have "distinct (map fst (scores_save book))" by (simp add: scores_save_def comp_def)
  then have "fmlookup (fold (\<lambda>(p, s). fmupd p s) (scores_save book) fmempty) q = fmlookup book q" for q
    by (auto simp: fold_upd_lookup m score_get_def fmlookup_dom_iff split: option.splits)
  then show ?thesis by (simp add: scores_load_def fmap_ext)
qed

section \<open>Work\<close>

lemma u256_val: "unat (u256_of h) = arr_val h"
proof -
  have "arr_val h < 2 ^ 256" using arr_val_lt [of h] by (simp add: byte_power)
  then show ?thesis unfolding u256_of_def from_be_bytes_def arr_val_def by (simp add: unat_of_nat)
qed

text \<open>\<open>floor (2 ^ 256 / d)\<close> from the quotient and remainder of \<open>2 ^ 256 - 1\<close>.\<close>

lemma div_pred:
  fixes m d :: nat
  assumes "0 < d" "0 < m"
  shows "m div d = (m - 1) div d + (if (m - 1) mod d = d - 1 then 1 else 0)"
proof -
  obtain k where k: "m = Suc k" using assms(2) gr0_implies_Suc by blast
  show ?thesis using assms(1) by (auto simp: k div_Suc mod_Suc split: if_splits)
qed

lemma work_val: "unat (work_for_target t) = min (2 ^ 128 - 1) (2 ^ 256 div (arr_val t + 1))"
proof (cases "t = arr_rep 0xff")
  case True
  then show ?thesis by (simp add: work_for_target_def arr_val_max)
next
  case False
  define d where "d = u256_of t + 1"
  have lt: "arr_val t < 2 ^ 256 - 1"
  proof -
    have "arr_val t < 2 ^ 256" using arr_val_lt [of t] by (simp add: byte_power)
    moreover have "arr_val t \<noteq> 2 ^ 256 - 1" using False arr_val_inj [of t "arr_rep 0xff"] by (simp add: arr_val_max)
    ultimately show ?thesis by linarith
  qed
  then have d: "unat d = arr_val t + 1"
    unfolding d_def by (subst unat_add_no_wrap) (simp_all add: u256_val)
  have mx: "unat (- 1 :: u256) = 2 ^ 256 - 1" by (simp add: word_nat)
  define q where "q = (- 1 :: u256) div d"
  define q' where "q' = (if (- 1 :: u256) mod d = d - 1 \<and> q \<noteq> - 1 then q + 1 else q)"
  have q: "unat q = (2 ^ 256 - 1) div (arr_val t + 1)" by (simp add: q_def unat_div mx d)
  have rem: "(- 1 :: u256) mod d = d - 1 \<longleftrightarrow> (2 ^ 256 - 1) mod (arr_val t + 1) = arr_val t"
  proof -
    have "unat (d - 1) = arr_val t" unfolding d_def by (simp add: u256_val)
    then show ?thesis by (simp add: word_unat_eq_iff unat_mod mx d)
  qed
  have q': "unat q' = min (2 ^ 256 - 1) (2 ^ 256 div (arr_val t + 1))"
  proof (cases "arr_val t = 0")
    case True
    then have "q = - 1" using q mx by (simp add: word_unat_eq_iff)
    then show ?thesis using True mx by (simp add: q'_def)
  next
    case False
    have small: "unat q \<le> (2 ^ 256 - 1) div 2" unfolding q using False by (intro div_le_mono2) auto
    then have "q \<noteq> - 1" using mx by auto
    moreover have "unat (q + 1) = unat q + 1" using small by (subst unat_add_no_wrap) simp_all
    ultimately have "unat q' = 2 ^ 256 div (arr_val t + 1)"
      using div_pred [of "arr_val t + 1" "2 ^ 256"] rem q by (simp add: q'_def)
    moreover have "unat q' \<le> 2 ^ 256 - 1" using unat_lt_len [of q'] by simp
    ultimately show ?thesis by simp
  qed
  have w: "work_for_target t = (if q' > ucast (- 1 :: u128) then - 1 else max (ucast q') 1)"
    using False by (simp add: work_for_target_def d_def q_def q'_def Let_def)
  have m128: "unat (ucast (- 1 :: u128) :: u256) = 2 ^ 128 - 1" by (simp add: unat_widen word_nat)
  have "1 \<le> 2 ^ 256 div (arr_val t + 1)" using lt by (simp add: less_eq_div_iff_mult_less_eq)
  then show ?thesis
  proof (cases "q' > ucast (- 1 :: u128)")
    case True
    then have "2 ^ 128 - 1 < unat q'" by (simp add: word_less_nat_alt m128)
    then show ?thesis using True q' by (simp add: w word_nat min_def split: if_splits)
  next
    case small: False
    then have le: "unat q' \<le> 2 ^ 128 - 1" by (simp add: word_less_nat_alt m128)
    then have "unat (ucast q' :: u128) = unat q'"
      by (simp add: unsigned_ucast_eq take_bit_nat_eq_self)
    then show ?thesis
      using small le q' \<open>1 \<le> 2 ^ 256 div (arr_val t + 1)\<close>
      by (auto simp: w max_def word_le_nat_alt min_def split: if_splits)
  qed
qed


lemma work_pos: "1 \<le> unat (work_for_target t)"
proof -
  have "arr_val t + 1 \<le> 2 ^ 256" using arr_val_lt [of t] by (simp add: byte_power)
  then have "1 \<le> 2 ^ 256 div (arr_val t + 1)" by (simp add: less_eq_div_iff_mult_less_eq)
  then show ?thesis by (simp add: work_val)
qed

text \<open>
  C38. The work of a target is exactly \<open>2 ^ 256 / (target + 1)\<close> rounded down, saturating at
  128 bits, although the code never holds \<open>2 ^ 256\<close>; so a lower target never counts less, and
  every target counts at least one.
\<close>

theorem work_for_target_exact:
  "unat (work_for_target t) = min (2 ^ 128 - 1) (2 ^ 256 div (arr_val t + 1)) \<and>
   1 \<le> work_for_target t \<and> work_for_target (max t t') \<le> work_for_target t"
proof -
  have "arr_val t \<le> arr_val (max t t')" by (simp add: arr_le_iff_val [symmetric])
  then have "2 ^ 256 div (arr_val (max t t') + 1) \<le> 2 ^ 256 div (arr_val t + 1)"
    by (intro div_le_mono2) simp_all
  then have "unat (work_for_target (max t t')) \<le> unat (work_for_target t)"
    unfolding work_val by (rule min.mono [OF order_refl])
  then show ?thesis using work_pos [of t] work_val by (simp add: word_le_nat_alt)
qed

section \<open>Fork choice\<close>

text \<open>
  What a fork-choice comparison must be for nodes to agree: a strict order, total on tips with
  different keys.  Then a set of tips has one best key, whatever the order the tips arrive in.
\<close>

definition settle :: "('a \<Rightarrow> 'a \<Rightarrow> bool) \<Rightarrow> 'a \<Rightarrow> 'a list \<Rightarrow> 'a" where
  "settle better cur cs = fold (\<lambda>c best. if better c best then c else best) cs cur"

locale fork_choice =
  fixes better :: "'a \<Rightarrow> 'a \<Rightarrow> bool" and key :: "'a \<Rightarrow> 'k"
  assumes same_key: "key x = key y \<Longrightarrow> \<not> better x y"
    and transitive: "better x y \<Longrightarrow> better y z \<Longrightarrow> better x z"
    and decisive: "key x \<noteq> key y \<Longrightarrow> better x y \<or> better y x"
begin

lemma settle_unbeaten:
  "settle better cur cs \<in> set (cur # cs) \<and> (\<forall>c\<in>set (cur # cs). \<not> better c (settle better cur cs))"
proof (induction cs arbitrary: cur)
  case Nil
  then show ?case using same_key by (simp add: settle_def)
next
  case (Cons d cs)
  define cur' where "cur' = (if better d cur then d else cur)"
  have s: "settle better cur (d # cs) = settle better cur' cs" by (simp add: settle_def cur'_def)
  have IH: "settle better cur' cs \<in> set (cur' # cs)" "\<forall>c\<in>set (cur' # cs). \<not> better c (settle better cur' cs)"
    using Cons [of cur'] by blast+
  have "\<not> better c (settle better cur' cs)" if "c = cur \<or> c = d" for c
  proof
    assume b: "better c (settle better cur' cs)"
    have "better cur' c \<or> key cur' = key c"
      using that same_key decisive by (auto simp: cur'_def)
    then have "better cur' (settle better cur' cs)"
    proof
      assume "better cur' c"
      then show ?thesis using b by (rule transitive)
    next
      assume k: "key cur' = key c"
      have "key cur' \<noteq> key (settle better cur' cs)" using b same_key k by metis
      then have "better cur' (settle better cur' cs) \<or> better (settle better cur' cs) cur'"
        by (rule decisive)
      then show ?thesis using transitive [OF b] same_key [of c cur'] k by metis
    qed
    then show False using IH(2) by simp
  qed
  then show ?case using IH unfolding s by (auto simp: cur'_def split: if_splits)
qed

lemma settle_order_irrelevant:
  assumes "set (cur # cs) = set (cur' # cs')"
  shows "key (settle better cur cs) = key (settle better cur' cs')"
  using settle_unbeaten [of cur cs] settle_unbeaten [of cur' cs'] assms decisive by metis

end

definition tip_key :: "branch_tip \<Rightarrow> u128 \<times> u64 \<times> hash256" where
  "tip_key t = (bt_cumulative_work t, bt_height t, bt_hash t)"

interpretation branch_choice: fork_choice better_branch tip_key
  by unfold_locales (auto simp: better_branch_def tip_key_def)



end
