(* ===== verification/Miner.thy ===== *)
theory Miner
  imports Consensus
begin

text \<open>
  \<open>crates/blq-miner/src/lib.rs\<close>: templates of empty blocks and the search for a nonce.
\<close>

datatype miner_error = Disabled

record block_template =
  bt_header :: block_header
  bt_transactions :: "transaction list"
  bt_target :: hash256
  bt_pow_algorithm :: string
  bt_pow_epoch :: u64
  bt_epoch_seed :: hash256

definition into_unsealed_block :: "block_template \<Rightarrow> block" where
  "into_unsealed_block template =
     \<lparr>b_header = bt_header template, b_transactions = bt_transactions template, b_receipts = []\<rparr>"

definition build_empty_template_with_genesis ::
  "ext \<Rightarrow> block_header \<Rightarrow> hash256 \<Rightarrow> u64 \<Rightarrow> hash256 \<Rightarrow> block_template" where
  "build_empty_template_with_genesis e parent beneficiary timestamp_seconds genesis_hash =
     (let header = \<lparr>h_parent_hash = header_hash e parent, h_number = h_number parent + 1,
            h_state_root = h_state_root parent, h_transactions_root = transactions_root e [],
            h_receipts_root = receipts_root e [], h_beneficiary = beneficiary,
            h_difficulty_target = h_difficulty_target parent,
            h_base_fee_per_gas = next_base_fee_per_gas parent, h_gas_limit = h_gas_limit parent,
            h_gas_used = 0, h_timestamp_seconds = timestamp_seconds,
            h_pow_algorithm = POW_ALGORITHM e, h_pow_epoch = epoch_for_height (h_number parent + 1),
            h_extra_nonce = 0, h_mix_hash = ZERO_HASH, h_nonce = 0\<rparr>
      in \<lparr>bt_header = header, bt_transactions = [], bt_target = h_difficulty_target header,
          bt_pow_algorithm = POW_ALGORITHM e, bt_pow_epoch = h_pow_epoch header,
          bt_epoch_seed = epoch_seed e (h_pow_epoch header) genesis_hash\<rparr>)"

definition build_empty_template :: "ext \<Rightarrow> block_header \<Rightarrow> hash256 \<Rightarrow> u64 \<Rightarrow> block_template" where
  "build_empty_template e parent beneficiary timestamp_seconds =
     build_empty_template_with_genesis e parent beneficiary timestamp_seconds
       (header_hash e (genesis_header e))"

text \<open>The body of the search loop: set the nonce, hash, record the mix hash.\<close>

definition try_nonce :: "ext \<Rightarrow> hash256 \<Rightarrow> block_template \<Rightarrow> u64 \<Rightarrow> block_template \<times> bool" where
  "try_nonce e genesis_hash template nonce =
     (let header = (bt_header template)\<lparr>h_nonce := nonce\<rparr>;
          result = blq_rx_hash e header genesis_hash;
          template' = template\<lparr>bt_header := header\<lparr>h_mix_hash := pr_mix_hash result\<rparr>\<rparr>
      in (template', satisfies_pow (pr_final_hash result) (bt_target template)))"

fun seal_loop :: "ext \<Rightarrow> hash256 \<Rightarrow> block_template \<Rightarrow> nat list \<Rightarrow> block_template option" where
  "seal_loop e genesis_hash template [] = None"
| "seal_loop e genesis_hash template (n # ns) =
     (let (template', found) = try_nonce e genesis_hash template (of_nat n)
      in if found then Some template' else seal_loop e genesis_hash template' ns)"

definition seal_empty_template_with_genesis ::
  "ext \<Rightarrow> block_template \<Rightarrow> u64 \<Rightarrow> u64 \<Rightarrow> hash256 \<Rightarrow> block_template option" where
  "seal_empty_template_with_genesis e template nonce_start nonce_limit genesis_hash =
     seal_loop e genesis_hash template [unat nonce_start..<unat (saturating_add nonce_start nonce_limit)]"

definition seal_empty_template :: "ext \<Rightarrow> block_template \<Rightarrow> u64 \<Rightarrow> u64 \<Rightarrow> block_template option" where
  "seal_empty_template e template nonce_start nonce_limit =
     seal_empty_template_with_genesis e template nonce_start nonce_limit (header_hash e (genesis_header e))"

definition start_miner :: "miner_error + unit" where
  "start_miner = Inl Disabled"

section \<open>A mined block is accepted\<close>

text \<open>What the header would be with a given nonce and the mix hash that belongs to it.\<close>

definition sealed_header :: "ext \<Rightarrow> hash256 \<Rightarrow> block_header \<Rightarrow> u64 \<Rightarrow> block_header" where
  "sealed_header e g h n = (let h' = h\<lparr>h_nonce := n\<rparr> in h'\<lparr>h_mix_hash := pr_mix_hash (blq_rx_hash e h' g)\<rparr>)"

definition nonce_wins :: "ext \<Rightarrow> hash256 \<Rightarrow> block_header \<Rightarrow> hash256 \<Rightarrow> u64 \<Rightarrow> bool" where
  "nonce_wins e g h target n \<longleftrightarrow> pr_final_hash (blq_rx_hash e (h\<lparr>h_nonce := n\<rparr>) g) \<le> target"

lemma sealed_header_nonce:
  "(sealed_header e g h m)\<lparr>h_nonce := n\<rparr> =
     h\<lparr>h_nonce := n, h_mix_hash := pr_mix_hash (blq_rx_hash e (h\<lparr>h_nonce := m\<rparr>) g)\<rparr>"
  unfolding sealed_header_def Let_def by simp

lemma sealed_header_idem: "sealed_header e g (sealed_header e g h m) n = sealed_header e g h n"
  unfolding sealed_header_def [of e g "sealed_header e g h m"] sealed_header_nonce Let_def blq_rx_hash_mix
  unfolding sealed_header_def Let_def by simp

lemma nonce_wins_sealed: "nonce_wins e g (sealed_header e g h m) t n = nonce_wins e g h t n"
  unfolding nonce_wins_def sealed_header_nonce blq_rx_hash_mix ..

lemma try_nonce_eq:
  "try_nonce e g t n = (t\<lparr>bt_header := sealed_header e g (bt_header t) n\<rparr>,
     nonce_wins e g (bt_header t) (bt_target t) n)"
  by (simp add: try_nonce_def sealed_header_def nonce_wins_def satisfies_pow_def Let_def)

lemma seal_loop_find:
  "seal_loop e g t ns = map_option (\<lambda>n. t\<lparr>bt_header := sealed_header e g (bt_header t) (of_nat n)\<rparr>)
     (find (\<lambda>n. nonce_wins e g (bt_header t) (bt_target t) (of_nat n)) ns)"
proof (induction ns arbitrary: t)
  case Nil
  then show ?case by simp
next
  case (Cons n ns)
  then show ?case
    by (simp add: try_nonce_eq sealed_header_idem nonce_wins_sealed)
qed

text \<open>
  The nonce search returns the template with the first nonce of the range whose
  proof-of-work hash is at or below the target, with the matching mix hash, and reports failure
  exactly when no nonce of the range qualifies.
\<close>

theorem seal_finds_first_nonce:
  "seal_empty_template_with_genesis e t start limit g =
     map_option (\<lambda>n. t\<lparr>bt_header := sealed_header e g (bt_header t) (of_nat n)\<rparr>)
       (find (\<lambda>n. nonce_wins e g (bt_header t) (bt_target t) (of_nat n))
         [unat start..<min (unat start + unat limit) (2 ^ 64 - 1)])"
  by (simp add: seal_empty_template_with_genesis_def seal_loop_find word_nat)

lemma validate_sealed:
  assumes "h_pow_algorithm h = POW_ALGORITHM e" "h_pow_epoch h = epoch_for_height (h_number h)"
  shows "validate_pow_fields e (sealed_header e g h n) g = Inr ()"
  using assms by (simp add: validate_pow_fields_def sealed_header_def Let_def)

text \<open>
  C22. Mining produces valid blocks: a sealed template built on a parent, with a timestamp after
  the parent's, is a block that the full block validation accepts on that parent, with or
  without the size rule.
\<close>

theorem mined_block_validates:
  assumes "seal_empty_template_with_genesis e
      (build_empty_template_with_genesis e parent beneficiary ts g) start limit g = Some t"
    and "h_timestamp_seconds parent < ts"
  shows "validate_block_with_genesis_and_activation e parent (into_unsealed_block t) g activation = Inr ()"
proof -
  define t0 where "t0 = build_empty_template_with_genesis e parent beneficiary ts g"
  define h where "h = bt_header t0"
  obtain n where "find (\<lambda>n. nonce_wins e g h (bt_target t0) (of_nat n))
      [unat start..<unat (saturating_add start limit)] = Some n"
    and t: "t = t0\<lparr>bt_header := sealed_header e g h (of_nat n)\<rparr>"
    using assms(1) by (auto simp: seal_empty_template_with_genesis_def seal_loop_find t0_def h_def)
  then have win: "nonce_wins e g h (bt_target t0) (of_nat n)" by (auto simp: find_Some_iff)
  define s where "s = sealed_header e g h (of_nat n)"
  have "blq_rx_hash e s g = blq_rx_hash e (h\<lparr>h_nonce := of_nat n\<rparr>) g"
    by (simp add: s_def sealed_header_def Let_def)
  then have pow: "pr_final_hash (blq_rx_hash e s g) \<le> h_difficulty_target s"
    using win by (simp add: nonce_wins_def t0_def h_def s_def sealed_header_def Let_def
        build_empty_template_with_genesis_def)
  have h: "h_pow_algorithm h = POW_ALGORITHM e" "h_pow_epoch h = epoch_for_height (h_number h)"
    by (simp_all add: h_def t0_def build_empty_template_with_genesis_def Let_def)
  have fields: "h_number s = h_number parent + 1" "h_timestamp_seconds s = ts" "h_gas_used s = 0"
    "h_parent_hash s = header_hash e parent" "h_transactions_root s = transactions_root e []"
    "h_receipts_root s = receipts_root e []" "h_base_fee_per_gas s = next_base_fee_per_gas parent"
    "h_pow_algorithm s = POW_ALGORITHM e" "bt_transactions t0 = []"
    by (simp_all add: s_def sealed_header_def h_def t0_def build_empty_template_with_genesis_def Let_def)
  have "length (POW_ALGORITHM e) = 8" by (simp add: POW_ALGORITHM_def)
  then have "length (block_canonical_bytes (into_unsealed_block t)) \<le> MAX_BLOCK_BYTES"
    by (simp add: block_canonical_bytes_def into_unsealed_block_def t s_def [symmetric] fields
        length_header_bytes u64_code.width blq_consts)
  then show ?thesis
    unfolding validate_block_iff validate_header_iff
    using pow fields assms(2) validate_sealed [OF h, of g "of_nat n"]
    by (simp add: into_unsealed_block_def t s_def [symmetric])
qed

lemma demo_mining:
  "\<exists>t. seal_empty_template_with_genesis demo_rx
     (build_empty_template_with_genesis demo_rx (genesis_header demo_rx) ZERO_HASH 30 ZERO_HASH) 0 5 ZERO_HASH = Some t"
proof -
  have "nonce_wins demo_rx ZERO_HASH h (arr_rep 0x0f) n" for h n
    by (simp add: nonce_wins_def blq_rx_hash_def native_randomx_hash_def demo_rx_def Let_def
        arr_le_iff_val arr_val_def be_val_zeros [of _ "[]", simplified])
  moreover have "bt_target (build_empty_template_with_genesis demo_rx (genesis_header demo_rx) ZERO_HASH 30 ZERO_HASH) = arr_rep 0x0f"
    by (simp add: build_empty_template_with_genesis_def genesis_header_def GENESIS_DIFFICULTY_TARGET_def Let_def)
  ultimately show ?thesis
    by (simp add: seal_empty_template_with_genesis_def seal_loop_find saturating_add_def upt_rec)
qed

theorem mined_block_validates_witness:
  "\<exists>b. validate_block_with_genesis_and_activation demo_rx (genesis_header demo_rx) b ZERO_HASH (Some 0) = Inr ()"
proof -
  obtain t where "seal_empty_template_with_genesis demo_rx
     (build_empty_template_with_genesis demo_rx (genesis_header demo_rx) ZERO_HASH 30 ZERO_HASH) 0 5 ZERO_HASH = Some t"
    using demo_mining by blast
  from mined_block_validates [OF this, of "Some 0"] show ?thesis
    by (auto simp: demo_child_fields)
qed

end
