(* ===== verification/Storage.thy ===== *)
theory Storage
  imports State "HOL-Library.List_Lexorder"
begin

text \<open>
  \<open>crates/blq-storage/src/lib.rs\<close>, the parts that do not need the embedded database: the errors,
  the in-memory and the JSON-lines chain stores, and the two state roots.  The contract of a
  header store (what can be found after an insertion) is a locale that both stores provide.
\<close>

text \<open>
  \<open>Panic\<close> is not a value of the enumeration: it stands for the panic of an index out of range, which
  no caller turns into a result.
\<close>

datatype storage_error = NotFound | Io string | Serialization string | Panic

section \<open>The in-memory store\<close>

record memory_storage =
  ms_blocks :: "block list"

definition mem_best_header :: "memory_storage \<Rightarrow> storage_error + block_header" where
  "mem_best_header s =
     (if ms_blocks s = [] then Inl NotFound else Inr (b_header (last (ms_blocks s))))"

definition mem_header_by_hash :: "ext \<Rightarrow> memory_storage \<Rightarrow> hash256 \<Rightarrow> storage_error + block_header" where
  "mem_header_by_hash e s k = res_of_option NotFound
     (map_option b_header (List.find (\<lambda>b. header_hash e (b_header b) = k) (ms_blocks s)))"

definition mem_header_by_number :: "memory_storage \<Rightarrow> u64 \<Rightarrow> storage_error + block_header" where
  "mem_header_by_number s n = res_of_option NotFound
     (map_option b_header (List.find (\<lambda>b. h_number (b_header b) = n) (ms_blocks s)))"

definition mem_insert_header :: "block_header \<Rightarrow> (memory_storage, storage_error, unit) sm" where
  "mem_insert_header h s =
     (Inr (), s\<lparr>ms_blocks := ms_blocks s @ [\<lparr>b_header = h, b_transactions = [], b_receipts = []\<rparr>]\<rparr>)"

definition mem_insert_block :: "block \<Rightarrow> (memory_storage, storage_error, unit) sm" where
  "mem_insert_block b s = (Inr (), s\<lparr>ms_blocks := ms_blocks s @ [b]\<rparr>)"

definition mem_block_by_number :: "memory_storage \<Rightarrow> u64 \<Rightarrow> storage_error + block" where
  "mem_block_by_number s n = res_of_option NotFound
     (List.find (\<lambda>b. h_number (b_header b) = n) (ms_blocks s))"

section \<open>The JSON-lines store of a partial node\<close>

text \<open>
  The two files are the lists of the records written to them, one per line; the outcome of
  appending a line to a file is an argument.
\<close>

record file_storage =
  fs_blocks_file :: "block list"
  fs_headers_file :: "block_header list"
  fs_blocks :: "block list"
  fs_headers :: "block_header list"

definition file_open :: "block list \<Rightarrow> block_header list \<Rightarrow> file_storage" where
  "file_open bs hs = \<lparr>fs_blocks_file = bs, fs_headers_file = hs, fs_blocks = bs, fs_headers = hs\<rparr>"

definition file_is_empty :: "file_storage \<Rightarrow> bool" where
  "file_is_empty s \<longleftrightarrow> fs_blocks s = [] \<and> fs_headers s = []"

definition file_headers_after :: "file_storage \<Rightarrow> u64 \<Rightarrow> nat \<Rightarrow> block_header list" where
  "file_headers_after s n limit =
     take limit (sort_by (\<lambda>a b. h_number a \<le> h_number b)
       (filter (\<lambda>h. n < h_number h) (fs_headers s @ map b_header (fs_blocks s))))"

fun or_else :: "'a option \<Rightarrow> 'a option \<Rightarrow> 'a option" where
  "or_else (Some x) y = Some x"
| "or_else None y = y"

definition file_best_header :: "file_storage \<Rightarrow> storage_error + block_header" where
  "file_best_header s = res_of_option NotFound
     (or_else (if fs_headers s = [] then None else Some (last (fs_headers s)))
       (if fs_blocks s = [] then None else Some (b_header (last (fs_blocks s)))))"

definition file_header_by_hash :: "ext \<Rightarrow> file_storage \<Rightarrow> hash256 \<Rightarrow> storage_error + block_header" where
  "file_header_by_hash e s k = res_of_option NotFound
     (or_else (List.find (\<lambda>h. header_hash e h = k) (fs_headers s))
       (map_option b_header (List.find (\<lambda>b. header_hash e (b_header b) = k) (fs_blocks s))))"

definition file_header_by_number :: "file_storage \<Rightarrow> u64 \<Rightarrow> storage_error + block_header" where
  "file_header_by_number s n = res_of_option NotFound
     (or_else (List.find (\<lambda>h. h_number h = n) (fs_headers s))
       (map_option b_header (List.find (\<lambda>b. h_number (b_header b) = n) (fs_blocks s))))"

definition file_insert_header ::
  "storage_error + unit \<Rightarrow> block_header \<Rightarrow> (file_storage, storage_error, unit) sm" where
  "file_insert_header io h = sm_seq (sm_lift io)
     (\<lambda>s. (Inr (), s\<lparr>fs_headers_file := fs_headers_file s @ [h], fs_headers := fs_headers s @ [h]\<rparr>))"

definition file_insert_block ::
  "storage_error + unit \<Rightarrow> block \<Rightarrow> (file_storage, storage_error, unit) sm" where
  "file_insert_block io b = sm_seq (sm_lift io)
     (\<lambda>s. (Inr (), s\<lparr>fs_blocks_file := fs_blocks_file s @ [b], fs_blocks := fs_blocks s @ [b]\<rparr>))"

definition file_block_by_number :: "file_storage \<Rightarrow> u64 \<Rightarrow> storage_error + block" where
  "file_block_by_number s n = res_of_option NotFound
     (List.find (\<lambda>b. h_number (b_header b) = n) (fs_blocks s))"

section \<open>State roots\<close>

type_synonym native_accounts = "(address, bix \<times> u64) fmap"
type_synonym evm_account_snapshot = "bix \<times> u64 \<times> bytes \<times> (hash256, hash256) fmap"
type_synonym evm_state_snapshot = "(address, evm_account_snapshot) fmap"

definition native_entry_bytes :: "address \<times> bix \<times> u64 \<Rightarrow> bytes" where
  "native_entry_bytes = (\<lambda>(a, balance, nonce). arr_bytes a @ to_be_bytes balance @ to_be_bytes nonce)"

definition live_accounts :: "native_accounts \<Rightarrow> (address \<times> bix \<times> u64) list" where
  "live_accounts accounts = filter (\<lambda>(a, balance, nonce). balance > 0 \<or> nonce > 0) (fm_entries accounts)"

definition state_root_preimage :: "native_accounts \<Rightarrow> bytes" where
  "state_root_preimage accounts =
     as_bytes ''BLQ-STATE-v1'' @ to_be_bytes (of_nat (length (live_accounts accounts)) :: u64) @
     concat (map native_entry_bytes (live_accounts accounts))"

definition state_root_from_accounts :: "ext \<Rightarrow> native_accounts \<Rightarrow> storage_error + hash256" where
  "state_root_from_accounts e accounts = Inr (hash_bytes e (state_root_preimage accounts))"

definition evm_account_live :: "evm_account_snapshot \<Rightarrow> bool" where
  "evm_account_live = (\<lambda>(balance, nonce, code, slots).
     \<not> (balance = 0 \<and> nonce = 0 \<and> code = [] \<and> slots = fmempty))"

definition evm_entry_bytes :: "ext \<Rightarrow> address \<times> evm_account_snapshot \<Rightarrow> bytes" where
  "evm_entry_bytes e = (\<lambda>(a, balance, nonce, code, slots).
     arr_bytes a @ to_be_bytes balance @ to_be_bytes nonce @ arr_bytes (hash_bytes e code) @
     concat (map (\<lambda>(slot, v). arr_bytes slot @ arr_bytes v) (fm_entries slots)))"

definition evm_state_root_from_accounts :: "ext \<Rightarrow> evm_state_snapshot \<Rightarrow> storage_error + hash256" where
  "evm_state_root_from_accounts e accounts = Inr (hash_bytes e (as_bytes ''BLQ-EVM-STATE-v1'' @
     concat (map (evm_entry_bytes e) (filter (\<lambda>(a, x). evm_account_live x) (fm_entries accounts)))))"

section \<open>The contract of a header store\<close>

locale header_store =
  fixes hsh :: "block_header \<Rightarrow> hash256"
    and best :: "'s \<Rightarrow> storage_error + block_header"
    and by_hash :: "'s \<Rightarrow> hash256 \<Rightarrow> storage_error + block_header"
    and by_number :: "'s \<Rightarrow> u64 \<Rightarrow> storage_error + block_header"
    and ins :: "block_header \<Rightarrow> ('s, storage_error, unit) sm"
  assumes by_hash_sound: "by_hash s k = Inr h \<Longrightarrow> hsh h = k"
    and by_number_sound: "by_number s n = Inr h \<Longrightarrow> h_number h = n"
    and ins_best: "ins h s = (Inr (), t) \<Longrightarrow> best t = Inr h"
    and ins_found: "ins h s = (Inr (), t) \<Longrightarrow> is_ok (by_hash t (hsh h)) \<and> is_ok (by_number t (h_number h))"
    and ins_keeps: "ins h s = (Inr (), t) \<Longrightarrow> is_ok (by_hash s k) \<Longrightarrow> is_ok (by_hash t k)"
      "ins h s = (Inr (), t) \<Longrightarrow> is_ok (by_number s n) \<Longrightarrow> is_ok (by_number t n)"
begin

lemma ins_all_keeps:
  "sm_for ins hs s = (Inr (), t) \<Longrightarrow> is_ok (by_hash s k) \<Longrightarrow> is_ok (by_hash t k)"
  "sm_for ins hs s = (Inr (), t) \<Longrightarrow> is_ok (by_number s n) \<Longrightarrow> is_ok (by_number t n)"
  by (induction hs arbitrary: s) (auto simp: sm_simps dest: ins_keeps)

lemma ins_all_found:
  "sm_for ins hs s = (Inr (), t) \<Longrightarrow> h \<in> set hs \<Longrightarrow>
     is_ok (by_hash t (hsh h)) \<and> is_ok (by_number t (h_number h))"
proof (induction hs arbitrary: s)
  case Nil
  then show ?case by simp
next
  case (Cons x xs)
  then obtain u where u: "ins x s = (Inr (), u)" "sm_for ins xs u = (Inr (), t)"
    by (auto simp: sm_simps)
  show ?case
  proof (cases "h \<in> set xs")
    case True
    then show ?thesis using Cons.IH [OF u(2)] by simp
  next
    case False
    then have "h = x" using Cons.prems by simp
    then show ?thesis using ins_found [OF u(1)] ins_all_keeps [OF u(2)] by blast
  qed
qed

lemma ins_all_best:
  "sm_for ins hs s = (Inr (), t) \<Longrightarrow> hs \<noteq> [] \<Longrightarrow> best t = Inr (last hs)"
proof (induction hs arbitrary: s)
  case Nil
  then show ?case by simp
next
  case (Cons x xs)
  then obtain u where u: "ins x s = (Inr (), u)" "sm_for ins xs u = (Inr (), t)"
    by (auto simp: sm_simps)
  then show ?case using Cons.IH [OF u(2)] ins_best by (cases "xs = []") (auto simp: sm_simps)
qed

text \<open>Every header of a stored chain but its first finds its parent.\<close>

lemma stored_chain_parents:
  assumes "sm_for ins hs s = (Inr (), t)" "successively (\<lambda>p c. h_parent_hash c = hsh p) hs"
    and "Suc i < length hs"
  obtains p where "by_hash t (h_parent_hash (hs ! Suc i)) = Inr p" "hsh p = h_parent_hash (hs ! Suc i)"
proof -
  have "h_parent_hash (hs ! Suc i) = hsh (hs ! i)"
    using assms(2,3) by (simp add: successively_conv_nth)
  moreover have "is_ok (by_hash t (hsh (hs ! i)))"
    using ins_all_found [OF assms(1), of "hs ! i"] assms(3) by simp
  ultimately show ?thesis using that by_hash_sound by (auto simp: is_ok_iff)
qed

end

lemma find_eq_Some_sat: "List.find P xs = Some x \<Longrightarrow> P x \<and> x \<in> set xs"
  by (auto simp: find_Some_iff)

lemma find_append: "List.find P (xs @ ys) = or_else (List.find P xs) (List.find P ys)"
  by (induction xs) auto

lemma is_ok_res_of_option [simp]: "is_ok (res_of_option e m) \<longleftrightarrow> m \<noteq> None"
  by (cases m) auto

lemma or_else_eq_None [simp]: "or_else x y = None \<longleftrightarrow> x = None \<and> y = None"
  by (cases x) auto

lemma or_else_Some [simp]: "or_else x (Some y) = Some (case x of None \<Rightarrow> y | Some z \<Rightarrow> z)"
  by (cases x) auto

lemma or_else_eq_Some: "or_else x y = Some z \<longleftrightarrow> x = Some z \<or> x = None \<and> y = Some z"
  by (cases x) auto

interpretation mem_headers: header_store "header_hash e" mem_best_header "mem_header_by_hash e"
    mem_header_by_number mem_insert_header
  by unfold_locales
    (auto simp: mem_header_by_hash_def mem_header_by_number_def mem_insert_header_def
      mem_best_header_def find_append res_simps dest: find_eq_Some_sat)

interpretation file_headers: header_store "header_hash e" file_best_header "file_header_by_hash e"
    file_header_by_number "file_insert_header io"
  by unfold_locales
    (auto simp: file_header_by_hash_def file_header_by_number_def file_insert_header_def
      file_best_header_def find_append or_else_eq_Some sm_simps res_simps dest: find_eq_Some_sat)

section \<open>What the native state root commits to\<close>

definition native_account :: "native_accounts \<Rightarrow> address \<Rightarrow> bix \<times> u64" where
  "native_account m a = (case fmlookup m a of Some x \<Rightarrow> x | None \<Rightarrow> (0, 0))"

interpretation native_entry: fixed_width native_entry_bytes 44
proof
  fix x y :: "address \<times> bix \<times> u64"
  show "length (native_entry_bytes x) = 44" by (cases x) (simp add: native_entry_bytes_def)
  assume "native_entry_bytes x = native_entry_bytes y"
  then show "x = y"
    by (cases x; cases y)
      (simp add: native_entry_bytes_def arr_code.enc_eq_iff be128.enc_eq_iff be64.enc_eq_iff)
qed

lemma map_of_live: "(case map_of (live_accounts m) a of Some x \<Rightarrow> x | None \<Rightarrow> (0, 0)) = native_account m a"
proof (cases "map_of (live_accounts m) a")
  case None
  then have "a \<notin> fst ` set (live_accounts m)" by (simp add: map_of_eq_None_iff)
  then have "\<not> (fst x > 0 \<or> snd x > 0)" if "fmlookup m a = Some x" for x
    using that by (cases x) (force simp: live_accounts_def set_fm_entries)
  then show ?thesis
    by (cases "fmlookup m a") (auto simp: native_account_def None word_neq_0_conv [symmetric] prod_eq_iff)
next
  case (Some x)
  have "map_of (live_accounts m) a = Some x \<Longrightarrow> (a, x) \<in> set (fm_entries m)"
    by (drule map_of_SomeD) (auto simp: live_accounts_def)
  then show ?thesis using Some by (simp add: set_fm_entries native_account_def)
qed

lemma live_accounts_sorted: "sorted_wrt (\<lambda>x y. fst x < fst y) (live_accounts m)"
proof -
  have "sorted_wrt (<) (map fst (fm_entries m))"
    unfolding keys_fm_entries by (rule strict_sorted_list_of_set)
  then show ?thesis unfolding live_accounts_def by (simp add: sorted_wrt_map sorted_wrt_filter)
qed

lemma live_accounts_agree:
  assumes "native_account m = native_account n"
  shows "live_accounts m = live_accounts n"
proof -
  have set_live: "set (live_accounts k) = {(a, x). native_account k a = x \<and> (fst x > 0 \<or> snd x > 0)}" for k
    by (auto simp: live_accounts_def set_fm_entries native_account_def split: option.splits)
  then have "set (live_accounts m) = set (live_accounts n)" using assms by simp
  moreover have "distinct (live_accounts k) \<and> sorted (map fst (live_accounts k)) \<and> distinct (map fst (live_accounts k))" for k
    using live_accounts_sorted [of k] strict_sorted_iff [of "map fst (live_accounts k)"]
    by (simp add: sorted_wrt_map distinct_map)
  ultimately show ?thesis
    by (intro map_sorted_distinct_set_unique [of fst]) (simp_all add: distinct_map)
qed

text \<open>
  C39. The native state root is a function of the balances and nonces alone (an account that was
  never touched and one that is stored with zeros count the same), and it commits to all of them:
  two states with the same root give every address the same balance and nonce, or the two
  preimages are an explicit SHA-256 collision.
\<close>

theorem state_root_binding:
  assumes "length (live_accounts m) < 2 ^ 64" "length (live_accounts n) < 2 ^ 64"
  shows "(native_account m = native_account n \<longrightarrow>
      state_root_from_accounts e m = state_root_from_accounts e n) \<and>
    (state_root_from_accounts e m = state_root_from_accounts e n \<longrightarrow>
      native_account m = native_account n \<or> sha_collision e (state_root_preimage m) (state_root_preimage n))"
proof (intro conjI impI)
  assume "native_account m = native_account n"
  from live_accounts_agree [OF this] show "state_root_from_accounts e m = state_root_from_accounts e n"
    by (simp add: state_root_from_accounts_def state_root_preimage_def)
next
  assume eq: "state_root_from_accounts e m = state_root_from_accounts e n"
  show "native_account m = native_account n \<or> sha_collision e (state_root_preimage m) (state_root_preimage n)"
  proof (cases "state_root_preimage m = state_root_preimage n")
    case True
    then have *: "to_be_bytes (of_nat (length (live_accounts m)) :: u64) @ concat (map native_entry_bytes (live_accounts m)) =
        to_be_bytes (of_nat (length (live_accounts n)) :: u64) @ concat (map native_entry_bytes (live_accounts n))"
      by (simp add: state_root_preimage_def)
    then have len: "length (live_accounts m) = length (live_accounts n)"
      using assms by (simp add: be64.enc_eq_iff of_nat_u64_eq)
    then have "live_accounts m = live_accounts n"
      using * native_entry.concat_cancel [of "live_accounts m" "live_accounts n" "[]" "[]"]
      by (simp add: list_all_True)
    then show ?thesis using map_of_live [of m] map_of_live [of n] by (auto simp: fun_eq_iff)
  next
    case False
    then show ?thesis
      using eq by (simp add: state_root_from_accounts_def hash_bytes_def sha_collision_def)
  qed
qed

definition demo_accounts :: native_accounts where
  "demo_accounts = fmupd (arr_rep 7) (100, 1) fmempty"

lemma demo_live: "live_accounts demo_accounts = [(arr_rep 7, 100, 1)]"
  by (simp add: live_accounts_def demo_accounts_def fm_entries_def)

theorem state_root_binding_witness:
  "state_root_from_accounts demo_ext demo_accounts =
     state_root_from_accounts demo_ext (fmupd (arr_rep 9) (0, 0) demo_accounts)"
proof -
  have agree: "native_account demo_accounts = native_account (fmupd (arr_rep 9) (0, 0) demo_accounts)"
    by (auto simp: native_account_def demo_accounts_def arr_7_9 fun_eq_iff)
  have l: "live_accounts (fmupd (arr_rep 9) (0, 0) demo_accounts) = [(arr_rep 7, 100, 1)]"
    using live_accounts_agree [OF agree] demo_live by simp
  have "length (live_accounts demo_accounts) < 2 ^ 64"
    "length (live_accounts (fmupd (arr_rep 9) (0, 0) demo_accounts)) < 2 ^ 64"
    unfolding l demo_live by simp_all
  then show ?thesis using state_root_binding agree by blast
qed

end
