(* ===== verification/Db.thy ===== *)
theory Db
  imports Storage "HOL-Library.Sublist"
begin

text \<open>
  What the database-backed store of \<open>crates/blq-storage/src/lib.rs\<close> runs on: the embedded key-value
  store (sled), the files of the data directory and the JSON codec (serde_json).  None of the three
  is code of the repository, so they are the fields of the record \<open>backend\<close>, an argument of every
  operation; \<open>sled_spec\<close> and \<open>serde_spec\<close> state their documented behaviour.  An operation that
  reports an error may or may not have taken effect, a batch takes effect as a whole or not at all,
  and a scan may fail at any entry.

  The operations run in a state-error monad over the store.  \<open>ref_backend\<close> is the backend that
  never fails, over a plain finite map; \<open>refines\<close> relates a program over an arbitrary backend to
  the same program over that one.
\<close>

section \<open>Data of the store\<close>

datatype generation_status = Active | Staging | Verified | Retired | Failed

record generation_manifest =
  gm_generation_id :: u64
  gm_status :: generation_status
  gm_canonical_height :: u64
  gm_canonical_hash :: hash256
  gm_state_root :: hash256
  gm_profile_fingerprint :: string
  gm_finalized_height :: u64
  gm_replay_checkpoint :: "u64 option"

record replay_checkpoint =
  ck_generation_id :: u64
  ck_height :: u64
  ck_block_hash :: hash256
  ck_state_root :: hash256

record generation_publication_record =
  pr_generation_id :: u64
  pr_manifest_checksum :: hash256

record suffix_publication_record =
  sx_previous_manifest :: generation_manifest
  sx_target_manifest :: generation_manifest

record stored_receipt =
  sr_receipt :: receipt
  sr_header :: block_header
  sr_transaction_index :: nat
  sr_transaction :: transaction

type_synonym serialized_evm_snapshot_entry = "address \<times> bix \<times> u64 \<times> bytes \<times> (hash256 \<times> hash256) list"

text \<open>A directory as \<open>read_dir\<close> and the metadata of its entries show it.\<close>

datatype dir_entry = MetadataError string | FileOf u64 | DirOf directory | OtherEntry
  and directory = ReadDirError string | Listing "dir_item list"
  and dir_item = ItemError string | Item dir_entry

datatype remove_error = NoSuchFile | RemoveFailed string

section \<open>The backend\<close>

record 'd backend =
  sd_get :: "'d \<Rightarrow> bytes \<Rightarrow> string + bytes option"
  sd_contains :: "'d \<Rightarrow> bytes \<Rightarrow> string + bool"
  sd_scan :: "'d \<Rightarrow> bytes \<Rightarrow> (string + bytes \<times> bytes) list"
  sd_insert :: "bytes \<Rightarrow> bytes \<Rightarrow> 'd \<Rightarrow> (string + unit) \<times> 'd"
  sd_remove :: "bytes \<Rightarrow> 'd \<Rightarrow> (string + unit) \<times> 'd"
  sd_apply_batch :: "(bytes \<times> bytes option) list \<Rightarrow> 'd \<Rightarrow> (string + unit) \<times> 'd"
  sd_flush :: "'d \<Rightarrow> (string + unit) \<times> 'd"
  fs_exists :: "'d \<Rightarrow> string \<Rightarrow> bool"
  fs_read :: "'d \<Rightarrow> string \<Rightarrow> string + bytes"
  fs_tree :: "'d \<Rightarrow> directory"
  fs_create_dir_all :: "'d \<Rightarrow> (string + unit) \<times> 'd"
  fs_write :: "string \<Rightarrow> bytes \<Rightarrow> 'd \<Rightarrow> (string + unit) \<times> 'd"
  fs_sync_file :: "string \<Rightarrow> 'd \<Rightarrow> (string + unit) \<times> 'd"
  fs_rename :: "string \<Rightarrow> string \<Rightarrow> 'd \<Rightarrow> (string + unit) \<times> 'd"
  fs_remove_file :: "string \<Rightarrow> 'd \<Rightarrow> (remove_error + unit) \<times> 'd"
  js_block :: "block \<Rightarrow> string + bytes"
  js_block_of :: "bytes \<Rightarrow> string + block"
  js_header :: "block_header \<Rightarrow> string + bytes"
  js_header_of :: "bytes \<Rightarrow> string + block_header"
  js_transaction :: "transaction \<Rightarrow> string + bytes"
  js_transaction_of :: "bytes \<Rightarrow> string + transaction"
  js_receipt :: "stored_receipt \<Rightarrow> string + bytes"
  js_receipt_of :: "bytes \<Rightarrow> string + stored_receipt"
  js_snapshot :: "serialized_evm_snapshot_entry list \<Rightarrow> string + bytes"
  js_snapshot_of :: "bytes \<Rightarrow> string + serialized_evm_snapshot_entry list"
  js_manifest :: "generation_manifest \<Rightarrow> string + bytes"
  js_manifest_pretty :: "generation_manifest \<Rightarrow> string + bytes"
  js_manifest_of :: "bytes \<Rightarrow> string + generation_manifest"
  js_checkpoint_pretty :: "replay_checkpoint \<Rightarrow> string + bytes"
  js_checkpoint_of :: "bytes \<Rightarrow> string + replay_checkpoint"
  js_publication_pretty :: "generation_publication_record \<Rightarrow> string + bytes"
  js_publication_of :: "bytes \<Rightarrow> string + generation_publication_record"
  js_suffix_pretty :: "suffix_publication_record \<Rightarrow> string + bytes"
  js_suffix_of :: "bytes \<Rightarrow> string + suffix_publication_record"

text \<open>What a backend stores: the key-value pairs and the files of the data directory.\<close>

record disk =
  dk_kv :: "(bytes, bytes) fmap"
  dk_files :: "(string, bytes) fmap"

definition batch_apply :: "(bytes \<times> bytes option) list \<Rightarrow> (bytes, bytes) fmap \<Rightarrow> (bytes, bytes) fmap" where
  "batch_apply = fold (\<lambda>(key, v) m. case v of None \<Rightarrow> fmdrop key m | Some x \<Rightarrow> fmupd key x m)"

definition scan_entries :: "bytes \<Rightarrow> (bytes, bytes) fmap \<Rightarrow> (bytes \<times> bytes) list" where
  "scan_entries p m = filter (\<lambda>(key, v). prefix p key) (fm_entries m)"

definition took_effect :: "(string + unit) \<Rightarrow> 'a \<Rightarrow> 'a \<Rightarrow> 'a \<Rightarrow> bool" where
  "took_effect r old new now \<longleftrightarrow> now = new \<or> (\<exists>msg. r = Inl msg) \<and> now = old"

definition kv_upd :: "((bytes, bytes) fmap \<Rightarrow> (bytes, bytes) fmap) \<Rightarrow> disk \<Rightarrow> disk" where
  "kv_upd f d = d\<lparr>dk_kv := f (dk_kv d)\<rparr>"

definition files_upd :: "((string, bytes) fmap \<Rightarrow> (string, bytes) fmap) \<Rightarrow> disk \<Rightarrow> disk" where
  "files_upd f d = d\<lparr>dk_files := f (dk_files d)\<rparr>"

definition sled_reads :: "'d backend \<Rightarrow> ('d \<Rightarrow> disk) \<Rightarrow> bool" where
  "sled_reads k c \<longleftrightarrow>
     (\<forall>d key v. sd_get k d key = Inr v \<longrightarrow> v = fmlookup (dk_kv (c d)) key) \<and>
     (\<forall>d key b. sd_contains k d key = Inr b \<longrightarrow> b = (fmlookup (dk_kv (c d)) key \<noteq> None)) \<and>
     (\<forall>d p. \<exists>n errs. sd_scan k d p = map Inr (take n (scan_entries p (dk_kv (c d)))) @ errs \<and>
        (case errs of [] \<Rightarrow> length (scan_entries p (dk_kv (c d))) \<le> n | x # xs \<Rightarrow> \<exists>msg. x = Inl msg)) \<and>
     (\<forall>d p kv. Inr kv \<in> set (sd_scan k d p) \<longrightarrow> kv \<in> set (scan_entries p (dk_kv (c d))))"

definition sled_writes :: "'d backend \<Rightarrow> ('d \<Rightarrow> disk) \<Rightarrow> bool" where
  "sled_writes k c \<longleftrightarrow>
     (\<forall>d key v r d'. sd_insert k key v d = (r, d') \<longrightarrow> took_effect r (c d) (kv_upd (fmupd key v) (c d)) (c d')) \<and>
     (\<forall>d key r d'. sd_remove k key d = (r, d') \<longrightarrow> took_effect r (c d) (kv_upd (fmdrop key) (c d)) (c d')) \<and>
     (\<forall>d ops r d'. sd_apply_batch k ops d = (r, d') \<longrightarrow> took_effect r (c d) (kv_upd (batch_apply ops) (c d)) (c d')) \<and>
     (\<forall>d r d'. sd_flush k d = (r, d') \<longrightarrow> c d' = c d)"

definition file_reads :: "'d backend \<Rightarrow> ('d \<Rightarrow> disk) \<Rightarrow> bool" where
  "file_reads k c \<longleftrightarrow>
     (\<forall>d f. fs_exists k d f \<longleftrightarrow> fmlookup (dk_files (c d)) f \<noteq> None) \<and>
     (\<forall>d f bs. fs_read k d f = Inr bs \<longrightarrow> fmlookup (dk_files (c d)) f = Some bs)"

text \<open>A write that fails may leave any contents behind; renaming is atomic.\<close>

definition file_writes :: "'d backend \<Rightarrow> ('d \<Rightarrow> disk) \<Rightarrow> bool" where
  "file_writes k c \<longleftrightarrow>
     (\<forall>d r d'. fs_create_dir_all k d = (r, d') \<longrightarrow> c d' = c d) \<and>
     (\<forall>d f bs r d'. fs_write k f bs d = (r, d') \<longrightarrow>
        (\<exists>cs. (r = Inr () \<longrightarrow> cs = bs) \<and> took_effect r (c d) (files_upd (fmupd f cs) (c d)) (c d'))) \<and>
     (\<forall>d f r d'. fs_sync_file k f d = (r, d') \<longrightarrow> c d' = c d) \<and>
     (\<forall>d f g r d'. fs_rename k f g d = (r, d') \<longrightarrow>
        (case fmlookup (dk_files (c d)) f of
           None \<Rightarrow> (\<exists>msg. r = Inl msg) \<and> c d' = c d
         | Some bs \<Rightarrow> took_effect r (c d) (files_upd (\<lambda>m. fmupd g bs (fmdrop f m)) (c d)) (c d'))) \<and>
     (\<forall>d f r d'. fs_remove_file k f d = (r, d') \<longrightarrow>
        (case r of
           Inr _ \<Rightarrow> c d' = files_upd (fmdrop f) (c d)
         | Inl NoSuchFile \<Rightarrow> fmlookup (dk_files (c d)) f = None \<and> c d' = c d
         | Inl (RemoveFailed msg) \<Rightarrow> c d' = c d \<or> c d' = files_upd (fmdrop f) (c d)))"

definition sled_spec :: "'d backend \<Rightarrow> ('d \<Rightarrow> disk) \<Rightarrow> bool" where
  "sled_spec k c \<longleftrightarrow> sled_reads k c \<and> sled_writes k c \<and> file_reads k c \<and> file_writes k c"

text \<open>What is written as JSON reads back as the same value.\<close>

definition serde_spec :: "'d backend \<Rightarrow> bool" where
  "serde_spec k \<longleftrightarrow>
     (\<forall>x v. js_block k x = Inr v \<longrightarrow> js_block_of k v = Inr x) \<and>
     (\<forall>x v. js_header k x = Inr v \<longrightarrow> js_header_of k v = Inr x) \<and>
     (\<forall>x v. js_transaction k x = Inr v \<longrightarrow> js_transaction_of k v = Inr x) \<and>
     (\<forall>x v. js_receipt k x = Inr v \<longrightarrow> js_receipt_of k v = Inr x) \<and>
     (\<forall>x v. js_snapshot k x = Inr v \<longrightarrow> js_snapshot_of k v = Inr x) \<and>
     (\<forall>x v. js_manifest_pretty k x = Inr v \<longrightarrow> js_manifest_of k v = Inr x) \<and>
     (\<forall>x v. js_checkpoint_pretty k x = Inr v \<longrightarrow> js_checkpoint_of k v = Inr x) \<and>
     (\<forall>x v. js_publication_pretty k x = Inr v \<longrightarrow> js_publication_of k v = Inr x) \<and>
     (\<forall>x v. js_suffix_pretty k x = Inr v \<longrightarrow> js_suffix_of k v = Inr x)"

section \<open>The store and its elementary operations\<close>

record 'd sled_storage =
  sl_db :: 'd
  sl_defer_flush :: bool

type_synonym ('d, 'a) db = "('d sled_storage, storage_error, 'a) sm"

definition db_upd :: "('d \<Rightarrow> (string + unit) \<times> 'd) \<Rightarrow> ('d, unit) db" where
  "db_upd f s = (case f (sl_db s) of (r, d) \<Rightarrow> (res_map_err Io r, s\<lparr>sl_db := d\<rparr>))"

definition db_get :: "'d backend \<Rightarrow> bytes \<Rightarrow> ('d, bytes option) db" where
  "db_get k key = sm_gets (\<lambda>s. res_map_err Io (sd_get k (sl_db s) key))"

definition db_contains :: "'d backend \<Rightarrow> bytes \<Rightarrow> ('d, bool) db" where
  "db_contains k key = sm_gets (\<lambda>s. res_map_err Io (sd_contains k (sl_db s) key))"

definition db_scan :: "'d backend \<Rightarrow> bytes \<Rightarrow> ('d, (string + bytes \<times> bytes) list) db" where
  "db_scan k p = sm_gets (\<lambda>s. Inr (sd_scan k (sl_db s) p))"

definition db_insert :: "'d backend \<Rightarrow> bytes \<Rightarrow> bytes \<Rightarrow> ('d, unit) db" where
  "db_insert k key v = db_upd (sd_insert k key v)"

definition db_remove :: "'d backend \<Rightarrow> bytes \<Rightarrow> ('d, unit) db" where
  "db_remove k key = db_upd (sd_remove k key)"

definition db_apply_batch :: "'d backend \<Rightarrow> (bytes \<times> bytes option) list \<Rightarrow> ('d, unit) db" where
  "db_apply_batch k ops = db_upd (sd_apply_batch k ops)"

definition db_flush :: "'d backend \<Rightarrow> ('d, unit) db" where
  "db_flush k = db_upd (sd_flush k)"

text \<open>
  \<open>for item in scan { let (key, value) = item?; ... }\<close>, with an accumulator, and the form that
  returns from the loop at the first match.
\<close>

fun sm_fold :: "('a \<Rightarrow> 'b \<Rightarrow> ('s, 'e, 'b) sm) \<Rightarrow> 'a list \<Rightarrow> 'b \<Rightarrow> ('s, 'e, 'b) sm" where
  "sm_fold f [] acc = sm_ok acc"
| "sm_fold f (x # xs) acc = sm_bind (f x acc) (sm_fold f xs)"

fun sm_find :: "('a \<Rightarrow> ('s, 'e, 'b option) sm) \<Rightarrow> 'a list \<Rightarrow> ('s, 'e, 'b option) sm" where
  "sm_find f [] = sm_ok None"
| "sm_find f (x # xs) = sm_bind (f x) (\<lambda>r. case r of Some y \<Rightarrow> sm_ok (Some y) | None \<Rightarrow> sm_find f xs)"

definition scan_item :: "(string + bytes \<times> bytes) \<Rightarrow> (bytes \<times> bytes \<Rightarrow> ('d, 'a) db) \<Rightarrow> ('d, 'a) db" where
  "scan_item item f = sm_bind (sm_lift (res_map_err Io item)) f"

definition scan_fold :: "'d backend \<Rightarrow> bytes \<Rightarrow> (bytes \<times> bytes \<Rightarrow> 'b \<Rightarrow> ('d, 'b) db) \<Rightarrow> 'b \<Rightarrow> ('d, 'b) db" where
  "scan_fold k p f acc =
     sm_bind (db_scan k p) (\<lambda>items. sm_fold (\<lambda>item acc. scan_item item (\<lambda>kv. f kv acc)) items acc)"

definition scan_find :: "'d backend \<Rightarrow> bytes \<Rightarrow> (bytes \<times> bytes \<Rightarrow> ('d, 'b option) db) \<Rightarrow> ('d, 'b option) db" where
  "scan_find k p f = sm_bind (db_scan k p) (sm_find (\<lambda>item. scan_item item f))"

text \<open>\<open>collect::<Result<Vec<_>, _>>\<close> of the entries under a prefix.\<close>

definition scan_collect :: "'d backend \<Rightarrow> bytes \<Rightarrow> ('d, (bytes \<times> bytes) list) db" where
  "scan_collect k p = scan_fold k p (\<lambda>kv acc. sm_ok (acc @ [kv])) []"

text \<open>The files of the data directory; a missing file is no error when it is removed.\<close>

definition file_exists :: "'d backend \<Rightarrow> string \<Rightarrow> ('d, bool) db" where
  "file_exists k f = sm_gets (\<lambda>s. Inr (fs_exists k (sl_db s) f))"

definition file_read :: "'d backend \<Rightarrow> string \<Rightarrow> ('d, bytes) db" where
  "file_read k f = sm_gets (\<lambda>s. res_map_err Io (fs_read k (sl_db s) f))"

definition file_remove :: "'d backend \<Rightarrow> string \<Rightarrow> ('d, unit) db" where
  "file_remove k f s =
     (case fs_remove_file k f (sl_db s) of
        (Inr _, d) \<Rightarrow> (Inr (), s\<lparr>sl_db := d\<rparr>)
      | (Inl NoSuchFile, d) \<Rightarrow> (Inr (), s\<lparr>sl_db := d\<rparr>)
      | (Inl (RemoveFailed msg), d) \<Rightarrow> (Inl (Io msg), s\<lparr>sl_db := d\<rparr>))"

text \<open>A file is replaced by writing a temporary one, syncing it and renaming it.\<close>

definition file_replace :: "'d backend \<Rightarrow> string \<Rightarrow> string + bytes \<Rightarrow> ('d, unit) db" where
  "file_replace k f json =
     sm_seq (db_upd (fs_create_dir_all k))
     (sm_bind (sm_lift (res_map_err Serialization json)) (\<lambda>bs.
      sm_seq (db_upd (fs_write k (f @ ''.tmp'') bs))
     (sm_seq (db_upd (fs_sync_file k (f @ ''.tmp'')))
      (db_upd (fs_rename k (f @ ''.tmp'') f)))))"

section \<open>The backend that never fails\<close>

definition ref_backend :: "'d backend \<Rightarrow> disk backend" where
  "ref_backend k = \<lparr>
     sd_get = (\<lambda>d key. Inr (fmlookup (dk_kv d) key)),
     sd_contains = (\<lambda>d key. Inr (fmlookup (dk_kv d) key \<noteq> None)),
     sd_scan = (\<lambda>d p. map Inr (scan_entries p (dk_kv d))),
     sd_insert = (\<lambda>key v d. (Inr (), kv_upd (fmupd key v) d)),
     sd_remove = (\<lambda>key d. (Inr (), kv_upd (fmdrop key) d)),
     sd_apply_batch = (\<lambda>ops d. (Inr (), kv_upd (batch_apply ops) d)),
     sd_flush = (\<lambda>d. (Inr (), d)),
     fs_exists = (\<lambda>d f. fmlookup (dk_files d) f \<noteq> None),
     fs_read = (\<lambda>d f. res_of_option ''no such file'' (fmlookup (dk_files d) f)),
     fs_tree = (\<lambda>d. Listing []),
     fs_create_dir_all = (\<lambda>d. (Inr (), d)),
     fs_write = (\<lambda>f bs d. (Inr (), files_upd (fmupd f bs) d)),
     fs_sync_file = (\<lambda>f d. (Inr (), d)),
     fs_rename = (\<lambda>f g d. case fmlookup (dk_files d) f of
        None \<Rightarrow> (Inl ''no such file'', d)
      | Some bs \<Rightarrow> (Inr (), files_upd (\<lambda>m. fmupd g bs (fmdrop f m)) d)),
     fs_remove_file = (\<lambda>f d. if fmlookup (dk_files d) f = None then (Inl NoSuchFile, d)
        else (Inr (), files_upd (fmdrop f) d)),
     js_block = js_block k, js_block_of = js_block_of k,
     js_header = js_header k, js_header_of = js_header_of k,
     js_transaction = js_transaction k, js_transaction_of = js_transaction_of k,
     js_receipt = js_receipt k, js_receipt_of = js_receipt_of k,
     js_snapshot = js_snapshot k, js_snapshot_of = js_snapshot_of k,
     js_manifest = js_manifest k, js_manifest_pretty = js_manifest_pretty k, js_manifest_of = js_manifest_of k,
     js_checkpoint_pretty = js_checkpoint_pretty k, js_checkpoint_of = js_checkpoint_of k,
     js_publication_pretty = js_publication_pretty k, js_publication_of = js_publication_of k,
     js_suffix_pretty = js_suffix_pretty k, js_suffix_of = js_suffix_of k\<rparr>"

lemma ref_backend_simps [simp]:
  "sd_get (ref_backend k) d key = Inr (fmlookup (dk_kv d) key)"
  "sd_contains (ref_backend k) d key = Inr (fmlookup (dk_kv d) key \<noteq> None)"
  "sd_scan (ref_backend k) d p = map Inr (scan_entries p (dk_kv d))"
  "sd_insert (ref_backend k) key v = (\<lambda>d. (Inr (), kv_upd (fmupd key v) d))"
  "sd_remove (ref_backend k) key = (\<lambda>d. (Inr (), kv_upd (fmdrop key) d))"
  "sd_apply_batch (ref_backend k) ops = (\<lambda>d. (Inr (), kv_upd (batch_apply ops) d))"
  "sd_flush (ref_backend k) = (\<lambda>d. (Inr (), d))"
  "fs_exists (ref_backend k) d f \<longleftrightarrow> fmlookup (dk_files d) f \<noteq> None"
  "fs_read (ref_backend k) d f = res_of_option ''no such file'' (fmlookup (dk_files d) f)"
  "fs_create_dir_all (ref_backend k) = (\<lambda>d. (Inr (), d))"
  "fs_write (ref_backend k) f bs = (\<lambda>d. (Inr (), files_upd (fmupd f bs) d))"
  "fs_sync_file (ref_backend k) f = (\<lambda>d. (Inr (), d))"
  "fs_rename (ref_backend k) f g d = (case fmlookup (dk_files d) f of
        None \<Rightarrow> (Inl ''no such file'', d)
      | Some bs \<Rightarrow> (Inr (), files_upd (\<lambda>m. fmupd g bs (fmdrop f m)) d))"
  "fs_remove_file (ref_backend k) f d = (if fmlookup (dk_files d) f = None then (Inl NoSuchFile, d)
        else (Inr (), files_upd (fmdrop f) d))"
  by (simp_all add: ref_backend_def)

lemma ref_backend_serde [simp]:
  "js_block (ref_backend k) = js_block k" "js_block_of (ref_backend k) = js_block_of k"
  "js_header (ref_backend k) = js_header k" "js_header_of (ref_backend k) = js_header_of k"
  "js_transaction (ref_backend k) = js_transaction k" "js_transaction_of (ref_backend k) = js_transaction_of k"
  "js_receipt (ref_backend k) = js_receipt k" "js_receipt_of (ref_backend k) = js_receipt_of k"
  "js_snapshot (ref_backend k) = js_snapshot k" "js_snapshot_of (ref_backend k) = js_snapshot_of k"
  "js_manifest (ref_backend k) = js_manifest k" "js_manifest_pretty (ref_backend k) = js_manifest_pretty k"
  "js_manifest_of (ref_backend k) = js_manifest_of k"
  "js_checkpoint_pretty (ref_backend k) = js_checkpoint_pretty k" "js_checkpoint_of (ref_backend k) = js_checkpoint_of k"
  "js_publication_pretty (ref_backend k) = js_publication_pretty k" "js_publication_of (ref_backend k) = js_publication_of k"
  "js_suffix_pretty (ref_backend k) = js_suffix_pretty k" "js_suffix_of (ref_backend k) = js_suffix_of k"
  by (simp_all add: ref_backend_def)

lemma serde_spec_ref [simp]: "serde_spec (ref_backend k) \<longleftrightarrow> serde_spec k"
  by (simp add: serde_spec_def)

lemma took_effect_ok [simp]: "took_effect (Inr u) a b now \<longleftrightarrow> now = b"
  by (simp add: took_effect_def)

lemma disk_upd_simps [simp]:
  "dk_kv (kv_upd f d) = f (dk_kv d)" "dk_files (kv_upd f d) = dk_files d"
  "dk_kv (files_upd g d) = dk_kv d" "dk_files (files_upd g d) = g (dk_files d)"
  by (simp_all add: kv_upd_def files_upd_def)

lemma ref_backend_spec: "sled_spec (ref_backend k) (\<lambda>d. d)"
proof -
  have "sled_reads (ref_backend k) (\<lambda>d. d)"
    unfolding sled_reads_def
  proof (intro conjI allI)
    fix d p
    show "\<exists>n errs. sd_scan (ref_backend k) d p = map Inr (take n (scan_entries p (dk_kv d))) @ errs \<and>
        (case errs of [] \<Rightarrow> length (scan_entries p (dk_kv d)) \<le> n | x # xs \<Rightarrow> \<exists>msg. x = Inl msg)"
      by (intro exI [of _ "length (scan_entries p (dk_kv d))"] exI [of _ "[]"]) simp
  qed auto
  moreover have "sled_writes (ref_backend k) (\<lambda>d. d)" by (simp add: sled_writes_def took_effect_def)
  moreover have "file_reads (ref_backend k) (\<lambda>d. d)" by (simp add: file_reads_def res_simps)
  moreover have "file_writes (ref_backend k) (\<lambda>d. d)"
    by (simp add: file_writes_def took_effect_def split: option.split)
  ultimately show ?thesis by (simp add: sled_spec_def)
qed

section \<open>Refinement of the backend that never fails\<close>

definition view :: "('d \<Rightarrow> disk) \<Rightarrow> 'd sled_storage \<Rightarrow> disk sled_storage" where
  "view c s = \<lparr>sl_db = c (sl_db s), sl_defer_flush = sl_defer_flush s\<rparr>"

lemma view_simps [simp]:
  "sl_db (view c s) = c (sl_db s)" "sl_defer_flush (view c s) = sl_defer_flush s"
  "view c (s\<lparr>sl_db := d\<rparr>) = (view c s)\<lparr>sl_db := c d\<rparr>"
  by (simp_all add: view_def)

lemma view_id [simp]: "view (\<lambda>d. d) s = s"
  by (simp add: view_def)

definition refines :: "('d \<Rightarrow> disk) \<Rightarrow> ('d, 'a) db \<Rightarrow> (disk, 'a) db \<Rightarrow> bool" where
  "refines c m n \<longleftrightarrow> (\<forall>s r t. m s = (r, t) \<longrightarrow> (\<forall>msg. r \<noteq> Inl (Io msg)) \<longrightarrow> n (view c s) = (r, view c t))"

named_theorems refine

lemma refinesD: "refines c m n \<Longrightarrow> m s = (Inr x, t) \<Longrightarrow> n (view c s) = (Inr x, view c t)"
  by (simp add: refines_def)

lemma refines_ok [refine]: "refines c (sm_ok x) (sm_ok x)"
  by (simp add: refines_def sm_ok_def)

lemma refines_err [refine]: "refines c (sm_err x) (sm_err x)"
  by (simp add: refines_def sm_err_def)

lemma refines_lift [refine]: "refines c (sm_lift r) (sm_lift r)"
  by (simp add: refines_def sm_lift_def)

lemma refines_bind [refine]:
  assumes "refines c m n" "\<And>x. refines c (f x) (g x)"
  shows "refines c (sm_bind m f) (sm_bind n g)"
  unfolding refines_def
proof (intro allI impI)
  fix s r t
  assume run: "sm_bind m f s = (r, t)" and ok: "\<forall>msg. r \<noteq> Inl (Io msg)"
  show "sm_bind n g (view c s) = (r, view c t)"
  proof (cases "m s")
    case (Pair q u)
    then show ?thesis
    proof (cases q)
      case (Inl err)
      then have "r = Inl err" "t = u" using run Pair by (simp_all add: sm_bind_def)
      then have "n (view c s) = (Inl err, view c u)"
        using assms(1) Pair Inl ok unfolding refines_def by blast
      then show ?thesis using \<open>r = Inl err\<close> \<open>t = u\<close> by (simp add: sm_bind_def)
    next
      case (Inr x)
      then have "f x u = (r, t)" using run Pair by (simp add: sm_bind_def)
      then have "g x (view c u) = (r, view c t)" using assms(2) ok by (simp add: refines_def)
      moreover have "n (view c s) = (Inr x, view c u)" using assms(1) Pair Inr by (simp add: refinesD)
      ultimately show ?thesis by (simp add: sm_bind_def)
    qed
  qed
qed

lemma refines_seq [refine]: "refines c m n \<Longrightarrow> refines c m' n' \<Longrightarrow> refines c (sm_seq m m') (sm_seq n n')"
  by (simp add: sm_seq_def refines_bind)

lemma refines_if [refine]:
  "(b \<Longrightarrow> refines c m n) \<Longrightarrow> (\<not> b \<Longrightarrow> refines c m' n') \<Longrightarrow> refines c (if b then m else m') (if b then n else n')"
  by simp

lemma refines_option [refine]:
  "(x = None \<Longrightarrow> refines c m n) \<Longrightarrow> (\<And>y. x = Some y \<Longrightarrow> refines c (f y) (g y)) \<Longrightarrow>
   refines c (case x of None \<Rightarrow> m | Some y \<Rightarrow> f y) (case x of None \<Rightarrow> n | Some y \<Rightarrow> g y)"
  by (cases x) simp_all

lemma refines_prod [refine]:
  "(\<And>a b. x = (a, b) \<Longrightarrow> refines c (f a b) (g a b)) \<Longrightarrow>
   refines c (case x of (a, b) \<Rightarrow> f a b) (case x of (a, b) \<Rightarrow> g a b)"
  by (cases x) simp

lemma refines_prod2 [refine]:
  "(\<And>a b. x = (a, b) \<Longrightarrow> refines c (f a b y) (g a b y)) \<Longrightarrow>
   refines c ((case x of (a, b) \<Rightarrow> f a b) y) ((case x of (a, b) \<Rightarrow> g a b) y)"
  by (cases x) simp

lemma refines_for [refine]:
  "(\<And>x. x \<in> set xs \<Longrightarrow> refines c (f x) (g x)) \<Longrightarrow> refines c (sm_for f xs) (sm_for g xs)"
  by (induction xs) (simp_all add: refines_ok refines_seq)

lemma refines_fold [refine]:
  "(\<And>x acc. refines c (f x acc) (g x acc)) \<Longrightarrow> refines c (sm_fold f xs acc) (sm_fold g xs acc)"
  by (induction xs arbitrary: acc) (simp_all add: refines_ok refines_bind)

lemma refines_find [refine]:
  "(\<And>x. refines c (f x) (g x)) \<Longrightarrow> refines c (sm_find f xs) (sm_find g xs)"
  by (induction xs) (simp_all add: refines_ok refines_bind refines_option)

lemma refines_item [refine]:
  "(\<And>kv. refines c (f kv) (g kv)) \<Longrightarrow> refines c (scan_item x f) (scan_item x g)"
  by (simp add: scan_item_def refines_bind refines_lift)

lemma refines_upd':
  assumes "\<And>d d'. f d = (Inr (), d') \<Longrightarrow> g (c d) = (Inr (), c d')"
  shows "refines c (db_upd f) (db_upd g)"
  unfolding refines_def
proof (intro allI impI)
  fix s r t
  assume run: "db_upd f s = (r, t)" and ok: "\<forall>msg. r \<noteq> Inl (Io msg)"
  obtain q d where q: "f (sl_db s) = (q, d)" by fastforce
  have r: "r = res_map_err Io q" "t = s\<lparr>sl_db := d\<rparr>" using run q by (simp_all add: db_upd_def)
  have "q = Inr ()" using ok r(1) by (cases q) simp_all
  then show "db_upd g (view c s) = (r, view c t)"
    using assms [of "sl_db s" d] q r by (simp add: db_upd_def)
qed

lemma refines_upd:
  assumes "\<And>d r d'. f d = (r, d') \<Longrightarrow> took_effect r (c d) (g (c d)) (c d')"
  shows "refines c (db_upd f) (db_upd (\<lambda>d. (Inr (), g d)))"
  using assms by (intro refines_upd') fastforce

lemma sled_spec_writes:
  assumes "sled_spec k c"
  shows "sd_insert k key v d = (r, d') \<Longrightarrow> took_effect r (c d) (kv_upd (fmupd key v) (c d)) (c d')"
    "sd_remove k key d = (r, d') \<Longrightarrow> took_effect r (c d) (kv_upd (fmdrop key) (c d)) (c d')"
    "sd_apply_batch k ops d = (r, d') \<Longrightarrow> took_effect r (c d) (kv_upd (batch_apply ops) (c d)) (c d')"
    "sd_flush k d = (r, d') \<Longrightarrow> c d' = c d"
  using assms unfolding sled_spec_def sled_writes_def by blast+

lemma sled_spec_reads:
  assumes "sled_spec k c"
  shows "sd_get k d key = Inr v \<Longrightarrow> v = fmlookup (dk_kv (c d)) key"
    "sd_contains k d key = Inr b \<Longrightarrow> b = (fmlookup (dk_kv (c d)) key \<noteq> None)"
    "\<exists>n errs. sd_scan k d p = map Inr (take n (scan_entries p (dk_kv (c d)))) @ errs \<and>
        (case errs of [] \<Rightarrow> length (scan_entries p (dk_kv (c d))) \<le> n | x # xs \<Rightarrow> \<exists>msg. x = Inl msg)"
    "Inr kv \<in> set (sd_scan k d p) \<Longrightarrow> kv \<in> set (scan_entries p (dk_kv (c d)))"
  using assms unfolding sled_spec_def sled_reads_def by blast+

lemma sled_scan:
  assumes "sled_spec k c"
  obtains n errs where "sd_scan k d p = map Inr (take n (scan_entries p (dk_kv (c d)))) @ errs"
    "case errs of [] \<Rightarrow> scan_entries p (dk_kv (c d)) = take n (scan_entries p (dk_kv (c d))) | x # xs \<Rightarrow> \<exists>msg. x = Inl msg"
proof -
  obtain n errs where e: "sd_scan k d p = map Inr (take n (scan_entries p (dk_kv (c d)))) @ errs"
    "case errs of [] \<Rightarrow> length (scan_entries p (dk_kv (c d))) \<le> n | x # xs \<Rightarrow> \<exists>msg. x = Inl msg"
    using sled_spec_reads(3) [OF assms] by blast
  show thesis by (rule that [OF e(1)]) (use e(2) in \<open>cases errs; simp\<close>)
qed

lemma refines_db_ops [refine]:
  assumes "sled_spec k c"
  shows "refines c (db_insert k key v) (db_insert (ref_backend k) key v)"
    "refines c (db_remove k key) (db_remove (ref_backend k) key)"
    "refines c (db_apply_batch k ops) (db_apply_batch (ref_backend k) ops)"
    "refines c (db_flush k) (db_flush (ref_backend k))"
proof -
  show "refines c (db_insert k key v) (db_insert (ref_backend k) key v)"
    using refines_upd [of "sd_insert k key v" c "kv_upd (fmupd key v)"] sled_spec_writes(1) [OF assms]
    by (simp add: db_insert_def)
  show "refines c (db_remove k key) (db_remove (ref_backend k) key)"
    using refines_upd [of "sd_remove k key" c "kv_upd (fmdrop key)"] sled_spec_writes(2) [OF assms]
    by (simp add: db_remove_def)
  show "refines c (db_apply_batch k ops) (db_apply_batch (ref_backend k) ops)"
    using refines_upd [of "sd_apply_batch k ops" c "kv_upd (batch_apply ops)"] sled_spec_writes(3) [OF assms]
    by (simp add: db_apply_batch_def)
  show "refines c (db_flush k) (db_flush (ref_backend k))"
    using refines_upd [of "sd_flush k" c "\<lambda>d. d"] sled_spec_writes(4) [OF assms]
    by (simp add: db_flush_def took_effect_def)
qed

lemma refines_gets:
  assumes "\<And>d x. f d = Inr x \<Longrightarrow> x = g (c d)"
  shows "refines c (sm_gets (\<lambda>s. res_map_err Io (f (sl_db s)))) (sm_gets (\<lambda>s. Inr (g (sl_db s))))"
  unfolding refines_def
proof (intro allI impI)
  fix s :: "'a sled_storage" and r and t :: "'a sled_storage"
  assume "sm_gets (\<lambda>s. res_map_err Io (f (sl_db s))) s = (r, t)" "\<forall>msg. r \<noteq> Inl (Io msg)"
  then show "sm_gets (\<lambda>s. Inr (g (sl_db s))) (view c s) = (r, view c t)"
    using assms [of "sl_db s"] by (cases "f (sl_db s)") (auto simp: sm_gets_def)
qed

lemma refines_reads [refine]:
  assumes "sled_spec k c"
  shows "refines c (db_get k key) (db_get (ref_backend k) key)"
    "refines c (db_contains k key) (db_contains (ref_backend k) key)"
proof -
  note gets = refines_gets [of _ _ c]
  from gets [of "\<lambda>d. sd_get k d key" "\<lambda>d. fmlookup (dk_kv d) key"]
    gets [of "\<lambda>d. sd_contains k d key" "\<lambda>d. fmlookup (dk_kv d) key \<noteq> None"]
  show "refines c (db_get k key) (db_get (ref_backend k) key)"
    "refines c (db_contains k key) (db_contains (ref_backend k) key)"
    using sled_spec_reads(1,2) [OF assms] by (simp_all add: db_get_def db_contains_def)
qed

lemma refines_fold_prefix:
  assumes "\<And>kv acc. refines c (f kv acc) (g kv acc)"
    and "case errs of [] \<Rightarrow> es = take n es | x # xs \<Rightarrow> \<exists>msg. x = Inl msg"
  shows "refines c (sm_fold (\<lambda>item acc. scan_item item (\<lambda>kv. f kv acc)) (map Inr (take n es) @ errs) acc)
    (sm_fold (\<lambda>item acc. scan_item item (\<lambda>kv. g kv acc)) (map Inr es) acc)"
  using assms(2)
proof (induction es arbitrary: n acc)
  case Nil
  then show ?case
    by (cases errs) (auto simp: scan_item_def refines_def sm_bind_def sm_lift_def sm_ok_def)
next
  case (Cons e es)
  show ?case
  proof (cases n)
    case 0
    then obtain msg xs where "errs = Inl msg # xs" using Cons.prems by (cases errs) auto
    then show ?thesis using 0 by (auto simp: scan_item_def refines_def sm_bind_def sm_lift_def)
  next
    case (Suc m)
    have "case errs of [] \<Rightarrow> es = take m es | x # xs \<Rightarrow> \<exists>msg. x = Inl msg"
      using Cons.prems Suc by (cases errs) auto
    then show ?thesis
      using Suc by (simp add: refines_bind refines_item assms(1) Cons.IH)
  qed
qed

lemma refines_scan_fold [refine]:
  assumes "sled_spec k c" "\<And>kv acc. refines c (f kv acc) (g kv acc)"
  shows "refines c (scan_fold k p f acc) (scan_fold (ref_backend k) p g acc)"
  unfolding refines_def
proof (intro allI impI)
  fix s r t
  assume run: "scan_fold k p f acc s = (r, t)" and ok: "\<forall>msg. r \<noteq> Inl (Io msg)"
  let ?es = "scan_entries p (dk_kv (c (sl_db s)))"
  obtain n errs where scan: "sd_scan k (sl_db s) p = map Inr (take n ?es) @ errs"
    "case errs of [] \<Rightarrow> ?es = take n ?es | x # xs \<Rightarrow> \<exists>msg. x = Inl msg"
    by (rule sled_scan [OF assms(1)])
  have "refines c (sm_fold (\<lambda>item acc. scan_item item (\<lambda>kv. f kv acc)) (map Inr (take n ?es) @ errs) acc)
    (sm_fold (\<lambda>item acc. scan_item item (\<lambda>kv. g kv acc)) (map Inr ?es) acc)"
    by (rule refines_fold_prefix [OF assms(2) scan(2)])
  moreover have "sm_fold (\<lambda>item acc. scan_item item (\<lambda>kv. f kv acc)) (map Inr (take n ?es) @ errs) acc s = (r, t)"
    using run by (simp add: scan_fold_def db_scan_def sm_bind_def sm_gets_def scan(1))
  ultimately show "scan_fold (ref_backend k) p g acc (view c s) = (r, view c t)"
    using ok by (simp add: refines_def scan_fold_def db_scan_def sm_bind_def sm_gets_def)
qed

lemma refines_find_prefix:
  assumes "\<And>kv. refines c (f kv) (g kv)"
    and "case errs of [] \<Rightarrow> es = take n es | x # xs \<Rightarrow> \<exists>msg. x = Inl msg"
  shows "refines c (sm_find (\<lambda>item. scan_item item f) (map Inr (take n es) @ errs))
    (sm_find (\<lambda>item. scan_item item g) (map Inr es))"
  using assms(2)
proof (induction es arbitrary: n)
  case Nil
  then show ?case
    by (cases errs) (auto simp: scan_item_def refines_def sm_bind_def sm_lift_def sm_ok_def)
next
  case (Cons e es)
  show ?case
  proof (cases n)
    case 0
    then obtain msg xs where "errs = Inl msg # xs" using Cons.prems by (cases errs) auto
    then show ?thesis using 0 by (auto simp: scan_item_def refines_def sm_bind_def sm_lift_def)
  next
    case (Suc m)
    have "case errs of [] \<Rightarrow> es = take m es | x # xs \<Rightarrow> \<exists>msg. x = Inl msg"
      using Cons.prems Suc by (cases errs) auto
    then show ?thesis
      using Suc by (simp add: refines_bind refines_item refines_option refines_ok assms(1) Cons.IH)
  qed
qed

lemma refines_scan_find [refine]:
  assumes "sled_spec k c" "\<And>kv. refines c (f kv) (g kv)"
  shows "refines c (scan_find k p f) (scan_find (ref_backend k) p g)"
  unfolding refines_def
proof (intro allI impI)
  fix s r t
  assume run: "scan_find k p f s = (r, t)" and ok: "\<forall>msg. r \<noteq> Inl (Io msg)"
  let ?es = "scan_entries p (dk_kv (c (sl_db s)))"
  obtain n errs where scan: "sd_scan k (sl_db s) p = map Inr (take n ?es) @ errs"
    "case errs of [] \<Rightarrow> ?es = take n ?es | x # xs \<Rightarrow> \<exists>msg. x = Inl msg"
    by (rule sled_scan [OF assms(1)])
  have "refines c (sm_find (\<lambda>item. scan_item item f) (map Inr (take n ?es) @ errs))
    (sm_find (\<lambda>item. scan_item item g) (map Inr ?es))"
    by (rule refines_find_prefix [OF assms(2) scan(2)])
  moreover have "sm_find (\<lambda>item. scan_item item f) (map Inr (take n ?es) @ errs) s = (r, t)"
    using run by (simp add: scan_find_def db_scan_def sm_bind_def sm_gets_def scan(1))
  ultimately show "scan_find (ref_backend k) p g (view c s) = (r, view c t)"
    using ok by (simp add: refines_def scan_find_def db_scan_def sm_bind_def sm_gets_def)
qed

lemma refines_scan_collect [refine]:
  "sled_spec k c \<Longrightarrow> refines c (scan_collect k p) (scan_collect (ref_backend k) p)"
  unfolding scan_collect_def by (intro refine)

section \<open>Invariants that survive failures\<close>

definition keeps :: "('d \<Rightarrow> disk) \<Rightarrow> (disk \<Rightarrow> bool) \<Rightarrow> ('d, 'a) db \<Rightarrow> bool" where
  "keeps c P m \<longleftrightarrow> (\<forall>s. P (c (sl_db s)) \<longrightarrow> P (c (sl_db (snd (m s)))))"

named_theorems keep

lemma keeps_pure [keep]:
  "keeps c P (sm_ok x)" "keeps c P (sm_err err)" "keeps c P (sm_lift r)" "keeps c P (sm_gets h)"
  by (simp_all add: keeps_def sm_ok_def sm_err_def sm_lift_def sm_gets_def)

lemma keeps_bind [keep]:
  assumes "keeps c P m" "\<And>x s t. P (c (sl_db s)) \<Longrightarrow> m s = (Inr x, t) \<Longrightarrow> keeps c P (f x)"
  shows "keeps c P (sm_bind m f)"
  unfolding keeps_def
proof (intro allI impI)
  fix s :: "'a sled_storage"
  assume P: "P (c (sl_db s))"
  then have m: "P (c (sl_db (snd (m s))))" using assms(1) by (simp add: keeps_def)
  show "P (c (sl_db (snd (sm_bind m f s))))"
    using m assms(2) [OF P] by (cases "m s" rule: prod.exhaust; cases "fst (m s)") (auto simp: sm_bind_def keeps_def)
qed

lemma keeps_seq [keep]: "keeps c P m \<Longrightarrow> keeps c P n \<Longrightarrow> keeps c P (sm_seq m n)"
  unfolding sm_seq_def by (rule keeps_bind)

lemma keeps_if [keep]: "(b \<Longrightarrow> keeps c P m) \<Longrightarrow> (\<not> b \<Longrightarrow> keeps c P n) \<Longrightarrow> keeps c P (if b then m else n)"
  by simp

lemma keeps_option [keep]:
  "(x = None \<Longrightarrow> keeps c P m) \<Longrightarrow> (\<And>y. x = Some y \<Longrightarrow> keeps c P (f y)) \<Longrightarrow>
   keeps c P (case x of None \<Rightarrow> m | Some y \<Rightarrow> f y)"
  by (cases x) simp_all

lemma keeps_prod [keep]:
  "(\<And>a b. x = (a, b) \<Longrightarrow> keeps c P (f a b)) \<Longrightarrow> keeps c P (case x of (a, b) \<Rightarrow> f a b)"
  by (cases x) simp

lemma keeps_prod2 [keep]:
  "(\<And>a b. x = (a, b) \<Longrightarrow> keeps c P (f a b y)) \<Longrightarrow> keeps c P ((case x of (a, b) \<Rightarrow> f a b) y)"
  by (cases x) simp

lemma keeps_for [keep]: "(\<And>x. x \<in> set xs \<Longrightarrow> keeps c P (f x)) \<Longrightarrow> keeps c P (sm_for f xs)"
  by (induction xs) (simp_all add: keeps_pure keeps_seq)

lemma keeps_fold [keep]: "(\<And>x acc. x \<in> set xs \<Longrightarrow> keeps c P (f x acc)) \<Longrightarrow> keeps c P (sm_fold f xs acc)"
  by (induction xs arbitrary: acc) (simp_all add: keeps_pure keeps_bind)

lemma keeps_find [keep]: "(\<And>x. x \<in> set xs \<Longrightarrow> keeps c P (f x)) \<Longrightarrow> keeps c P (sm_find f xs)"
  by (induction xs) (simp_all add: keeps_pure keeps_bind keeps_option)

lemma keeps_item [keep]: "(\<And>kv. x = Inr kv \<Longrightarrow> keeps c P (f kv)) \<Longrightarrow> keeps c P (scan_item x f)"
  unfolding scan_item_def
  by (rule keeps_bind) (auto simp: keeps_pure sm_simps res_simps)

lemma keeps_upd:
  assumes "\<And>d r d'. f d = (r, d') \<Longrightarrow> took_effect r (c d) (g (c d)) (c d')" "\<And>d. P d \<Longrightarrow> P (g d)"
  shows "keeps c P (db_upd f)"
  unfolding keeps_def
proof (intro allI impI)
  fix s :: "'a sled_storage"
  assume "P (c (sl_db s))"
  moreover obtain r d where "f (sl_db s) = (r, d)" by fastforce
  moreover note assms(1) [OF this]
  ultimately show "P (c (sl_db (snd (db_upd f s))))"
    using assms(2) by (auto simp: db_upd_def took_effect_def)
qed

lemma keeps_db_writes:
  assumes "sled_spec k c"
  shows "(\<And>d. P d \<Longrightarrow> P (kv_upd (fmupd key v) d)) \<Longrightarrow> keeps c P (db_insert k key v)"
    "(\<And>d. P d \<Longrightarrow> P (kv_upd (fmdrop key) d)) \<Longrightarrow> keeps c P (db_remove k key)"
    "(\<And>d. P d \<Longrightarrow> P (kv_upd (batch_apply ops) d)) \<Longrightarrow> keeps c P (db_apply_batch k ops)"
proof -
  note w = sled_spec_writes [OF assms]
  show "(\<And>d. P d \<Longrightarrow> P (kv_upd (fmupd key v) d)) \<Longrightarrow> keeps c P (db_insert k key v)"
    unfolding db_insert_def by (rule keeps_upd [of _ _ "kv_upd (fmupd key v)"]) (rule w(1))
  show "(\<And>d. P d \<Longrightarrow> P (kv_upd (fmdrop key) d)) \<Longrightarrow> keeps c P (db_remove k key)"
    unfolding db_remove_def by (rule keeps_upd [of _ _ "kv_upd (fmdrop key)"]) (rule w(2))
  show "(\<And>d. P d \<Longrightarrow> P (kv_upd (batch_apply ops) d)) \<Longrightarrow> keeps c P (db_apply_batch k ops)"
    unfolding db_apply_batch_def by (rule keeps_upd [of _ _ "kv_upd (batch_apply ops)"]) (rule w(3))
qed

lemma keeps_db_flush [keep]: "sled_spec k c \<Longrightarrow> keeps c P (db_flush k)"
  unfolding db_flush_def by (rule keeps_upd [of _ _ "\<lambda>d. d"]) (auto simp: took_effect_def sled_spec_writes(4))

lemma keeps_db_reads [keep]:
  "keeps c P (db_get k key)" "keeps c P (db_contains k key)" "keeps c P (db_scan k p)"
  by (simp_all add: db_get_def db_contains_def db_scan_def keeps_pure)

lemma scan_entry: "(key, v) \<in> set (scan_entries p m) \<longleftrightarrow> prefix p key \<and> fmlookup m key = Some v"
  by (auto simp: scan_entries_def set_fm_entries)

lemma db_scan_items:
  assumes "sled_spec k c" "db_scan k p s = (Inr items, t)" "Inr (key, v) \<in> set items"
  shows "prefix p key \<and> fmlookup (dk_kv (c (sl_db s))) key = Some v"
  using assms sled_spec_reads(4) [OF assms(1)] by (auto simp: db_scan_def sm_gets_def scan_entry)

lemma keeps_scan [keep]:
  assumes "sled_spec k c"
  shows "(\<And>key v acc d. P d \<Longrightarrow> prefix p key \<Longrightarrow> fmlookup (dk_kv d) key = Some v \<Longrightarrow> keeps c P (f (key, v) acc)) \<Longrightarrow>
      keeps c P (scan_fold k p f acc)"
    "(\<And>key v d. P d \<Longrightarrow> prefix p key \<Longrightarrow> fmlookup (dk_kv d) key = Some v \<Longrightarrow> keeps c P (g (key, v))) \<Longrightarrow>
      keeps c P (scan_find k p g)"
proof -
  show "keeps c P (scan_fold k p f acc)"
    if f: "\<And>key v acc d. P d \<Longrightarrow> prefix p key \<Longrightarrow> fmlookup (dk_kv d) key = Some v \<Longrightarrow> keeps c P (f (key, v) acc)"
    unfolding scan_fold_def
    by (intro keep assms) (use f db_scan_items [OF assms] in \<open>metis surj_pair\<close>)
  show "keeps c P (scan_find k p g)"
    if g: "\<And>key v d. P d \<Longrightarrow> prefix p key \<Longrightarrow> fmlookup (dk_kv d) key = Some v \<Longrightarrow> keeps c P (g (key, v))"
    unfolding scan_find_def
    by (intro keep assms) (use g db_scan_items [OF assms] in \<open>metis surj_pair\<close>)
qed

lemma keeps_scan_collect [keep]: "sled_spec k c \<Longrightarrow> keeps c P (scan_collect k p)"
  unfolding scan_collect_def by (intro keep)

section \<open>Files\<close>

lemma sled_spec_files:
  assumes "sled_spec k c"
  shows "fs_exists k d f \<longleftrightarrow> fmlookup (dk_files (c d)) f \<noteq> None"
    "fs_read k d f = Inr bs \<Longrightarrow> fmlookup (dk_files (c d)) f = Some bs"
    "fs_create_dir_all k d = (r, d') \<Longrightarrow> c d' = c d"
    "fs_write k f bs d = (r, d') \<Longrightarrow>
        \<exists>cs. (r = Inr () \<longrightarrow> cs = bs) \<and> took_effect r (c d) (files_upd (fmupd f cs) (c d)) (c d')"
    "fs_sync_file k f d = (r, d') \<Longrightarrow> c d' = c d"
    "fs_rename k f g d = (r, d') \<Longrightarrow>
        (case fmlookup (dk_files (c d)) f of
           None \<Rightarrow> (\<exists>msg. r = Inl msg) \<and> c d' = c d
         | Some bs \<Rightarrow> took_effect r (c d) (files_upd (\<lambda>m. fmupd g bs (fmdrop f m)) (c d)) (c d'))"
    "fs_remove_file k f d = (q, d') \<Longrightarrow>
        (case q of
           Inr _ \<Rightarrow> c d' = files_upd (fmdrop f) (c d)
         | Inl NoSuchFile \<Rightarrow> fmlookup (dk_files (c d)) f = None \<and> c d' = c d
         | Inl (RemoveFailed msg) \<Rightarrow> c d' = c d \<or> c d' = files_upd (fmdrop f) (c d))"
proof -
  have "file_reads k c" and w: "file_writes k c" using assms by (simp_all add: sled_spec_def)
  then show "fs_exists k d f \<longleftrightarrow> fmlookup (dk_files (c d)) f \<noteq> None"
    "fs_read k d f = Inr bs \<Longrightarrow> fmlookup (dk_files (c d)) f = Some bs"
    unfolding file_reads_def by blast+
  note w = w [unfolded file_writes_def]
  note w1 = w [THEN conjunct2] and w2 = w [THEN conjunct2, THEN conjunct2]
  show "fs_create_dir_all k d = (r, d') \<Longrightarrow> c d' = c d"
    using w [THEN conjunct1] by blast
  show "fs_write k f bs d = (r, d') \<Longrightarrow>
        \<exists>cs. (r = Inr () \<longrightarrow> cs = bs) \<and> took_effect r (c d) (files_upd (fmupd f cs) (c d)) (c d')"
    using w1 [THEN conjunct1] by blast
  show "fs_sync_file k f d = (r, d') \<Longrightarrow> c d' = c d"
    using w2 [THEN conjunct1] by blast
qed (use assms in \<open>simp_all add: sled_spec_def file_writes_def\<close>)

text \<open>Replacing a file is atomic: whatever fails, the file has its old or its new contents.\<close>

lemma keeps_file_replace:
  assumes spec: "sled_spec k c"
    and tmp: "\<And>d cs. P d \<Longrightarrow> P (files_upd (fmupd (f @ ''.tmp'') cs) d)"
    and ren: "\<And>d bs. P d \<Longrightarrow> fmlookup (dk_files d) (f @ ''.tmp'') = Some bs \<Longrightarrow> json = Inr bs \<Longrightarrow>
      P (files_upd (\<lambda>m. fmupd f bs (fmdrop (f @ ''.tmp'') m)) d)"
  shows "keeps c P (file_replace k f json)"
  unfolding keeps_def
proof (intro allI impI)
  fix s :: "'a sled_storage"
  assume P: "P (c (sl_db s))"
  obtain r1 d1 where d1: "fs_create_dir_all k (sl_db s) = (r1, d1)" by fastforce
  have c1: "c d1 = c (sl_db s)" by (rule sled_spec_files(3) [OF spec d1])
  show "P (c (sl_db (snd (file_replace k f json s))))"
  proof (cases r1; cases json)
    fix u :: unit and bs :: bytes
    assume r1: "r1 = Inr u" and json: "json = Inr bs"
    obtain r2 d2 where d2: "fs_write k (f @ ''.tmp'') bs d1 = (r2, d2)" by fastforce
    obtain cs where cs: "r2 = Inr () \<Longrightarrow> cs = bs" "took_effect r2 (c d1) (files_upd (fmupd (f @ ''.tmp'') cs) (c d1)) (c d2)"
      using sled_spec_files(4) [OF spec d2] by blast
    obtain r3 d3 where d3: "fs_sync_file k (f @ ''.tmp'') d2 = (r3, d3)" by fastforce
    have c3: "c d3 = c d2" by (rule sled_spec_files(5) [OF spec d3])
    obtain r4 d4 where d4: "fs_rename k (f @ ''.tmp'') f d3 = (r4, d4)" by fastforce
    have P2: "P (c d2)" using cs(2) tmp P c1 by (auto simp: took_effect_def)
    have "P (c d4)" if "r2 = Inr ()"
    proof -
      have "fmlookup (dk_files (c d3)) (f @ ''.tmp'') = Some bs" using cs that c3 by simp
      then show ?thesis
        using sled_spec_files(6) [OF spec d4] ren [of "c d3" bs] P2 c3 json by (auto simp: took_effect_def)
    qed
    then show ?thesis
      using P2 c3 by (cases r2; cases r3)
        (simp_all add: file_replace_def sm_seq_def sm_bind_def db_upd_def sm_lift_def d1 d2 d3 d4 r1 json)
  qed (simp_all add: file_replace_def sm_seq_def sm_bind_def db_upd_def sm_lift_def d1 c1 P)
qed

lemma keeps_file_remove:
  assumes "sled_spec k c" "\<And>d. P d \<Longrightarrow> P (files_upd (fmdrop f) d)"
  shows "keeps c P (file_remove k f)"
  unfolding keeps_def
proof (intro allI impI)
  fix s :: "'a sled_storage"
  assume "P (c (sl_db s))"
  moreover obtain r d where "fs_remove_file k f (sl_db s) = (r, d)" by fastforce
  ultimately show "P (c (sl_db (snd (file_remove k f s))))"
    using sled_spec_files(7) [OF assms(1)] assms(2)
    by (fastforce simp: file_remove_def split: sum.splits remove_error.splits)
qed

lemma keeps_file_reads [keep]: "keeps c P (file_exists k f)" "keeps c P (file_read k f)"
  by (simp_all add: file_exists_def file_read_def keeps_pure)

lemma refines_file_reads [refine]:
  assumes "sled_spec k c"
  shows "refines c (file_exists k f) (file_exists (ref_backend k) f)"
    "refines c (file_read k f) (file_read (ref_backend k) f)"
proof -
  show "refines c (file_exists k f) (file_exists (ref_backend k) f)"
    by (simp add: file_exists_def refines_def sm_gets_def sled_spec_files(1) [OF assms])
  show "refines c (file_read k f) (file_read (ref_backend k) f)"
    unfolding refines_def
  proof (intro allI impI)
    fix s r t
    assume "file_read k f s = (r, t)" "\<forall>msg. r \<noteq> Inl (Io msg)"
    then show "file_read (ref_backend k) f (view c s) = (r, view c t)"
      using sled_spec_files(2) [OF assms, of "sl_db s" f]
      by (cases "fs_read k (sl_db s) f") (auto simp: file_read_def sm_gets_def)
  qed
qed

lemma refines_file_remove [refine]:
  assumes "sled_spec k c"
  shows "refines c (file_remove k f) (file_remove (ref_backend k) f)"
  unfolding refines_def
proof (intro allI impI)
  fix s r t
  assume run: "file_remove k f s = (r, t)" and ok: "\<forall>msg. r \<noteq> Inl (Io msg)"
  obtain q d where q: "fs_remove_file k f (sl_db s) = (q, d)" by fastforce
  have drop: "fmdrop f m = m" if "fmlookup m f = None" for m :: "(string, bytes) fmap"
    using that by (intro fmap_ext) auto
  show "file_remove (ref_backend k) f (view c s) = (r, view c t)"
    using run ok sled_spec_files(7) [OF assms q] q
    by (auto simp: file_remove_def files_upd_def drop split: sum.splits remove_error.splits)
qed

lemma refines_file_replace [refine]:
  assumes "sled_spec k c"
  shows "refines c (file_replace k f json) (file_replace (ref_backend k) f json)"
proof -
  note sp = sled_spec_files [OF assms]
  have "refines c (db_upd (fs_create_dir_all k)) (db_upd (fs_create_dir_all (ref_backend k)))"
    using refines_upd [of "fs_create_dir_all k" c "\<lambda>d. d"] sp(3) by (simp add: took_effect_def)
  moreover have "refines c (db_upd (fs_write k g bs)) (db_upd (fs_write (ref_backend k) g bs))" for g bs
    using refines_upd' [of "fs_write k g bs" "\<lambda>d. (Inr (), files_upd (fmupd g bs) d)" c] sp(4) by fastforce
  moreover have "refines c (db_upd (fs_sync_file k g)) (db_upd (fs_sync_file (ref_backend k) g))" for g
    using refines_upd [of "fs_sync_file k g" c "\<lambda>d. d"] sp(5) by (simp add: took_effect_def)
  moreover have "refines c (db_upd (fs_rename k g h)) (db_upd (fs_rename (ref_backend k) g h))" for g h
    using refines_upd' [of "fs_rename k g h" "fs_rename (ref_backend k) g h" c] sp(6) by (fastforce split: option.splits)
  ultimately show ?thesis
    unfolding file_replace_def by (intro refine)
qed

end
