(* ===== verification/Db_Keys.thy ===== *)
theory Db_Keys
  imports Db Demo
begin

text \<open>
  The keys of the database (\<open>crates/blq-storage/src/lib.rs\<close>, the key functions and the
  \<open>format!\<close> calls of the operations), the parsers that read addresses and numbers back from
  them, and the fixed-width values.  The datatype \<open>db_key\<close> names every key the store writes;
  different names have different keys.
\<close>

section \<open>Strings and numbers of the standard library\<close>

text \<open>\<open>std::str::from_utf8\<close>; a string is the list of its bytes.\<close>

definition utf8_cont :: "u8 \<Rightarrow> bool" where
  "utf8_cont b \<longleftrightarrow> 0x80 \<le> b \<and> b \<le> 0xBF"

fun utf8_valid :: "bytes \<Rightarrow> bool" where
  "utf8_valid [] \<longleftrightarrow> True"
| "utf8_valid (a # bs) \<longleftrightarrow>
     (if a < 0x80 then utf8_valid bs
      else case bs of
        [] \<Rightarrow> False
      | b # cs \<Rightarrow>
          if 0xC2 \<le> a \<and> a \<le> 0xDF then utf8_cont b \<and> utf8_valid cs
          else case cs of
            [] \<Rightarrow> False
          | c # ds \<Rightarrow>
              if 0xE0 \<le> a \<and> a \<le> 0xEF then
                utf8_cont b \<and> (a = 0xE0 \<longrightarrow> 0xA0 \<le> b) \<and> (a = 0xED \<longrightarrow> b \<le> 0x9F) \<and> utf8_cont c \<and> utf8_valid ds
              else case ds of
                [] \<Rightarrow> False
              | d # es \<Rightarrow>
                  0xF0 \<le> a \<and> a \<le> 0xF4 \<and> utf8_cont b \<and> (a = 0xF0 \<longrightarrow> 0x90 \<le> b) \<and> (a = 0xF4 \<longrightarrow> b \<le> 0x8F) \<and>
                  utf8_cont c \<and> utf8_cont d \<and> utf8_valid es)"

definition from_utf8 :: "bytes \<Rightarrow> string option" where
  "from_utf8 bs = (if utf8_valid bs then Some (map (\<lambda>b. char_of (unat b)) bs) else None)"

text \<open>\<open>str::parse::<u64>\<close> accepts what \<open>parse::<u128>\<close> accepts below \<open>2 ^ 64\<close>.\<close>

definition parse_u64 :: "string \<Rightarrow> u64 option" where
  "parse_u64 s = Option.bind (parse_u128 s) (\<lambda>v. if unat v < 2 ^ 64 then Some (ucast v) else None)"

text \<open>\<open>{:020}\<close>\<close>

definition pad20 :: "u64 \<Rightarrow> string" where
  "pad20 n = replicate (20 - length (dec_string (unat n))) CHR ''0'' @ dec_string (unat n)"

definition strip_prefix_bytes :: "bytes \<Rightarrow> bytes \<Rightarrow> bytes option" where
  "strip_prefix_bytes p bs = (if prefix p bs then Some (drop (length p) bs) else None)"

section \<open>Keys\<close>

definition header_key :: "u64 \<Rightarrow> bytes" where
  "header_key n = as_bytes (''header:number:'' @ pad20 n)"

definition block_key :: "u64 \<Rightarrow> bytes" where
  "block_key n = as_bytes (''block:number:'' @ pad20 n)"

definition transaction_key :: "ext \<Rightarrow> hash256 \<Rightarrow> bytes" where
  "transaction_key e h = as_bytes (''transaction:'' @ hash_to_hex e h)"

definition receipt_key :: "ext \<Rightarrow> hash256 \<Rightarrow> bytes" where
  "receipt_key e h = as_bytes (''receipt:'' @ hash_to_hex e h)"

definition orphan_key :: "ext \<Rightarrow> hash256 \<Rightarrow> bytes" where
  "orphan_key e h = as_bytes (''orphan:block:'' @ hash_to_hex e h)"

definition candidate_block_key :: "ext \<Rightarrow> hash256 \<Rightarrow> bytes" where
  "candidate_block_key e h = as_bytes (''candidate:block:'' @ hash_to_hex e h)"

definition candidate_work_key :: "ext \<Rightarrow> hash256 \<Rightarrow> bytes" where
  "candidate_work_key e h = as_bytes (''candidate:work:'' @ hash_to_hex e h)"

definition candidate_quarantine_key :: "ext \<Rightarrow> hash256 \<Rightarrow> bytes" where
  "candidate_quarantine_key e h = as_bytes (''candidate:quarantine:'' @ hash_to_hex e h)"

definition EVM_SNAPSHOT_PREFIX :: string where
  "EVM_SNAPSHOT_PREFIX = ''state:evm:snapshot:''"

definition evm_snapshot_key :: "u64 \<Rightarrow> bytes" where
  "evm_snapshot_key n = as_bytes (EVM_SNAPSHOT_PREFIX @ pad20 n)"

definition LOG_INDEX_VERSION :: bytes where
  "LOG_INDEX_VERSION = as_bytes ''state:log-index:version''"

definition recovery_prefix :: "ext \<Rightarrow> hash256 \<Rightarrow> string" where
  "recovery_prefix e tip = ''recovery:'' @ hash_to_hex e tip @ '':''"

definition recovery_base :: "ext \<Rightarrow> hash256 \<Rightarrow> u64 \<Rightarrow> string" where
  "recovery_base e tip n = ''recovery:'' @ hash_to_hex e tip @ '':'' @ dec_string (unat n)"

definition recovery_hash_key :: "ext \<Rightarrow> hash256 \<Rightarrow> string" where
  "recovery_hash_key e h = ''recovery:hash:'' @ hash_to_hex e h"

type_synonym log_location = "16 barray"

definition log_index_bytes :: "u64 \<Rightarrow> nat \<Rightarrow> nat \<Rightarrow> log_location" where
  "log_index_bytes block_number transaction_index log_index =
     Arr (to_be_bytes block_number @ to_be_bytes (of_nat transaction_index :: u32) @ to_be_bytes (of_nat log_index :: u32))"

definition log_location_key :: "ext \<Rightarrow> log_location \<Rightarrow> bytes" where
  "log_location_key e l = as_bytes (''log:index:location:'' @ x_hex_encode e (arr_bytes l))"

definition log_address_prefix :: "ext \<Rightarrow> address \<Rightarrow> bytes" where
  "log_address_prefix e a = as_bytes (''log:index:address:'' @ x_hex_encode e (arr_bytes a) @ '':'')"

definition log_address_key :: "ext \<Rightarrow> address \<Rightarrow> log_location \<Rightarrow> bytes" where
  "log_address_key e a l = log_address_prefix e a @ as_bytes (x_hex_encode e (arr_bytes l))"

definition log_topic_prefix :: "ext \<Rightarrow> hash256 \<Rightarrow> bytes" where
  "log_topic_prefix e t = as_bytes (''log:index:topic:'' @ hash_to_hex e t @ '':'')"

definition log_topic_key :: "ext \<Rightarrow> hash256 \<Rightarrow> log_location \<Rightarrow> bytes" where
  "log_topic_key e t l = log_topic_prefix e t @ as_bytes (x_hex_encode e (arr_bytes l))"

definition balance_key :: "ext \<Rightarrow> address \<Rightarrow> bytes" where
  "balance_key e a = as_bytes (''account:balance:'' @ x_hex_encode e (arr_bytes a))"

definition nonce_key :: "ext \<Rightarrow> address \<Rightarrow> bytes" where
  "nonce_key e a = as_bytes (''account:nonce:'' @ x_hex_encode e (arr_bytes a))"

definition code_key :: "ext \<Rightarrow> address \<Rightarrow> bytes" where
  "code_key e a = as_bytes (''account:code:'' @ x_hex_encode e (arr_bytes a))"

definition storage_key :: "ext \<Rightarrow> address \<Rightarrow> hash256 \<Rightarrow> bytes" where
  "storage_key e a slot =
     as_bytes (''account:storage:'' @ x_hex_encode e (arr_bytes a) @ '':'' @ hash_to_hex e slot)"

section \<open>Reading keys and values\<close>

fun hex_hash_error_debug :: "hex_hash_error \<Rightarrow> string" where
  "hex_hash_error_debug InvalidHex = ''InvalidHex''"
| "hex_hash_error_debug (InvalidLength n) = ''InvalidLength('' @ dec_string n @ '')''"

definition key_suffix :: "string \<Rightarrow> string \<Rightarrow> bytes \<Rightarrow> storage_error + bytes" where
  "key_suffix p msg key = res_of_option (Serialization msg) (strip_prefix_bytes (as_bytes p) key)"

definition utf8_text :: "bytes \<Rightarrow> storage_error + string" where
  "utf8_text bs = res_of_option (Serialization ''invalid utf-8'') (from_utf8 bs)"

definition parse_address :: "ext \<Rightarrow> string \<Rightarrow> storage_error + address" where
  "parse_address e value = res_map_err (\<lambda>err. Serialization (hex_hash_error_debug err)) (address_from_hex e value)"

definition address_from_balance_key :: "ext \<Rightarrow> bytes \<Rightarrow> storage_error + address" where
  "address_from_balance_key e key =
     res_bind (key_suffix ''account:balance:'' ''invalid account key'' key) (\<lambda>suffix.
     res_bind (utf8_text suffix) (parse_address e))"

definition address_from_nonce_key :: "ext \<Rightarrow> bytes \<Rightarrow> storage_error + address" where
  "address_from_nonce_key e key =
     res_bind (key_suffix ''account:nonce:'' ''invalid nonce key'' key) (\<lambda>suffix.
     res_bind (utf8_text suffix) (parse_address e))"

definition address_from_code_key :: "ext \<Rightarrow> bytes \<Rightarrow> storage_error + address" where
  "address_from_code_key e key =
     res_bind (key_suffix ''account:code:'' ''invalid code key'' key) (\<lambda>suffix.
     res_bind (utf8_text suffix) (parse_address e))"

definition address_from_storage_key :: "ext \<Rightarrow> bytes \<Rightarrow> storage_error + address \<times> hash256" where
  "address_from_storage_key e key =
     res_bind (key_suffix ''account:storage:'' ''invalid storage key'' key) (\<lambda>suffix.
     res_bind (ensure (0x3A \<in> set suffix) (Serialization ''invalid storage key separator'')) (\<lambda>_.
     let a = takeWhile (\<lambda>b. b \<noteq> 0x3A) suffix;
         slot = drop (length a + 1) suffix
     in res_bind (utf8_text a) (\<lambda>a_text.
        res_bind (parse_address e a_text) (\<lambda>address.
        res_bind (utf8_text slot) (\<lambda>slot_text.
        res_bind (res_map_err (\<lambda>err. Serialization (hex_hash_error_debug err)) (hash_from_hex e slot_text)) (\<lambda>slot.
        Inr (address, slot)))))))"

definition u128_from_slice :: "bytes \<Rightarrow> storage_error + u128" where
  "u128_from_slice v = (if length v = 16 then Inr (from_be_bytes v) else Inl (Serialization ''invalid u128 value''))"

definition u64_from_slice :: "string \<Rightarrow> bytes \<Rightarrow> storage_error + u64" where
  "u64_from_slice msg v = (if length v = 8 then Inr (from_be_bytes v) else Inl (Serialization msg))"

definition hash_from_bytes :: "bytes \<Rightarrow> storage_error + hash256" where
  "hash_from_bytes v = res_of_option (Serialization ''invalid hash value'') (arr_try v)"

definition log_block_number :: "bytes \<Rightarrow> storage_error + u64" where
  "log_block_number v =
     (if length v = 16 then Inr (from_be_bytes (take 8 v)) else Inl (Serialization ''invalid log index location''))"

text \<open>The number of a \<open>block:number:\<close> key, as \<open>prune_old_blocks\<close> and \<open>oldest_body_height\<close> read it.\<close>

definition number_from_block_key :: "bytes \<Rightarrow> u64 option" where
  "number_from_block_key key =
     Option.bind (from_utf8 key) (\<lambda>text.
       if prefix ''block:number:'' text then parse_u64 (drop (length ''block:number:'') text) else None)"

section \<open>What the text forms satisfy\<close>

text \<open>\<open>hex::encode\<close> writes two lower-case hexadecimal digits per byte.\<close>

definition hex_text_spec :: "ext \<Rightarrow> bool" where
  "hex_text_spec e \<longleftrightarrow> hex_spec e \<and>
     (\<forall>bs. length (x_hex_encode e bs) = 2 * length bs \<and> set (x_hex_encode e bs) \<subseteq> set ''0123456789abcdef'')"

lemma demo_hex_text_spec: "hex_text_spec demo_ext"
proof -
  have "list_all (\<lambda>n. nibble_char n \<in> set ''0123456789abcdef'') [0..<16]" by code_simp
  then have digit: "nibble_char n \<in> set ''0123456789abcdef''" if "n < 16" for n
    using that by (simp only: list_all_iff set_upt atLeastLessThan_iff) simp
  have "length (hex_enc bs) = 2 * length bs \<and> set (hex_enc bs) \<subseteq> set ''0123456789abcdef''" for bs
  proof (induction bs)
    case (Cons b bs)
    have "unat b < 256" by (rule unat_byte_lt)
    then have "unat b div 16 < 16" "unat b mod 16 < 16" by (simp_all add: less_mult_imp_div_less)
    note digit [OF this(1)] digit [OF this(2)]
    then show ?case using Cons.IH by (simp only: hex_enc_def list.map concat.simps) auto
  qed (simp add: hex_enc_def)
  then have "\<forall>bs. length (hex_enc bs) = 2 * length bs \<and> set (hex_enc bs) \<subseteq> set ''0123456789abcdef''" by blast
  moreover have "x_hex_encode demo_ext = hex_enc" by (simp add: demo_ext_def)
  ultimately show ?thesis unfolding hex_text_spec_def using demo_hex_spec by metis
qed

lemma as_bytes_append [simp]: "as_bytes (s @ t) = as_bytes s @ as_bytes t"
  by (simp add: as_bytes_def)

lemma as_bytes_text: "map (\<lambda>b. char_of (unat b)) (as_bytes s) = s"
proof -
  have "char_of (unat (of_char c :: u8)) = c" for c :: char
  proof -
    have "unat (of_nat (of_char c) :: u8) = of_char c mod 256" by (simp only: unat_of_nat) simp
    also have "\<dots> = of_char c" using nat_of_char_less_256 [of c] by (rule mod_less)
    finally have "unat (of_char c :: u8) = of_char c" by (simp only: of_nat_of_char)
    then show ?thesis by simp
  qed
  then show ?thesis by (simp add: as_bytes_def comp_def)
qed

lemma utf8_ascii: "\<forall>b \<in> set bs. b < 0x80 \<Longrightarrow> utf8_valid bs"
  by (induction bs) auto

definition ascii :: "string \<Rightarrow> bool" where
  "ascii s \<longleftrightarrow> (\<forall>b \<in> set (as_bytes s). b < 0x80)"

lemma from_utf8_ascii: "ascii s \<Longrightarrow> from_utf8 (as_bytes s) = Some s"
  by (simp add: from_utf8_def as_bytes_text utf8_ascii ascii_def)

lemma ascii_append [simp]: "ascii (s @ t) \<longleftrightarrow> ascii s \<and> ascii t"
  by (auto simp: ascii_def)

lemma ascii_hex:
  assumes "hex_text_spec e"
  shows "ascii (x_hex_encode e bs)"
proof -
  have "\<forall>c \<in> set ''0123456789abcdef''. (of_char c :: u8) < 0x80" by simp
  moreover have "set (x_hex_encode e bs) \<subseteq> set ''0123456789abcdef''" using assms by (simp add: hex_text_spec_def)
  ultimately show ?thesis unfolding ascii_def as_bytes_def by auto
qed

lemma hex_no_colon:
  assumes "hex_text_spec e"
  shows "0x3A \<notin> set (as_bytes (x_hex_encode e bs))"
proof -
  have "\<forall>c \<in> set ''0123456789abcdef''. (of_char c :: u8) \<noteq> 0x3A" by simp
  moreover have "set (x_hex_encode e bs) \<subseteq> set ''0123456789abcdef''" using assms by (simp add: hex_text_spec_def)
  ultimately show ?thesis unfolding as_bytes_def by force
qed

lemma hex_eq_iff:
  assumes "hex_text_spec e"
  shows "x_hex_encode e bs = x_hex_encode e cs \<longleftrightarrow> bs = cs"
  using assms by (auto simp: hex_text_spec_def hex_spec_def) (metis option.inject)

lemma hex_append_eq_iff:
  fixes a b :: "'n::len barray"
  assumes "hex_text_spec e"
  shows "x_hex_encode e (arr_bytes a) @ s = x_hex_encode e (arr_bytes b) @ t \<longleftrightarrow> a = b \<and> s = t"
proof -
  have "length (x_hex_encode e (arr_bytes a)) = length (x_hex_encode e (arr_bytes b))"
    using assms by (simp add: hex_text_spec_def)
  then show ?thesis by (simp add: hex_eq_iff [OF assms] arr_eq_iff)
qed

lemma dec_string_length: "n < 10 ^ k \<Longrightarrow> 0 < k \<Longrightarrow> length (dec_string n) \<le> k"
proof (induction n arbitrary: k rule: dec_string.induct)
  case (1 n)
  show ?case
  proof (cases "n < 10")
    case True
    then show ?thesis using 1 by (subst dec_string.simps) simp
  next
    case False
    then obtain j where k: "k = Suc j" "0 < j" using 1(2,3) by (cases k; cases "k - 1") auto
    then have "n div 10 < 10 ^ j" using 1(2) by (simp add: less_mult_imp_div_less mult.commute)
    then show ?thesis using 1(1) [OF False, of j] k False by (subst dec_string.simps) simp
  qed
qed

lemma dec_string_digits: "set (dec_string n) \<subseteq> set ''0123456789''"
proof (induction n rule: dec_string.induct)
  case (1 n)
  have "list_all (\<lambda>d. dec_digit d \<in> set ''0123456789'') [0..<10]" by code_simp
  then have d: "dec_digit d \<in> set ''0123456789''" if "d < 10" for d
    using that by (simp only: list_all_iff set_upt atLeastLessThan_iff) simp
  show ?case
  proof (cases "n < 10")
    case True
    then show ?thesis using d [of n] by (subst dec_string.simps) simp
  next
    case False
    then show ?thesis using 1 d [of "n mod 10"] by (subst dec_string.simps) auto
  qed
qed

lemma length_pad20 [simp]: "length (pad20 n) = 20"
proof -
  have "unat n < 10 ^ 20" using unat_lt_len [of n] by simp
  then have "length (dec_string (unat n)) \<le> 20" by (rule dec_string_length) simp
  then show ?thesis by (simp add: pad20_def)
qed

lemma parse_pad20: "parse_u64 (pad20 n) = Some n"
proof -
  have "parse_u128_digits 0 (replicate j CHR ''0'' @ s) = parse_u128_digits 0 s" for j s
    by (induction j) (simp_all add: digit_val_def)
  moreover have "parse_u128_digits 0 (dec_string (unat n)) = Some (unat n)"
    using unat_lt_len [of n] by (intro parse_digits_dec_string) simp
  ultimately have d: "parse_u128_digits 0 (pad20 n) = Some (unat n)" by (simp add: pad20_def)
  have "set (pad20 n) \<subseteq> set ''0123456789''"
    using dec_string_digits [of "unat n"] by (auto simp: pad20_def)
  moreover obtain c cs where p: "pad20 n = c # cs" using length_pad20 [of n] by (cases "pad20 n") auto
  ultimately have "c \<noteq> CHR ''+'' \<and> c \<noteq> CHR ''-''" by auto
  then have "parse_u128 (pad20 n) = Some (of_nat (unat n))"
    using d p by (simp add: parse_u128_def)
  moreover have "unat (of_nat (unat n) :: u128) = unat n"
    by (simp add: unat_widen)
  moreover have "ucast (of_nat (unat n) :: u128) = n"
    using ucast_up_ucast_id [of n, where 'b = 128] by (simp add: is_up)
  ultimately show ?thesis using unat_lt_len [of n] by (simp add: parse_u64_def)
qed

lemma pad20_inj: "pad20 m = pad20 n \<longleftrightarrow> m = n"
  using parse_pad20 by (metis option.inject)

lemma ascii_pad20: "ascii (pad20 n)"
proof -
  have "set (pad20 n) \<subseteq> set ''0123456789''"
    using dec_string_digits [of "unat n"] by (auto simp: pad20_def)
  moreover have "\<forall>c \<in> set ''0123456789''. (of_char c :: u8) < 0x80" by simp
  ultimately show ?thesis unfolding ascii_def as_bytes_def by auto
qed

section \<open>The keys the store writes\<close>

datatype db_key =
    HeaderAt u64 | BlockAt u64 | TransactionOf hash256 | ReceiptOf hash256 | BestNumber
  | BalanceOf address | NonceOf address | CodeOf address | StorageOf address hash256
  | EvmSnapshotAt u64 | RewardsIndexedTo | SupplyIndexedTo | SupplyTotal | SupplyBurned | LogVersion
  | LogAt log_location | LogByAddress address log_location | LogByTopic hash256 log_location
  | OrphanOf hash256 | CandidateOf hash256 | CandidateWork hash256 | CandidateQuarantine hash256
  | RecoveryBlock hash256 u64 | RecoveryWork hash256 u64 | RecoveryIndex hash256

fun key_text :: "ext \<Rightarrow> db_key \<Rightarrow> string" where
  "key_text e (HeaderAt n) = ''header:number:'' @ pad20 n"
| "key_text e (BlockAt n) = ''block:number:'' @ pad20 n"
| "key_text e (TransactionOf h) = ''transaction:'' @ x_hex_encode e (arr_bytes h)"
| "key_text e (ReceiptOf h) = ''receipt:'' @ x_hex_encode e (arr_bytes h)"
| "key_text e BestNumber = ''best:number''"
| "key_text e (BalanceOf a) = ''account:balance:'' @ x_hex_encode e (arr_bytes a)"
| "key_text e (NonceOf a) = ''account:nonce:'' @ x_hex_encode e (arr_bytes a)"
| "key_text e (CodeOf a) = ''account:code:'' @ x_hex_encode e (arr_bytes a)"
| "key_text e (StorageOf a h) = ''account:storage:'' @ x_hex_encode e (arr_bytes a) @ '':'' @ x_hex_encode e (arr_bytes h)"
| "key_text e (EvmSnapshotAt n) = ''state:evm:snapshot:'' @ pad20 n"
| "key_text e RewardsIndexedTo = ''state:rewards:indexed_to''"
| "key_text e SupplyIndexedTo = ''state:supply:indexed_to''"
| "key_text e SupplyTotal = ''state:supply:total''"
| "key_text e SupplyBurned = ''state:supply:burned''"
| "key_text e LogVersion = ''state:log-index:version''"
| "key_text e (LogAt l) = ''log:index:location:'' @ x_hex_encode e (arr_bytes l)"
| "key_text e (LogByAddress a l) = ''log:index:address:'' @ x_hex_encode e (arr_bytes a) @ '':'' @ x_hex_encode e (arr_bytes l)"
| "key_text e (LogByTopic h l) = ''log:index:topic:'' @ x_hex_encode e (arr_bytes h) @ '':'' @ x_hex_encode e (arr_bytes l)"
| "key_text e (OrphanOf h) = ''orphan:block:'' @ x_hex_encode e (arr_bytes h)"
| "key_text e (CandidateOf h) = ''candidate:block:'' @ x_hex_encode e (arr_bytes h)"
| "key_text e (CandidateWork h) = ''candidate:work:'' @ x_hex_encode e (arr_bytes h)"
| "key_text e (CandidateQuarantine h) = ''candidate:quarantine:'' @ x_hex_encode e (arr_bytes h)"
| "key_text e (RecoveryBlock h n) = ''recovery:'' @ x_hex_encode e (arr_bytes h) @ '':'' @ dec_string (unat n) @ '':block''"
| "key_text e (RecoveryWork h n) = ''recovery:'' @ x_hex_encode e (arr_bytes h) @ '':'' @ dec_string (unat n) @ '':work''"
| "key_text e (RecoveryIndex h) = ''recovery:hash:'' @ x_hex_encode e (arr_bytes h)"

definition key_bytes :: "ext \<Rightarrow> db_key \<Rightarrow> bytes" where
  "key_bytes e k = as_bytes (key_text e k)"

lemma key_folds:
  "header_key n = key_bytes e (HeaderAt n)" "block_key n = key_bytes e (BlockAt n)"
  "transaction_key e h = key_bytes e (TransactionOf h)" "receipt_key e h = key_bytes e (ReceiptOf h)"
  "orphan_key e h = key_bytes e (OrphanOf h)" "candidate_block_key e h = key_bytes e (CandidateOf h)"
  "candidate_work_key e h = key_bytes e (CandidateWork h)"
  "candidate_quarantine_key e h = key_bytes e (CandidateQuarantine h)"
  "evm_snapshot_key n = key_bytes e (EvmSnapshotAt n)" "LOG_INDEX_VERSION = key_bytes e LogVersion"
  "log_location_key e l = key_bytes e (LogAt l)" "log_address_key e a l = key_bytes e (LogByAddress a l)"
  "log_topic_key e h l = key_bytes e (LogByTopic h l)" "balance_key e a = key_bytes e (BalanceOf a)"
  "nonce_key e a = key_bytes e (NonceOf a)" "code_key e a = key_bytes e (CodeOf a)"
  "storage_key e a h = key_bytes e (StorageOf a h)"
  "as_bytes ''best:number'' = key_bytes e BestNumber"
  "as_bytes ''state:rewards:indexed_to'' = key_bytes e RewardsIndexedTo"
  "as_bytes ''state:supply:indexed_to'' = key_bytes e SupplyIndexedTo"
  "as_bytes ''state:supply:total'' = key_bytes e SupplyTotal"
  "as_bytes ''state:supply:burned'' = key_bytes e SupplyBurned"
  "as_bytes (recovery_hash_key e h) = key_bytes e (RecoveryIndex h)"
  "as_bytes (recovery_base e h n @ '':block'') = key_bytes e (RecoveryBlock h n)"
  "as_bytes (recovery_base e h n @ '':work'') = key_bytes e (RecoveryWork h n)"
  unfolding key_bytes_def key_text.simps header_key_def block_key_def transaction_key_def receipt_key_def orphan_key_def
    candidate_block_key_def candidate_work_key_def candidate_quarantine_key_def evm_snapshot_key_def
    EVM_SNAPSHOT_PREFIX_def LOG_INDEX_VERSION_def log_location_key_def log_address_key_def log_address_prefix_def
    log_topic_key_def log_topic_prefix_def balance_key_def nonce_key_def code_key_def storage_key_def
    recovery_hash_key_def recovery_base_def hash_to_hex_def
  by (simp_all only: as_bytes_append append_assoc)

lemma dec_colon_eq_iff: "dec_string m @ '':'' @ s = dec_string n @ '':'' @ t \<longleftrightarrow> dec_string m = dec_string n \<and> s = t"
proof -
  have no: "CHR '':'' \<notin> set (dec_string j)" for j
    using dec_string_digits [of j] by auto
  have take: "takeWhile (\<lambda>c. c \<noteq> CHR '':'') (dec_string j @ '':'' @ u) = dec_string j" for j u
    using no [of j] by (subst takeWhile_append2) auto
  show ?thesis using take [of m s] take [of n t] by auto
qed

lemma dec_string_unat_inj: "dec_string (unat m) = dec_string (unat n) \<longleftrightarrow> m = n" for m n :: u64
proof
  assume eq: "dec_string (unat m) = dec_string (unat n)"
  have "parse_u128_digits 0 (dec_string (unat j)) = Some (unat j)" for j :: u64
    using unat_lt_len [of j] by (intro parse_digits_dec_string) simp
  from this [of m] this [of n] eq have "unat m = unat n" by (metis option.inject)
  then show "m = n" by (rule word_unat_eq_iff [THEN iffD2])
qed simp

lemma hex_not_hash:
  assumes "hex_text_spec e"
  shows "\<not> prefix ''hash:'' (x_hex_encode e (arr_bytes (h :: hash256)) @ s)"
proof -
  have "length (x_hex_encode e (arr_bytes h)) = 64" "set (x_hex_encode e (arr_bytes h)) \<subseteq> set ''0123456789abcdef''"
    using assms by (simp_all add: hex_text_spec_def)
  then show ?thesis by (cases "x_hex_encode e (arr_bytes h)") auto
qed

fun key_kind :: "db_key \<Rightarrow> nat" where
  "key_kind (HeaderAt _) = 0"
| "key_kind (BlockAt _) = 1"
| "key_kind (TransactionOf _) = 2"
| "key_kind (ReceiptOf _) = 3"
| "key_kind BestNumber = 4"
| "key_kind (BalanceOf _) = 5"
| "key_kind (NonceOf _) = 6"
| "key_kind (CodeOf _) = 7"
| "key_kind (StorageOf _ _) = 8"
| "key_kind (EvmSnapshotAt _) = 9"
| "key_kind RewardsIndexedTo = 10"
| "key_kind SupplyIndexedTo = 11"
| "key_kind SupplyTotal = 12"
| "key_kind SupplyBurned = 13"
| "key_kind LogVersion = 14"
| "key_kind (LogAt _) = 15"
| "key_kind (LogByAddress _ _) = 16"
| "key_kind (LogByTopic _ _) = 17"
| "key_kind (OrphanOf _) = 18"
| "key_kind (CandidateOf _) = 19"
| "key_kind (CandidateWork _) = 20"
| "key_kind (CandidateQuarantine _) = 21"
| "key_kind (RecoveryIndex _) = 22"
| "key_kind (RecoveryBlock _ _) = 23"
| "key_kind (RecoveryWork _ _) = 23"

definition kind_of :: "string \<Rightarrow> nat" where
  "kind_of s =
     (if prefix ''header:number:'' s then 0
      else if prefix ''block:number:'' s then 1
      else if prefix ''transaction:'' s then 2
      else if prefix ''receipt:'' s then 3
      else if prefix ''best:number'' s then 4
      else if prefix ''account:balance:'' s then 5
      else if prefix ''account:nonce:'' s then 6
      else if prefix ''account:code:'' s then 7
      else if prefix ''account:storage:'' s then 8
      else if prefix ''state:evm:snapshot:'' s then 9
      else if prefix ''state:rewards:indexed_to'' s then 10
      else if prefix ''state:supply:indexed_to'' s then 11
      else if prefix ''state:supply:total'' s then 12
      else if prefix ''state:supply:burned'' s then 13
      else if prefix ''state:log-index:version'' s then 14
      else if prefix ''log:index:location:'' s then 15
      else if prefix ''log:index:address:'' s then 16
      else if prefix ''log:index:topic:'' s then 17
      else if prefix ''orphan:block:'' s then 18
      else if prefix ''candidate:block:'' s then 19
      else if prefix ''candidate:work:'' s then 20
      else if prefix ''candidate:quarantine:'' s then 21
      else if prefix ''recovery:hash:'' s then 22
      else 23)"

lemma kind_of_key: "hex_text_spec e \<Longrightarrow> kind_of (key_text e k) = key_kind k"
  by (cases k; simp add: kind_of_def hex_not_hash)

lemma key_text_inj:
  assumes "hex_text_spec e"
  shows "key_text e k = key_text e j \<longleftrightarrow> k = j"
proof
  assume eq: "key_text e k = key_text e j"
  then have kind: "key_kind k = key_kind j" using kind_of_key [OF assms] by metis
  note hex = hex_append_eq_iff [OF assms] hex_append_eq_iff [OF assms, of _ "[]" _ "[]", simplified]
  note dec = dec_colon_eq_iff [of _ "''block''" _ "''block''", simplified] dec_colon_eq_iff [of _ "''work''" _ "''work''", simplified]
    dec_colon_eq_iff [of _ "''block''" _ "''work''", simplified] dec_colon_eq_iff [of _ "''work''" _ "''block''", simplified]
  show "k = j"
    by (cases k; cases j; use kind in \<open>simp only: key_kind.simps, simp?\<close>; use eq in \<open>simp add: hex pad20_inj dec_string_unat_inj dec\<close>)
qed simp

lemma key_bytes_inj [simp]: "hex_text_spec e \<Longrightarrow> key_bytes e k = key_bytes e j \<longleftrightarrow> k = j"
  by (simp add: key_bytes_def as_bytes_inj key_text_inj)

lemma prefix_as_bytes: "prefix (as_bytes s) (as_bytes t) \<longleftrightarrow> prefix s t"
proof
  assume "prefix (as_bytes s) (as_bytes t)"
  then have "take (length s) (as_bytes t) = as_bytes s" by (auto simp: prefix_def)
  then have "as_bytes (take (length s) t) = as_bytes s" by (simp add: as_bytes_def take_map)
  then have "take (length s) t = s" by (simp only: as_bytes_inj)
  then show "prefix s t" by (metis take_is_prefix)
qed (auto simp: prefix_def)

lemma prefix_header [simp]: "prefix (as_bytes ''header:number:'') (key_bytes e k) \<longleftrightarrow> (\<exists>n. k = HeaderAt n)"
  by (cases k) (simp_all add: key_bytes_def prefix_as_bytes)

lemma prefix_block [simp]: "prefix (as_bytes ''block:number:'') (key_bytes e k) \<longleftrightarrow> (\<exists>n. k = BlockAt n)"
  by (cases k) (simp_all add: key_bytes_def prefix_as_bytes)

lemma prefix_balance [simp]: "prefix (as_bytes ''account:balance:'') (key_bytes e k) \<longleftrightarrow> (\<exists>a. k = BalanceOf a)"
  by (cases k) (simp_all add: key_bytes_def prefix_as_bytes)

lemma prefix_nonce [simp]: "prefix (as_bytes ''account:nonce:'') (key_bytes e k) \<longleftrightarrow> (\<exists>a. k = NonceOf a)"
  by (cases k) (simp_all add: key_bytes_def prefix_as_bytes)

lemma prefix_code [simp]: "prefix (as_bytes ''account:code:'') (key_bytes e k) \<longleftrightarrow> (\<exists>a. k = CodeOf a)"
  by (cases k) (simp_all add: key_bytes_def prefix_as_bytes)

lemma prefix_storage [simp]: "prefix (as_bytes ''account:storage:'') (key_bytes e k) \<longleftrightarrow> (\<exists>a h. k = StorageOf a h)"
  by (cases k) (simp_all add: key_bytes_def prefix_as_bytes)

lemma prefix_account [simp]: "prefix (as_bytes ''account:'') (key_bytes e k) \<longleftrightarrow>
    (\<exists>a. k = BalanceOf a) \<or> (\<exists>a. k = NonceOf a) \<or> (\<exists>a. k = CodeOf a) \<or> (\<exists>a h. k = StorageOf a h)"
  by (cases k) (simp_all add: key_bytes_def prefix_as_bytes)

lemma prefix_snapshot [simp]: "prefix (as_bytes EVM_SNAPSHOT_PREFIX) (key_bytes e k) \<longleftrightarrow> (\<exists>n. k = EvmSnapshotAt n)"
  by (cases k) (simp_all add: key_bytes_def prefix_as_bytes EVM_SNAPSHOT_PREFIX_def)

lemma prefix_orphan [simp]: "prefix (as_bytes ''orphan:block:'') (key_bytes e k) \<longleftrightarrow> (\<exists>h. k = OrphanOf h)"
  by (cases k) (simp_all add: key_bytes_def prefix_as_bytes)

lemma prefix_candidate_block [simp]: "prefix (as_bytes ''candidate:block:'') (key_bytes e k) \<longleftrightarrow> (\<exists>h. k = CandidateOf h)"
  by (cases k) (simp_all add: key_bytes_def prefix_as_bytes)

lemma prefix_log [simp]: "prefix (as_bytes ''log:index:'') (key_bytes e k) \<longleftrightarrow>
    (\<exists>l. k = LogAt l) \<or> (\<exists>a l. k = LogByAddress a l) \<or> (\<exists>h l. k = LogByTopic h l)"
  by (cases k) (simp_all add: key_bytes_def prefix_as_bytes)

section \<open>Reading back what was written\<close>

lemma strip_prefix_append [simp]: "strip_prefix_bytes p (p @ s) = Some s"
  by (simp add: strip_prefix_bytes_def)

lemma parse_address_hex: "hex_text_spec e \<Longrightarrow> parse_address e (x_hex_encode e (arr_bytes a)) = Inr a"
  using hex_spec_def [of e]
  by (simp add: parse_address_def address_from_hex_def hex_text_spec_def strip_0x_no_x)

lemma hash_from_hex_encode: "hex_text_spec e \<Longrightarrow> hash_from_hex e (x_hex_encode e (arr_bytes h)) = Inr h"
  using hash_hex_roundtrip [of e h] by (simp add: hex_text_spec_def hash_to_hex_def)

lemma utf8_text_hex: "hex_text_spec e \<Longrightarrow> utf8_text (as_bytes (x_hex_encode e bs)) = Inr (x_hex_encode e bs)"
  by (simp add: utf8_text_def from_utf8_ascii ascii_hex)

lemma address_from_keys:
  assumes "hex_text_spec e"
  shows "address_from_balance_key e (key_bytes e (BalanceOf a)) = Inr a"
    "address_from_nonce_key e (key_bytes e (NonceOf a)) = Inr a"
    "address_from_code_key e (key_bytes e (CodeOf a)) = Inr a"
  unfolding address_from_balance_key_def address_from_nonce_key_def address_from_code_key_def key_suffix_def key_bytes_def key_text.simps
  by (simp_all only: as_bytes_append strip_prefix_append res_of_option.simps res_bind.simps utf8_text_hex [OF assms] parse_address_hex [OF assms])

lemma address_from_storage_key_ok:
  assumes "hex_text_spec e"
  shows "address_from_storage_key e (key_bytes e (StorageOf a h)) = Inr (a, h)"
proof -
  let ?a = "as_bytes (x_hex_encode e (arr_bytes a))" and ?h = "as_bytes (x_hex_encode e (arr_bytes h))"
  have no: "0x3A \<notin> set ?a" by (rule hex_no_colon [OF assms])
  then have a: "takeWhile (\<lambda>b. b \<noteq> 0x3A) (?a @ 0x3A # ?h) = ?a"
    by (subst takeWhile_append2) auto
  have "key_bytes e (StorageOf a h) = as_bytes ''account:storage:'' @ ?a @ 0x3A # ?h"
    unfolding key_bytes_def key_text.simps by (simp only: as_bytes_append) (simp add: as_bytes_def)
  then show ?thesis
    by (simp only: address_from_storage_key_def key_suffix_def strip_prefix_append res_of_option.simps res_bind.simps)
      (simp add: ensure_def a utf8_text_hex [OF assms] parse_address_hex [OF assms] hash_from_hex_encode [OF assms])
qed

lemma number_from_block_key_ok: "number_from_block_key (key_bytes e (BlockAt n)) = Some n"
proof -
  have "ascii ''block:number:''" by (simp add: ascii_def as_bytes_def)
  then have "ascii (''block:number:'' @ pad20 n)" using ascii_pad20 by (simp only: ascii_append)
  then have "from_utf8 (key_bytes e (BlockAt n)) = Some (''block:number:'' @ pad20 n)"
    unfolding key_bytes_def key_text.simps by (rule from_utf8_ascii)
  then show ?thesis by (simp add: number_from_block_key_def parse_pad20)
qed

lemma values_ok [simp]:
  "u128_from_slice (to_be_bytes (x :: u128)) = Inr x" "u64_from_slice msg (to_be_bytes (y :: u64)) = Inr y"
  "hash_from_bytes (arr_bytes h) = Inr h"
  by (simp_all add: u128_from_slice_def u64_from_slice_def hash_from_bytes_def)

lemma log_block_number_ok: "log_block_number (arr_bytes (log_index_bytes n i j)) = Inr n"
  by (simp add: log_block_number_def log_index_bytes_def)

end
