(* ===== verification/Sled.thy ===== *)
theory Sled
  imports Db_Keys
begin

text \<open>
  \<open>crates/blq-storage/src/lib.rs\<close>, the operations of \<open>SledStorage\<close> on the database: accounts, contract
  state, blocks, receipts and log indexes, orphans, candidates and the recovery spool.  Each operation
  is a program over the elementary operations of \<open>Db\<close>, in the order in which the code performs
  them; a \<open>?\<close> of the code is a bind.
\<close>

section \<open>Flushing\<close>

definition flush_db :: "'d backend \<Rightarrow> ('d, unit) db" where
  "flush_db k s = (if sl_defer_flush s then (Inr (), s) else db_flush k s)"

definition begin_batch :: "('d, unit) db" where
  "begin_batch s = (Inr (), s\<lparr>sl_defer_flush := True\<rparr>)"

definition flush_batch :: "'d backend \<Rightarrow> ('d, unit) db" where
  "flush_batch k = db_flush k"

definition end_batch :: "'d backend \<Rightarrow> ('d, unit) db" where
  "end_batch k = sm_seq (flush_batch k) (\<lambda>s. (Inr (), s\<lparr>sl_defer_flush := False\<rparr>))"

definition json :: "string + 'a \<Rightarrow> ('d, 'a) db" where
  "json r = sm_lift (res_map_err Serialization r)"

section \<open>Accounts\<close>

definition has_persisted_native_accounts :: "'d backend \<Rightarrow> ('d, bool) db" where
  "has_persisted_native_accounts k =
     sm_bind (scan_find k (as_bytes ''account:'') (\<lambda>_. sm_ok (Some ()))) (\<lambda>r. sm_ok (r \<noteq> None))"

definition sled_balance :: "'d backend \<Rightarrow> ext \<Rightarrow> address \<Rightarrow> ('d, bix) db" where
  "sled_balance k e a = sm_bind (db_get k (balance_key e a)) (\<lambda>v.
     case v of None \<Rightarrow> sm_ok 0 | Some bs \<Rightarrow> sm_lift (u128_from_slice bs))"

definition sled_nonce :: "'d backend \<Rightarrow> ext \<Rightarrow> address \<Rightarrow> ('d, u64) db" where
  "sled_nonce k e a = sm_bind (db_get k (nonce_key e a)) (\<lambda>v.
     case v of None \<Rightarrow> sm_ok 0 | Some bs \<Rightarrow> sm_lift (u64_from_slice ''invalid nonce value'' bs))"

definition sled_put_account :: "'d backend \<Rightarrow> ext \<Rightarrow> address \<Rightarrow> bix \<Rightarrow> u64 \<Rightarrow> ('d, unit) db" where
  "sled_put_account k e a balance nonce =
     sm_seq (db_insert k (balance_key e a) (to_be_bytes balance))
    (sm_seq (db_insert k (nonce_key e a) (to_be_bytes nonce))
     (flush_db k))"

definition credit_balance :: "'d backend \<Rightarrow> ext \<Rightarrow> address \<Rightarrow> bix \<Rightarrow> ('d, unit) db" where
  "credit_balance k e a amount =
     (if amount = 0 then sm_ok ()
      else sm_bind (sled_balance k e a) (\<lambda>balance.
           sm_bind (sled_nonce k e a) (\<lambda>nonce.
           sled_put_account k e a (saturating_add balance amount) nonce)))"

definition fm_entry :: "('k, 'v) fmap \<Rightarrow> 'k \<Rightarrow> 'v \<Rightarrow> 'v" where
  "fm_entry m key x = (case fmlookup m key of None \<Rightarrow> x | Some v \<Rightarrow> v)"

definition account_snapshot :: "'d backend \<Rightarrow> ext \<Rightarrow> ('d, native_accounts) db" where
  "account_snapshot k e =
     sm_bind (scan_fold k (as_bytes ''account:balance:'') (\<lambda>(key, v) accounts.
       sm_bind (sm_lift (address_from_balance_key e key)) (\<lambda>a.
       sm_bind (sm_lift (u128_from_slice v)) (\<lambda>balance.
       sm_ok (fmupd a (balance, snd (fm_entry accounts a (0, 0))) accounts)))) fmempty)
     (scan_fold k (as_bytes ''account:nonce:'') (\<lambda>(key, v) accounts.
       sm_bind (sm_lift (address_from_nonce_key e key)) (\<lambda>a.
       sm_bind (sm_lift (u64_from_slice ''invalid nonce value'' v)) (\<lambda>nonce.
       sm_ok (fmupd a (fst (fm_entry accounts a (0, 0)), nonce) accounts)))))"

definition sled_state_root :: "'d backend \<Rightarrow> ext \<Rightarrow> ('d, hash256) db" where
  "sled_state_root k e = sm_bind (account_snapshot k e) (\<lambda>m. sm_lift (state_root_from_accounts e m))"

definition projected_credit_state_root :: "'d backend \<Rightarrow> ext \<Rightarrow> address \<Rightarrow> bix \<Rightarrow> ('d, hash256) db" where
  "projected_credit_state_root k e a amount =
     sm_bind (account_snapshot k e) (\<lambda>m.
       sm_lift (state_root_from_accounts e
         (if 0 < amount then
            (case fm_entry m a (0, 0) of (balance, nonce) \<Rightarrow> fmupd a (saturating_add balance amount, nonce) m)
          else m)))"

section \<open>Counters\<close>

definition reward_indexed_to :: "'d backend \<Rightarrow> ('d, u64) db" where
  "reward_indexed_to k = sm_bind (db_get k (as_bytes ''state:rewards:indexed_to'')) (\<lambda>v.
     case v of None \<Rightarrow> sm_ok 0 | Some bs \<Rightarrow> sm_lift (u64_from_slice ''invalid reward index'' bs))"

definition set_reward_indexed_to :: "'d backend \<Rightarrow> u64 \<Rightarrow> ('d, unit) db" where
  "set_reward_indexed_to k n =
     sm_seq (db_insert k (as_bytes ''state:rewards:indexed_to'') (to_be_bytes n)) (flush_db k)"

definition supply_totals :: "'d backend \<Rightarrow> ('d, u64 \<times> u128 \<times> u128) db" where
  "supply_totals k =
     sm_bind (db_get k (as_bytes ''state:supply:indexed_to'')) (\<lambda>i.
     sm_bind (case i of None \<Rightarrow> sm_ok 0 | Some bs \<Rightarrow> sm_lift (u64_from_slice ''invalid supply index'' bs)) (\<lambda>indexed_to.
     sm_bind (db_get k (as_bytes ''state:supply:total'')) (\<lambda>t.
     sm_bind (case t of None \<Rightarrow> sm_ok 0 | Some bs \<Rightarrow> sm_lift (u128_from_slice bs)) (\<lambda>total_supply.
     sm_bind (db_get k (as_bytes ''state:supply:burned'')) (\<lambda>b.
     sm_bind (case b of None \<Rightarrow> sm_ok 0 | Some bs \<Rightarrow> sm_lift (u128_from_slice bs)) (\<lambda>burned.
     sm_ok (indexed_to, total_supply, burned)))))))"

definition set_supply_totals :: "'d backend \<Rightarrow> u64 \<Rightarrow> u128 \<Rightarrow> u128 \<Rightarrow> ('d, unit) db" where
  "set_supply_totals k indexed_to total_supply burned =
     sm_seq (db_insert k (as_bytes ''state:supply:indexed_to'') (to_be_bytes indexed_to))
    (sm_seq (db_insert k (as_bytes ''state:supply:total'') (to_be_bytes total_supply))
    (sm_seq (db_insert k (as_bytes ''state:supply:burned'') (to_be_bytes burned))
     (db_flush k)))"

section \<open>Contract state\<close>

definition evm_code :: "'d backend \<Rightarrow> ext \<Rightarrow> address \<Rightarrow> ('d, bytes) db" where
  "evm_code k e a = sm_bind (db_get k (code_key e a)) (\<lambda>v. sm_ok (case v of None \<Rightarrow> [] | Some bs \<Rightarrow> bs))"

definition evm_storage_at :: "'d backend \<Rightarrow> ext \<Rightarrow> address \<Rightarrow> hash256 \<Rightarrow> ('d, hash256) db" where
  "evm_storage_at k e a slot = sm_bind (db_get k (storage_key e a slot)) (\<lambda>v.
     case v of None \<Rightarrow> sm_ok ZERO_HASH | Some bs \<Rightarrow> sm_lift (hash_from_bytes bs))"

definition evm_empty :: evm_account_snapshot where
  "evm_empty = (0, 0, [], fmempty)"

definition sled_evm_account_snapshot :: "'d backend \<Rightarrow> ext \<Rightarrow> ('d, evm_state_snapshot) db" where
  "sled_evm_account_snapshot k e =
     sm_bind (account_snapshot k e) (\<lambda>native.
     sm_bind (scan_fold k (as_bytes ''account:code:'') (\<lambda>(key, v) accounts.
       sm_bind (sm_lift (address_from_code_key e key)) (\<lambda>a.
       case fm_entry accounts a evm_empty of (balance, nonce, _, slots) \<Rightarrow>
       sm_ok (fmupd a (balance, nonce, v, slots) accounts)))
       (fmmap (\<lambda>(balance, nonce). (balance, nonce, [], fmempty)) native)) (\<lambda>accounts.
     scan_fold k (as_bytes ''account:storage:'') (\<lambda>(key, v) accounts.
       sm_bind (sm_lift (address_from_storage_key e key)) (\<lambda>(a, slot).
       sm_bind (sm_lift (hash_from_bytes v)) (\<lambda>x.
       case fm_entry accounts a evm_empty of (balance, nonce, code, slots) \<Rightarrow>
       sm_ok (fmupd a (balance, nonce, code, fmupd slot x slots) accounts))))
       accounts))"

definition put_evm_account ::
  "'d backend \<Rightarrow> ext \<Rightarrow> address \<Rightarrow> bix \<Rightarrow> u64 \<Rightarrow> bytes \<Rightarrow> (hash256, hash256) fmap \<Rightarrow> ('d, unit) db" where
  "put_evm_account k e a balance nonce code slots =
     sm_seq (sled_put_account k e a balance nonce)
    (sm_seq (if code = [] then db_remove k (code_key e a) else db_insert k (code_key e a) code)
    (sm_bind (scan_fold k (as_bytes ''account:storage:'') (\<lambda>(key, v) existing.
       sm_bind (sm_lift (address_from_storage_key e key)) (\<lambda>(stored_address, slot).
       sm_ok (if stored_address = a then existing @ [(key, slot)] else existing))) []) (\<lambda>existing.
     sm_seq (sm_for (\<lambda>(key, slot). if fmlookup slots slot = None then db_remove k key else sm_ok ()) existing)
    (sm_seq (sm_for (\<lambda>(slot, v).
       if v = ZERO_HASH then db_remove k (storage_key e a slot)
       else db_insert k (storage_key e a slot) (arr_bytes v)) (fm_entries slots))
     (db_flush k)))))"

definition snapshot_entries :: "evm_state_snapshot \<Rightarrow> serialized_evm_snapshot_entry list" where
  "snapshot_entries m =
     map (\<lambda>(a, balance, nonce, code, slots). (a, balance, nonce, code, fm_entries slots)) (fm_entries m)"

definition collect_map :: "('k \<times> 'v) list \<Rightarrow> ('k, 'v) fmap" where
  "collect_map xs = fold (\<lambda>(key, v). fmupd key v) xs fmempty"

definition snapshot_of_entries :: "serialized_evm_snapshot_entry list \<Rightarrow> evm_state_snapshot" where
  "snapshot_of_entries xs =
     collect_map (map (\<lambda>(a, balance, nonce, code, slots). (a, balance, nonce, code, collect_map slots)) xs)"

definition put_evm_state_snapshot :: "'d backend \<Rightarrow> u64 \<Rightarrow> evm_state_snapshot \<Rightarrow> ('d, unit) db" where
  "put_evm_state_snapshot k n snapshot =
     sm_bind (json (js_snapshot k (snapshot_entries snapshot))) (\<lambda>v.
     sm_seq (db_insert k (evm_snapshot_key n) v) (db_flush k))"

definition sled_evm_state_snapshot :: "'d backend \<Rightarrow> u64 \<Rightarrow> ('d, evm_state_snapshot option) db" where
  "sled_evm_state_snapshot k n =
     sm_bind (db_get k (evm_snapshot_key n)) (\<lambda>v.
     case v of None \<Rightarrow> sm_ok None
     | Some bs \<Rightarrow> sm_bind (json (js_snapshot_of k bs)) (\<lambda>xs. sm_ok (Some (snapshot_of_entries xs))))"

definition number_from_snapshot_key :: "bytes \<Rightarrow> storage_error + u64" where
  "number_from_snapshot_key key =
     res_bind (utf8_text key) (\<lambda>text.
     res_bind (ensure (prefix EVM_SNAPSHOT_PREFIX text) (Serialization ''invalid EVM snapshot key'')) (\<lambda>_.
     res_of_option (Serialization ''invalid digit found in string'') (parse_u64 (drop (length EVM_SNAPSHOT_PREFIX) text))))"

definition evm_state_snapshot_at_or_before ::
  "'d backend \<Rightarrow> u64 \<Rightarrow> ('d, (u64 \<times> evm_state_snapshot) option) db" where
  "evm_state_snapshot_at_or_before k n =
     scan_fold k (as_bytes EVM_SNAPSHOT_PREFIX) (\<lambda>(key, v) best.
       sm_bind (sm_lift (number_from_snapshot_key key)) (\<lambda>snapshot_number.
       if n < snapshot_number then sm_ok best
       else sm_bind (json (js_snapshot_of k v)) (\<lambda>xs.
         sm_ok (if (case best of None \<Rightarrow> True | Some (best_number, _) \<Rightarrow> best_number < snapshot_number)
                then Some (snapshot_number, snapshot_of_entries xs) else best)))) None"

section \<open>Blocks, transactions and receipts\<close>

definition index_log :: "'d backend \<Rightarrow> ext \<Rightarrow> log_location \<Rightarrow> log_entry \<Rightarrow> ('d, unit) db" where
  "index_log k e location l =
     sm_seq (db_insert k (log_location_key e location) (arr_bytes location))
    (sm_seq (db_insert k (log_address_key e (log_address l) location) (arr_bytes location))
     (sm_for (\<lambda>topic. db_insert k (log_topic_key e topic location) (arr_bytes location)) (log_topics l)))"

definition index_block_logs :: "'d backend \<Rightarrow> ext \<Rightarrow> block \<Rightarrow> ('d, unit) db" where
  "index_block_logs k e b =
     sm_for (\<lambda>(i, receipt). sm_for (\<lambda>(j, l). index_log k e (log_index_bytes (h_number (b_header b)) i j) l)
       (enumerate 0 (rc_logs receipt))) (enumerate 0 (b_receipts b))"

definition put_header :: "'d backend \<Rightarrow> block_header \<Rightarrow> ('d, unit) db" where
  "put_header k h =
     sm_bind (json (js_header k h)) (\<lambda>v.
     sm_seq (db_insert k (header_key (h_number h)) v)
    (sm_seq (db_insert k (as_bytes ''best:number'') (to_be_bytes (h_number h)))
     (flush_db k)))"

definition get_best_number :: "'d backend \<Rightarrow> ('d, u64) db" where
  "get_best_number k =
     sm_bind (db_get k (as_bytes ''best:number'')) (\<lambda>v.
     sm_bind (sm_lift (res_of_option NotFound v)) (\<lambda>bs.
     sm_lift (u64_from_slice ''invalid best number'' bs)))"

definition sled_is_empty :: "'d backend \<Rightarrow> 'd sled_storage \<Rightarrow> bool" where
  "sled_is_empty k s \<longleftrightarrow> \<not> is_ok (fst (get_best_number k s))"

text \<open>A missing receipt is an index out of range.\<close>

definition stored_receipt_of :: "block \<Rightarrow> nat \<Rightarrow> transaction \<Rightarrow> storage_error + stored_receipt" where
  "stored_receipt_of b i t =
     (if i < length (b_receipts b)
      then Inr \<lparr>sr_receipt = b_receipts b ! i, sr_header = b_header b, sr_transaction_index = i, sr_transaction = t\<rparr>
      else Inl Panic)"

definition insert_transaction :: "'d backend \<Rightarrow> ext \<Rightarrow> block \<Rightarrow> nat \<times> transaction \<Rightarrow> ('d, unit) db" where
  "insert_transaction k e b = (\<lambda>(i, t).
     sm_bind (json (js_transaction k t)) (\<lambda>v.
     sm_seq (db_insert k (transaction_key e (transaction_hash e t)) v)
    (sm_seq (case tx_external_hash t of
        None \<Rightarrow> sm_ok ()
      | Some h \<Rightarrow> sm_bind (json (js_transaction k t)) (\<lambda>v. db_insert k (transaction_key e h) v))
    (sm_bind (sm_lift (stored_receipt_of b i t)) (\<lambda>r.
     sm_bind (json (js_receipt k r)) (\<lambda>stored.
     sm_seq (db_insert k (receipt_key e (rpc_hash e t)) stored)
     (db_insert k (receipt_key e (transaction_hash e t)) stored)))))))"

definition sled_insert_header :: "'d backend \<Rightarrow> block_header \<Rightarrow> ('d, unit) db" where
  "sled_insert_header k h = put_header k h"

definition sled_insert_block :: "'d backend \<Rightarrow> ext \<Rightarrow> block \<Rightarrow> ('d, unit) db" where
  "sled_insert_block k e b =
     sm_bind (json (js_block k b)) (\<lambda>v.
     sm_seq (db_insert k (block_key (h_number (b_header b))) v)
    (sm_seq (sm_for (insert_transaction k e b) (enumerate 0 (b_transactions b)))
    (sm_seq (index_block_logs k e b)
    (sm_seq (put_header k (b_header b))
     (flush_db k)))))"

definition sled_header_by_number :: "'d backend \<Rightarrow> u64 \<Rightarrow> ('d, block_header) db" where
  "sled_header_by_number k n =
     sm_bind (db_get k (header_key n)) (\<lambda>v.
     sm_bind (sm_lift (res_of_option NotFound v)) (\<lambda>bs. json (js_header_of k bs)))"

definition sled_best_header :: "'d backend \<Rightarrow> ('d, block_header) db" where
  "sled_best_header k = sm_bind (get_best_number k) (sled_header_by_number k)"

definition sled_block_by_number :: "'d backend \<Rightarrow> u64 \<Rightarrow> ('d, block) db" where
  "sled_block_by_number k n =
     sm_bind (db_get k (block_key n)) (\<lambda>v.
     sm_bind (sm_lift (res_of_option NotFound v)) (\<lambda>bs. json (js_block_of k bs)))"

definition candidate_block_by_hash :: "'d backend \<Rightarrow> ext \<Rightarrow> hash256 \<Rightarrow> ('d, block) db" where
  "candidate_block_by_hash k e h =
     sm_bind (db_get k (candidate_block_key e h)) (\<lambda>v.
     sm_bind (sm_lift (res_of_option NotFound v)) (\<lambda>bs. json (js_block_of k bs)))"

definition sled_header_by_hash :: "'d backend \<Rightarrow> ext \<Rightarrow> hash256 \<Rightarrow> ('d, block_header) db" where
  "sled_header_by_hash k e h =
     sm_bind (scan_find k (as_bytes ''header:number:'') (\<lambda>(key, v).
       sm_bind (json (js_header_of k v)) (\<lambda>header.
       sm_ok (if header_hash e header = h then Some header else None)))) (\<lambda>r.
     case r of
       Some header \<Rightarrow> sm_ok header
     | None \<Rightarrow> sm_bind (candidate_block_by_hash k e h) (\<lambda>b. sm_ok (b_header b)))"

definition transaction_by_hash :: "'d backend \<Rightarrow> ext \<Rightarrow> hash256 \<Rightarrow> ('d, transaction) db" where
  "transaction_by_hash k e h =
     sm_bind (db_get k (transaction_key e h)) (\<lambda>v.
     sm_bind (sm_lift (res_of_option NotFound v)) (\<lambda>bs. json (js_transaction_of k bs)))"

definition indexed_transaction_receipt_by_hash ::
  "'d backend \<Rightarrow> ext \<Rightarrow> hash256 \<Rightarrow> ('d, receipt \<times> block_header \<times> nat \<times> transaction) db" where
  "indexed_transaction_receipt_by_hash k e h =
     sm_bind (db_get k (receipt_key e h)) (\<lambda>v.
     case v of
       Some bs \<Rightarrow> sm_bind (json (js_receipt_of k bs)) (\<lambda>r.
         sm_ok (sr_receipt r, sr_header r, sr_transaction_index r, sr_transaction r))
     | None \<Rightarrow> sm_err NotFound)"

definition catch_not_found :: "('d, 'a) db \<Rightarrow> ('d, 'a) db \<Rightarrow> ('d, 'a) db" where
  "catch_not_found m n s = (case m s of (Inl NotFound, t) \<Rightarrow> n t | r \<Rightarrow> r)"

definition transaction_receipt_by_hash ::
  "'d backend \<Rightarrow> ext \<Rightarrow> hash256 \<Rightarrow> ('d, receipt \<times> block_header \<times> nat \<times> transaction) db" where
  "transaction_receipt_by_hash k e h =
     catch_not_found (indexed_transaction_receipt_by_hash k e h)
       (sm_bind (scan_find k (as_bytes ''block:number:'') (\<lambda>(key, v).
          sm_bind (json (js_block_of k v)) (\<lambda>b.
          case List.find (\<lambda>(i, t). rpc_hash e t = h \<or> transaction_hash e t = h) (enumerate 0 (b_transactions b)) of
            None \<Rightarrow> sm_ok None
          | Some (i, t) \<Rightarrow> sm_bind (sm_lift (stored_receipt_of b i t)) (\<lambda>r.
              sm_ok (Some (sr_receipt r, b_header b, i, t)))))) (\<lambda>r.
        case r of Some x \<Rightarrow> sm_ok x | None \<Rightarrow> sm_err NotFound))"

definition sled_headers_after :: "'d backend \<Rightarrow> u64 \<Rightarrow> nat \<Rightarrow> ('d, block_header list) db" where
  "sled_headers_after k n limit =
     sm_bind (scan_fold k (as_bytes ''header:number:'') (\<lambda>(key, v) headers.
       sm_bind (json (js_header_of k v)) (\<lambda>header.
       sm_ok (if n < h_number header then headers @ [header] else headers))) []) (\<lambda>headers.
     sm_ok (take limit (sort_by (\<lambda>a b. h_number a \<le> h_number b) headers)))"

definition canonical_blocks :: "'d backend \<Rightarrow> ('d, block list) db" where
  "canonical_blocks k =
     sm_bind (scan_fold k (as_bytes ''block:number:'') (\<lambda>(key, v) blocks.
       sm_bind (json (js_block_of k v)) (\<lambda>b. sm_ok (blocks @ [b]))) []) (\<lambda>blocks.
     sm_ok (sort_by (\<lambda>a b. h_number (b_header a) \<le> h_number (b_header b)) blocks))"

definition block_by_hash :: "'d backend \<Rightarrow> ext \<Rightarrow> hash256 \<Rightarrow> ('d, block) db" where
  "block_by_hash k e h =
     sm_bind (canonical_blocks k) (\<lambda>blocks.
     case List.find (\<lambda>b. header_hash e (b_header b) = h) blocks of
       Some b \<Rightarrow> sm_ok b
     | None \<Rightarrow> candidate_block_by_hash k e h)"

section \<open>Batches of whole blocks\<close>

type_synonym batch = "(bytes \<times> bytes option) list"

definition batch_json :: "string + bytes \<Rightarrow> storage_error + bytes" where
  "batch_json r = res_map_err Serialization r"

definition transaction_batch :: "'d backend \<Rightarrow> ext \<Rightarrow> block \<Rightarrow> nat \<times> transaction \<Rightarrow> storage_error + batch" where
  "transaction_batch k e b = (\<lambda>(i, t).
     res_bind (batch_json (js_transaction k t)) (\<lambda>v.
     res_bind (stored_receipt_of b i t) (\<lambda>r.
     res_bind (batch_json (js_receipt k r)) (\<lambda>stored.
     Inr ([(transaction_key e (transaction_hash e t), Some v)] @
          (case tx_external_hash t of None \<Rightarrow> [] | Some h \<Rightarrow> [(transaction_key e h, Some v)]) @
          [(receipt_key e (rpc_hash e t), Some stored), (receipt_key e (transaction_hash e t), Some stored)])))))"

definition log_batch :: "ext \<Rightarrow> block \<Rightarrow> batch" where
  "log_batch e b =
     concat (map (\<lambda>(i, receipt). concat (map (\<lambda>(j, l).
       let location = log_index_bytes (h_number (b_header b)) i j in
       [(log_location_key e location, Some (arr_bytes location)),
        (log_address_key e (log_address l) location, Some (arr_bytes location))] @
       map (\<lambda>topic. (log_topic_key e topic location, Some (arr_bytes location))) (log_topics l))
       (enumerate 0 (rc_logs receipt)))) (enumerate 0 (b_receipts b)))"

definition insert_block_into_batch :: "'d backend \<Rightarrow> ext \<Rightarrow> block \<Rightarrow> batch \<Rightarrow> storage_error + batch" where
  "insert_block_into_batch k e b batch =
     res_bind (batch_json (js_block k b)) (\<lambda>block_value.
     res_bind (batch_json (js_header k (b_header b))) (\<lambda>header_value.
     res_bind (res_fold (\<lambda>it acc. res_bind (transaction_batch k e b it) (\<lambda>ops. Inr (acc @ ops)))
       (enumerate 0 (b_transactions b))
       (batch @ [(block_key (h_number (b_header b)), Some block_value),
                 (header_key (h_number (b_header b)), Some header_value)])) (\<lambda>batch.
     Inr (batch @ log_batch e b))))"

definition remove_block_from_batch :: "ext \<Rightarrow> block \<Rightarrow> batch \<Rightarrow> batch" where
  "remove_block_from_batch e b batch =
     batch @ [(block_key (h_number (b_header b)), None), (header_key (h_number (b_header b)), None)] @
     concat (map (\<lambda>t. [(transaction_key e (transaction_hash e t), None)] @
       (case tx_external_hash t of None \<Rightarrow> [] | Some h \<Rightarrow> [(transaction_key e h, None)]) @
       [(receipt_key e (rpc_hash e t), None), (receipt_key e (transaction_hash e t), None)]) (b_transactions b))"

section \<open>Log indexes\<close>

definition collect_indexed_log_numbers ::
  "'d backend \<Rightarrow> bytes \<Rightarrow> u64 \<Rightarrow> u64 \<Rightarrow> u64 fset \<Rightarrow> ('d, u64 fset) db" where
  "collect_indexed_log_numbers k p lo hi numbers =
     scan_fold k p (\<lambda>(key, v) numbers.
       sm_bind (sm_lift (log_block_number v)) (\<lambda>number.
       sm_ok (if lo \<le> number \<and> number \<le> hi then finsert number numbers else numbers))) numbers"

definition indexed_log_block_numbers ::
  "'d backend \<Rightarrow> ext \<Rightarrow> u64 \<Rightarrow> u64 \<Rightarrow> address list option \<Rightarrow> hash256 list option \<Rightarrow> ('d, u64 fset) db" where
  "indexed_log_block_numbers k e lo hi addresses topics =
     (case addresses of
        Some xs \<Rightarrow> sm_fold (\<lambda>a. collect_indexed_log_numbers k (log_address_prefix e a) lo hi) xs {||}
      | None \<Rightarrow>
          (case topics of
             Some ts \<Rightarrow> sm_fold (\<lambda>t. collect_indexed_log_numbers k (log_topic_prefix e t) lo hi) ts {||}
           | None \<Rightarrow> collect_indexed_log_numbers k (as_bytes ''log:index:location:'') lo hi {||}))"

text \<open>Entries that fail to read, or whose value is no location, are skipped here.\<close>

definition remove_log_indexes_for_block :: "'d backend \<Rightarrow> u64 \<Rightarrow> ('d, unit) db" where
  "remove_log_indexes_for_block k number =
     sm_bind (db_scan k (as_bytes ''log:index:'')) (\<lambda>items.
     sm_for (db_remove k) (List.map_filter (\<lambda>item. case item of
         Inl _ \<Rightarrow> None
       | Inr (key, v) \<Rightarrow> (case log_block_number v of
           Inr n \<Rightarrow> if n = number then Some key else None
         | Inl _ \<Rightarrow> None)) items))"

definition rebuild_log_index :: "'d backend \<Rightarrow> ext \<Rightarrow> ('d, unit) db" where
  "rebuild_log_index k e =
     sm_bind (db_contains k LOG_INDEX_VERSION) (\<lambda>present.
     if present then sm_ok ()
     else sm_bind (catch_not_found (sm_bind (get_best_number k) (\<lambda>n. sm_ok (Some n))) (sm_ok None)) (\<lambda>best.
     case best of
       None \<Rightarrow> sm_ok ()
     | Some best_number \<Rightarrow>
         sm_seq (sm_for (\<lambda>n. sm_bind (sled_block_by_number k (of_nat n)) (index_block_logs k e)) [0..<Suc (unat best_number)])
        (sm_seq (db_insert k LOG_INDEX_VERSION [1])
         (db_flush k))))"

definition seed_evm_state_snapshot :: "'d backend \<Rightarrow> ext \<Rightarrow> ('d, unit) db" where
  "seed_evm_state_snapshot k e =
     sm_bind (db_scan k (as_bytes EVM_SNAPSHOT_PREFIX)) (\<lambda>items.
     if items \<noteq> [] then sm_ok ()
     else (\<lambda>s. case get_best_number k s of
        (Inl _, t) \<Rightarrow> (Inr (), t)
      | (Inr n, t) \<Rightarrow> sm_bind (sled_evm_account_snapshot k e) (put_evm_state_snapshot k n) t))"

section \<open>Orphans\<close>

definition MAX_ORPHANS :: nat where "MAX_ORPHANS = 128"
definition MAX_ORPHAN_BYTES :: nat where "MAX_ORPHAN_BYTES = 2 * 1024 * 1024"

definition orphan_blocks :: "'d backend \<Rightarrow> ('d, block list) db" where
  "orphan_blocks k =
     sm_bind (scan_fold k (as_bytes ''orphan:block:'') (\<lambda>(key, v) blocks.
       sm_bind (json (js_block_of k v)) (\<lambda>b. sm_ok (blocks @ [b]))) []) (\<lambda>blocks.
     sm_ok (sort_by (\<lambda>a b. h_number (b_header a) \<le> h_number (b_header b)) blocks))"

definition store_orphan_block :: "'d backend \<Rightarrow> ext \<Rightarrow> block \<Rightarrow> ('d, unit) db" where
  "store_orphan_block k e b =
     sm_bind (json (js_block k b)) (\<lambda>v.
     if MAX_ORPHAN_BYTES < length v then sm_err (Serialization ''orphan block exceeds size limit'')
     else sm_bind (db_scan k (as_bytes ''orphan:block:'')) (\<lambda>items.
       sm_seq (if MAX_ORPHANS \<le> length items then
           sm_bind (orphan_blocks k) (\<lambda>blocks.
           case blocks of
             [] \<Rightarrow> sm_ok ()
           | orphan # _ \<Rightarrow> db_remove k (orphan_key e (header_hash e (b_header orphan))))
         else sm_ok ())
      (sm_seq (db_insert k (orphan_key e (header_hash e (b_header b))) v)
       (db_flush k))))"

definition remove_orphan_block :: "'d backend \<Rightarrow> ext \<Rightarrow> hash256 \<Rightarrow> ('d, unit) db" where
  "remove_orphan_block k e h = sm_seq (db_remove k (orphan_key e h)) (db_flush k)"

definition clear_orphan_blocks :: "'d backend \<Rightarrow> ext \<Rightarrow> ('d, nat) db" where
  "clear_orphan_blocks k e =
     sm_bind (orphan_blocks k) (\<lambda>blocks.
     let hashes = map (\<lambda>b. header_hash e (b_header b)) blocks in
     sm_seq (sm_for (\<lambda>h. db_remove k (orphan_key e h)) hashes)
    (sm_seq (db_flush k)
     (sm_ok (length hashes))))"

section \<open>Candidates\<close>

definition MAX_CANDIDATES :: nat where "MAX_CANDIDATES = 4096"
definition MAX_CANDIDATE_BYTES :: nat where "MAX_CANDIDATE_BYTES = 2 * 1024 * 1024"

definition store_candidate_block_unflushed :: "'d backend \<Rightarrow> ext \<Rightarrow> block \<Rightarrow> u128 \<Rightarrow> ('d, unit) db" where
  "store_candidate_block_unflushed k e b cumulative_work =
     (let h = header_hash e (b_header b) in
     sm_bind (json (js_block k b)) (\<lambda>v.
     if MAX_CANDIDATE_BYTES < length v then sm_err (Serialization ''candidate block exceeds size limit'')
     else sm_bind (db_contains k (candidate_block_key e h)) (\<lambda>already_stored.
       sm_bind (if already_stored then sm_ok False
         else sm_bind (db_scan k (as_bytes ''candidate:block:'')) (\<lambda>items. sm_ok (MAX_CANDIDATES \<le> length items))) (\<lambda>full.
       if full then sm_err (Io ''candidate block pool is full'')
       else sm_seq (db_insert k (candidate_block_key e h) v)
         (db_insert k (candidate_work_key e h) (to_be_bytes cumulative_work))))))"

definition store_candidate_block :: "'d backend \<Rightarrow> ext \<Rightarrow> block \<Rightarrow> u128 \<Rightarrow> ('d, unit) db" where
  "store_candidate_block k e b cumulative_work =
     sm_seq (store_candidate_block_unflushed k e b cumulative_work) (db_flush k)"

definition candidate_work :: "'d backend \<Rightarrow> ext \<Rightarrow> hash256 \<Rightarrow> ('d, u128) db" where
  "candidate_work k e h =
     sm_bind (db_get k (candidate_work_key e h)) (\<lambda>v.
     sm_bind (sm_lift (res_of_option NotFound v)) (\<lambda>bs.
     sm_lift (if length bs = 16 then Inr (from_be_bytes bs) else Inl (Serialization ''invalid candidate work''))))"

definition candidate_blocks_with_work :: "'d backend \<Rightarrow> ext \<Rightarrow> ('d, (block \<times> u128) list) db" where
  "candidate_blocks_with_work k e =
     sm_bind (scan_fold k (as_bytes ''candidate:block:'') (\<lambda>(key, v) blocks.
       sm_bind (json (js_block_of k v)) (\<lambda>b.
       sm_bind (candidate_work k e (header_hash e (b_header b))) (\<lambda>work.
       sm_ok (blocks @ [(b, work)])))) []) (\<lambda>blocks.
     sm_ok (sort_by (\<lambda>(a, wa) (b, wb). h_number (b_header a) < h_number (b_header b) \<or>
       h_number (b_header a) = h_number (b_header b) \<and> wb \<le> wa) blocks))"

definition clear_candidate_blocks :: "'d backend \<Rightarrow> ('d, unit) db" where
  "clear_candidate_blocks k =
     sm_bind (scan_collect k (as_bytes ''candidate:'')) (\<lambda>items.
     sm_seq (sm_for (\<lambda>(key, v). db_remove k key) items) (db_flush k))"

definition remove_candidate_blocks :: "'d backend \<Rightarrow> ext \<Rightarrow> hash256 list \<Rightarrow> ('d, unit) db" where
  "remove_candidate_blocks k e hashes =
     sm_seq (sm_for (\<lambda>h.
        sm_seq (db_remove k (candidate_block_key e h))
       (sm_seq (db_remove k (candidate_work_key e h))
        (db_remove k (candidate_quarantine_key e h)))) hashes)
     (db_flush k)"

definition quarantine_candidate_tip :: "'d backend \<Rightarrow> ext \<Rightarrow> hash256 \<Rightarrow> string \<Rightarrow> ('d, unit) db" where
  "quarantine_candidate_tip k e h reason =
     sm_seq (db_insert k (candidate_quarantine_key e h) (as_bytes reason)) (db_flush k)"

definition candidate_tip_is_quarantined :: "'d backend \<Rightarrow> ext \<Rightarrow> hash256 \<Rightarrow> ('d, bool) db" where
  "candidate_tip_is_quarantined k e h = db_contains k (candidate_quarantine_key e h)"

definition better_candidate_tip :: "ext \<Rightarrow> (block_header \<times> u128) option \<Rightarrow> block_header \<times> u128 \<Rightarrow> bool" where
  "better_candidate_tip e best candidate =
     (case best of
        None \<Rightarrow> True
      | Some (header, current_work) \<Rightarrow>
          current_work < snd candidate \<or>
          snd candidate = current_work \<and> header_hash e (fst candidate) < header_hash e header)"

definition latest_candidate_tip :: "'d backend \<Rightarrow> ext \<Rightarrow> ('d, (block_header \<times> u128) option) db" where
  "latest_candidate_tip k e =
     sm_bind (candidate_blocks_with_work k e) (\<lambda>blocks.
     sm_fold (\<lambda>(b, work) best.
       sm_bind (candidate_tip_is_quarantined k e (header_hash e (b_header b))) (\<lambda>quarantined.
       sm_ok (if quarantined then best
              else if better_candidate_tip e best (b_header b, work) then Some (b_header b, work)
              else best))) blocks None)"

section \<open>The recovery spool\<close>

text \<open>\<open>str::trim_end_matches\<close>\<close>

function trim_end_matches :: "string \<Rightarrow> string \<Rightarrow> string" where
  "trim_end_matches p s =
     (if p \<noteq> [] \<and> suffix p s then trim_end_matches p (take (length s - length p) s) else s)"
  by pat_completeness auto
termination by (relation "measure (\<lambda>(p, s). length s)") (auto simp: suffix_def)

declare trim_end_matches.simps [simp del]

fun split_colon :: "string \<Rightarrow> string list" where
  "split_colon [] = [[]]"
| "split_colon (c # cs) =
     (if c = CHR '':'' then [] # split_colon cs
      else case split_colon cs of [] \<Rightarrow> [[c]] | x # xs \<Rightarrow> (c # x) # xs)"

definition store_recovery_block_unflushed ::
  "'d backend \<Rightarrow> ext \<Rightarrow> hash256 \<Rightarrow> block \<Rightarrow> u128 \<Rightarrow> ('d, unit) db" where
  "store_recovery_block_unflushed k e tip b cumulative_work =
     sm_bind (json (js_block k b)) (\<lambda>v.
     let base = recovery_base e tip (h_number (b_header b)) in
     sm_seq (db_insert k (as_bytes (base @ '':block'')) v)
    (sm_seq (db_insert k (as_bytes (base @ '':work'')) (to_be_bytes cumulative_work))
     (db_insert k (as_bytes (recovery_hash_key e (header_hash e (b_header b)))) (as_bytes base))))"

definition find_and_index_recovery_block ::
  "'d backend \<Rightarrow> ext \<Rightarrow> string \<Rightarrow> hash256 \<Rightarrow> bytes \<Rightarrow> ('d, string) db" where
  "find_and_index_recovery_block k e index_key h p =
     sm_bind (scan_find k p (\<lambda>(key, v).
       if \<not> suffix (as_bytes '':block'') key then sm_ok None
       else sm_bind (json (js_block_of k v)) (\<lambda>b.
         if header_hash e (b_header b) \<noteq> h then sm_ok None
         else sm_bind (sm_lift (utf8_text key)) (\<lambda>text.
           let base = trim_end_matches '':block'' text in
           sm_seq (db_insert k (as_bytes index_key) (as_bytes base)) (sm_ok (Some base)))))) (\<lambda>r.
     case r of Some base \<Rightarrow> sm_ok base | None \<Rightarrow> sm_err NotFound)"

definition recovery_work_of :: "bytes option \<Rightarrow> storage_error + u128" where
  "recovery_work_of v =
     res_bind (res_of_option NotFound v) (\<lambda>bs.
     if length bs = 16 then Inr (from_be_bytes bs) else Inl (Serialization ''invalid recovery work''))"

definition recovery_block_by_hash :: "'d backend \<Rightarrow> ext \<Rightarrow> hash256 \<Rightarrow> ('d, block \<times> u128) db" where
  "recovery_block_by_hash k e h =
     (let index_key = recovery_hash_key e h in
     sm_bind (db_get k (as_bytes index_key)) (\<lambda>indexed.
     sm_bind (case indexed of
         Some bs \<Rightarrow>
           (case from_utf8 bs of
              Some base \<Rightarrow>
                if prefix ''recovery:'' base then sm_ok base
                else sm_bind (sm_lift (res_of_option (Serialization ''invalid recovery hash index'') (arr_try bs))) (\<lambda>tip.
                  find_and_index_recovery_block k e index_key h (as_bytes (recovery_prefix e tip)))
            | None \<Rightarrow>
                sm_bind (sm_lift (res_of_option (Serialization ''invalid recovery hash index'') (arr_try bs))) (\<lambda>tip.
                  find_and_index_recovery_block k e index_key h (as_bytes (recovery_prefix e tip))))
       | None \<Rightarrow> find_and_index_recovery_block k e index_key h (as_bytes ''recovery:'')) (\<lambda>base.
     sm_bind (db_get k (as_bytes (base @ '':block''))) (\<lambda>v.
     sm_bind (sm_lift (res_of_option NotFound v)) (\<lambda>bs.
     sm_bind (json (js_block_of k bs)) (\<lambda>b.
     sm_bind (db_get k (as_bytes (base @ '':work''))) (\<lambda>w.
     sm_bind (sm_lift (recovery_work_of w)) (\<lambda>work.
     sm_ok (b, work)))))))))"

definition recovery_blocks_for_tip :: "'d backend \<Rightarrow> ext \<Rightarrow> hash256 \<Rightarrow> ('d, (block \<times> u128) list) db" where
  "recovery_blocks_for_tip k e tip =
     sm_bind (scan_fold k (as_bytes (recovery_prefix e tip)) (\<lambda>(key, v) (blocks, repaired_index).
       if \<not> suffix (as_bytes '':block'') key then sm_ok (blocks, repaired_index)
       else sm_bind (json (js_block_of k v)) (\<lambda>b.
         sm_bind (sm_lift (utf8_text key)) (\<lambda>text.
         let base = trim_end_matches '':block'' text in
         sm_seq (db_insert k (as_bytes (recovery_hash_key e (header_hash e (b_header b)))) (as_bytes base))
        (sm_bind (db_get k (as_bytes (base @ '':work''))) (\<lambda>w.
         sm_bind (sm_lift (recovery_work_of w)) (\<lambda>work.
         sm_ok (blocks @ [(b, work)], True))))))) ([], False)) (\<lambda>(blocks, repaired_index).
     sm_seq (if repaired_index then db_flush k else sm_ok ())
     (sm_ok (sort_by (\<lambda>(a, _) (b, _). h_number (b_header a) \<le> h_number (b_header b)) blocks)))"

definition spool_tip_of_key :: "ext \<Rightarrow> bytes \<Rightarrow> hash256 option" where
  "spool_tip_of_key e key =
     Option.bind (from_utf8 key) (\<lambda>text.
       case split_colon text of
         [a, tip, _, b] \<Rightarrow>
           if a = ''recovery'' \<and> b = ''block'' then (case hash_from_hex e tip of Inr h \<Rightarrow> Some h | Inl _ \<Rightarrow> None) else None
       | _ \<Rightarrow> None)"

definition recovery_spool_tips :: "'d backend \<Rightarrow> ext \<Rightarrow> ('d, hash256 list) db" where
  "recovery_spool_tips k e =
     sm_bind (scan_fold k (as_bytes ''recovery:'') (\<lambda>(key, v) tips.
       sm_ok (case spool_tip_of_key e key of None \<Rightarrow> tips | Some h \<Rightarrow> finsert h tips)) {||}) (\<lambda>tips.
     sm_ok (sorted_list_of_fset tips))"

definition clear_recovery_blocks_for_tip :: "'d backend \<Rightarrow> ext \<Rightarrow> hash256 \<Rightarrow> ('d, unit) db" where
  "clear_recovery_blocks_for_tip k e tip =
     sm_bind (scan_collect k (as_bytes (recovery_prefix e tip))) (\<lambda>entries.
     sm_seq (sm_for (\<lambda>(key, v).
        sm_seq (if suffix (as_bytes '':block'') key then
            sm_bind (json (js_block_of k v)) (\<lambda>b.
            db_remove k (as_bytes (recovery_hash_key e (header_hash e (b_header b)))))
          else sm_ok ())
        (db_remove k key)) entries)
     (db_flush k))"

section \<open>Clearing and pruning\<close>

definition clear_canonical_state :: "'d backend \<Rightarrow> ('d, unit) db" where
  "clear_canonical_state k =
     sm_seq (sm_for (\<lambda>p.
        sm_bind (scan_collect k (as_bytes p)) (\<lambda>items. sm_for (\<lambda>(key, v). db_remove k key) items))
        [''block:number:'', ''header:number:'', ''transaction:'', ''receipt:'', ''account:'', ''state:'', ''log:index:''])
    (sm_seq (db_remove k (as_bytes ''best:number''))
     (db_flush k))"

fun entry_size :: "dir_entry \<Rightarrow> storage_error + u64"
  and item_size :: "dir_item \<Rightarrow> storage_error + u64"
  and items_size :: "dir_item list \<Rightarrow> u64 \<Rightarrow> storage_error + u64"
  and directory_size_recursive :: "directory \<Rightarrow> storage_error + u64" where
  "entry_size (MetadataError msg) = Inl (Io msg)"
| "entry_size (FileOf n) = Inr n"
| "entry_size (DirOf d) = directory_size_recursive d"
| "entry_size OtherEntry = Inr 0"
| "item_size (ItemError msg) = Inl (Io msg)"
| "item_size (Item x) = entry_size x"
| "items_size [] acc = Inr acc"
| "items_size (x # xs) acc = res_bind (item_size x) (\<lambda>n. items_size xs (saturating_add acc n))"
| "directory_size_recursive (ReadDirError msg) = Inl (Io msg)"
| "directory_size_recursive (Listing xs) = items_size xs 0"

definition disk_usage_bytes :: "'d backend \<Rightarrow> ('d, u64) db" where
  "disk_usage_bytes k = sm_gets (\<lambda>s. directory_size_recursive (fs_tree k (sl_db s)))"

definition prune_block :: "'d backend \<Rightarrow> ext \<Rightarrow> u64 \<Rightarrow> block \<Rightarrow> ('d, unit) db" where
  "prune_block k e number b =
     sm_seq (remove_log_indexes_for_block k number)
    (sm_seq (db_remove k (block_key number))
     (sm_for (\<lambda>t.
        sm_seq (db_remove k (transaction_key e (transaction_hash e t)))
       (sm_seq (db_remove k (transaction_key e (rpc_hash e t)))
       (sm_seq (db_remove k (receipt_key e (rpc_hash e t)))
        (db_remove k (receipt_key e (transaction_hash e t)))))) (b_transactions b)))"

fun prune_loop :: "'d backend \<Rightarrow> ext \<Rightarrow> u64 \<Rightarrow> u64 list \<Rightarrow> ('d, unit) db" where
  "prune_loop k e goal [] = sm_ok ()"
| "prune_loop k e goal (number # numbers) =
     sm_bind (disk_usage_bytes k) (\<lambda>usage.
     if usage \<le> goal then sm_ok ()
     else (\<lambda>s. case sled_block_by_number k number s of
        (Inl _, t) \<Rightarrow> prune_loop k e goal numbers t
      | (Inr b, t) \<Rightarrow> sm_seq (prune_block k e number b) (prune_loop k e goal numbers) t))"

definition prune_numbers :: "u64 \<Rightarrow> (string + bytes \<times> bytes) list \<Rightarrow> u64 list" where
  "prune_numbers minimum_body_height items =
     sort_by (\<le>) (filter (\<lambda>n. minimum_body_height < n) (List.map_filter (\<lambda>item. case item of
       Inl _ \<Rightarrow> None | Inr (key, v) \<Rightarrow> number_from_block_key key) items))"

definition prune_old_blocks :: "'d backend \<Rightarrow> ext \<Rightarrow> u64 \<Rightarrow> u64 \<Rightarrow> ('d, unit) db" where
  "prune_old_blocks k e max_bytes minimum_body_height =
     sm_bind (db_scan k (as_bytes ''block:number:'')) (\<lambda>items.
     sm_seq (prune_loop k e (saturating_mul max_bytes 9 div 10) (prune_numbers minimum_body_height items))
     (db_flush k))"

definition oldest_body_height :: "'d backend \<Rightarrow> ('d, u64 option) db" where
  "oldest_body_height k =
     scan_fold k (as_bytes ''block:number:'') (\<lambda>(key, v) oldest.
       sm_ok (case number_from_block_key key of
          None \<Rightarrow> oldest
        | Some number \<Rightarrow> Some (case oldest of None \<Rightarrow> number | Some current \<Rightarrow> min current number))) None"

end
