(* ===== verification/Sled_Typed.thy ===== *)
theory Sled_Typed
  imports Sled
begin

text \<open>
  The type discipline of the database: every key is one of the store's keys and carries a value of
  the kind the readers expect.  Every operation keeps it, also when it fails half-way, so that no
  reader ever finds a malformed entry.
\<close>

section \<open>Well-typed databases\<close>

fun value_ok :: "'d backend \<Rightarrow> ext \<Rightarrow> db_key \<Rightarrow> bytes \<Rightarrow> bool" where
  "value_ok k e (HeaderAt n) v \<longleftrightarrow> (\<exists>h. js_header_of k v = Inr h \<and> h_number h = n)"
| "value_ok k e (BlockAt n) v \<longleftrightarrow> (\<exists>b. js_block_of k v = Inr b \<and> h_number (b_header b) = n)"
| "value_ok k e (TransactionOf h) v \<longleftrightarrow>
     (\<exists>t. js_transaction_of k v = Inr t \<and> (transaction_hash e t = h \<or> tx_external_hash t = Some h))"
| "value_ok k e (ReceiptOf h) v \<longleftrightarrow>
     (\<exists>r. js_receipt_of k v = Inr r \<and> (transaction_hash e (sr_transaction r) = h \<or> rpc_hash e (sr_transaction r) = h))"
| "value_ok k e BestNumber v \<longleftrightarrow> length v = 8"
| "value_ok k e (BalanceOf a) v \<longleftrightarrow> length v = 16"
| "value_ok k e (NonceOf a) v \<longleftrightarrow> length v = 8"
| "value_ok k e (CodeOf a) v \<longleftrightarrow> v \<noteq> []"
| "value_ok k e (StorageOf a h) v \<longleftrightarrow> (\<exists>x. v = arr_bytes (x :: hash256) \<and> x \<noteq> ZERO_HASH)"
| "value_ok k e (EvmSnapshotAt n) v \<longleftrightarrow> is_ok (js_snapshot_of k v)"
| "value_ok k e RewardsIndexedTo v \<longleftrightarrow> length v = 8"
| "value_ok k e SupplyIndexedTo v \<longleftrightarrow> length v = 8"
| "value_ok k e SupplyTotal v \<longleftrightarrow> length v = 16"
| "value_ok k e SupplyBurned v \<longleftrightarrow> length v = 16"
| "value_ok k e LogVersion v \<longleftrightarrow> True"
| "value_ok k e (LogAt l) v \<longleftrightarrow> v = arr_bytes l"
| "value_ok k e (LogByAddress a l) v \<longleftrightarrow> v = arr_bytes l"
| "value_ok k e (LogByTopic h l) v \<longleftrightarrow> v = arr_bytes l"
| "value_ok k e (OrphanOf h) v \<longleftrightarrow> (\<exists>b. js_block_of k v = Inr b \<and> header_hash e (b_header b) = h)"
| "value_ok k e (CandidateOf h) v \<longleftrightarrow> (\<exists>b. js_block_of k v = Inr b \<and> header_hash e (b_header b) = h)"
| "value_ok k e (CandidateWork h) v \<longleftrightarrow> length v = 16"
| "value_ok k e (CandidateQuarantine h) v \<longleftrightarrow> True"
| "value_ok k e (RecoveryBlock tip n) v \<longleftrightarrow> (\<exists>b. js_block_of k v = Inr b \<and> h_number (b_header b) = n)"
| "value_ok k e (RecoveryWork tip n) v \<longleftrightarrow> length v = 16"
| "value_ok k e (RecoveryIndex h) v \<longleftrightarrow> (\<exists>tip n. v = as_bytes (recovery_base e tip n))"

definition db_typed :: "'d backend \<Rightarrow> ext \<Rightarrow> (bytes, bytes) fmap \<Rightarrow> bool" where
  "db_typed k e m \<longleftrightarrow> (\<forall>key v. fmlookup m key = Some v \<longrightarrow> (\<exists>dk. key = key_bytes e dk \<and> value_ok k e dk v))"

definition disk_typed :: "'d backend \<Rightarrow> ext \<Rightarrow> disk \<Rightarrow> bool" where
  "disk_typed k e d \<longleftrightarrow> db_typed k e (dk_kv d)"

lemma typed_upd: "db_typed k e m \<Longrightarrow> value_ok k e dk v \<Longrightarrow> db_typed k e (fmupd (key_bytes e dk) v m)"
  by (auto simp: db_typed_def)

lemma typed_drop: "db_typed k e m \<Longrightarrow> db_typed k e (fmdrop key m)"
  by (auto simp: db_typed_def)

lemma typed_lookup:
  assumes "hex_text_spec e" "db_typed k e m" "fmlookup m (key_bytes e dk) = Some v"
  shows "value_ok k e dk v"
  using assms key_bytes_inj [OF assms(1)] by (metis db_typed_def)

lemma typed_entry:
  assumes "db_typed k e m" "fmlookup m key = Some v"
  obtains dk where "key = key_bytes e dk" "value_ok k e dk v"
  using assms by (auto simp: db_typed_def)

lemma typed_empty: "db_typed k e fmempty"
  by (simp add: db_typed_def)

section \<open>Operations keep the database well typed\<close>

named_theorems typed

lemma typed_insert [typed]:
  assumes "sled_spec k c" "value_ok k e dk v"
  shows "keeps c (disk_typed k e) (db_insert k (key_bytes e dk) v)"
  using assms by (intro keeps_db_writes) (simp_all add: disk_typed_def typed_upd)

lemma typed_remove [typed]:
  assumes "sled_spec k c"
  shows "keeps c (disk_typed k e) (db_remove k key)"
  using assms by (intro keeps_db_writes) (simp_all add: disk_typed_def typed_drop)

lemma typed_flush_db [typed]:
  assumes "sled_spec k c"
  shows "keeps c P (flush_db k)" "keeps c P begin_batch" "keeps c P (flush_batch k)" "keeps c P (end_batch k)"
  using keeps_db_flush [OF assms, of P]
  by (auto simp: keeps_def flush_db_def begin_batch_def flush_batch_def end_batch_def sm_seq_def sm_bind_def
      split: prod.splits sum.splits)

lemma json_ok [simp]: "json r s = (Inr x, t) \<longleftrightarrow> r = Inr x \<and> t = s"
  by (auto simp: json_def sm_simps res_simps)

lemma keeps_json [keep]: "keeps c P (json r)"
  by (simp add: json_def keeps_pure)

lemma serde_roundtrip:
  assumes "serde_spec k"
  shows "js_block k b = Inr v \<Longrightarrow> js_block_of k v = Inr b"
    "js_header k h = Inr v \<Longrightarrow> js_header_of k v = Inr h"
    "js_transaction k t = Inr v \<Longrightarrow> js_transaction_of k v = Inr t"
    "js_receipt k r = Inr v \<Longrightarrow> js_receipt_of k v = Inr r"
    "js_snapshot k xs = Inr v \<Longrightarrow> js_snapshot_of k v = Inr xs"
    "js_manifest_pretty k g = Inr v \<Longrightarrow> js_manifest_of k v = Inr g"
    "js_checkpoint_pretty k ck = Inr v \<Longrightarrow> js_checkpoint_of k v = Inr ck"
    "js_publication_pretty k pr = Inr v \<Longrightarrow> js_publication_of k v = Inr pr"
    "js_suffix_pretty k sx = Inr v \<Longrightarrow> js_suffix_of k v = Inr sx"
  using assms unfolding serde_spec_def by blast+

lemma typed_put_account [typed]:
  assumes "sled_spec k c"
  shows "keeps c (disk_typed k e) (sled_put_account k e a balance nonce)"
  unfolding sled_put_account_def key_folds [where e = e]
  by (intro keep typed assms) simp_all

lemma typed_credit_balance [typed]:
  assumes "sled_spec k c"
  shows "keeps c (disk_typed k e) (credit_balance k e a amount)"
  unfolding credit_balance_def sled_balance_def sled_nonce_def
  by (intro keep typed assms)

lemma typed_counters [typed]:
  assumes "sled_spec k c"
  shows "keeps c (disk_typed k e) (set_reward_indexed_to k n)"
    "keeps c (disk_typed k e) (set_supply_totals k n t b)"
  unfolding set_reward_indexed_to_def set_supply_totals_def key_folds [where e = e]
  by (intro keep typed assms; simp)+

lemma typed_put_evm_account [typed]:
  assumes "sled_spec k c"
  shows "keeps c (disk_typed k e) (put_evm_account k e a balance nonce code slots)"
  unfolding put_evm_account_def key_folds [where e = e]
  by (intro keep typed assms) auto

lemma typed_evm_snapshot [typed]:
  assumes "sled_spec k c" "serde_spec k"
  shows "keeps c (disk_typed k e) (put_evm_state_snapshot k n m)"
  unfolding put_evm_state_snapshot_def key_folds [where e = e]
  by (intro keep typed assms) (auto simp: is_ok_iff dest: serde_roundtrip [OF assms(2)])

lemma typed_index_block_logs [typed]:
  assumes "sled_spec k c"
  shows "keeps c (disk_typed k e) (index_block_logs k e b)"
  unfolding index_block_logs_def index_log_def key_folds [where e = e]
  by (intro keep typed assms) simp_all

lemma typed_put_header [typed]:
  assumes "sled_spec k c" "serde_spec k"
  shows "keeps c (disk_typed k e) (put_header k h)"
  unfolding put_header_def key_folds [where e = e]
  by (intro keep typed assms) (auto dest: serde_roundtrip [OF assms(2)])

lemma typed_insert_transaction [typed]:
  assumes "sled_spec k c" "serde_spec k"
  shows "keeps c (disk_typed k e) (insert_transaction k e b it)"
  unfolding insert_transaction_def key_folds [where e = e]
  by (intro keep typed assms)
    (auto simp: sm_simps stored_receipt_of_def split: if_splits dest!: serde_roundtrip [OF assms(2)])

lemma typed_insert_block [typed]:
  assumes "sled_spec k c" "serde_spec k"
  shows "keeps c (disk_typed k e) (sled_insert_block k e b)"
  unfolding sled_insert_block_def key_folds [where e = e]
  by (intro keep typed assms) (auto dest: serde_roundtrip [OF assms(2)])

lemma typed_rebuild [typed]:
  assumes "sled_spec k c"
  shows "keeps c (disk_typed k e) (rebuild_log_index k e)"
proof -
  have catch: "keeps c P (catch_not_found m n)" if "keeps c P m" "keeps c P n" for P and m n :: "('a, 'b) db"
    using that unfolding keeps_def catch_not_found_def
    by (auto split: prod.splits sum.splits storage_error.splits)
  show ?thesis
    unfolding rebuild_log_index_def get_best_number_def sled_block_by_number_def key_folds [where e = e]
    by (intro keep typed assms catch) simp_all
qed

lemma keeps_reads [typed]:
  assumes "sled_spec k c"
  shows "keeps c P (get_best_number k)" "keeps c P (sled_block_by_number k n)" "keeps c P (sled_evm_account_snapshot k e)"
    "keeps c P (orphan_blocks k)" "keeps c P (disk_usage_bytes k)"
  unfolding get_best_number_def sled_block_by_number_def sled_evm_account_snapshot_def account_snapshot_def orphan_blocks_def
    disk_usage_bytes_def
  by (intro keep assms)+

lemma typed_seed [typed]:
  assumes "sled_spec k c" "serde_spec k"
  shows "keeps c (disk_typed k e) (seed_evm_state_snapshot k e)"
proof -
  have best: "keeps c P (\<lambda>s. case get_best_number k s of (Inl _, t) \<Rightarrow> (Inr (), t) | (Inr n, t) \<Rightarrow> f n t)"
    if "\<And>n. keeps c P (f n)" for P f
    using that keeps_reads(1) [OF assms(1), of P] unfolding keeps_def
    by (auto split: prod.splits sum.splits)
  show ?thesis
    unfolding seed_evm_state_snapshot_def
    by (intro keep typed assms best)
qed

lemma typed_orphans [typed]:
  assumes "sled_spec k c" "serde_spec k"
  shows "keeps c (disk_typed k e) (store_orphan_block k e b)"
    "keeps c (disk_typed k e) (remove_orphan_block k e h)"
    "keeps c (disk_typed k e) (clear_orphan_blocks k e)"
proof -
  have "keeps c P (case bs of [] \<Rightarrow> m | x # xs \<Rightarrow> f x)" if "keeps c P m" "\<And>x. keeps c P (f x)"
    for P and m :: "('a, 'b) db" and f and bs :: "block list"
    using that by (cases bs) simp_all
  note list = this
  show "keeps c (disk_typed k e) (store_orphan_block k e b)"
    unfolding store_orphan_block_def key_folds [where e = e]
    by (intro keep typed assms list) (auto dest: serde_roundtrip [OF assms(2)])
  show "keeps c (disk_typed k e) (remove_orphan_block k e h)"
    unfolding remove_orphan_block_def by (intro keep typed assms)
  show "keeps c (disk_typed k e) (clear_orphan_blocks k e)"
    unfolding clear_orphan_blocks_def Let_def by (intro keep typed assms)
qed

lemma typed_candidates [typed]:
  assumes "sled_spec k c" "serde_spec k"
  shows "keeps c (disk_typed k e) (store_candidate_block_unflushed k e b w)"
    "keeps c (disk_typed k e) (store_candidate_block k e b w)"
    "keeps c (disk_typed k e) (clear_candidate_blocks k)"
    "keeps c (disk_typed k e) (remove_candidate_blocks k e hs)"
    "keeps c (disk_typed k e) (quarantine_candidate_tip k e h reason)"
proof -
  show *: "keeps c (disk_typed k e) (store_candidate_block_unflushed k e b w)"
    unfolding store_candidate_block_unflushed_def Let_def key_folds [where e = e]
    by (intro keep typed assms) (auto dest: serde_roundtrip [OF assms(2)])
  show "keeps c (disk_typed k e) (store_candidate_block k e b w)"
    unfolding store_candidate_block_def by (intro keep assms *)
  show "keeps c (disk_typed k e) (clear_candidate_blocks k)"
    unfolding clear_candidate_blocks_def by (intro keep typed assms)
  show "keeps c (disk_typed k e) (remove_candidate_blocks k e hs)"
    unfolding remove_candidate_blocks_def by (intro keep typed assms)
  show "keeps c (disk_typed k e) (quarantine_candidate_tip k e h reason)"
    unfolding quarantine_candidate_tip_def key_folds [where e = e]
    by (intro keep typed assms) simp
qed

lemma typed_clear_canonical [typed]:
  assumes "sled_spec k c"
  shows "keeps c (disk_typed k e) (clear_canonical_state k)"
  unfolding clear_canonical_state_def by (intro keep typed assms)

lemma typed_prune [typed]:
  assumes "sled_spec k c"
  shows "keeps c (disk_typed k e) (prune_old_blocks k e max_bytes lo)"
proof -
  have block: "keeps c (disk_typed k e) (prune_block k e n b)" for n b
    unfolding prune_block_def remove_log_indexes_for_block_def by (intro keep typed assms)
  have read: "keeps c P (\<lambda>s. case sled_block_by_number k n s of (Inl _, t) \<Rightarrow> m t | (Inr b, t) \<Rightarrow> f b t)"
    if "keeps c P m" "\<And>b. keeps c P (f b)" for P n and m :: "('a, 'b) db" and f
    using that keeps_reads(2) [OF assms, of P n] unfolding keeps_def
    by (auto split: prod.splits sum.splits)
  have "keeps c (disk_typed k e) (prune_loop k e goal ns)" for goal ns
  proof (induction ns)
    case (Cons n ns)
    then show ?case unfolding prune_loop.simps by (intro keep typed assms read block)
  qed (simp add: keeps_pure)
  then show ?thesis
    unfolding prune_old_blocks_def by (intro keep assms)
qed

section \<open>The recovery spool\<close>

lemma suffix_as_bytes: "suffix (as_bytes s) (as_bytes t) \<longleftrightarrow> suffix s t"
proof -
  have "rev (as_bytes x) = as_bytes (rev x)" for x by (simp add: as_bytes_def rev_map)
  then show ?thesis using prefix_as_bytes [of "rev s" "rev t"] by (simp add: suffix_to_prefix)
qed

lemma trim_block:
  assumes "\<not> suffix '':block'' s"
  shows "trim_end_matches '':block'' (s @ '':block'') = s"
proof -
  have "trim_end_matches '':block'' s = s" using assms by (subst trim_end_matches.simps) simp
  then show ?thesis by (subst trim_end_matches.simps) (simp add: suffix_def)
qed

lemma recovery_base_end: "\<not> suffix '':block'' (recovery_base e tip n)"
proof -
  have "dec_string (unat n) \<noteq> []" using dec_string_head [of "unat n"] by auto
  then have "last (recovery_base e tip n) = last (dec_string (unat n))" "last (dec_string (unat n)) \<in> set (dec_string (unat n))"
    by (simp_all add: recovery_base_def)
  moreover have "CHR ''k'' \<notin> set (dec_string (unat n))" using dec_string_digits [of "unat n"] by auto
  ultimately show ?thesis by (auto simp: suffix_def)
qed

lemma recovery_block_keys:
  assumes "hex_text_spec e" "suffix (as_bytes '':block'') (key_bytes e dk)" "prefix (as_bytes ''recovery:'') (key_bytes e dk)"
  shows "\<exists>tip n. dk = RecoveryBlock tip n"
proof (cases dk)
  case (RecoveryWork tip n)
  have "\<not> suffix '':block'' (s @ '':work'')" for s :: string by (auto simp: suffix_def)
  from this [of "recovery_base e tip n"] have "\<not> suffix '':block'' (key_text e dk)"
    by (simp add: RecoveryWork recovery_base_def hash_to_hex_def)
  then show ?thesis using assms(2) by (simp add: key_bytes_def suffix_as_bytes)
next
  case (RecoveryIndex h)
  have hex: "length (x_hex_encode e (arr_bytes h)) = 64" "set (x_hex_encode e (arr_bytes h)) \<subseteq> set ''0123456789abcdef''"
    using assms(1) by (simp_all add: hex_text_spec_def)
  then have "x_hex_encode e (arr_bytes h) \<noteq> []" by auto
  then have "last (key_text e dk) \<in> set (x_hex_encode e (arr_bytes h))" by (simp add: RecoveryIndex)
  then have "last (key_text e dk) \<noteq> CHR ''k''" using hex(2) by auto
  then have "\<not> suffix '':block'' (key_text e dk)" by (auto simp: suffix_def)
  then show ?thesis using assms(2) by (simp add: key_bytes_def suffix_as_bytes)
qed (use assms(3) in \<open>simp_all add: key_bytes_def prefix_as_bytes\<close>)


lemma recovery_base_of_key:
  assumes "hex_text_spec e"
  shows "utf8_text (key_bytes e (RecoveryBlock tip n)) = Inr (recovery_base e tip n @ '':block'')"
    "trim_end_matches '':block'' (recovery_base e tip n @ '':block'') = recovery_base e tip n"
proof -
  have "\<forall>c \<in> set ''0123456789''. (of_char c :: u8) < 0x80" by simp
  then have dec: "ascii (dec_string (unat n))"
    using dec_string_digits [of "unat n"] unfolding ascii_def as_bytes_def by auto
  have "ascii ''recovery:''" "ascii '':''" "ascii '':block''" by (simp_all add: ascii_def as_bytes_def)
  then have "ascii (recovery_base e tip n @ '':block'')"
    using dec ascii_hex [OF assms, of "arr_bytes tip"] by (simp only: recovery_base_def hash_to_hex_def ascii_append)
  then show "utf8_text (key_bytes e (RecoveryBlock tip n)) = Inr (recovery_base e tip n @ '':block'')"
    by (simp only: key_folds(24) [symmetric] utf8_text_def from_utf8_ascii res_of_option.simps)
  show "trim_end_matches '':block'' (recovery_base e tip n @ '':block'') = recovery_base e tip n"
    by (rule trim_block [OF recovery_base_end])
qed

lemma recovery_scan_key:
  assumes "hex_text_spec e" "disk_typed k e d" "prefix p key" "prefix (as_bytes ''recovery:'') p"
    "suffix (as_bytes '':block'') key" "fmlookup (dk_kv d) key = Some v"
  obtains tip n where "key = key_bytes e (RecoveryBlock tip n)"
proof -
  obtain dk where dk: "key = key_bytes e dk"
    using typed_entry assms(2,6) unfolding disk_typed_def by metis
  moreover have "prefix (as_bytes ''recovery:'') key" using assms(3,4) by (rule prefix_order.trans [rotated])
  ultimately show thesis using recovery_block_keys [OF assms(1), of dk] assms(5) that by auto
qed

lemma typed_index_base [typed]:
  assumes "sled_spec k c"
  shows "keeps c (disk_typed k e) (db_insert k (as_bytes (recovery_hash_key e h)) (as_bytes (recovery_base e tip n)))"
  unfolding key_folds [where e = e] by (rule typed_insert [OF assms]) auto

lemma typed_find_recovery:
  assumes "sled_spec k c" "serde_spec k" "hex_text_spec e" "prefix (as_bytes ''recovery:'') p"
  shows "keeps c (disk_typed k e) (find_and_index_recovery_block k e (recovery_hash_key e h) h' p)"
  unfolding find_and_index_recovery_block_def Let_def
  by (intro keep assms typed)
    (auto simp: sm_simps recovery_base_of_key [OF assms(3)] intro!: typed assms elim!: recovery_scan_key [OF assms(3) _ _ assms(4)])

lemma recovery_prefix_prefix: "prefix (as_bytes ''recovery:'') (as_bytes (recovery_prefix e tip))"
  unfolding prefix_as_bytes recovery_prefix_def by simp

lemma typed_recovery [typed]:
  assumes "sled_spec k c" "serde_spec k" "hex_text_spec e"
  shows "keeps c (disk_typed k e) (store_recovery_block_unflushed k e tip b w)"
    "keeps c (disk_typed k e) (recovery_block_by_hash k e h)"
    "keeps c (disk_typed k e) (recovery_blocks_for_tip k e tip)"
    "keeps c (disk_typed k e) (clear_recovery_blocks_for_tip k e tip)"
proof -
  show "keeps c (disk_typed k e) (store_recovery_block_unflushed k e tip b w)"
    unfolding store_recovery_block_unflushed_def Let_def key_folds [where e = e]
    by (intro keep typed assms) (auto dest: serde_roundtrip [OF assms(2)])
  show "keeps c (disk_typed k e) (recovery_block_by_hash k e h)"
    unfolding recovery_block_by_hash_def Let_def
    by (intro keep assms typed_find_recovery recovery_prefix_prefix prefix_order.refl)
  show "keeps c (disk_typed k e) (recovery_blocks_for_tip k e tip)"
    unfolding recovery_blocks_for_tip_def Let_def
    by (intro keep assms typed)
      (auto simp: sm_simps recovery_base_of_key [OF assms(3)] intro!: typed assms
        elim!: recovery_scan_key [OF assms(3) _ _ recovery_prefix_prefix])
  show "keeps c (disk_typed k e) (clear_recovery_blocks_for_tip k e tip)"
    unfolding clear_recovery_blocks_for_tip_def by (intro keep typed assms)
qed

section \<open>Readers never find a malformed entry\<close>

definition sound :: "('d \<Rightarrow> disk) \<Rightarrow> (disk \<Rightarrow> bool) \<Rightarrow> ('d, 'a) db \<Rightarrow> bool" where
  "sound c P m \<longleftrightarrow> (\<forall>s msg. P (c (sl_db s)) \<longrightarrow> fst (m s) \<noteq> Inl (Serialization msg))"

named_theorems sounds

lemma sound_ok [sounds]: "sound c P (sm_ok x)" "sound c P (sm_err NotFound)"
  by (simp_all add: sound_def sm_ok_def sm_err_def)

lemma sound_lift [sounds]: "(\<And>msg. r \<noteq> Inl (Serialization msg)) \<Longrightarrow> sound c P (sm_lift r)"
  by (simp add: sound_def sm_lift_def)

lemma sound_not_found [sounds]: "sound c P (sm_lift (res_of_option NotFound v))"
  by (cases v) (simp_all add: sound_def sm_lift_def)

lemma sound_bind [sounds]:
  assumes "sound c P m" "keeps c P m" "\<And>x s t. P (c (sl_db s)) \<Longrightarrow> m s = (Inr x, t) \<Longrightarrow> sound c P (f x)"
  shows "sound c P (sm_bind m f)"
  unfolding sound_def
proof (intro allI impI)
  fix s :: "'a sled_storage" and msg
  assume P: "P (c (sl_db s))"
  obtain r t where m: "m s = (r, t)" by fastforce
  have t: "P (c (sl_db t))" using assms(2) P m unfolding keeps_def by (metis snd_conv)
  show "fst (sm_bind m f s) \<noteq> Inl (Serialization msg)"
  proof (cases r)
    case (Inl err)
    then show ?thesis using assms(1) P m unfolding sound_def by (auto simp: sm_bind_def)
  next
    case (Inr x)
    then show ?thesis using assms(3) [OF P, of x t] m t by (simp add: sm_bind_def sound_def)
  qed
qed

lemma sound_if [sounds]: "(b \<Longrightarrow> sound c P m) \<Longrightarrow> (\<not> b \<Longrightarrow> sound c P n) \<Longrightarrow> sound c P (if b then m else n)"
  by simp

lemma sound_option [sounds]:
  "(x = None \<Longrightarrow> sound c P m) \<Longrightarrow> (\<And>y. x = Some y \<Longrightarrow> sound c P (f y)) \<Longrightarrow>
   sound c P (case x of None \<Rightarrow> m | Some y \<Rightarrow> f y)"
  by (cases x) simp_all

lemma sound_prod [sounds]:
  "(\<And>a b. x = (a, b) \<Longrightarrow> sound c P (f a b)) \<Longrightarrow> sound c P (case x of (a, b) \<Rightarrow> f a b)"
  "(\<And>a b. x = (a, b) \<Longrightarrow> sound c P (g a b y)) \<Longrightarrow> sound c P ((case x of (a, b) \<Rightarrow> g a b) y)"
  by (cases x; simp)+

lemma sound_fold [sounds]:
  "(\<And>x acc. x \<in> set xs \<Longrightarrow> sound c P (f x acc)) \<Longrightarrow> (\<And>x acc. x \<in> set xs \<Longrightarrow> keeps c P (f x acc)) \<Longrightarrow>
   sound c P (sm_fold f xs acc)"
  by (induction xs arbitrary: acc) (simp_all add: sound_ok sound_bind)

lemma sound_find [sounds]:
  "(\<And>x. x \<in> set xs \<Longrightarrow> sound c P (f x)) \<Longrightarrow> (\<And>x. x \<in> set xs \<Longrightarrow> keeps c P (f x)) \<Longrightarrow> sound c P (sm_find f xs)"
  by (induction xs) (simp_all add: sound_ok sound_bind sound_option)

lemma sound_item [sounds]: "(\<And>kv. x = Inr kv \<Longrightarrow> sound c P (f kv)) \<Longrightarrow> sound c P (scan_item x f)"
  by (cases x) (simp_all add: scan_item_def sound_def sm_bind_def sm_lift_def)

lemma sound_db_reads [sounds]:
  "sound c P (db_get k key)" "sound c P (db_contains k key)" "sound c P (db_scan k p)"
  by (simp_all add: sound_def db_get_def db_contains_def db_scan_def sm_gets_def res_simps)

lemma sound_scan [sounds]:
  assumes "sled_spec k c"
  shows "(\<And>key v acc d. P d \<Longrightarrow> prefix p key \<Longrightarrow> fmlookup (dk_kv d) key = Some v \<Longrightarrow> sound c P (f (key, v) acc)) \<Longrightarrow>
      (\<And>key v acc d. P d \<Longrightarrow> prefix p key \<Longrightarrow> fmlookup (dk_kv d) key = Some v \<Longrightarrow> keeps c P (f (key, v) acc)) \<Longrightarrow>
      sound c P (scan_fold k p f acc)"
    "(\<And>key v d. P d \<Longrightarrow> prefix p key \<Longrightarrow> fmlookup (dk_kv d) key = Some v \<Longrightarrow> sound c P (g (key, v))) \<Longrightarrow>
      (\<And>key v d. P d \<Longrightarrow> prefix p key \<Longrightarrow> fmlookup (dk_kv d) key = Some v \<Longrightarrow> keeps c P (g (key, v))) \<Longrightarrow>
      sound c P (scan_find k p g)"
proof -
  show "sound c P (scan_fold k p f acc)"
    if "\<And>key v acc d. P d \<Longrightarrow> prefix p key \<Longrightarrow> fmlookup (dk_kv d) key = Some v \<Longrightarrow> sound c P (f (key, v) acc)"
      "\<And>key v acc d. P d \<Longrightarrow> prefix p key \<Longrightarrow> fmlookup (dk_kv d) key = Some v \<Longrightarrow> keeps c P (f (key, v) acc)"
    unfolding scan_fold_def
    by (intro sounds keep assms) (use that db_scan_items [OF assms] in \<open>metis surj_pair\<close>)+
  show "sound c P (scan_find k p g)"
    if "\<And>key v d. P d \<Longrightarrow> prefix p key \<Longrightarrow> fmlookup (dk_kv d) key = Some v \<Longrightarrow> sound c P (g (key, v))"
      "\<And>key v d. P d \<Longrightarrow> prefix p key \<Longrightarrow> fmlookup (dk_kv d) key = Some v \<Longrightarrow> keeps c P (g (key, v))"
    unfolding scan_find_def
    by (intro sounds keep assms) (use that db_scan_items [OF assms] in \<open>metis surj_pair\<close>)+
qed

lemma db_get_typed:
  assumes "sled_spec k c" "hex_text_spec e" "disk_typed k e (c (sl_db s))" "db_get k (key_bytes e dk) s = (Inr (Some v), t)"
  shows "value_ok k e dk v"
proof -
  have "fmlookup (dk_kv (c (sl_db s))) (key_bytes e dk) = Some v"
    using assms(4) sled_spec_reads(1) [OF assms(1)] by (auto simp: db_get_def sm_gets_def res_simps)
  then show ?thesis using assms(2,3) by (simp add: disk_typed_def typed_lookup)
qed

lemma scan_typed:
  assumes "disk_typed k e d" "prefix p key" "fmlookup (dk_kv d) key = Some v"
  shows "\<exists>dk. key = key_bytes e dk \<and> value_ok k e dk v \<and> prefix p (key_bytes e dk)"
  using assms by (auto simp: disk_typed_def db_typed_def)

lemma sound_json: "is_ok r \<Longrightarrow> sound c P (json r)"
  by (cases r) (simp_all add: sound_def json_def sm_lift_def)

lemma sound_point_reads [sounds]:
  assumes "sled_spec k c" "hex_text_spec e"
  shows "sound c (disk_typed k e) (sled_balance k e a)" "sound c (disk_typed k e) (sled_nonce k e a)"
    "sound c (disk_typed k e) (reward_indexed_to k)" "sound c (disk_typed k e) (supply_totals k)"
    "sound c (disk_typed k e) (evm_code k e a)" "sound c (disk_typed k e) (evm_storage_at k e a h)"
    "sound c (disk_typed k e) (get_best_number k)" "sound c (disk_typed k e) (candidate_work k e h)"
  unfolding sled_balance_def sled_nonce_def reward_indexed_to_def supply_totals_def evm_code_def evm_storage_at_def
    get_best_number_def candidate_work_def key_folds [where e = e]
  by (intro sounds keep; auto dest!: db_get_typed [OF assms]
      simp: u128_from_slice_def u64_from_slice_def hash_from_bytes_def sm_simps res_simps)+

lemma sound_record_reads [sounds]:
  assumes "sled_spec k c" "hex_text_spec e"
  shows "sound c (disk_typed k e) (sled_header_by_number k n)" "sound c (disk_typed k e) (sled_block_by_number k n)"
    "sound c (disk_typed k e) (candidate_block_by_hash k e h)" "sound c (disk_typed k e) (transaction_by_hash k e h)"
    "sound c (disk_typed k e) (indexed_transaction_receipt_by_hash k e h)" "sound c (disk_typed k e) (sled_evm_state_snapshot k n)"
  unfolding sled_header_by_number_def sled_block_by_number_def candidate_block_by_hash_def transaction_by_hash_def
    indexed_transaction_receipt_by_hash_def sled_evm_state_snapshot_def key_folds [where e = e]
  by (intro sounds keep sound_json; auto dest!: db_get_typed [OF assms] simp: sm_simps res_simps is_ok_iff)+

lemma sound_account_snapshot [sounds]:
  assumes "sled_spec k c" "hex_text_spec e"
  shows "sound c (disk_typed k e) (account_snapshot k e)" "sound c (disk_typed k e) (sled_state_root k e)"
proof -
  show *: "sound c (disk_typed k e) (account_snapshot k e)"
    unfolding account_snapshot_def
    by (intro sounds keep assms; (drule (2) scan_typed)?; auto simp: sm_simps address_from_keys [OF assms(2)] u128_from_slice_def u64_from_slice_def)
  show "sound c (disk_typed k e) (sled_state_root k e)"
    unfolding sled_state_root_def account_snapshot_def
    by (rule sound_bind [OF * [unfolded account_snapshot_def]])
      (intro keep sounds assms; simp add: state_root_from_accounts_def)+
qed

lemma sound_evm_account_snapshot [sounds]:
  assumes "sled_spec k c" "hex_text_spec e"
  shows "sound c (disk_typed k e) (sled_evm_account_snapshot k e)"
proof -
  have "keeps c P (account_snapshot k e)" for P
    unfolding account_snapshot_def by (intro keep assms)
  note k = this
  show ?thesis
    unfolding sled_evm_account_snapshot_def
    by (intro sounds keep assms k; (drule (2) scan_typed)?;
        auto simp: sm_simps address_from_keys [OF assms(2)] address_from_storage_key_ok [OF assms(2)])
qed

lemma number_from_snapshot_key_ok: "number_from_snapshot_key (key_bytes e (EvmSnapshotAt n)) = Inr n"
proof -
  have "ascii EVM_SNAPSHOT_PREFIX" by (simp add: ascii_def as_bytes_def EVM_SNAPSHOT_PREFIX_def)
  then have "ascii (EVM_SNAPSHOT_PREFIX @ pad20 n)" using ascii_pad20 by (simp only: ascii_append)
  then have "utf8_text (key_bytes e (EvmSnapshotAt n)) = Inr (EVM_SNAPSHOT_PREFIX @ pad20 n)"
    by (simp only: key_folds(9) [symmetric] evm_snapshot_key_def utf8_text_def from_utf8_ascii res_of_option.simps)
  then show ?thesis by (simp add: number_from_snapshot_key_def ensure_def parse_pad20)
qed

lemma sound_header_scans [sounds]:
  assumes "sled_spec k c" "hex_text_spec e"
  shows "sound c (disk_typed k e) (sled_headers_after k n limit)" "sound c (disk_typed k e) (sled_header_by_hash k e h)"
    "sound c (disk_typed k e) (canonical_blocks k)" "sound c (disk_typed k e) (block_by_hash k e h)"
    "sound c (disk_typed k e) (orphan_blocks k)" "sound c (disk_typed k e) (oldest_body_height k)"
    "sound c (disk_typed k e) (evm_state_snapshot_at_or_before k n)"
proof -
  show "sound c (disk_typed k e) (sled_headers_after k n limit)"
    unfolding sled_headers_after_def
    by (intro sounds keep assms sound_json; (drule (2) scan_typed)?; auto simp: is_ok_iff)
  show "sound c (disk_typed k e) (sled_header_by_hash k e h)"
    unfolding sled_header_by_hash_def candidate_block_by_hash_def
    by (intro sounds keep assms sound_json sound_record_reads(3) [unfolded candidate_block_by_hash_def];
        (drule (2) scan_typed)?; auto simp: is_ok_iff)
  show *: "sound c (disk_typed k e) (canonical_blocks k)"
    unfolding canonical_blocks_def
    by (intro sounds keep assms sound_json; (drule (2) scan_typed)?; auto simp: is_ok_iff)
  have k: "keeps c P (canonical_blocks k)" for P
    unfolding canonical_blocks_def by (intro keep assms)
  show "sound c (disk_typed k e) (block_by_hash k e h)"
    unfolding block_by_hash_def by (intro sounds keep assms k *)
  show "sound c (disk_typed k e) (orphan_blocks k)"
    unfolding orphan_blocks_def
    by (intro sounds keep assms sound_json; (drule (2) scan_typed)?; auto simp: is_ok_iff)
  show "sound c (disk_typed k e) (oldest_body_height k)"
    unfolding oldest_body_height_def by (intro sounds keep assms)
  show "sound c (disk_typed k e) (evm_state_snapshot_at_or_before k n)"
    unfolding evm_state_snapshot_at_or_before_def
    by (intro sounds keep assms sound_json; (drule (2) scan_typed)?; auto simp: number_from_snapshot_key_ok)
qed

lemma sound_candidate_scans [sounds]:
  assumes "sled_spec k c" "hex_text_spec e"
  shows "sound c (disk_typed k e) (candidate_blocks_with_work k e)" "sound c (disk_typed k e) (latest_candidate_tip k e)"
proof -
  have w: "keeps c P (candidate_work k e h)" for P h
    unfolding candidate_work_def by (intro keep)
  show *: "sound c (disk_typed k e) (candidate_blocks_with_work k e)"
    unfolding candidate_blocks_with_work_def
    by (intro sounds keep assms sound_json w; (drule (2) scan_typed)?; auto simp: is_ok_iff)
  have k: "keeps c P (candidate_blocks_with_work k e)" for P
    unfolding candidate_blocks_with_work_def by (intro keep assms w)
  show "sound c (disk_typed k e) (latest_candidate_tip k e)"
    unfolding latest_candidate_tip_def candidate_tip_is_quarantined_def
    by (intro sounds keep assms k *)
qed

lemma log_prefixes: "prefix (as_bytes ''log:index:'') (log_address_prefix e a)" "prefix (as_bytes ''log:index:'') (log_topic_prefix e h)"
  "prefix (as_bytes ''log:index:'') (as_bytes ''log:index:location:'')"
  by (simp_all only: log_address_prefix_def log_topic_prefix_def prefix_as_bytes) simp_all

lemma sound_logs [sounds]:
  assumes "sled_spec k c" "hex_text_spec e"
  shows "sound c (disk_typed k e) (indexed_log_block_numbers k e lo hi as ts)"
proof -
  have "sound c (disk_typed k e) (collect_indexed_log_numbers k p lo hi ns)" if "prefix (as_bytes ''log:index:'') p" for p ns
    unfolding collect_indexed_log_numbers_def
  proof (intro sounds keep assms)
    fix key v acc d key' v' msg
    assume "disk_typed k e d" "prefix p key" "fmlookup (dk_kv d) key = Some v" "(key, v) = (key', v')"
    moreover have "prefix (as_bytes ''log:index:'') key" using that \<open>prefix p key\<close> by (rule prefix_order.trans)
    ultimately show "log_block_number v' \<noteq> Inl (Serialization msg)"
      by - (drule (2) scan_typed, auto simp: log_block_number_def)
  qed
  note s = this
  have k: "keeps c P (collect_indexed_log_numbers k p lo hi ns)" for P p ns
    unfolding collect_indexed_log_numbers_def by (intro keep assms)
  show ?thesis
    unfolding indexed_log_block_numbers_def by (intro sounds k s log_prefixes)
qed

section \<open>Sequences of operations\<close>

datatype sled_op =
    PutAccount address bix u64 | CreditBalance address bix | SetRewardIndexedTo u64 | SetSupplyTotals u64 u128 u128
  | PutEvmAccount address bix u64 bytes "(hash256, hash256) fmap" | PutEvmStateSnapshot u64 evm_state_snapshot
  | InsertHeader block_header | InsertBlock block | RebuildLogIndex | SeedEvmStateSnapshot
  | StoreOrphan block | RemoveOrphan hash256 | ClearOrphans
  | StoreCandidate block u128 | StoreCandidateUnflushed block u128 | ClearCandidates | RemoveCandidates "hash256 list"
  | QuarantineCandidate hash256 string
  | StoreRecovery hash256 block u128 | RecoveryByHash hash256 | RecoveryForTip hash256 | ClearRecovery hash256
  | ClearCanonical | PruneOldBlocks u64 u64 | BeginBatch | FlushBatch | EndBatch

definition discard :: "('d, 'a) db \<Rightarrow> ('d, unit) db" where
  "discard m = sm_bind m (\<lambda>_. sm_ok ())"

fun run_op :: "'d backend \<Rightarrow> ext \<Rightarrow> sled_op \<Rightarrow> ('d, unit) db" where
  "run_op k e (PutAccount a b n) = sled_put_account k e a b n"
| "run_op k e (CreditBalance a b) = credit_balance k e a b"
| "run_op k e (SetRewardIndexedTo n) = set_reward_indexed_to k n"
| "run_op k e (SetSupplyTotals n t b) = set_supply_totals k n t b"
| "run_op k e (PutEvmAccount a b n cd st) = put_evm_account k e a b n cd st"
| "run_op k e (PutEvmStateSnapshot n m) = put_evm_state_snapshot k n m"
| "run_op k e (InsertHeader h) = sled_insert_header k h"
| "run_op k e (InsertBlock b) = sled_insert_block k e b"
| "run_op k e RebuildLogIndex = rebuild_log_index k e"
| "run_op k e SeedEvmStateSnapshot = seed_evm_state_snapshot k e"
| "run_op k e (StoreOrphan b) = store_orphan_block k e b"
| "run_op k e (RemoveOrphan h) = remove_orphan_block k e h"
| "run_op k e ClearOrphans = discard (clear_orphan_blocks k e)"
| "run_op k e (StoreCandidate b w) = store_candidate_block k e b w"
| "run_op k e (StoreCandidateUnflushed b w) = store_candidate_block_unflushed k e b w"
| "run_op k e ClearCandidates = clear_candidate_blocks k"
| "run_op k e (RemoveCandidates hs) = remove_candidate_blocks k e hs"
| "run_op k e (QuarantineCandidate h r) = quarantine_candidate_tip k e h r"
| "run_op k e (StoreRecovery tip b w) = store_recovery_block_unflushed k e tip b w"
| "run_op k e (RecoveryByHash h) = discard (recovery_block_by_hash k e h)"
| "run_op k e (RecoveryForTip tip) = discard (recovery_blocks_for_tip k e tip)"
| "run_op k e (ClearRecovery tip) = clear_recovery_blocks_for_tip k e tip"
| "run_op k e ClearCanonical = clear_canonical_state k"
| "run_op k e (PruneOldBlocks limit lo) = prune_old_blocks k e limit lo"
| "run_op k e BeginBatch = begin_batch"
| "run_op k e FlushBatch = flush_batch k"
| "run_op k e EndBatch = end_batch k"

text \<open>Operations one after the other, whatever each of them reports.\<close>

definition run_ops :: "'d backend \<Rightarrow> ext \<Rightarrow> sled_op list \<Rightarrow> 'd sled_storage \<Rightarrow> 'd sled_storage" where
  "run_ops k e = fold (\<lambda>op s. snd (run_op k e op s))"

datatype sled_query =
    QBalance address | QNonce address | QAccounts | QStateRoot | QRewardIndexedTo | QSupplyTotals
  | QCode address | QStorageAt address hash256 | QEvmAccounts | QEvmSnapshot u64 | QEvmSnapshotBefore u64
  | QBestHeader | QHeaderByNumber u64 | QHeaderByHash hash256 | QBlockByNumber u64 | QBlockByHash hash256
  | QHeadersAfter u64 nat | QCanonicalBlocks | QTransaction hash256 | QIndexedReceipt hash256 | QReceipt hash256
  | QLogNumbers u64 u64 "address list option" "hash256 list option" | QOldestBody
  | QOrphans | QCandidate hash256 | QCandidateWork hash256 | QCandidates | QLatestCandidate

fun run_query :: "'d backend \<Rightarrow> ext \<Rightarrow> sled_query \<Rightarrow> ('d, unit) db" where
  "run_query k e (QBalance a) = discard (sled_balance k e a)"
| "run_query k e (QNonce a) = discard (sled_nonce k e a)"
| "run_query k e QAccounts = discard (account_snapshot k e)"
| "run_query k e QStateRoot = discard (sled_state_root k e)"
| "run_query k e QRewardIndexedTo = discard (reward_indexed_to k)"
| "run_query k e QSupplyTotals = discard (supply_totals k)"
| "run_query k e (QCode a) = discard (evm_code k e a)"
| "run_query k e (QStorageAt a h) = discard (evm_storage_at k e a h)"
| "run_query k e QEvmAccounts = discard (sled_evm_account_snapshot k e)"
| "run_query k e (QEvmSnapshot n) = discard (sled_evm_state_snapshot k n)"
| "run_query k e (QEvmSnapshotBefore n) = discard (evm_state_snapshot_at_or_before k n)"
| "run_query k e QBestHeader = discard (sled_best_header k)"
| "run_query k e (QHeaderByNumber n) = discard (sled_header_by_number k n)"
| "run_query k e (QHeaderByHash h) = discard (sled_header_by_hash k e h)"
| "run_query k e (QBlockByNumber n) = discard (sled_block_by_number k n)"
| "run_query k e (QBlockByHash h) = discard (block_by_hash k e h)"
| "run_query k e (QHeadersAfter n l) = discard (sled_headers_after k n l)"
| "run_query k e QCanonicalBlocks = discard (canonical_blocks k)"
| "run_query k e (QTransaction h) = discard (transaction_by_hash k e h)"
| "run_query k e (QIndexedReceipt h) = discard (indexed_transaction_receipt_by_hash k e h)"
| "run_query k e (QReceipt h) = discard (transaction_receipt_by_hash k e h)"
| "run_query k e (QLogNumbers lo hi as ts) = discard (indexed_log_block_numbers k e lo hi as ts)"
| "run_query k e QOldestBody = discard (oldest_body_height k)"
| "run_query k e QOrphans = discard (orphan_blocks k)"
| "run_query k e (QCandidate h) = discard (candidate_block_by_hash k e h)"
| "run_query k e (QCandidateWork h) = discard (candidate_work k e h)"
| "run_query k e QCandidates = discard (candidate_blocks_with_work k e)"
| "run_query k e QLatestCandidate = discard (latest_candidate_tip k e)"

lemma keeps_discard [keep]: "keeps c P m \<Longrightarrow> keeps c P (discard m)"
  unfolding discard_def by (intro keep)

lemma sound_discard [sounds]: "sound c P m \<Longrightarrow> sound c P (discard m)"
  unfolding sound_def discard_def sm_bind_def sm_ok_def
  by (auto split: prod.splits sum.splits)

lemma typed_run_op:
  assumes "sled_spec k c" "serde_spec k" "hex_text_spec e"
  shows "keeps c (disk_typed k e) (run_op k e op)"
  by (cases op; simp add: sled_insert_header_def; intro keep typed typed_flush_db(2) [OF assms(1)] assms)

lemma typed_run_ops:
  assumes "sled_spec k c" "serde_spec k" "hex_text_spec e" "disk_typed k e (c (sl_db s))"
  shows "disk_typed k e (c (sl_db (run_ops k e ops s)))"
  using assms(4)
proof (induction ops arbitrary: s)
  case (Cons op ops)
  have "disk_typed k e (c (sl_db (snd (run_op k e op s))))"
    using typed_run_op [OF assms(1-3)] Cons.prems by (simp add: keeps_def)
  from Cons.IH [OF this] show ?case by (simp add: run_ops_def)
qed (simp add: run_ops_def)

lemma sound_receipt [sounds]:
  assumes "sled_spec k c" "hex_text_spec e"
  shows "sound c (disk_typed k e) (transaction_receipt_by_hash k e h)"
proof -
  have catch: "sound c P (catch_not_found m n)" if "sound c P m" "keeps c P m" "sound c P n" for P and m n :: "('a, 'b) db"
    using that unfolding sound_def keeps_def catch_not_found_def
    by (auto split: prod.splits sum.splits storage_error.splits)
  have "keeps c P (indexed_transaction_receipt_by_hash k e h)" for P
    unfolding indexed_transaction_receipt_by_hash_def by (intro keep)
  note k = this
  show ?thesis
    unfolding transaction_receipt_by_hash_def
    by (intro catch sounds keep assms k sound_json; (drule (2) scan_typed)?; auto simp: is_ok_iff stored_receipt_of_def)
qed

lemma sound_run_query:
  assumes "sled_spec k c" "hex_text_spec e"
  shows "sound c (disk_typed k e) (run_query k e q)"
proof -
  have best: "sound c (disk_typed k e) (sled_best_header k)"
    unfolding sled_best_header_def by (intro sounds assms) (simp add: get_best_number_def, intro keep)
  show ?thesis
    by (cases q; simp; intro sounds assms best)
qed

section \<open>A concrete database\<close>

text \<open>A codec that knows two blocks, over the backend that never fails.\<close>

definition demo_chain_block :: block where
  "demo_chain_block = \<lparr>b_header = (genesis_header demo_ext)\<lparr>h_number := 1, h_parent_hash := arr_rep 3\<rparr>,
     b_transactions = [], b_receipts = []\<rparr>"

definition demo_table :: "'a list \<Rightarrow> 'a \<Rightarrow> string + bytes" where
  "demo_table xs x = (if x \<in> set xs then Inr [of_nat (length (takeWhile (\<lambda>y. y \<noteq> x) xs))] else Inl ''unknown value'')"

definition demo_untable :: "'a list \<Rightarrow> bytes \<Rightarrow> string + 'a" where
  "demo_untable xs bs = (case bs of [b] \<Rightarrow> if unat b < length xs then Inr (xs ! unat b) else Inl ''bad index'' | _ \<Rightarrow> Inl ''bad length'')"

lemma demo_table_roundtrip:
  assumes "length xs \<le> 256" "demo_table xs x = Inr v"
  shows "demo_untable xs v = Inr x"
proof -
  have x: "x \<in> set xs" and v: "v = [of_nat (length (takeWhile (\<lambda>y. y \<noteq> x) xs))]"
    using assms(2) by (simp_all add: demo_table_def split: if_splits)
  have "length (takeWhile (\<lambda>y. y \<noteq> x) xs) < length xs" using x
    by (induction xs) auto
  moreover from this have "xs ! length (takeWhile (\<lambda>y. y \<noteq> x) xs) = x" using nth_length_takeWhile by blast
  ultimately show ?thesis
    using assms(1) by (simp add: demo_untable_def unat_of_nat v)
qed

definition table_codec ::
  "block list \<Rightarrow> transaction list \<Rightarrow> stored_receipt list \<Rightarrow> serialized_evm_snapshot_entry list list \<Rightarrow>
   generation_manifest list \<Rightarrow> replay_checkpoint list \<Rightarrow> generation_publication_record list \<Rightarrow>
   suffix_publication_record list \<Rightarrow> unit backend" where
  "table_codec bs ts rs xss gs cks prs sxs = \<lparr>
     sd_get = (\<lambda>_ _. Inr None), sd_contains = (\<lambda>_ _. Inr False), sd_scan = (\<lambda>_ _. []),
     sd_insert = (\<lambda>_ _ d. (Inr (), d)), sd_remove = (\<lambda>_ d. (Inr (), d)),
     sd_apply_batch = (\<lambda>_ d. (Inr (), d)), sd_flush = (\<lambda>d. (Inr (), d)),
     fs_exists = (\<lambda>_ _. False), fs_read = (\<lambda>_ _. Inl ''no such file''), fs_tree = (\<lambda>_. Listing []),
     fs_create_dir_all = (\<lambda>d. (Inr (), d)), fs_write = (\<lambda>_ _ d. (Inr (), d)), fs_sync_file = (\<lambda>_ d. (Inr (), d)),
     fs_rename = (\<lambda>_ _ d. (Inr (), d)), fs_remove_file = (\<lambda>_ d. (Inr (), d)),
     js_block = demo_table bs, js_block_of = demo_untable bs,
     js_header = demo_table (map b_header bs), js_header_of = demo_untable (map b_header bs),
     js_transaction = demo_table ts, js_transaction_of = demo_untable ts,
     js_receipt = demo_table rs, js_receipt_of = demo_untable rs,
     js_snapshot = demo_table xss, js_snapshot_of = demo_untable xss,
     js_manifest = demo_table gs, js_manifest_pretty = demo_table gs, js_manifest_of = demo_untable gs,
     js_checkpoint_pretty = demo_table cks, js_checkpoint_of = demo_untable cks,
     js_publication_pretty = demo_table prs, js_publication_of = demo_untable prs,
     js_suffix_pretty = demo_table sxs, js_suffix_of = demo_untable sxs\<rparr>"

lemma table_codec_spec:
  assumes "length bs \<le> 256" "length ts \<le> 256" "length rs \<le> 256" "length xss \<le> 256" "length gs \<le> 256"
    "length cks \<le> 256" "length prs \<le> 256" "length sxs \<le> 256"
  shows "serde_spec (table_codec bs ts rs xss gs cks prs sxs)"
  using assms by (simp add: serde_spec_def table_codec_def demo_table_roundtrip)

definition demo_db :: "disk backend" where
  "demo_db = ref_backend (table_codec [genesis_block demo_ext, demo_chain_block] [demo_tx] [] [[]] [] [] [] [])"

lemma demo_db_spec: "sled_spec demo_db (\<lambda>d. d)" "serde_spec demo_db"
  unfolding demo_db_def by (simp_all add: ref_backend_spec table_codec_spec)

definition empty_store :: "disk sled_storage" where
  "empty_store = \<lparr>sl_db = \<lparr>dk_kv = fmempty, dk_files = fmempty\<rparr>, sl_defer_flush = False\<rparr>"



end
