(* ===== verification/Db_Triples.thy ===== *)
theory Db_Triples
  imports Db
begin

text \<open>
  Programs over the backend with what they establish when they succeed and what still holds when a
  fault stops them: \<open>triple c P m Q R\<close>.  A program that only reads is described by the same program
  over the backend that never fails.
\<close>

definition triple ::
  "('d \<Rightarrow> disk) \<Rightarrow> (disk \<Rightarrow> bool) \<Rightarrow> ('d, 'a) db \<Rightarrow> ('a \<Rightarrow> disk \<Rightarrow> bool) \<Rightarrow> (disk \<Rightarrow> bool) \<Rightarrow> bool" where
  "triple c P m Q R \<longleftrightarrow>
     (\<forall>s r t. P (c (sl_db s)) \<longrightarrow> m s = (r, t) \<longrightarrow>
        (case r of Inr x \<Rightarrow> Q x (c (sl_db t)) | Inl err \<Rightarrow> R (c (sl_db t))))"

lemma tripleI:
  assumes "\<And>s x t. P (c (sl_db s)) \<Longrightarrow> m s = (Inr x, t) \<Longrightarrow> Q x (c (sl_db t))"
    and "\<And>s err t. P (c (sl_db s)) \<Longrightarrow> m s = (Inl err, t) \<Longrightarrow> R (c (sl_db t))"
  shows "triple c P m Q R"
  using assms by (auto simp: triple_def split: sum.split)

lemma tripleD:
  assumes "triple c P m Q R" "P (c (sl_db s))"
  shows "m s = (Inr x, t) \<Longrightarrow> Q x (c (sl_db t))" "m s = (Inl err, t) \<Longrightarrow> R (c (sl_db t))"
  using assms by (fastforce simp: triple_def)+

lemma triple_conseq:
  assumes "triple c P m Q R" "\<And>d. P' d \<Longrightarrow> P d" "\<And>x d. Q x d \<Longrightarrow> Q' x d" "\<And>d. R d \<Longrightarrow> R' d"
  shows "triple c P' m Q' R'"
  using tripleD [OF assms(1)] assms(2-4) by (intro tripleI) blast+

lemma triple_bind:
  assumes "triple c P m Q R" "\<And>x. triple c (Q x) (f x) S R"
  shows "triple c P (sm_bind m f) S R"
  unfolding triple_def
proof (intro allI impI)
  fix s r t
  assume P: "P (c (sl_db s))" and run: "sm_bind m f s = (r, t)"
  obtain q u where q: "m s = (q, u)" by fastforce
  show "case r of Inr x \<Rightarrow> S x (c (sl_db t)) | Inl err \<Rightarrow> R (c (sl_db t))"
  proof (cases q)
    case (Inl err)
    then show ?thesis using run q tripleD(2) [OF assms(1) P] by (auto simp: sm_bind_def)
  next
    case (Inr x)
    then have "Q x (c (sl_db u))" using q tripleD(1) [OF assms(1) P] by blast
    then show ?thesis using assms(2) [of x] run q Inr by (auto simp: sm_bind_def triple_def)
  qed
qed

lemma triple_seq: "triple c P m (\<lambda>_. Q) R \<Longrightarrow> triple c Q n S R \<Longrightarrow> triple c P (sm_seq m n) S R"
  unfolding sm_seq_def by (rule triple_bind)

lemma triple_ok: "(\<And>d. P d \<Longrightarrow> Q x d) \<Longrightarrow> triple c P (sm_ok x) Q R"
  by (simp add: triple_def sm_ok_def)

lemma triple_err: "(\<And>d. P d \<Longrightarrow> R d) \<Longrightarrow> triple c P (sm_err err) Q R"
  by (simp add: triple_def sm_err_def)

lemma triple_lift: "(\<And>d. P d \<Longrightarrow> R d) \<Longrightarrow> triple c P (sm_lift r) (\<lambda>x d. P d \<and> r = Inr x) R"
  by (auto simp: triple_def sm_lift_def split: sum.split)

lemma triple_assume: "(\<And>d. P d \<Longrightarrow> A) \<Longrightarrow> (A \<Longrightarrow> triple c P m Q R) \<Longrightarrow> triple c P m Q R"
  unfolding triple_def by blast

lemma triple_fact: "(A \<Longrightarrow> triple c P m Q R) \<Longrightarrow> triple c (\<lambda>d. P d \<and> A) m Q R"
  by (auto simp: triple_def)

lemma triple_if: "(b \<Longrightarrow> triple c P m Q R) \<Longrightarrow> (\<not> b \<Longrightarrow> triple c P n Q R) \<Longrightarrow> triple c P (if b then m else n) Q R"
  by simp

text \<open>A program that leaves the disk alone answers as it does over the backend that never fails.\<close>

lemma triple_read:
  assumes "\<And>P. keeps c P m" "refines c m n" "\<And>d. P d \<Longrightarrow> R d"
  shows "triple c P m (\<lambda>x d. P d \<and> (\<exists>b u. n \<lparr>sl_db = d, sl_defer_flush = b\<rparr> = (Inr x, u))) R"
proof (rule tripleI)
  fix s t x
  assume P: "P (c (sl_db s))" and run: "m s = (Inr x, t)"
  have d: "c (sl_db t) = c (sl_db s)" using assms(1) [of "\<lambda>d. d = c (sl_db s)"] run by (fastforce simp: keeps_def)
  have "n (view c s) = (Inr x, view c t)" using assms(2) run by (rule refinesD)
  then show "P (c (sl_db t)) \<and> (\<exists>b u. n \<lparr>sl_db = c (sl_db t), sl_defer_flush = b\<rparr> = (Inr x, u))"
    using P d by (metis view_def)
next
  fix s t err
  assume P: "P (c (sl_db s))" and run: "m s = (Inl err, t)"
  then have "P (c (sl_db t))" using assms(1) [of P] by (fastforce simp: keeps_def)
  then show "R (c (sl_db t))" by (rule assms(3))
qed

lemma triple_keeps: "keeps c P m \<Longrightarrow> triple c P m (\<lambda>_. P) P"
  by (fastforce simp: triple_def keeps_def split: sum.split)

lemma triple_keep: "keeps c P m \<Longrightarrow> (\<And>d. P d \<Longrightarrow> R d) \<Longrightarrow> triple c P m (\<lambda>_. P) R"
  by (rule triple_conseq [OF triple_keeps [of c P m]]) simp_all

lemma keeps_triple: "triple c P m (\<lambda>_. P) P \<Longrightarrow> keeps c P m"
  unfolding keeps_def
proof (intro allI impI)
  fix s :: "'a sled_storage"
  assume t: "triple c P m (\<lambda>_. P) P" and P: "P (c (sl_db s))"
  obtain r u where ru: "m s = (r, u)" by fastforce
  show "P (c (sl_db (snd (m s))))"
    using tripleD [OF t P] ru by (cases r) simp_all
qed

lemma triple_upd:
  assumes "\<And>d r d'. f d = (r, d') \<Longrightarrow> took_effect r (c d) (g (c d)) (c d')"
    and "\<And>d. P d \<Longrightarrow> Q (g d)" "\<And>d. P d \<Longrightarrow> R d" "\<And>d. Q d \<Longrightarrow> R d"
  shows "triple c P (db_upd f) (\<lambda>_. Q) R"
proof (rule tripleI)
  fix s t and x :: unit
  assume "P (c (sl_db s))" "db_upd f s = (Inr x, t)"
  then show "Q (c (sl_db t))"
    using assms(1) [of "sl_db s"] assms(2) by (cases "f (sl_db s)"; cases "fst (f (sl_db s))") (auto simp: db_upd_def)
next
  fix s t err
  assume "P (c (sl_db s))" "db_upd f s = (Inl err, t)"
  then show "R (c (sl_db t))"
    using assms(1) [of "sl_db s"] assms(2-4)
    by (cases "f (sl_db s)"; cases "fst (f (sl_db s))") (auto simp: db_upd_def took_effect_def)
qed

lemma triple_apply_batch:
  assumes "sled_spec k c" "\<And>d. P d \<Longrightarrow> Q (kv_upd (batch_apply ops) d)" "\<And>d. P d \<Longrightarrow> R d" "\<And>d. Q d \<Longrightarrow> R d"
  shows "triple c P (db_apply_batch k ops) (\<lambda>_. Q) R"
  unfolding db_apply_batch_def
  by (rule triple_upd [of _ _ "kv_upd (batch_apply ops)"])
    (simp_all add: sled_spec_writes(3) [OF assms(1)] assms(2-4))

lemma triple_flush:
  assumes "sled_spec k c" "\<And>d. P d \<Longrightarrow> R d"
  shows "triple c P (db_flush k) (\<lambda>_. P) R"
  by (rule triple_conseq [OF triple_keeps [OF keeps_db_flush [OF assms(1), of P]]]) (simp_all add: assms(2))

text \<open>A replaced file has its old or its new contents, also when a step of the replacement fails.\<close>

lemma triple_file_replace:
  assumes spec: "sled_spec k c"
    and tmp: "\<And>d cs. P d \<Longrightarrow> P (files_upd (fmupd (f @ ''.tmp'') cs) d)"
    and ren: "\<And>d bs. P d \<Longrightarrow> json = Inr bs \<Longrightarrow> Q (files_upd (\<lambda>m. fmupd f bs (fmdrop (f @ ''.tmp'') m)) d)"
    and fault: "\<And>d. P d \<Longrightarrow> R d" "\<And>d. Q d \<Longrightarrow> R d"
  shows "triple c P (file_replace k f json) (\<lambda>_. Q) R"
proof -
  note sp = sled_spec_files [OF spec]
  let ?tmp = "f @ ''.tmp''"
  have dir: "triple c P (db_upd (fs_create_dir_all k)) (\<lambda>_. P) R"
    by (rule triple_upd [of _ _ "\<lambda>d. d"]) (auto simp: took_effect_def sp(3) fault)
  have tmp_write: "triple c P (db_upd (fs_write k ?tmp bs)) (\<lambda>_ d. P d \<and> fmlookup (dk_files d) ?tmp = Some bs) R" for bs
  proof (rule tripleI)
    fix s t and x :: unit
    assume P: "P (c (sl_db s))" and run: "db_upd (fs_write k ?tmp bs) s = (Inr x, t)"
    obtain r d where rd: "fs_write k ?tmp bs (sl_db s) = (r, d)" by fastforce
    then have "r = Inr ()" "sl_db t = d" using run by (cases r; auto simp: db_upd_def)+
    then show "P (c (sl_db t)) \<and> fmlookup (dk_files (c (sl_db t))) ?tmp = Some bs"
      using sp(4) [OF rd] tmp [OF P] by auto
  next
    fix s t err
    assume P: "P (c (sl_db s))" and run: "db_upd (fs_write k ?tmp bs) s = (Inl err, t)"
    obtain r d where rd: "fs_write k ?tmp bs (sl_db s) = (r, d)" by fastforce
    then have "sl_db t = d" using run by (auto simp: db_upd_def)
    then show "R (c (sl_db t))" using sp(4) [OF rd] tmp [OF P] P fault by (auto simp: took_effect_def)
  qed
  let ?W = "\<lambda>bs d. P d \<and> fmlookup (dk_files d) ?tmp = Some bs"
  have sync: "triple c (?W bs) (db_upd (fs_sync_file k ?tmp)) (\<lambda>_. ?W bs) R" for bs
    by (rule triple_upd [of _ _ "\<lambda>d. d"]) (auto simp: took_effect_def sp(5) fault)
  have rename: "triple c (?W bs) (db_upd (fs_rename k ?tmp f)) (\<lambda>_. Q) R" if j: "json = Inr bs" for bs
  proof (rule tripleI)
    fix s t and x :: unit
    assume P: "?W bs (c (sl_db s))" and run: "db_upd (fs_rename k ?tmp f) s = (Inr x, t)"
    obtain r d where rd: "fs_rename k ?tmp f (sl_db s) = (r, d)" by fastforce
    then have "r = Inr ()" "sl_db t = d" using run by (cases r; auto simp: db_upd_def)+
    then show "Q (c (sl_db t))" using sp(6) [OF rd] P ren [OF _ j] by auto
  next
    fix s t err
    assume P: "?W bs (c (sl_db s))" and run: "db_upd (fs_rename k ?tmp f) s = (Inl err, t)"
    obtain r d where rd: "fs_rename k ?tmp f (sl_db s) = (r, d)" by fastforce
    then have "sl_db t = d" using run by (auto simp: db_upd_def)
    then show "R (c (sl_db t))" using sp(6) [OF rd] P ren [OF _ j] fault by (auto simp: took_effect_def)
  qed
  have "triple c (\<lambda>d. P d \<and> json = Inr bs)
      (sm_seq (db_upd (fs_write k ?tmp bs)) (sm_seq (db_upd (fs_sync_file k ?tmp)) (db_upd (fs_rename k ?tmp f))))
      (\<lambda>_. Q) R" for bs
  proof (rule triple_assume)
    assume "json = Inr bs"
    note r = triple_seq [OF tmp_write triple_seq [OF sync rename [OF this]]]
    show "triple c (\<lambda>d. P d \<and> json = Inr bs)
      (sm_seq (db_upd (fs_write k ?tmp bs)) (sm_seq (db_upd (fs_sync_file k ?tmp)) (db_upd (fs_rename k ?tmp f))))
      (\<lambda>_. Q) R"
      by (rule triple_conseq [OF r]) simp_all
  qed simp
  note last = this
  have lift: "triple c P (sm_lift (res_map_err Serialization json)) (\<lambda>bs d. P d \<and> json = Inr bs) R"
    by (rule triple_conseq [OF triple_lift [of P P]]) (auto simp: fault res_simps)
  show ?thesis
    unfolding file_replace_def by (rule triple_seq [OF dir triple_bind [OF lift last]])
qed

lemma triple_file_remove:
  assumes spec: "sled_spec k c"
    and "\<And>d. P d \<Longrightarrow> Q (files_upd (fmdrop f) d)" "\<And>d. P d \<Longrightarrow> R d" "\<And>d. Q d \<Longrightarrow> R d"
  shows "triple c P (file_remove k f) (\<lambda>_. Q) R"
proof -
  have drop: "files_upd (fmdrop f) d = d" if "fmlookup (dk_files d) f = None" for d
  proof -
    have "fmdrop f (dk_files d) = dk_files d" using that by (intro fmap_ext) auto
    then show ?thesis by (simp add: files_upd_def)
  qed
  show ?thesis
  proof (rule tripleI)
    fix s t and x :: unit
    assume P: "P (c (sl_db s))" and run: "file_remove k f s = (Inr x, t)"
    obtain r d where rd: "fs_remove_file k f (sl_db s) = (r, d)" by fastforce
    then have "c (sl_db t) = files_upd (fmdrop f) (c (sl_db s))"
      using run sled_spec_files(7) [OF spec rd] drop
      by (auto simp: file_remove_def split: sum.splits remove_error.splits)
    then show "Q (c (sl_db t))" using assms(2) [OF P] by simp
  next
    fix s t err
    assume P: "P (c (sl_db s))" and run: "file_remove k f s = (Inl err, t)"
    obtain r d where rd: "fs_remove_file k f (sl_db s) = (r, d)" by fastforce
    then show "R (c (sl_db t))"
      using run sled_spec_files(7) [OF spec rd] assms(2-4) P
      by (auto simp: file_remove_def split: sum.splits remove_error.splits)
  qed
qed

section \<open>Programs that only read the database\<close>

definition bare :: "(bytes, bytes) fmap \<Rightarrow> disk sled_storage" where
  "bare m = \<lparr>sl_db = \<lparr>dk_kv = m, dk_files = fmempty\<rparr>, sl_defer_flush = False\<rparr>"

definition reads_kv :: "(disk, 'a) db \<Rightarrow> bool" where
  "reads_kv m \<longleftrightarrow> (\<forall>s. m s = (fst (m (bare (dk_kv (sl_db s)))), s))"

named_theorems reader

lemma bare_kv [simp]: "dk_kv (sl_db (bare m)) = m"
  by (simp add: bare_def)

lemma reads_kv_pure [reader]: "reads_kv (sm_ok x)" "reads_kv (sm_err err)" "reads_kv (sm_lift r)"
  by (simp_all add: reads_kv_def sm_ok_def sm_err_def sm_lift_def)

lemma reads_kv_bind [reader]:
  assumes "reads_kv m" "\<And>x. reads_kv (f x)"
  shows "reads_kv (sm_bind m f)"
  unfolding reads_kv_def
proof (intro allI)
  fix s :: "disk sled_storage"
  let ?b = "bare (dk_kv (sl_db s))"
  note read = assms(1) [unfolded reads_kv_def, rule_format]
  have ms: "m s = (fst (m ?b), s)" by (rule read)
  have mb: "m ?b = (fst (m ?b), ?b)" using read [of ?b] by (simp only: bare_kv)
  show "sm_bind m f s = (fst (sm_bind m f ?b), s)"
  proof (cases "fst (m ?b)")
    case (Inl err)
    then have "m s = (Inl err, s)" "m ?b = (Inl err, ?b)" using ms mb by metis+
    then show ?thesis by (simp add: sm_bind_def)
  next
    case (Inr x)
    then have "m s = (Inr x, s)" "m ?b = (Inr x, ?b)" using ms mb by metis+
    moreover have "f x s = (fst (f x ?b), s)" by (rule assms(2) [unfolded reads_kv_def, rule_format])
    ultimately show ?thesis by (simp add: sm_bind_def)
  qed
qed

lemma reads_kv_if [reader]: "reads_kv m \<Longrightarrow> reads_kv n \<Longrightarrow> reads_kv (if b then m else n)"
  by simp

lemma reads_kv_option [reader]:
  "reads_kv m \<Longrightarrow> (\<And>y. reads_kv (f y)) \<Longrightarrow> reads_kv (case x of None \<Rightarrow> m | Some y \<Rightarrow> f y)"
  by (cases x) simp_all

lemma reads_kv_prod [reader]:
  "(\<And>a b. reads_kv (f a b)) \<Longrightarrow> reads_kv (case x of (a, b) \<Rightarrow> f a b)"
  "(\<And>a b. reads_kv (g a b y)) \<Longrightarrow> reads_kv ((case x of (a, b) \<Rightarrow> g a b) y)"
  by (cases x, simp)+

lemma reads_kv_fold [reader]: "(\<And>x acc. reads_kv (f x acc)) \<Longrightarrow> reads_kv (sm_fold f xs acc)"
  by (induction xs arbitrary: acc) (simp_all add: reads_kv_pure reads_kv_bind)

lemma reads_kv_ops [reader]:
  "reads_kv (db_get (ref_backend k) key)" "reads_kv (db_contains (ref_backend k) key)" "reads_kv (db_scan (ref_backend k) p)"
  by (simp_all add: reads_kv_def db_get_def db_contains_def db_scan_def sm_gets_def)

lemma reads_kv_scan_fold [reader]: "(\<And>kv acc. reads_kv (f kv acc)) \<Longrightarrow> reads_kv (scan_fold (ref_backend k) p f acc)"
  unfolding scan_fold_def scan_item_def by (intro reader)

lemma reads_kvD: "reads_kv m \<Longrightarrow> m s = (Inr x, t) \<Longrightarrow> fst (m (bare (dk_kv (sl_db s)))) = Inr x \<and> t = s"
proof -
  assume "reads_kv m" and run: "m s = (Inr x, t)"
  then have "m s = (fst (m (bare (dk_kv (sl_db s)))), s)" unfolding reads_kv_def by blast
  then show "fst (m (bare (dk_kv (sl_db s)))) = Inr x \<and> t = s" using run by (metis Pair_inject)
qed

lemma reads_kv_bind_fst:
  assumes "reads_kv m"
  shows "fst (sm_bind m f (bare kv)) = res_bind (fst (m (bare kv))) (\<lambda>x. fst (f x (bare kv)))"
proof -
  have "m (bare kv) = (fst (m (bare kv)), bare kv)"
    using assms [unfolded reads_kv_def, rule_format, of "bare kv"] by (simp only: bare_kv)
  then show ?thesis by (cases "fst (m (bare kv))") (simp_all add: sm_bind_def split: prod.splits)
qed

lemma bare_scan_fold:
  assumes "\<And>kv acc. reads_kv (f kv acc)"
  shows "fst (scan_fold (ref_backend k) p f acc (bare m)) =
    res_fold (\<lambda>kv acc. fst (f kv acc (bare m))) (scan_entries p m) acc"
proof -
  have item: "reads_kv (scan_item item (\<lambda>kv. f kv acc))" for item acc
    unfolding scan_item_def by (intro reader assms)
  have step: "fst (scan_item (Inr kv) (\<lambda>kv. f kv acc) (bare m)) = fst (f kv acc (bare m))" for kv acc
    by (simp add: scan_item_def sm_bind_def sm_lift_def)
  have "fst (sm_fold (\<lambda>item acc. scan_item item (\<lambda>kv. f kv acc)) (map Inr es) acc (bare m)) =
    res_fold (\<lambda>kv acc. fst (f kv acc (bare m))) es acc" for es acc
    by (induction es arbitrary: acc) (simp_all add: sm_ok_def reads_kv_bind_fst [OF item] step)
  then show ?thesis by (simp add: scan_fold_def sm_bind_def db_scan_def sm_gets_def)
qed

lemma triple_reader:
  assumes "\<And>P. keeps c P m" "refines c m n" "reads_kv n" "\<And>d. P d \<Longrightarrow> R d"
  shows "triple c P m (\<lambda>x d. P d \<and> fst (n (bare (dk_kv d))) = Inr x) R"
  by (rule triple_conseq [OF triple_read [OF assms(1,2), of P R]])
    (auto simp: assms(4) dest!: reads_kvD [OF assms(3)])

section \<open>Batches\<close>

text \<open>The last operation of a batch on a key.\<close>

definition last_op :: "(bytes \<times> bytes option) list \<Rightarrow> bytes \<Rightarrow> bytes option option" where
  "last_op ops key = map_of (rev ops) key"

lemma last_op_simps [simp]:
  "last_op [] key = None"
  "last_op [(key', v)] key = (if key = key' then Some v else None)"
  by (simp_all add: last_op_def)

lemma last_op_append: "last_op (x @ y) key = (case last_op y key of None \<Rightarrow> last_op x key | Some v \<Rightarrow> Some v)"
  by (simp add: last_op_def map_add_def split: option.split)

lemma last_op_Cons:
  "last_op ((key', v) # y) key = (case last_op y key of None \<Rightarrow> if key = key' then Some v else None | Some v \<Rightarrow> Some v)"
  using last_op_append [of "[(key', v)]" y key] by (simp split: option.split)

lemma last_op_None: "last_op ops key = None \<longleftrightarrow> key \<notin> fst ` set ops"
  by (simp add: last_op_def map_of_eq_None_iff)

lemma last_op_Some: "last_op ops key = Some v \<Longrightarrow> (key, v) \<in> set ops"
  by (auto simp: last_op_def dest: map_of_SomeD)

lemma lookup_batch_apply:
  "fmlookup (batch_apply ops m) key = (case last_op ops key of None \<Rightarrow> fmlookup m key | Some v \<Rightarrow> v)"
proof (induction ops rule: rev_induct)
  case Nil
  then show ?case by (simp add: batch_apply_def)
next
  case (snoc op ops)
  then show ?case by (cases op; cases "snd op") (auto simp: batch_apply_def last_op_append)
qed

end
