(* ===== verification/Publication.thy ===== *)
theory Publication
  imports Sled_Typed Db_Triples
begin

text \<open>
  \<open>crates/blq-storage/src/lib.rs\<close>, publication of a canonical suffix: the manifest, checkpoint,
  publication-record and journal files of a data directory, \<open>publish_canonical_suffix\<close>, and the
  recovery and the verification that run when the store is opened.  The static functions of the
  code that take a path are here programs on the store whose directory it is.

  A fault of the backend stops the program where it occurs, so the states a fault leaves behind are
  also the states a crash of the process leaves behind.
\<close>

section \<open>Files of a generation\<close>

definition GENERATION_MANIFEST_FILE :: string where
  "GENERATION_MANIFEST_FILE = ''generation-manifest.json''"

definition GENERATION_CHECKPOINT_FILE :: string where
  "GENERATION_CHECKPOINT_FILE = ''replay-checkpoint.json''"

definition GENERATION_PUBLICATION_FILE :: string where
  "GENERATION_PUBLICATION_FILE = ''publication-record.json''"

definition SUFFIX_PUBLICATION_FILE :: string where
  "SUFFIX_PUBLICATION_FILE = ''suffix-publication.json''"

definition load_json :: "'d backend \<Rightarrow> string \<Rightarrow> string \<Rightarrow> (bytes \<Rightarrow> string + 'a) \<Rightarrow> ('d, 'a option) db" where
  "load_json k f msg parse =
     sm_bind (file_exists k f) (\<lambda>present.
     if \<not> present then sm_ok None
     else sm_bind (file_read k f) (\<lambda>bs.
          sm_bind (sm_lift (res_map_err (\<lambda>err. Serialization (msg @ err)) (parse bs))) (\<lambda>x. sm_ok (Some x))))"

definition load_generation_manifest :: "'d backend \<Rightarrow> ('d, generation_manifest option) db" where
  "load_generation_manifest k =
     load_json k GENERATION_MANIFEST_FILE ''invalid generation manifest: '' (js_manifest_of k)"

definition write_generation_manifest :: "'d backend \<Rightarrow> generation_manifest \<Rightarrow> ('d, unit) db" where
  "write_generation_manifest k m = file_replace k GENERATION_MANIFEST_FILE (js_manifest_pretty k m)"

definition load_replay_checkpoint :: "'d backend \<Rightarrow> ('d, replay_checkpoint option) db" where
  "load_replay_checkpoint k =
     load_json k GENERATION_CHECKPOINT_FILE ''invalid replay checkpoint: '' (js_checkpoint_of k)"

definition write_replay_checkpoint :: "'d backend \<Rightarrow> replay_checkpoint \<Rightarrow> ('d, unit) db" where
  "write_replay_checkpoint k ck = file_replace k GENERATION_CHECKPOINT_FILE (js_checkpoint_pretty k ck)"

definition manifest_checksum :: "'d backend \<Rightarrow> ext \<Rightarrow> generation_manifest \<Rightarrow> string + hash256" where
  "manifest_checksum k e m = res_bind (js_manifest k m) (\<lambda>bs. Inr (hash_bytes e bs))"

definition load_generation_publication :: "'d backend \<Rightarrow> ('d, generation_publication_record option) db" where
  "load_generation_publication k =
     load_json k GENERATION_PUBLICATION_FILE ''invalid generation publication record: '' (js_publication_of k)"

definition publication_record_json :: "'d backend \<Rightarrow> ext \<Rightarrow> generation_manifest \<Rightarrow> string + bytes" where
  "publication_record_json k e m =
     res_bind (manifest_checksum k e m) (\<lambda>checksum.
     js_publication_pretty k \<lparr>pr_generation_id = gm_generation_id m, pr_manifest_checksum = checksum\<rparr>)"

definition write_generation_publication :: "'d backend \<Rightarrow> ext \<Rightarrow> generation_manifest \<Rightarrow> ('d, unit) db" where
  "write_generation_publication k e m = file_replace k GENERATION_PUBLICATION_FILE (publication_record_json k e m)"

definition load_suffix_publication :: "'d backend \<Rightarrow> ('d, suffix_publication_record option) db" where
  "load_suffix_publication k =
     load_json k SUFFIX_PUBLICATION_FILE ''invalid suffix publication record: '' (js_suffix_of k)"

definition write_suffix_publication :: "'d backend \<Rightarrow> suffix_publication_record \<Rightarrow> ('d, unit) db" where
  "write_suffix_publication k r = file_replace k SUFFIX_PUBLICATION_FILE (js_suffix_pretty k r)"

definition clear_suffix_publication :: "'d backend \<Rightarrow> ('d, unit) db" where
  "clear_suffix_publication k = file_remove k SUFFIX_PUBLICATION_FILE"

definition suffix_checkpoint :: "generation_manifest \<Rightarrow> u64 \<Rightarrow> replay_checkpoint" where
  "suffix_checkpoint m height =
     \<lparr>ck_generation_id = gm_generation_id m, ck_height = height,
      ck_block_hash = gm_canonical_hash m, ck_state_root = gm_state_root m\<rparr>"

definition sync_suffix_replay_checkpoint :: "'d backend \<Rightarrow> generation_manifest \<Rightarrow> ('d, unit) db" where
  "sync_suffix_replay_checkpoint k m =
     (case gm_replay_checkpoint m of
        Some height \<Rightarrow> write_replay_checkpoint k (suffix_checkpoint m height)
      | None \<Rightarrow> file_remove k GENERATION_CHECKPOINT_FILE)"

section \<open>Verification and recovery\<close>

definition tip_matches :: "ext \<Rightarrow> generation_manifest \<Rightarrow> block_header \<Rightarrow> bool" where
  "tip_matches e m best \<longleftrightarrow>
     h_number best = gm_canonical_height m \<and> header_hash e best = gm_canonical_hash m \<and>
     h_state_root best = gm_state_root m"

definition tip_mismatch :: "ext \<Rightarrow> generation_manifest \<Rightarrow> block_header \<Rightarrow> string" where
  "tip_mismatch e m best =
     ''generation manifest does not match stored canonical tip (manifest '' @
     dec_string (unat (gm_canonical_height m)) @ '' '' @ hash_to_hex e (gm_canonical_hash m) @ '', storage '' @
     dec_string (unat (h_number best)) @ '' '' @ hash_to_hex e (header_hash e best) @ '')''"

definition publication_is_stale ::
  "'d backend \<Rightarrow> ext \<Rightarrow> generation_manifest \<Rightarrow> generation_publication_record option \<Rightarrow> storage_error + bool" where
  "publication_is_stale k e m record =
     (case record of
        None \<Rightarrow> Inr False
      | Some r \<Rightarrow>
          res_bind (ensure (pr_generation_id r = gm_generation_id m)
            (Serialization ''generation publication record does not match its manifest'')) (\<lambda>_.
          res_bind (res_map_err Serialization (manifest_checksum k e m)) (\<lambda>checksum.
          Inr (pr_manifest_checksum r \<noteq> checksum))))"

definition check_replay_checkpoint ::
  "'d backend \<Rightarrow> ext \<Rightarrow> generation_manifest \<Rightarrow> block_header \<Rightarrow> replay_checkpoint option \<Rightarrow> ('d, unit) db" where
  "check_replay_checkpoint k e m best checkpoint =
     (case (gm_replay_checkpoint m, checkpoint) of
        (Some height, Some ck) \<Rightarrow>
          if ck_generation_id ck \<noteq> gm_generation_id m \<or> ck_height ck \<noteq> height \<or> h_number best < ck_height ck
          then sm_err (Serialization ''generation replay checkpoint does not match its manifest'')
          else sm_bind (sled_header_by_number k (ck_height ck)) (\<lambda>header.
            if header_hash e header \<noteq> ck_block_hash ck \<or> h_state_root header \<noteq> ck_state_root ck
            then sm_err (Serialization ''generation replay checkpoint does not match canonical storage'')
            else sm_ok ())
      | (Some _, None) \<Rightarrow> sm_err (Serialization ''generation manifest requires a missing replay checkpoint'')
      | (None, Some _) \<Rightarrow> sm_err (Serialization ''generation has an unreferenced replay checkpoint'')
      | (None, None) \<Rightarrow> sm_ok ())"

definition verify_generation_manifest :: "'d backend \<Rightarrow> ext \<Rightarrow> ('d, generation_manifest) db" where
  "verify_generation_manifest k e =
     sm_bind (load_generation_manifest k) (\<lambda>loaded.
     sm_bind (sm_lift (res_of_option (Serialization ''generation manifest is missing'') loaded)) (\<lambda>manifest.
     if gm_status manifest \<in> {Staging, Retired, Failed}
     then sm_err (Serialization ''generation manifest is not publishable'')
     else sm_bind (sled_best_header k) (\<lambda>best.
     if \<not> tip_matches e manifest best then sm_err (Serialization (tip_mismatch e manifest best))
     else sm_bind (load_generation_publication k) (\<lambda>record.
     sm_bind (sm_lift (publication_is_stale k e manifest record)) (\<lambda>stale_publication.
     sm_bind (load_replay_checkpoint k) (\<lambda>checkpoint.
     sm_seq (check_replay_checkpoint k e manifest best checkpoint)
    (sm_seq (if stale_publication then write_generation_publication k e manifest else sm_ok ())
     (sm_ok manifest))))))))"

definition finish_publication :: "'d backend \<Rightarrow> ext \<Rightarrow> generation_manifest \<Rightarrow> ('d, unit) db" where
  "finish_publication k e target =
     sm_seq (sync_suffix_replay_checkpoint k target)
    (sm_seq (write_generation_manifest k target)
    (sm_seq (write_generation_publication k e target)
     (clear_suffix_publication k)))"

definition recover_suffix_publication :: "'d backend \<Rightarrow> ext \<Rightarrow> ('d, unit) db" where
  "recover_suffix_publication k e =
     sm_bind (load_suffix_publication k) (\<lambda>loaded.
     case loaded of
       None \<Rightarrow> sm_ok ()
     | Some record \<Rightarrow>
         sm_bind (sled_best_header k) (\<lambda>best.
         if tip_matches e (sx_target_manifest record) best then finish_publication k e (sx_target_manifest record)
         else if tip_matches e (sx_previous_manifest record) best then clear_suffix_publication k
         else sm_err (Serialization ''suffix publication journal does not match stored canonical tip'')))"

section \<open>Publishing a suffix\<close>

fun contiguous_suffix :: "ext \<Rightarrow> block_header \<Rightarrow> block list \<Rightarrow> storage_error + block_header" where
  "contiguous_suffix e parent [] = Inr parent"
| "contiguous_suffix e parent (b # bs) =
     (if h_number (b_header b) \<noteq> saturating_add (h_number parent) 1 \<or> h_parent_hash (b_header b) \<noteq> header_hash e parent
      then Inl (Serialization
        (''suffix publication replacement is not contiguous at height '' @ dec_string (unat (h_number (b_header b))) @
         '': expected parent '' @ hash_to_hex e (header_hash e parent) @ '' at height '' @
         dec_string (unat (h_number parent)) @ '', got parent '' @ hash_to_hex e (h_parent_hash (b_header b))))
      else contiguous_suffix e (b_header b) bs)"

definition removed_blocks :: "'d backend \<Rightarrow> ext \<Rightarrow> u64 \<Rightarrow> u64 \<Rightarrow> ('d, batch) db" where
  "removed_blocks k e reorg_from best_number =
     sm_fold (\<lambda>number batch. sm_bind (sled_block_by_number k (of_nat number)) (\<lambda>b.
       sm_ok (remove_block_from_batch e b batch))) [unat reorg_from..<Suc (unat best_number)] []"

definition removed_logs :: "'d backend \<Rightarrow> u64 \<Rightarrow> batch \<Rightarrow> ('d, batch) db" where
  "removed_logs k reorg_from batch =
     scan_fold k (as_bytes ''log:index:'') (\<lambda>(key, v) batch.
       sm_bind (sm_lift (log_block_number v)) (\<lambda>number.
       sm_ok (if reorg_from \<le> number then batch @ [(key, None)] else batch))) batch"

definition removed_entries :: "'d backend \<Rightarrow> bytes \<Rightarrow> batch \<Rightarrow> ('d, batch) db" where
  "removed_entries k p batch = scan_fold k p (\<lambda>(key, v) batch. sm_ok (batch @ [(key, None)])) batch"

definition native_batch :: "ext \<Rightarrow> native_accounts \<Rightarrow> batch" where
  "native_batch e native_accounts =
     concat (map (\<lambda>(a, balance, nonce). [(balance_key e a, Some (to_be_bytes balance)), (nonce_key e a, Some (to_be_bytes nonce))])
       (fm_entries native_accounts))"

definition evm_batch :: "ext \<Rightarrow> evm_state_snapshot \<Rightarrow> batch" where
  "evm_batch e evm_accounts =
     concat (map (\<lambda>(a, balance, nonce, code, slots).
       (if code \<noteq> [] then [(code_key e a, Some code)] else []) @
       concat (map (\<lambda>(slot, v). if v \<noteq> ZERO_HASH then [(storage_key e a slot, Some (arr_bytes v))] else [])
         (fm_entries slots))) (fm_entries evm_accounts))"

definition counters_batch :: "u64 \<Rightarrow> u64 \<times> u128 \<times> u128 \<Rightarrow> batch" where
  "counters_batch number = (\<lambda>(indexed_to, total_supply, burned).
     [(as_bytes ''state:rewards:indexed_to'', Some (to_be_bytes number)),
      (as_bytes ''state:supply:indexed_to'', Some (to_be_bytes indexed_to)),
      (as_bytes ''state:supply:total'', Some (to_be_bytes total_supply)),
      (as_bytes ''state:supply:burned'', Some (to_be_bytes burned)),
      (as_bytes ''best:number'', Some (to_be_bytes number))])"

definition suffix_batch ::
  "'d backend \<Rightarrow> ext \<Rightarrow> u64 \<Rightarrow> u64 \<Rightarrow> block_header \<Rightarrow> block list \<Rightarrow> native_accounts \<Rightarrow> evm_state_snapshot \<Rightarrow>
   u64 \<times> u128 \<times> u128 \<Rightarrow> ('d, batch) db" where
  "suffix_batch k e reorg_from best_number parent replacement native_accounts evm_accounts totals =
     sm_bind (removed_blocks k e reorg_from best_number) (\<lambda>batch.
     sm_bind (removed_logs k reorg_from batch) (\<lambda>batch.
     sm_bind (removed_entries k (as_bytes ''account:'') batch) (\<lambda>batch.
     sm_bind (removed_entries k (as_bytes EVM_SNAPSHOT_PREFIX) batch) (\<lambda>batch.
     sm_bind (sm_lift (res_fold (insert_block_into_batch k e) replacement batch)) (\<lambda>batch.
     sm_bind (json (js_snapshot k (snapshot_entries evm_accounts))) (\<lambda>snapshot.
     sm_ok (batch @ native_batch e native_accounts @ evm_batch e evm_accounts @
       [(evm_snapshot_key (h_number parent), Some snapshot)] @ counters_batch (h_number parent) totals)))))))"

definition publish_canonical_suffix ::
  "'d backend \<Rightarrow> ext \<Rightarrow> block_header \<Rightarrow> block list \<Rightarrow> native_accounts \<Rightarrow> evm_state_snapshot \<Rightarrow>
   u64 \<times> u128 \<times> u128 \<Rightarrow> generation_manifest \<Rightarrow> ('d, unit) db" where
  "publish_canonical_suffix k e ancestor replacement native_accounts evm_accounts totals target =
     sm_bind (load_generation_manifest k) (\<lambda>loaded.
     sm_bind (sm_lift (res_of_option (Serialization ''suffix publication requires an active manifest'') loaded)) (\<lambda>previous.
     sm_bind (sled_best_header k) (\<lambda>best.
     sm_bind (if h_number best < h_number ancestor then sm_ok False
       else sm_bind (sled_header_by_number k (h_number ancestor)) (\<lambda>stored.
         sm_ok (header_hash e stored = header_hash e ancestor))) (\<lambda>canonical.
     if \<not> canonical then sm_err (Serialization ''suffix publication ancestor is not canonical'')
     else sm_bind (sm_lift (contiguous_suffix e ancestor replacement)) (\<lambda>parent.
     if replacement = [] \<or> \<not> tip_matches e target parent \<or> gm_replay_checkpoint target \<noteq> Some (h_number parent)
     then sm_err (Serialization ''suffix publication manifest does not match replacement tip'')
     else sm_seq (write_suffix_publication k \<lparr>sx_previous_manifest = previous, sx_target_manifest = target\<rparr>)
      (sm_bind (suffix_batch k e (saturating_add (h_number ancestor) 1) (h_number best) parent replacement
          native_accounts evm_accounts totals) (\<lambda>batch.
       sm_seq (db_apply_batch k batch)
      (sm_seq (db_flush k)
       (finish_publication k e target)))))))))"

section \<open>What the batch of a publication holds\<close>

definition stored_best :: "'d backend \<Rightarrow> (bytes, bytes) fmap \<Rightarrow> block_header \<Rightarrow> bool" where
  "stored_best k m h \<longleftrightarrow> fst (sled_best_header (ref_backend k) (bare m)) = Inr h"

lemma reads_kv_json [reader]: "reads_kv (json r)"
  unfolding json_def by (intro reader)

lemma reads_kv_headers [reader]:
  "reads_kv (sled_header_by_number (ref_backend k) n)" "reads_kv (get_best_number (ref_backend k))"
  "reads_kv (sled_best_header (ref_backend k))" "reads_kv (sled_block_by_number (ref_backend k) n)"
  unfolding sled_best_header_def get_best_number_def sled_header_by_number_def sled_block_by_number_def
  by (intro reader)+

lemma reads_kv_suffix_batch [reader]:
  "reads_kv (suffix_batch (ref_backend k) e reorg_from best_number parent replacement native evm totals)"
  unfolding suffix_batch_def removed_blocks_def removed_logs_def removed_entries_def
  by (intro reader)

lemma header_lookup:
  "fst (sled_header_by_number (ref_backend k) n (bare m)) = Inr h \<longleftrightarrow>
   (\<exists>v. fmlookup m (header_key n) = Some v \<and> js_header_of k v = Inr h)"
  by (auto simp: sled_header_by_number_def json_def sm_bind_def sm_gets_def sm_lift_def db_get_def res_simps
      split: option.splits sum.splits)

lemma stored_best_iff:
  "stored_best k m h \<longleftrightarrow> (\<exists>v w. fmlookup m (as_bytes ''best:number'') = Some v \<and> length v = 8 \<and>
     fmlookup m (header_key (from_be_bytes v)) = Some w \<and> js_header_of k w = Inr h)"
proof -
  have "get_best_number (ref_backend k) (bare m) =
    (case fmlookup m (as_bytes ''best:number'') of None \<Rightarrow> Inl NotFound
     | Some v \<Rightarrow> if length v = 8 then Inr (from_be_bytes v) else Inl (Serialization ''invalid best number''), bare m)"
    by (simp add: get_best_number_def sm_bind_def sm_gets_def sm_lift_def db_get_def u64_from_slice_def res_simps
        split: option.splits)
  then show ?thesis
    unfolding stored_best_def sled_best_header_def
    using header_lookup [of k _ m h] by (auto simp: sm_bind_def split: option.splits)
qed

definition batch_keys :: "ext \<Rightarrow> (db_key \<Rightarrow> bool) \<Rightarrow> batch \<Rightarrow> bool" where
  "batch_keys e C ops \<longleftrightarrow> (\<forall>key v. (key, v) \<in> set ops \<longrightarrow> (\<exists>dk. key = key_bytes e dk \<and> C dk))"

lemma batch_keys_append [simp]:
  "batch_keys e C []" "batch_keys e C (x @ y) \<longleftrightarrow> batch_keys e C x \<and> batch_keys e C y"
  "batch_keys e C ((key, v) # x) \<longleftrightarrow> (\<exists>dk. key = key_bytes e dk \<and> C dk) \<and> batch_keys e C x"
  "batch_keys e C (concat xs) \<longleftrightarrow> (\<forall>x \<in> set xs. batch_keys e C x)"
  by (auto simp: batch_keys_def)

lemma batch_keys_lookup:
  assumes "hex_text_spec e" "batch_keys e C ops" "\<not> C dk"
  shows "last_op ops (key_bytes e dk) = None"
  using assms key_bytes_inj [OF assms(1)] by (auto simp: last_op_None batch_keys_def image_iff)

lemma res_fold_parts:
  assumes "res_fold (\<lambda>x acc. res_bind (g x) (\<lambda>ops. Inr (acc @ ops))) xs acc = Inr r"
  shows "\<exists>parts. r = acc @ concat parts \<and> list_all2 (\<lambda>x ops. g x = Inr ops) xs parts"
  using assms
proof (induction xs arbitrary: acc)
  case (Cons x xs)
  then obtain ops where ops: "g x = Inr ops"
    "res_fold (\<lambda>x acc. res_bind (g x) (\<lambda>ops. Inr (acc @ ops))) xs (acc @ ops) = Inr r"
    by (auto simp: res_simps)
  obtain parts where "r = (acc @ ops) @ concat parts" "list_all2 (\<lambda>x ops. g x = Inr ops) xs parts"
    using Cons.IH [OF ops(2)] by blast
  then show ?case using ops(1) by (intro exI [of _ "ops # parts"]) simp
qed simp

fun index_key :: "db_key \<Rightarrow> bool" where
  "index_key (TransactionOf h) = True"
| "index_key (ReceiptOf h) = True"
| "index_key (LogAt l) = True"
| "index_key (LogByAddress a l) = True"
| "index_key (LogByTopic t l) = True"
| "index_key _ = False"

lemma transaction_batch_keys:
  assumes "transaction_batch k e b it = Inr ops"
  shows "batch_keys e index_key ops"
proof -
  have "\<exists>dk. transaction_key e h = key_bytes e dk \<and> index_key dk" "\<exists>dk. receipt_key e h = key_bytes e dk \<and> index_key dk" for h
    unfolding key_folds [where e = e] by (metis index_key.simps(1,2))+
  then show ?thesis
    using assms by (auto simp: transaction_batch_def res_simps split: prod.splits option.splits)
qed

lemma log_batch_keys: "batch_keys e index_key (log_batch e b)"
proof -
  have "\<exists>dk. log_location_key e l = key_bytes e dk \<and> index_key dk"
    "\<exists>dk. log_address_key e a l = key_bytes e dk \<and> index_key dk"
    "\<exists>dk. log_topic_key e t l = key_bytes e dk \<and> index_key dk" for l a t
    unfolding key_folds [where e = e] by (metis index_key.simps(3,4,5))+
  note keys = this
  then have "batch_keys e index_key (map (\<lambda>t. (log_topic_key e t l, v)) ts)" for l v ts
    unfolding batch_keys_def by auto
  then show ?thesis using keys by (auto simp: log_batch_def Let_def)
qed

lemma insert_block_into_batch_ok:
  assumes "insert_block_into_batch k e b ops = Inr ops'"
  obtains bv hv rest where "js_block k b = Inr bv" "js_header k (b_header b) = Inr hv"
    "ops' = ops @ [(block_key (h_number (b_header b)), Some bv), (header_key (h_number (b_header b)), Some hv)] @ rest"
    "batch_keys e index_key rest"
proof -
  obtain bv hv r where v: "js_block k b = Inr bv" "js_header k (b_header b) = Inr hv"
    and r: "res_fold (\<lambda>it acc. res_bind (transaction_batch k e b it) (\<lambda>ops. Inr (acc @ ops)))
      (enumerate 0 (b_transactions b))
      (ops @ [(block_key (h_number (b_header b)), Some bv), (header_key (h_number (b_header b)), Some hv)]) = Inr r"
    and ops': "ops' = r @ log_batch e b"
    using assms by (auto simp: insert_block_into_batch_def batch_json_def res_simps)
  obtain parts where parts: "r = (ops @ [(block_key (h_number (b_header b)), Some bv), (header_key (h_number (b_header b)), Some hv)]) @ concat parts"
    "list_all2 (\<lambda>it ops. transaction_batch k e b it = Inr ops) (enumerate 0 (b_transactions b)) parts"
    using res_fold_parts [OF r] by blast
  have "\<forall>p \<in> set parts. batch_keys e index_key p"
    using parts(2) by (induction rule: list_all2_induct) (auto intro: transaction_batch_keys)
  then show thesis
    by (intro that [OF v, of "concat parts @ log_batch e b"]) (simp_all add: ops' parts(1) log_batch_keys)
qed

fun state_key :: "db_key \<Rightarrow> bool" where
  "state_key (BalanceOf a) = True"
| "state_key (NonceOf a) = True"
| "state_key (CodeOf a) = True"
| "state_key (StorageOf a h) = True"
| "state_key (EvmSnapshotAt n) = True"
| "state_key RewardsIndexedTo = True"
| "state_key SupplyIndexedTo = True"
| "state_key SupplyTotal = True"
| "state_key SupplyBurned = True"
| "state_key BestNumber = True"
| "state_key _ = False"

lemma key_bytes_ex:
  "\<exists>dk. key_bytes e dj = key_bytes e dk \<and> C dk" if "C dj"
  using that by blast

lemma state_batch_keys:
  "batch_keys e state_key (native_batch e native)" "batch_keys e state_key (evm_batch e evm)"
  "batch_keys e state_key [(evm_snapshot_key n, v)]" "batch_keys e state_key (counters_batch n totals)"
  unfolding native_batch_def evm_batch_def counters_batch_def key_folds [where e = e]
  by (auto intro!: key_bytes_ex split: prod.splits)

lemma batch_serde [simp]:
  "transaction_batch (ref_backend k) e b = transaction_batch k e b"
  "insert_block_into_batch (ref_backend k) e b = insert_block_into_batch k e b"
  by (simp_all add: fun_eq_iff transaction_batch_def insert_block_into_batch_def)

lemma insert_batch_ref [simp]: "insert_block_into_batch (ref_backend k) e = insert_block_into_batch k e"
  by (rule ext) simp

definition log_removal :: "u64 \<Rightarrow> bytes \<times> bytes \<Rightarrow> batch \<Rightarrow> storage_error + batch" where
  "log_removal reorg_from = (\<lambda>(key, v) ops. res_bind (log_block_number v) (\<lambda>n.
     Inr (if reorg_from \<le> n then ops @ [(key, None)] else ops)))"

lemma log_removals:
  "res_fold (log_removal reorg_from) es ops = Inr ops' \<Longrightarrow>
   ops' = ops @ map (\<lambda>(key, v). (key, None)) (filter (\<lambda>(key, v). \<exists>n. log_block_number v = Inr n \<and> reorg_from \<le> n) es)"
proof (induction es arbitrary: ops)
  case (Cons kv es)
  obtain key v where kv: "kv = (key, v)" by fastforce
  obtain n where n: "log_block_number v = Inr n"
    using Cons.prems by (auto simp: kv log_removal_def res_simps)
  have "res_fold (log_removal reorg_from) es (if reorg_from \<le> n then ops @ [(key, None)] else ops) = Inr ops'"
    using Cons.prems n by (simp add: kv log_removal_def)
  from Cons.IH [OF this] show ?case using n by (simp add: kv)
qed simp

lemma removed_logs_ref:
  assumes "fst (removed_logs (ref_backend k) reorg_from ops (bare m)) = Inr ops'"
  shows "ops' = ops @ map (\<lambda>(key, v). (key, None)) (filter (\<lambda>(key, v). \<exists>n. log_block_number v = Inr n \<and> reorg_from \<le> n)
    (scan_entries (as_bytes ''log:index:'') m))"
proof (rule log_removals)
  let ?f = "\<lambda>(key, v) batch. sm_bind (sm_lift (log_block_number v)) (\<lambda>number.
    sm_ok (if reorg_from \<le> number then batch @ [(key, None)] else batch))"
  have r: "reads_kv (?f kv acc :: (disk, batch) db)" for kv acc by (cases kv) (auto intro: reader)
  have "(\<lambda>kv acc. fst (?f kv acc (bare m))) = log_removal reorg_from"
    by (auto simp: fun_eq_iff log_removal_def sm_bind_def sm_lift_def sm_ok_def split: sum.split)
  then show "res_fold (log_removal reorg_from) (scan_entries (as_bytes ''log:index:'') m) ops = Inr ops'"
    using assms bare_scan_fold [of ?f k "as_bytes ''log:index:''" ops m, OF r] by (simp only: removed_logs_def)
qed

lemma removed_entries_ref:
  "fst (removed_entries (ref_backend k) p ops (bare m)) = Inr (ops @ map (\<lambda>(key, v). (key, None)) (scan_entries p m))"
proof -
  have "res_fold (\<lambda>kv acc. fst ((case kv of (key, v) \<Rightarrow> \<lambda>batch. sm_ok (batch @ [(key, None)])) acc (bare m))) es ops =
    Inr (ops @ map (\<lambda>(key, v). (key, None)) es)" for es
    by (induction es arbitrary: ops) (auto simp: sm_ok_def)
  then show ?thesis
    unfolding removed_entries_def by (subst bare_scan_fold) (auto intro: reader)
qed

definition removed_state :: "u64 \<Rightarrow> (bytes, bytes) fmap \<Rightarrow> batch" where
  "removed_state reorg_from m = map (\<lambda>(key, v). (key, None))
     (filter (\<lambda>(key, v). \<exists>n. log_block_number v = Inr n \<and> reorg_from \<le> n) (scan_entries (as_bytes ''log:index:'') m) @
      scan_entries (as_bytes ''account:'') m @ scan_entries (as_bytes EVM_SNAPSHOT_PREFIX) m)"

lemma suffix_batch_parts:
  assumes "fst (suffix_batch (ref_backend k) e reorg_from best_number parent replacement native evm totals (bare m)) = Inr ops"
  obtains old blocks snapshot where
    "fst (removed_blocks (ref_backend k) e reorg_from best_number (bare m)) = Inr old"
    "res_fold (insert_block_into_batch k e) replacement (old @ removed_state reorg_from m) = Inr blocks"
    "js_snapshot k (snapshot_entries evm) = Inr snapshot"
    "ops = blocks @ native_batch e native @ evm_batch e evm @
       [(evm_snapshot_key (h_number parent), Some snapshot)] @ counters_batch (h_number parent) totals"
proof -
  have r: "reads_kv (removed_blocks (ref_backend k) e reorg_from best_number)"
    "reads_kv (removed_logs (ref_backend k) reorg_from b)" "reads_kv (removed_entries (ref_backend k) p b)"
    "reads_kv (sm_lift x)" "reads_kv (json y)" for b p x and y :: "string + bytes"
    unfolding removed_blocks_def removed_logs_def removed_entries_def by (intro reader)+
  obtain old where old: "fst (removed_blocks (ref_backend k) e reorg_from best_number (bare m)) = Inr old"
    using assms unfolding suffix_batch_def reads_kv_bind_fst [OF r(1)] by (auto simp: res_simps)
  obtain logs where logs: "fst (removed_logs (ref_backend k) reorg_from old (bare m)) = Inr logs"
    using assms unfolding suffix_batch_def reads_kv_bind_fst [OF r(1)] old
    by (auto simp: res_simps reads_kv_bind_fst [OF r(2)])
  let ?old = "old @ removed_state reorg_from m"
  have state: "logs @ map (\<lambda>(key, v). (key, None)) (scan_entries (as_bytes ''account:'') m) @
      map (\<lambda>(key, v). (key, None)) (scan_entries (as_bytes EVM_SNAPSHOT_PREFIX) m) = ?old"
    using removed_logs_ref [OF logs] by (simp add: removed_state_def)
  have "fst (suffix_batch (ref_backend k) e reorg_from best_number parent replacement native evm totals (bare m)) =
    res_bind (res_fold (insert_block_into_batch k e) replacement ?old) (\<lambda>batch.
    res_bind (res_map_err Serialization (js_snapshot k (snapshot_entries evm))) (\<lambda>snapshot.
     Inr (batch @ native_batch e native @ evm_batch e evm @
       [(evm_snapshot_key (h_number parent), Some snapshot)] @ counters_batch (h_number parent) totals)))"
    unfolding suffix_batch_def reads_kv_bind_fst [OF r(1)] old
    by (simp add: reads_kv_bind_fst [OF r(2)] reads_kv_bind_fst [OF r(3)] reads_kv_bind_fst [OF r(4)] json_def
        reads_kv_bind_fst [OF r(5) [unfolded json_def]] logs removed_entries_ref state)
      (simp add: sm_lift_def sm_ok_def)
  with assms obtain blocks snapshot where
    "res_fold (insert_block_into_batch k e) replacement ?old = Inr blocks"
    "js_snapshot k (snapshot_entries evm) = Inr snapshot"
    "ops = blocks @ native_batch e native @ evm_batch e evm @
       [(evm_snapshot_key (h_number parent), Some snapshot)] @ counters_batch (h_number parent) totals"
    by (auto simp: res_simps)
  then show thesis by (rule that [OF old])
qed

lemma contiguous_suffix_last: "contiguous_suffix e a (bs @ [b]) = Inr parent \<Longrightarrow> parent = b_header b"
  by (induction bs arbitrary: a) (auto split: if_splits)

lemma suffix_batch_tip:
  assumes "hex_text_spec e" "serde_spec k" "replacement \<noteq> []"
    and "contiguous_suffix e ancestor replacement = Inr parent"
    and "fst (suffix_batch (ref_backend k) e reorg_from best_number parent replacement native evm totals (bare m)) = Inr ops"
  shows "stored_best k (batch_apply ops m) parent"
    "fst (sled_header_by_number (ref_backend k) (h_number parent) (bare (batch_apply ops m))) = Inr parent"
proof -
  obtain bs b where repl: "replacement = bs @ [b]" using assms(3) by (metis rev_exhaust)
  then have parent: "parent = b_header b" using assms(4) contiguous_suffix_last by blast
  obtain old blocks snapshot where blocks: "res_fold (insert_block_into_batch k e) replacement old = Inr blocks"
    and ops: "ops = blocks @ native_batch e native @ evm_batch e evm @
       [(evm_snapshot_key (h_number parent), Some snapshot)] @ counters_batch (h_number parent) totals"
    using suffix_batch_parts [OF assms(5)] by metis
  obtain acc where "insert_block_into_batch k e b acc = Inr blocks"
    using blocks by (auto simp: repl res_fold_append res_simps)
  from insert_block_into_batch_ok [OF this] obtain hv rest bv where hv: "js_header k parent = Inr hv"
    and bl: "blocks = acc @ [(block_key (h_number parent), Some bv), (header_key (h_number parent), Some hv)] @ rest"
    and rest: "batch_keys e index_key rest" by (metis parent)
  let ?tail = "native_batch e native @ evm_batch e evm @ [(evm_snapshot_key (h_number parent), Some snapshot)] @
    counters_batch (h_number parent) totals"
  have tail: "batch_keys e state_key ?tail" using state_batch_keys [of e] by simp
  have "last_op ?tail (key_bytes e (HeaderAt n)) = None" "last_op rest (key_bytes e (HeaderAt n)) = None" for n
    using batch_keys_lookup [OF assms(1) tail] batch_keys_lookup [OF assms(1) rest] by simp_all
  then have header: "last_op ops (header_key (h_number parent)) = Some (Some hv)"
    unfolding ops bl by (simp only: last_op_append [of _ ?tail] last_op_append [of _ rest] append_assoc
        last_op_append [of acc] key_folds [where e = e]) (simp add: last_op_append last_op_Cons)
  have best: "last_op ops (as_bytes ''best:number'') = Some (Some (to_be_bytes (h_number parent)))"
    unfolding ops by (cases totals) (simp add: counters_batch_def last_op_append last_op_Cons)
  show "stored_best k (batch_apply ops m) parent"
    unfolding stored_best_iff
    using serde_roundtrip(2) [OF assms(2) hv] header best by (simp add: lookup_batch_apply)
  show "fst (sled_header_by_number (ref_backend k) (h_number parent) (bare (batch_apply ops m))) = Inr parent"
    unfolding header_lookup using serde_roundtrip(2) [OF assms(2) hv] header by (simp add: lookup_batch_apply)
qed

section \<open>The files of a generation and the faults of their updates\<close>

text \<open>The database and the four files: manifest, checkpoint, publication record, journal.\<close>

type_synonym gen_state = "(bytes, bytes) fmap \<times> bytes option \<times> bytes option \<times> bytes option \<times> bytes option"

definition gen_state :: "disk \<Rightarrow> gen_state" where
  "gen_state d = (dk_kv d, fmlookup (dk_files d) GENERATION_MANIFEST_FILE, fmlookup (dk_files d) GENERATION_CHECKPOINT_FILE,
     fmlookup (dk_files d) GENERATION_PUBLICATION_FILE, fmlookup (dk_files d) SUFFIX_PUBLICATION_FILE)"

definition generation_files :: "string list" where
  "generation_files = [GENERATION_MANIFEST_FILE, GENERATION_CHECKPOINT_FILE, GENERATION_PUBLICATION_FILE, SUFFIX_PUBLICATION_FILE]"

lemmas generation_file_names = GENERATION_MANIFEST_FILE_def GENERATION_CHECKPOINT_FILE_def
  GENERATION_PUBLICATION_FILE_def SUFFIX_PUBLICATION_FILE_def

lemma generation_files_distinct:
  "GENERATION_MANIFEST_FILE \<noteq> GENERATION_CHECKPOINT_FILE" "GENERATION_MANIFEST_FILE \<noteq> GENERATION_PUBLICATION_FILE"
  "GENERATION_MANIFEST_FILE \<noteq> SUFFIX_PUBLICATION_FILE" "GENERATION_CHECKPOINT_FILE \<noteq> GENERATION_PUBLICATION_FILE"
  "GENERATION_CHECKPOINT_FILE \<noteq> SUFFIX_PUBLICATION_FILE" "GENERATION_PUBLICATION_FILE \<noteq> SUFFIX_PUBLICATION_FILE"
  by (simp_all add: generation_file_names)

lemma tmp_names:
  assumes "f \<in> set generation_files"
  shows "f @ ''.tmp'' \<noteq> GENERATION_MANIFEST_FILE" "f @ ''.tmp'' \<noteq> GENERATION_CHECKPOINT_FILE"
    "f @ ''.tmp'' \<noteq> GENERATION_PUBLICATION_FILE" "f @ ''.tmp'' \<noteq> SUFFIX_PUBLICATION_FILE"
  using assms unfolding generation_files_def generation_file_names by auto

lemma tmp_gen_state:
  assumes "f \<in> set generation_files"
  shows "gen_state (files_upd (fmupd (f @ ''.tmp'') cs) d) = gen_state d"
  using tmp_names [OF assms] by (simp add: gen_state_def)

lemma rename_gen_state:
  assumes "f \<in> set generation_files" "gen_state d = (K, a, b, p, j)"
  shows "gen_state (files_upd (\<lambda>m. fmupd f bs (fmdrop (f @ ''.tmp'') m)) d) =
    (K, if f = GENERATION_MANIFEST_FILE then Some bs else a, if f = GENERATION_CHECKPOINT_FILE then Some bs else b,
     if f = GENERATION_PUBLICATION_FILE then Some bs else p, if f = SUFFIX_PUBLICATION_FILE then Some bs else j)"
  using assms(2) tmp_names [OF assms(1)] tmp_names [OF assms(1), symmetric] by (auto simp: gen_state_def)

lemma drop_gen_state:
  assumes "gen_state d = (K, a, b, p, j)"
  shows "gen_state (files_upd (fmdrop f) d) =
    (K, if f = GENERATION_MANIFEST_FILE then None else a, if f = GENERATION_CHECKPOINT_FILE then None else b,
     if f = GENERATION_PUBLICATION_FILE then None else p, if f = SUFFIX_PUBLICATION_FILE then None else j)"
  using assms by (auto simp: gen_state_def)

lemma triple_gen_replace:
  assumes "sled_spec k c" "f \<in> set generation_files"
    and "\<And>K a b p j bs. P (K, a, b, p, j) \<Longrightarrow> js = Inr bs \<Longrightarrow>
      Q (K, if f = GENERATION_MANIFEST_FILE then Some bs else a, if f = GENERATION_CHECKPOINT_FILE then Some bs else b,
        if f = GENERATION_PUBLICATION_FILE then Some bs else p, if f = SUFFIX_PUBLICATION_FILE then Some bs else j)"
    and "\<And>g. P g \<Longrightarrow> R g" "\<And>g. Q g \<Longrightarrow> R g"
  shows "triple c (\<lambda>d. P (gen_state d)) (file_replace k f js) (\<lambda>_ d. Q (gen_state d)) (\<lambda>d. R (gen_state d))"
proof (rule triple_file_replace [OF assms(1)])
  fix d bs
  assume P: "P (gen_state d)" and enc: "js = Inr bs"
  obtain K a b p j where g: "gen_state d = (K, a, b, p, j)" by (cases "gen_state d") auto
  show "Q (gen_state (files_upd (\<lambda>m. fmupd f bs (fmdrop (f @ ''.tmp'') m)) d))"
    unfolding rename_gen_state [OF assms(2) g] by (rule assms(3)) (use P enc g in simp_all)
qed (simp_all add: tmp_gen_state [OF assms(2)] assms(4,5))

lemma triple_gen_writes:
  assumes "sled_spec k c" "\<And>g. P g \<Longrightarrow> R g" "\<And>g. Q g \<Longrightarrow> R g"
  shows "(\<And>K a b p j bs. P (K, a, b, p, j) \<Longrightarrow> js_manifest_pretty k m = Inr bs \<Longrightarrow> Q (K, Some bs, b, p, j)) \<Longrightarrow>
      triple c (\<lambda>d. P (gen_state d)) (write_generation_manifest k m) (\<lambda>_ d. Q (gen_state d)) (\<lambda>d. R (gen_state d))"
    "(\<And>K a b p j bs. P (K, a, b, p, j) \<Longrightarrow> js_checkpoint_pretty k ck = Inr bs \<Longrightarrow> Q (K, a, Some bs, p, j)) \<Longrightarrow>
      triple c (\<lambda>d. P (gen_state d)) (write_replay_checkpoint k ck) (\<lambda>_ d. Q (gen_state d)) (\<lambda>d. R (gen_state d))"
    "(\<And>K a b p j bs. P (K, a, b, p, j) \<Longrightarrow> publication_record_json k e m = Inr bs \<Longrightarrow> Q (K, a, b, Some bs, j)) \<Longrightarrow>
      triple c (\<lambda>d. P (gen_state d)) (write_generation_publication k e m) (\<lambda>_ d. Q (gen_state d)) (\<lambda>d. R (gen_state d))"
    "(\<And>K a b p j bs. P (K, a, b, p, j) \<Longrightarrow> js_suffix_pretty k sx = Inr bs \<Longrightarrow> Q (K, a, b, p, Some bs)) \<Longrightarrow>
      triple c (\<lambda>d. P (gen_state d)) (write_suffix_publication k sx) (\<lambda>_ d. Q (gen_state d)) (\<lambda>d. R (gen_state d))"
    "(\<And>K a b p j. P (K, a, b, p, j) \<Longrightarrow> Q (K, a, b, p, None)) \<Longrightarrow>
      triple c (\<lambda>d. P (gen_state d)) (clear_suffix_publication k) (\<lambda>_ d. Q (gen_state d)) (\<lambda>d. R (gen_state d))"
proof -
  note distinct = generation_files_distinct generation_files_distinct [symmetric]
  note replace = triple_gen_replace [OF assms(1) _ _ assms(2,3)]
  show "triple c (\<lambda>d. P (gen_state d)) (write_generation_manifest k m) (\<lambda>_ d. Q (gen_state d)) (\<lambda>d. R (gen_state d))"
    if "\<And>K a b p j bs. P (K, a, b, p, j) \<Longrightarrow> js_manifest_pretty k m = Inr bs \<Longrightarrow> Q (K, Some bs, b, p, j)"
    unfolding write_generation_manifest_def
    by (rule replace) (simp_all add: generation_files_def distinct that)
  show "triple c (\<lambda>d. P (gen_state d)) (write_replay_checkpoint k ck) (\<lambda>_ d. Q (gen_state d)) (\<lambda>d. R (gen_state d))"
    if "\<And>K a b p j bs. P (K, a, b, p, j) \<Longrightarrow> js_checkpoint_pretty k ck = Inr bs \<Longrightarrow> Q (K, a, Some bs, p, j)"
    unfolding write_replay_checkpoint_def
    by (rule replace) (simp_all add: generation_files_def distinct that)
  show "triple c (\<lambda>d. P (gen_state d)) (write_generation_publication k e m) (\<lambda>_ d. Q (gen_state d)) (\<lambda>d. R (gen_state d))"
    if "\<And>K a b p j bs. P (K, a, b, p, j) \<Longrightarrow> publication_record_json k e m = Inr bs \<Longrightarrow> Q (K, a, b, Some bs, j)"
    unfolding write_generation_publication_def
    by (rule replace) (simp_all add: generation_files_def distinct that)
  show "triple c (\<lambda>d. P (gen_state d)) (write_suffix_publication k sx) (\<lambda>_ d. Q (gen_state d)) (\<lambda>d. R (gen_state d))"
    if "\<And>K a b p j bs. P (K, a, b, p, j) \<Longrightarrow> js_suffix_pretty k sx = Inr bs \<Longrightarrow> Q (K, a, b, p, Some bs)"
    unfolding write_suffix_publication_def
    by (rule replace) (simp_all add: generation_files_def distinct that)
  show "triple c (\<lambda>d. P (gen_state d)) (clear_suffix_publication k) (\<lambda>_ d. Q (gen_state d)) (\<lambda>d. R (gen_state d))"
    if clear: "\<And>K a b p j. P (K, a, b, p, j) \<Longrightarrow> Q (K, a, b, p, None)"
    unfolding clear_suffix_publication_def
  proof (rule triple_file_remove [OF assms(1)])
    fix d
    assume P: "P (gen_state d)"
    obtain K a b p j where g: "gen_state d = (K, a, b, p, j)" by (cases "gen_state d") auto
    show "Q (gen_state (files_upd (fmdrop SUFFIX_PUBLICATION_FILE) d))"
      using P g clear by (simp add: drop_gen_state [OF g] distinct)
  qed (simp_all add: assms(2,3))
qed

section \<open>The states a publication can leave behind\<close>

text \<open>
  The publication of a suffix goes through three groups of states: everything is old (perhaps with a
  journal), the database is new and a journal is present, everything is new and the journal is gone.
\<close>

type_synonym gen_files = "bytes option \<times> bytes option \<times> bytes option"

definition pub_old :: "(bytes, bytes) fmap \<Rightarrow> gen_files \<Rightarrow> (bytes \<Rightarrow> bool) \<Rightarrow> gen_state \<Rightarrow> bool" where
  "pub_old K0 old J = (\<lambda>(K, a, b, p, j). K = K0 \<and> (a, b, p) = old \<and> (\<forall>x. j = Some x \<longrightarrow> J x))"

definition pub_mid :: "((bytes, bytes) fmap \<Rightarrow> bool) \<Rightarrow> gen_files \<Rightarrow> gen_files \<Rightarrow> (bytes \<Rightarrow> bool) \<Rightarrow> gen_state \<Rightarrow> bool" where
  "pub_mid N = (\<lambda>(a0, b0, p0) (a1, b1, p1) J (K, a, b, p, j). N K \<and> a \<in> {a0, a1} \<and> b \<in> {b0, b1} \<and> p \<in> {p0, p1} \<and>
     (\<exists>x. j = Some x \<and> J x))"

definition pub_new :: "((bytes, bytes) fmap \<Rightarrow> bool) \<Rightarrow> gen_files \<Rightarrow> gen_state \<Rightarrow> bool" where
  "pub_new N new = (\<lambda>(K, a, b, p, j). N K \<and> (a, b, p) = new \<and> j = None)"

definition pub_inv ::
  "(bytes, bytes) fmap \<Rightarrow> ((bytes, bytes) fmap \<Rightarrow> bool) \<Rightarrow> gen_files \<Rightarrow> gen_files \<Rightarrow> (bytes \<Rightarrow> bool) \<Rightarrow> gen_state \<Rightarrow> bool" where
  "pub_inv K0 N old new J g \<longleftrightarrow> pub_old K0 old J g \<or> pub_mid N old new J g \<or> pub_new N new g"

lemmas pub_defs = pub_inv_def pub_old_def pub_mid_def pub_new_def

definition manifest_files :: "'d backend \<Rightarrow> ext \<Rightarrow> generation_manifest \<Rightarrow> gen_files \<Rightarrow> bool" where
  "manifest_files k e m = (\<lambda>(a, b, p). \<exists>height bs cs ps. gm_replay_checkpoint m = Some height \<and>
     js_manifest_pretty k m = Inr bs \<and> js_checkpoint_pretty k (suffix_checkpoint m height) = Inr cs \<and>
     publication_record_json k e m = Inr ps \<and> (a, b, p) = (Some bs, Some cs, Some ps))"

lemma triple_finish:
  assumes "sled_spec k c" "manifest_files k e target new"
  shows "triple c (\<lambda>d. pub_mid N old new J (gen_state d)) (finish_publication k e target)
    (\<lambda>_ d. pub_new N new (gen_state d)) (\<lambda>d. pub_inv K0 N old new J (gen_state d))"
proof -
  obtain a0 b0 p0 where old: "old = (a0, b0, p0)" by (cases old) auto
  obtain height bs cs ps where enc: "gm_replay_checkpoint target = Some height" "js_manifest_pretty k target = Inr bs"
    "js_checkpoint_pretty k (suffix_checkpoint target height) = Inr cs" "publication_record_json k e target = Inr ps"
    and new: "new = (Some bs, Some cs, Some ps)"
    using assms(2) by (auto simp: manifest_files_def)
  let ?P = "\<lambda>A B C g. pub_mid N old new J g \<and> (case g of (K, a, b, p, j) \<Rightarrow>
    (A \<longrightarrow> b = Some cs) \<and> (B \<longrightarrow> a = Some bs) \<and> (C \<longrightarrow> p = Some ps))"
  have R: "?P A B C g \<Longrightarrow> pub_inv K0 N old new J g" "pub_new N new g \<Longrightarrow> pub_inv K0 N old new J g" for A B C g
    by (simp_all add: pub_inv_def)
  note writes = triple_gen_writes [OF assms(1)]
  have 1: "triple c (\<lambda>d. ?P False False False (gen_state d)) (sync_suffix_replay_checkpoint k target)
    (\<lambda>_ d. ?P True False False (gen_state d)) (\<lambda>d. pub_inv K0 N old new J (gen_state d))"
    unfolding sync_suffix_replay_checkpoint_def enc option.case
    by (rule writes(2) [OF R(1) R(1)]) (auto simp: old new pub_mid_def enc)
  have 2: "triple c (\<lambda>d. ?P True False False (gen_state d)) (write_generation_manifest k target)
    (\<lambda>_ d. ?P True True False (gen_state d)) (\<lambda>d. pub_inv K0 N old new J (gen_state d))"
    by (rule writes(1) [OF R(1) R(1)]) (auto simp: old new pub_mid_def enc)
  have 3: "triple c (\<lambda>d. ?P True True False (gen_state d)) (write_generation_publication k e target)
    (\<lambda>_ d. ?P True True True (gen_state d)) (\<lambda>d. pub_inv K0 N old new J (gen_state d))"
    by (rule writes(3) [OF R(1) R(1)]) (auto simp: old new pub_mid_def enc)
  have 4: "triple c (\<lambda>d. ?P True True True (gen_state d)) (clear_suffix_publication k)
    (\<lambda>_ d. pub_new N new (gen_state d)) (\<lambda>d. pub_inv K0 N old new J (gen_state d))"
    by (rule writes(5) [OF R]) (auto simp: old new pub_mid_def pub_new_def)
  show ?thesis
    unfolding finish_publication_def
    by (rule triple_conseq [OF triple_seq [OF 1 triple_seq [OF 2 triple_seq [OF 3 4]]]]) (auto split: prod.split)
qed

section \<open>Reading the state of a generation\<close>

definition json_at :: "(bytes \<Rightarrow> string + 'a) \<Rightarrow> string \<Rightarrow> bytes option \<Rightarrow> storage_error + 'a option" where
  "json_at parse msg file =
     (case file of None \<Rightarrow> Inr None | Some bs \<Rightarrow> (case parse bs of Inl err \<Rightarrow> Inl (Serialization (msg @ err)) | Inr x \<Rightarrow> Inr (Some x)))"

lemma ref_load_json: "load_json (ref_backend k) f msg parse s = (json_at parse msg (fmlookup (dk_files (sl_db s)) f), s)"
  by (simp add: load_json_def json_at_def file_exists_def file_read_def sm_bind_def sm_gets_def sm_lift_def sm_ok_def res_simps
      split: option.split sum.split)

lemma refines_load_json [refine]:
  "sled_spec k c \<Longrightarrow> refines c (load_json k f msg parse) (load_json (ref_backend k) f msg parse)"
  unfolding load_json_def by (intro refine)

lemma keeps_load_json [keep]: "keeps c P (load_json k f msg parse)"
  unfolding load_json_def by (intro keep)

lemma refines_json [refine]: "refines c (json r) (json r)"
  unfolding json_def by (rule refine)

lemma refines_best [refine]:
  assumes "sled_spec k c"
  shows "refines c (sled_header_by_number k n) (sled_header_by_number (ref_backend k) n)"
    "refines c (sled_best_header k) (sled_best_header (ref_backend k))"
    "refines c (sled_block_by_number k n) (sled_block_by_number (ref_backend k) n)"
  unfolding sled_best_header_def get_best_number_def sled_header_by_number_def sled_block_by_number_def ref_backend_serde
  by (intro refine assms)+

lemma keeps_best [keep]:
  "keeps c P (sled_header_by_number k n)" "keeps c P (sled_best_header k)" "keeps c P (sled_block_by_number k n)"
  unfolding sled_best_header_def get_best_number_def sled_header_by_number_def sled_block_by_number_def
  by (intro keep)+

lemma triple_load_json:
  assumes "sled_spec k c" "\<And>d. P d \<Longrightarrow> R d"
  shows "triple c P (load_json k f msg parse) (\<lambda>x d. P d \<and> json_at parse msg (fmlookup (dk_files d) f) = Inr x) R"
  by (rule triple_conseq [OF triple_read [OF keeps_load_json refines_load_json [OF assms(1)], of P R]])
    (auto simp: ref_load_json assms(2))

lemma triple_best:
  assumes "sled_spec k c" "\<And>d. P d \<Longrightarrow> R d"
  shows "triple c P (sled_best_header k) (\<lambda>h d. P d \<and> stored_best k (dk_kv d) h) R"
  unfolding stored_best_def
  by (rule triple_reader) (intro keep refine reader assms | erule assms)+

section \<open>Publishing leaves one of these states\<close>

lemma gen_stateD:
  assumes "gen_state d = (K, a, b, p, j)"
  shows "dk_kv d = K" "fmlookup (dk_files d) GENERATION_MANIFEST_FILE = a"
    "fmlookup (dk_files d) GENERATION_CHECKPOINT_FILE = b" "fmlookup (dk_files d) GENERATION_PUBLICATION_FILE = p"
    "fmlookup (dk_files d) SUFFIX_PUBLICATION_FILE = j"
  using assms by (simp_all add: gen_state_def)

lemma keeps_suffix_batch:
  assumes "sled_spec k c"
  shows "keeps c P (suffix_batch k e reorg_from best_number parent replacement native evm totals)"
  unfolding suffix_batch_def removed_blocks_def removed_logs_def removed_entries_def
  by (intro keep keeps_json assms)

lemma refines_suffix_batch:
  assumes "sled_spec k c"
  shows "refines c (suffix_batch k e reorg_from best_number parent replacement native evm totals)
    (suffix_batch (ref_backend k) e reorg_from best_number parent replacement native evm totals)"
  unfolding suffix_batch_def removed_blocks_def removed_logs_def removed_entries_def insert_batch_ref ref_backend_serde
  by (intro refine assms)

text \<open>The contents of the database after the batch of the publication.\<close>

definition published_kv ::
  "'d backend \<Rightarrow> ext \<Rightarrow> block_header \<Rightarrow> block list \<Rightarrow> native_accounts \<Rightarrow> evm_state_snapshot \<Rightarrow> u64 \<times> u128 \<times> u128 \<Rightarrow>
   generation_manifest \<Rightarrow> (bytes, bytes) fmap \<Rightarrow> (bytes, bytes) fmap \<Rightarrow> bool" where
  "published_kv k e ancestor replacement native evm totals target K0 K \<longleftrightarrow>
     (\<exists>best parent ops. stored_best k K0 best \<and> replacement \<noteq> [] \<and> tip_matches e target parent \<and>
        gm_replay_checkpoint target = Some (h_number parent) \<and> contiguous_suffix e ancestor replacement = Inr parent \<and>
        fst (suffix_batch (ref_backend k) e (saturating_add (h_number ancestor) 1) (h_number best) parent replacement
          native evm totals (bare K0)) = Inr ops \<and> K = batch_apply ops K0)"

definition journal_ok :: "'d backend \<Rightarrow> generation_manifest \<Rightarrow> generation_manifest \<Rightarrow> bytes \<Rightarrow> bool" where
  "journal_ok k previous target x \<longleftrightarrow>
     js_suffix_of k x = Inr \<lparr>sx_previous_manifest = previous, sx_target_manifest = target\<rparr>"

text \<open>The steps after the checks.\<close>

lemma triple_publish_writes:
  fixes ancestor :: block_header and replacement :: "block list" and native :: native_accounts and evm :: evm_state_snapshot
    and totals :: "u64 \<times> u128 \<times> u128" and K0 :: "(bytes, bytes) fmap" and m0 :: bytes and b0 p0 :: "bytes option"
    and previous target :: generation_manifest
  assumes spec: "sled_spec k c" and serde: "serde_spec k" and new: "manifest_files k e target new"
    and best: "stored_best k K0 best" and parent: "contiguous_suffix e ancestor replacement = Inr parent"
      "replacement \<noteq> []" "tip_matches e target parent" "gm_replay_checkpoint target = Some (h_number parent)"
  defines "N \<equiv> published_kv k e ancestor replacement native evm totals target K0"
    and "J \<equiv> journal_ok k previous target" and "old \<equiv> (Some m0, b0, p0)"
  shows "triple c (\<lambda>d. gen_state d = (K0, Some m0, b0, p0, None))
    (sm_seq (write_suffix_publication k \<lparr>sx_previous_manifest = previous, sx_target_manifest = target\<rparr>)
      (sm_bind (suffix_batch k e (saturating_add (h_number ancestor) 1) (h_number best) parent replacement
          native evm totals) (\<lambda>batch.
       sm_seq (db_apply_batch k batch) (sm_seq (db_flush k) (finish_publication k e target)))))
    (\<lambda>_ d. pub_new N new (gen_state d)) (\<lambda>d. pub_inv K0 N old new J (gen_state d))"
proof -
  let ?P = "\<lambda>g. g = (K0, Some m0, b0, p0, None)" and ?R = "\<lambda>g. pub_inv K0 N old new J g"
  let ?J = "\<lambda>g. \<exists>x. g = (K0, Some m0, b0, p0, Some x) \<and> J x" and ?M = "\<lambda>g. pub_mid N old new J g"
  have R: "?P g \<Longrightarrow> ?R g" "?J g \<Longrightarrow> ?R g" "?M g \<Longrightarrow> ?R g" for g by (auto simp: pub_defs old_def)
  have journal: "triple c (\<lambda>d. ?P (gen_state d))
      (write_suffix_publication k \<lparr>sx_previous_manifest = previous, sx_target_manifest = target\<rparr>)
      (\<lambda>_ d. ?J (gen_state d)) (\<lambda>d. ?R (gen_state d))"
    by (rule triple_gen_writes(4) [OF spec R(1,2)]) (auto simp: J_def journal_ok_def serde_roundtrip(9) [OF serde])
  let ?B = "suffix_batch (ref_backend k) e (saturating_add (h_number ancestor) 1) (h_number best) parent replacement native evm totals"
  have batch: "triple c (\<lambda>d. ?J (gen_state d))
      (suffix_batch k e (saturating_add (h_number ancestor) 1) (h_number best) parent replacement native evm totals)
      (\<lambda>ops d. ?J (gen_state d) \<and> fst (?B (bare (dk_kv d))) = Inr ops) (\<lambda>d. ?R (gen_state d))"
    by (rule triple_reader [OF keeps_suffix_batch [OF spec] refines_suffix_batch [OF spec] reads_kv_suffix_batch R(2)])
  have apply_batch: "triple c (\<lambda>d. ?J (gen_state d) \<and> fst (?B (bare (dk_kv d))) = Inr ops) (db_apply_batch k ops)
      (\<lambda>_ d. ?M (gen_state d)) (\<lambda>d. ?R (gen_state d))" for ops
  proof (rule triple_apply_batch [OF spec])
    fix d
    assume d: "?J (gen_state d) \<and> fst (?B (bare (dk_kv d))) = Inr ops"
    then obtain x where x: "gen_state d = (K0, Some m0, b0, p0, Some x)" "J x" by blast
    have "N (batch_apply ops K0)"
      unfolding N_def published_kv_def using best parent d gen_stateD(1) [OF x(1)] by blast
    then show "?M (gen_state (kv_upd (batch_apply ops) d))"
      using x by (auto simp: gen_state_def pub_mid_def old_def split: prod.split)
  qed (use R in blast)+
  have flush: "triple c (\<lambda>d. ?M (gen_state d)) (db_flush k) (\<lambda>_ d. ?M (gen_state d)) (\<lambda>d. ?R (gen_state d))"
    by (rule triple_flush [OF spec R(3)])
  note finish = triple_finish [OF spec new, of N old J K0]
  show ?thesis
    by (rule triple_seq [OF journal triple_bind [OF batch triple_seq [OF apply_batch triple_seq [OF flush finish]]]])
qed

lemma triple_publish:
  fixes ancestor :: block_header and replacement :: "block list" and native :: native_accounts and evm :: evm_state_snapshot
    and totals :: "u64 \<times> u128 \<times> u128" and K0 :: "(bytes, bytes) fmap" and m0 :: bytes and b0 p0 :: "bytes option"
    and previous target :: generation_manifest
  assumes spec: "sled_spec k c" and serde: "serde_spec k"
    and m0: "js_manifest_of k m0 = Inr previous" and new: "manifest_files k e target new"
  defines "N \<equiv> published_kv k e ancestor replacement native evm totals target K0"
    and "J \<equiv> journal_ok k previous target" and "old \<equiv> (Some m0, b0, p0)"
  shows "triple c (\<lambda>d. gen_state d = (K0, Some m0, b0, p0, None))
    (publish_canonical_suffix k e ancestor replacement native evm totals target)
    (\<lambda>_ d. pub_new N new (gen_state d)) (\<lambda>d. pub_inv K0 N old new J (gen_state d))"
proof -
  let ?P = "\<lambda>d. gen_state d = (K0, Some m0, b0, p0, None)" and ?R = "\<lambda>d. pub_inv K0 N old new J (gen_state d)"
  have PR: "?P d \<Longrightarrow> ?R d" for d by (simp add: pub_defs old_def)
  have load: "triple c ?P (load_generation_manifest k) (\<lambda>x d. ?P d \<and> x = Some previous) ?R"
    unfolding load_generation_manifest_def
    by (rule triple_conseq [OF triple_load_json [where P = ?P and R = ?R, OF spec PR]]) (auto simp: json_at_def m0 dest: gen_stateD)
  have some: "triple c ?P (sm_lift (res_of_option err (Some previous))) (\<lambda>x d. ?P d \<and> x = previous) ?R" for err
    by (rule triple_conseq [OF triple_lift [of ?P ?R, OF PR]]) auto
  have best: "triple c ?P (sled_best_header k) (\<lambda>best d. ?P d \<and> stored_best k K0 best) ?R"
    by (rule triple_conseq [OF triple_best [where P = ?P and R = ?R, OF spec PR]]) (auto dest: gen_stateD)
  have canonical: "triple c ?P (if b then sm_ok False else sm_bind (sled_header_by_number k n) (\<lambda>h. sm_ok (f h))) (\<lambda>_. ?P) ?R" for b n f
    by (rule triple_keep) (intro keep, erule PR)
  have err: "triple c ?P (sm_err x) Q ?R" for x Q by (rule triple_err [OF PR])
  have parent: "triple c ?P (sm_lift (contiguous_suffix e ancestor replacement))
      (\<lambda>parent d. ?P d \<and> contiguous_suffix e ancestor replacement = Inr parent) ?R"
    by (rule triple_lift [OF PR])
  show ?thesis
    unfolding publish_canonical_suffix_def
    apply (rule triple_bind [OF load])
    apply (rule triple_fact, simp only:)
    apply (rule triple_bind [OF some])
    apply (rule triple_fact, simp only:)
    apply (rule triple_bind [OF best])
    apply (rule triple_fact)
    apply (rule triple_bind [OF canonical])
    apply (rule triple_if, rule err)
    apply (rule triple_bind [OF parent])
    apply (rule triple_fact)
    apply (rule triple_if, rule err)
    unfolding N_def J_def old_def
    apply (rule triple_publish_writes [OF spec serde new]; simp)
    done
qed

end
