(* ===== verification/Recovery.thy ===== *)
theory Recovery
  imports Publication
begin

text \<open>
  Crash safety of the publication of a suffix (\<open>publish_canonical_suffix\<close>,
  \<open>recover_suffix_publication\<close> and \<open>verify_generation_manifest\<close> of
  \<open>crates/blq-storage/src/lib.rs\<close>): whatever step of the publication or of a recovery fails, the
  next recovery that returns leaves the old generation or the new one, and over a backend that does
  not fail the recovery returns and the generation verifies.
\<close>

section \<open>Recovery settles the publication\<close>

lemma stored_best_unique: "stored_best k K h \<Longrightarrow> stored_best k K h' \<Longrightarrow> h = h'"
  by (simp add: stored_best_def)

lemma published_best:
  assumes "hex_text_spec e" "serde_spec k" "published_kv k e ancestor replacement native evm totals target K0 K"
  obtains parent where "stored_best k K parent" "tip_matches e target parent" "gm_replay_checkpoint target = Some (h_number parent)"
    "fst (sled_header_by_number (ref_backend k) (h_number parent) (bare K)) = Inr parent"
  using assms(3) suffix_batch_tip [OF assms(1,2)] unfolding published_kv_def by metis

text \<open>The publication is settled: nothing has changed, or all of it has, and the journal is gone.\<close>

definition pub_settled ::
  "(bytes, bytes) fmap \<Rightarrow> ((bytes, bytes) fmap \<Rightarrow> bool) \<Rightarrow> gen_files \<Rightarrow> gen_files \<Rightarrow> gen_state \<Rightarrow> bool" where
  "pub_settled K0 N old new g \<longleftrightarrow> (case old of (a, b, p) \<Rightarrow> g = (K0, a, b, p, None)) \<or> pub_new N new g"

lemma settled_inv: "pub_settled K0 N old new g \<Longrightarrow> pub_inv K0 N old new J g"
  by (auto simp: pub_settled_def pub_defs split: prod.splits)

lemma inv_no_journal: "pub_inv K0 N old new J (K, a, b, p, None) \<Longrightarrow> pub_settled K0 N old new (K, a, b, p, None)"
  by (auto simp: pub_settled_def pub_defs split: prod.splits)

lemma pub_cases:
  "pub_old K0 old J (K, a, b, p, j) \<Longrightarrow> K = K0" "pub_mid N old new J (K, a, b, p, j) \<Longrightarrow> N K"
  "pub_mid N old new J (K, a, b, p, j) \<Longrightarrow> j \<noteq> None" "pub_new N new (K, a, b, p, j) \<Longrightarrow> N K \<and> j = None"
  by (auto simp: pub_defs split: prod.splits)

lemma triple_recover:
  assumes spec: "sled_spec k c" and new: "manifest_files k e target new"
    and old: "stored_best k K0 best0" "tip_matches e previous best0" "gm_canonical_hash target \<noteq> gm_canonical_hash previous"
    and N: "\<And>K. N K \<Longrightarrow> \<exists>h. stored_best k K h \<and> tip_matches e target h"
  defines "J \<equiv> journal_ok k previous target"
  shows "triple c (\<lambda>d. pub_inv K0 N old new J (gen_state d)) (recover_suffix_publication k e)
    (\<lambda>_ d. pub_settled K0 N old new (gen_state d)) (\<lambda>d. pub_inv K0 N old new J (gen_state d))"
proof -
  let ?I = "\<lambda>d. pub_inv K0 N old new J (gen_state d)" and ?S = "\<lambda>_ d. pub_settled K0 N old new (gen_state d)"
  let ?rec = "\<lparr>sx_previous_manifest = previous, sx_target_manifest = target\<rparr>"
  let ?L = "\<lambda>x d. ?I d \<and> (case gen_state d of (K, a, b, p, j) \<Rightarrow> if j = None then x = None else x = Some ?rec)"
  have load: "triple c ?I (load_suffix_publication k) ?L ?I"
    unfolding load_suffix_publication_def
    by (rule triple_conseq [OF triple_load_json [where P = ?I and R = ?I, OF spec]])
      (auto simp: json_at_def pub_defs J_def journal_ok_def gen_state_def split: prod.splits)
  have none: "triple c (?L None) (sm_ok ()) ?S ?I"
    by (rule triple_ok) (auto simp: inv_no_journal split: prod.splits if_splits)
  let ?B = "\<lambda>best d. ?L (Some ?rec) d \<and> stored_best k (dk_kv d) best"
  have best: "triple c (?L (Some ?rec)) (sled_best_header k) ?B ?I"
    by (rule triple_best [OF spec]) simp
  have known: "\<exists>K a b p j. gen_state d = (K, a, b, p, j) \<and> j \<noteq> None \<and> stored_best k K best \<and>
      (pub_old K0 old J (gen_state d) \<or> pub_mid N old new J (gen_state d))" if B: "?B best d" for best d
  proof -
    obtain K a b p j where g: "gen_state d = (K, a, b, p, j)" by (cases "gen_state d") auto
    then have "j \<noteq> None" using B by (auto split: if_splits)
    moreover from this have "pub_old K0 old J (gen_state d) \<or> pub_mid N old new J (gen_state d)"
      using B pub_cases(4) g unfolding pub_inv_def by metis
    ultimately show ?thesis using B gen_stateD(1) [OF g] g by blast
  qed
  have mid: "pub_mid N old new J (gen_state d)" if B: "?B best d" and t: "tip_matches e target best" for best d
  proof -
    have "best \<noteq> best0" using t old(2,3) by (auto simp: tip_matches_def)
    then show ?thesis using known [OF B] pub_cases(1) stored_best_unique [OF old(1)] by metis
  qed
  have pold: "pub_old K0 old J (gen_state d)" if B: "?B best d" and t: "\<not> tip_matches e target best" for best d
    using known [OF B] pub_cases(2) N stored_best_unique t by metis
  have finish: "triple c (?B best) (finish_publication k e target) ?S ?I" if "tip_matches e target best" for best
    by (rule triple_conseq [OF triple_finish [OF spec new, of N old J K0]])
      (erule mid [OF _ that], simp_all add: pub_settled_def)
  have clear: "triple c (?B best) (clear_suffix_publication k) ?S ?I" if t: "\<not> tip_matches e target best" for best
  proof -
    have "triple c (\<lambda>d. pub_old K0 old J (gen_state d)) (clear_suffix_publication k)
      (\<lambda>_ d. pub_settled K0 N old new (gen_state d)) (\<lambda>d. pub_inv K0 N old new J (gen_state d))"
      by (rule triple_gen_writes(5) [OF spec]) (auto simp: pub_settled_def pub_defs settled_inv split: prod.splits)
    then show ?thesis by (rule triple_conseq) (erule pold [OF _ t], simp_all)
  qed
  have neither: "triple c (?B best) (sm_err x) ?S ?I" for best x by (rule triple_err) simp
  have loaded: "triple c (?L (Some r)) (sm_bind (sled_best_header k) (\<lambda>best.
      if tip_matches e (sx_target_manifest r) best then finish_publication k e (sx_target_manifest r)
      else if tip_matches e (sx_previous_manifest r) best then clear_suffix_publication k
      else sm_err x)) ?S ?I" for r x
  proof (rule triple_assume [where A = "r = ?rec"])
    assume r: "r = ?rec"
    show "triple c (?L (Some r)) (sm_bind (sled_best_header k) (\<lambda>best.
      if tip_matches e (sx_target_manifest r) best then finish_publication k e (sx_target_manifest r)
      else if tip_matches e (sx_previous_manifest r) best then clear_suffix_publication k
      else sm_err x)) ?S ?I"
      unfolding r suffix_publication_record.simps
      by (rule triple_bind [OF best]) (intro triple_if finish clear neither; assumption)
  qed (auto split: prod.splits if_splits)
  show ?thesis
    unfolding recover_suffix_publication_def
    apply (rule triple_bind [OF load])
    subgoal for x by (cases x) (simp_all only: option.case none loaded)
    done
qed

definition recovery_attempts :: "'d backend \<Rightarrow> ext \<Rightarrow> nat \<Rightarrow> 'd sled_storage \<Rightarrow> 'd sled_storage" where
  "recovery_attempts k e n = ((\<lambda>s. snd (recover_suffix_publication k e s)) ^^ n)"

lemma attempts_keep:
  assumes "triple c P (recover_suffix_publication k e) (\<lambda>_. Q) P" "\<And>d. Q d \<Longrightarrow> P d" "P (c (sl_db s))"
  shows "P (c (sl_db (recovery_attempts k e n s)))"
proof (induction n)
  case 0
  then show ?case using assms(3) by (simp add: recovery_attempts_def)
next
  case (Suc n)
  have "keeps c P (recover_suffix_publication k e)"
    by (rule keeps_triple, rule triple_conseq [OF assms(1)]) (simp_all add: assms(2))
  then show ?case using Suc by (simp add: recovery_attempts_def keeps_def)
qed

section \<open>Recovery completes when the backend stops failing\<close>

lemma ref_file_replace: "file_replace (ref_backend k) f (Inr bs) s =
  (Inr (), s\<lparr>sl_db := files_upd (\<lambda>m. fmupd f bs (fmdrop (f @ ''.tmp'') m)) (sl_db s)\<rparr>)"
proof -
  have "fmdrop g (fmupd g bs m) = fmdrop g m" for g :: string and m by (rule fmap_ext) simp
  then show ?thesis by (simp add: file_replace_def sm_seq_def sm_bind_def db_upd_def sm_lift_def files_upd_def)
qed

lemma ref_file_remove: "fst (file_remove (ref_backend k) f s) = Inr ()"
  by (simp add: file_remove_def)

lemma ref_publication_json [simp]:
  "publication_record_json (ref_backend k) e m = publication_record_json k e m"
  "publication_is_stale (ref_backend k) e m r = publication_is_stale k e m r"
  by (simp_all add: publication_record_json_def manifest_checksum_def publication_is_stale_def split: option.split)

lemma ref_finish:
  assumes "manifest_files k e target new"
  shows "fst (finish_publication (ref_backend k) e target s) = Inr ()"
proof -
  obtain height bs cs ps where enc: "gm_replay_checkpoint target = Some height" "js_manifest_pretty k target = Inr bs"
    "js_checkpoint_pretty k (suffix_checkpoint target height) = Inr cs" "publication_record_json k e target = Inr ps"
    using assms by (auto simp: manifest_files_def)
  show ?thesis
    by (simp add: finish_publication_def sync_suffix_replay_checkpoint_def write_replay_checkpoint_def
        write_generation_manifest_def write_generation_publication_def clear_suffix_publication_def enc
        sm_seq_def sm_bind_def ref_file_replace ref_file_remove)
qed

lemma bind_read: "m s = (r, s) \<Longrightarrow> fst (sm_bind m f s) = res_bind r (\<lambda>x. fst (f x s))"
  by (cases r) (simp_all add: sm_bind_def)

lemma ref_best: "sled_best_header (ref_backend k) s = (fst (sled_best_header (ref_backend k) (bare (dk_kv (sl_db s)))), s)"
  by (rule reads_kv_headers(3) [unfolded reads_kv_def, rule_format])

lemma recover_ref:
  assumes new: "manifest_files k e target new"
    and old: "stored_best k K0 best0" "tip_matches e previous best0"
    and N: "\<And>K. N K \<Longrightarrow> \<exists>h. stored_best k K h \<and> tip_matches e target h"
    and inv: "pub_inv K0 N old new (journal_ok k previous target) (gen_state (sl_db s))"
  shows "fst (recover_suffix_publication (ref_backend k) e s) = Inr ()"
proof -
  obtain K a b p j where g: "gen_state (sl_db s) = (K, a, b, p, j)" by (cases "gen_state (sl_db s)") auto
  note d = gen_stateD [OF g]
  have load: "load_suffix_publication (ref_backend k) s =
      (json_at (js_suffix_of k) ''invalid suffix publication record: '' j, s)"
    by (simp add: load_suffix_publication_def ref_load_json d)
  show ?thesis
  proof (cases j)
    case None
    then show ?thesis
      unfolding recover_suffix_publication_def bind_read [of "load_suffix_publication (ref_backend k)" s, OF load] by (simp add: json_at_def sm_ok_def)
  next
    case (Some x)
    let ?rec = "\<lparr>sx_previous_manifest = previous, sx_target_manifest = target\<rparr>"
    have pre: "pub_old K0 old (journal_ok k previous target) (K, a, b, p, j) \<or>
        pub_mid N old new (journal_ok k previous target) (K, a, b, p, j)"
      using inv g Some pub_cases(4) unfolding pub_inv_def by fastforce
    then have "journal_ok k previous target x"
      using Some by (auto simp: pub_defs split: prod.splits)
    then have rec: "json_at (js_suffix_of k) ''invalid suffix publication record: '' j = Inr (Some ?rec)"
      using Some by (simp add: json_at_def journal_ok_def)
    have "\<exists>best. stored_best k K best \<and> (tip_matches e target best \<or> tip_matches e previous best)"
      using pre pub_cases(1,2) old N by metis
    then obtain best where best: "stored_best k K best" "tip_matches e target best \<or> tip_matches e previous best" by blast
    have bs: "sled_best_header (ref_backend k) s = (Inr best, s)"
      using best(1) ref_best [of k s] unfolding d(1) stored_best_def by metis
    show ?thesis
      unfolding recover_suffix_publication_def bind_read [of "load_suffix_publication (ref_backend k)" s, OF load] rec res_bind.simps option.case bind_read [of "sled_best_header (ref_backend k)" s, OF bs]
      using best(2) ref_finish [OF new] ref_file_remove [of k] by (auto simp: clear_suffix_publication_def)
  qed
qed

section \<open>The settled generation verifies\<close>

definition verified_generation :: "'d backend \<Rightarrow> ext \<Rightarrow> gen_state \<Rightarrow> storage_error + generation_manifest" where
  "verified_generation k e = (\<lambda>(K, a, b, p, j).
     res_bind (json_at (js_manifest_of k) ''invalid generation manifest: '' a) (\<lambda>loaded.
     res_bind (res_of_option (Serialization ''generation manifest is missing'') loaded) (\<lambda>manifest.
     if gm_status manifest \<in> {Staging, Retired, Failed} then Inl (Serialization ''generation manifest is not publishable'')
     else res_bind (fst (sled_best_header (ref_backend k) (bare K))) (\<lambda>best.
     if \<not> tip_matches e manifest best then Inl (Serialization (tip_mismatch e manifest best))
     else res_bind (json_at (js_publication_of k) ''invalid generation publication record: '' p) (\<lambda>record.
     res_bind (publication_is_stale k e manifest record) (\<lambda>stale.
     res_bind (json_at (js_checkpoint_of k) ''invalid replay checkpoint: '' b) (\<lambda>checkpoint.
     res_bind (fst (check_replay_checkpoint (ref_backend k) e manifest best checkpoint (bare K))) (\<lambda>_.
     res_bind (if stale then res_bind (res_map_err Serialization (publication_record_json k e manifest)) (\<lambda>_. Inr ()) else Inr ())
       (\<lambda>_. Inr manifest)))))))))"

lemma reads_check_checkpoint [reader]: "reads_kv (check_replay_checkpoint (ref_backend k) e m best ck)"
  unfolding check_replay_checkpoint_def by (cases "gm_replay_checkpoint m"; cases ck) (auto intro: reader)

lemma verify_ref: "fst (verify_generation_manifest (ref_backend k) e s) = verified_generation k e (gen_state (sl_db s))"
proof -
  let ?file = "\<lambda>f. fmlookup (dk_files (sl_db s)) f"
  have load: "load_generation_manifest (ref_backend k) s =
      (json_at (js_manifest_of k) ''invalid generation manifest: '' (?file GENERATION_MANIFEST_FILE), s)"
    "load_generation_publication (ref_backend k) s =
      (json_at (js_publication_of k) ''invalid generation publication record: '' (?file GENERATION_PUBLICATION_FILE), s)"
    "load_replay_checkpoint (ref_backend k) s =
      (json_at (js_checkpoint_of k) ''invalid replay checkpoint: '' (?file GENERATION_CHECKPOINT_FILE), s)"
    by (simp_all add: load_generation_manifest_def load_generation_publication_def load_replay_checkpoint_def ref_load_json)
  have check: "check_replay_checkpoint (ref_backend k) e m best ck s =
      (fst (check_replay_checkpoint (ref_backend k) e m best ck (bare (dk_kv (sl_db s)))), s)" for m best ck
    by (rule reads_check_checkpoint [unfolded reads_kv_def, rule_format])
  have rest: "fst (sm_seq (if stale then write_generation_publication (ref_backend k) e m else sm_ok ()) (sm_ok m) s) =
      res_bind (if stale then res_bind (res_map_err Serialization (publication_record_json k e m)) (\<lambda>_. Inr ()) else Inr ())
        (\<lambda>_. Inr m)" for stale m
    by (cases "publication_record_json k e m")
      (simp_all add: write_generation_publication_def ref_file_replace sm_seq_def sm_bind_def sm_ok_def sm_lift_def
        file_replace_def db_upd_def)
  have steps:
    "fst (sm_bind (load_generation_manifest (ref_backend k)) f1 s) =
      res_bind (json_at (js_manifest_of k) ''invalid generation manifest: '' (?file GENERATION_MANIFEST_FILE)) (\<lambda>x. fst (f1 x s))"
    "fst (sm_bind (load_generation_publication (ref_backend k)) f2 s) =
      res_bind (json_at (js_publication_of k) ''invalid generation publication record: '' (?file GENERATION_PUBLICATION_FILE)) (\<lambda>x. fst (f2 x s))"
    "fst (sm_bind (load_replay_checkpoint (ref_backend k)) f3 s) =
      res_bind (json_at (js_checkpoint_of k) ''invalid replay checkpoint: '' (?file GENERATION_CHECKPOINT_FILE)) (\<lambda>x. fst (f3 x s))"
    "fst (sm_bind (sled_best_header (ref_backend k)) f4 s) =
      res_bind (fst (sled_best_header (ref_backend k) (bare (dk_kv (sl_db s))))) (\<lambda>x. fst (f4 x s))"
    "fst (sm_seq (check_replay_checkpoint (ref_backend k) e m best ck) n s) =
      res_bind (fst (check_replay_checkpoint (ref_backend k) e m best ck (bare (dk_kv (sl_db s))))) (\<lambda>_. fst (n s))"
    "fst (sm_bind (sm_lift r) f5 s) = res_bind r (\<lambda>x. fst (f5 x s))"
    for f1 f2 f3 f4 f5 :: "_ \<Rightarrow> (disk, generation_manifest) db" and m best ck r and n :: "(disk, generation_manifest) db"
    by (rule bind_read, rule load)+
      (rule bind_read, rule ref_best, simp only: sm_seq_def, rule bind_read, rule check, rule bind_read, simp add: sm_lift_def)
  show ?thesis
    unfolding verify_generation_manifest_def verified_generation_def gen_state_def split_conv steps
    by (simp add: steps rest if_distrib [of "\<lambda>f. f s"] if_distrib [of fst] sm_err_def cong: if_cong)
qed

lemma new_verified:
  assumes serde: "serde_spec k" and new: "manifest_files k e target new" and state: "pub_new N new g"
    and N: "\<And>K. N K \<Longrightarrow> \<exists>h. stored_best k K h \<and> tip_matches e target h \<and> gm_replay_checkpoint target = Some (h_number h) \<and>
      fst (sled_header_by_number (ref_backend k) (h_number h) (bare K)) = Inr h"
    and status: "gm_status target \<in> {Active, Verified}"
  shows "verified_generation k e g = Inr target"
proof -
  obtain height bs cs ps where enc: "gm_replay_checkpoint target = Some height" "js_manifest_pretty k target = Inr bs"
    "js_checkpoint_pretty k (suffix_checkpoint target height) = Inr cs" "publication_record_json k e target = Inr ps"
    and files: "new = (Some bs, Some cs, Some ps)"
    using new by (auto simp: manifest_files_def)
  obtain K where g: "g = (K, Some bs, Some cs, Some ps, None)" and NK: "N K"
    using state by (auto simp: pub_new_def files)
  obtain h where h: "stored_best k K h" "tip_matches e target h" "gm_replay_checkpoint target = Some (h_number h)"
    "fst (sled_header_by_number (ref_backend k) (h_number h) (bare K)) = Inr h"
    using N [OF NK] by blast
  have height: "height = h_number h" using enc(1) h(3) by simp
  obtain sum where sum: "manifest_checksum k e target = Inr sum"
    and ps: "js_publication_pretty k \<lparr>pr_generation_id = gm_generation_id target, pr_manifest_checksum = sum\<rparr> = Inr ps"
    using enc(4) by (auto simp: publication_record_json_def res_simps)
  note parse = serde_roundtrip(6) [OF serde enc(2)] serde_roundtrip(7) [OF serde enc(3)] serde_roundtrip(8) [OF serde ps]
  have checked: "fst (check_replay_checkpoint (ref_backend k) e target h (Some (suffix_checkpoint target height)) (bare K)) = Inr ()"
  proof -
    have "sled_header_by_number (ref_backend k) (h_number h) (bare K) = (Inr h, bare K)"
      using reads_kv_headers(1) [unfolded reads_kv_def, rule_format, of k "h_number h" "bare K"] unfolding bare_kv h(4) .
    then show ?thesis
      using h(2) by (simp add: check_replay_checkpoint_def enc(1) height suffix_checkpoint_def tip_matches_def
          sm_bind_def sm_ok_def)
  qed
  show ?thesis
    using status h(1,2) checked
    by (auto simp: verified_generation_def g json_at_def parse stored_best_def publication_is_stale_def sum ensure_def)
qed

section \<open>Crash safety\<close>

lemma ref_backend_same:
  "stored_best (ref_backend k) = stored_best k" "manifest_files (ref_backend k) = manifest_files k"
  "journal_ok (ref_backend k) = journal_ok k"
proof -
  have "ref_backend (ref_backend k) = ref_backend k" by (simp add: ref_backend_def)
  then show "stored_best (ref_backend k) = stored_best k" by (simp add: fun_eq_iff stored_best_def)
qed (simp_all add: fun_eq_iff manifest_files_def journal_ok_def)

lemma verifiedD:
  assumes "verified_generation k e (K, a, b, p, j) = Inr m"
  obtains bs best where "a = Some bs" "js_manifest_of k bs = Inr m" "stored_best k K best" "tip_matches e m best"
  using assms by (auto simp: verified_generation_def json_at_def stored_best_def res_simps split: if_splits option.splits sum.splits)

lemma published_tips:
  assumes "hex_text_spec e" "serde_spec k" "published_kv k e ancestor replacement native evm totals target K0 K"
  shows "\<exists>h. stored_best k K h \<and> tip_matches e target h"
    "\<exists>h. stored_best k K h \<and> tip_matches e target h \<and> gm_replay_checkpoint target = Some (h_number h) \<and>
      fst (sled_header_by_number (ref_backend k) (h_number h) (bare K)) = Inr h"
  using published_best [OF assms] by metis+

lemma publication_invariant:
  fixes ancestor :: block_header and replacement :: "block list" and native :: native_accounts and evm :: evm_state_snapshot
    and totals :: "u64 \<times> u128 \<times> u128" and K0 :: "(bytes, bytes) fmap" and a b p :: "bytes option"
    and previous target :: generation_manifest
  assumes spec: "sled_spec k c" "serde_spec k" "hex_text_spec e"
    and start: "gen_state (c (sl_db s)) = (K0, a, b, p, None)" "verified_generation k e (K0, a, b, p, None) = Inr previous"
    and target: "manifest_files k e target new" "gm_canonical_hash target \<noteq> gm_canonical_hash previous"
    and run: "publish_canonical_suffix k e ancestor replacement native evm totals target s = (r, t)"
  defines "N \<equiv> published_kv k e ancestor replacement native evm totals target K0"
    and "J \<equiv> journal_ok k previous target"
  shows "r = Inr () \<Longrightarrow> pub_new N new (gen_state (c (sl_db t)))"
    "pub_inv K0 N (a, b, p) new J (gen_state (c (sl_db (recovery_attempts k e n t))))"
    "triple c (\<lambda>d. pub_inv K0 N (a, b, p) new J (gen_state d)) (recover_suffix_publication k e)
      (\<lambda>_ d. pub_settled K0 N (a, b, p) new (gen_state d)) (\<lambda>d. pub_inv K0 N (a, b, p) new J (gen_state d))"
proof -
  obtain m0 best where m0: "a = Some m0" "js_manifest_of k m0 = Inr previous"
    and best: "stored_best k K0 best" "tip_matches e previous best"
    by (rule verifiedD [OF start(2)])
  note publish = triple_publish [OF spec(1,2) m0(2) target(1), of K0 b p ancestor replacement native evm totals, folded N_def J_def m0(1)]
  note recover = triple_recover [OF spec(1) target(1) best target(2), of N "(a, b, p)", OF published_tips(1) [OF spec(3,2)], folded J_def]
  note fin = tripleD [OF publish, of s]
  show rec: "triple c (\<lambda>d. pub_inv K0 N (a, b, p) new J (gen_state d)) (recover_suffix_publication k e)
      (\<lambda>_ d. pub_settled K0 N (a, b, p) new (gen_state d)) (\<lambda>d. pub_inv K0 N (a, b, p) new J (gen_state d))"
    by (rule recover) (simp add: N_def)
  show "r = Inr () \<Longrightarrow> pub_new N new (gen_state (c (sl_db t)))"
    using fin(1) start(1) run m0(1) by simp
  have "pub_inv K0 N (a, b, p) new J (gen_state (c (sl_db t)))"
    using fin start(1) run m0(1) by (cases r) (simp_all add: pub_inv_def)
  then show "pub_inv K0 N (a, b, p) new J (gen_state (c (sl_db (recovery_attempts k e n t))))"
    using attempts_keep [OF rec, of t n] settled_inv by metis
qed

text \<open>
  C1. A suffix is published as a whole or not at all.  Start from a verified generation without a
  journal and publish a suffix with another tip, over a backend that may fail at any step, which is
  also where the process may be killed.  If the publication returns, the database holds the result of
  its batch and the three files describe the new tip.  If it stops, and so do any number of
  recoveries after it, then the first recovery that returns leaves the old database with the old
  files, or the new database with the new files, and no journal.
\<close>

theorem suffix_publication_atomic:
  assumes "sled_spec k c" "serde_spec k" "hex_text_spec e"
    and "gen_state (c (sl_db s)) = (K0, a, b, p, None)"
    and "fst (verify_generation_manifest (ref_backend k) e (view c s)) = Inr previous"
    and "manifest_files k e target new" "gm_canonical_hash target \<noteq> gm_canonical_hash previous"
  shows "(case publish_canonical_suffix k e ancestor replacement native evm totals target s of
      (Inr _, t) \<Rightarrow> pub_new (published_kv k e ancestor replacement native evm totals target K0) new (gen_state (c (sl_db t)))
    | (Inl _, t) \<Rightarrow>
       (case recover_suffix_publication k e (recovery_attempts k e n t) of
          (Inr _, u) \<Rightarrow> pub_settled K0 (published_kv k e ancestor replacement native evm totals target K0) (a, b, p) new
            (gen_state (c (sl_db u)))
        | (Inl _, u) \<Rightarrow> pub_inv K0 (published_kv k e ancestor replacement native evm totals target K0) (a, b, p) new
            (journal_ok k previous target) (gen_state (c (sl_db u)))))"
proof -
  obtain r t where run: "publish_canonical_suffix k e ancestor replacement native evm totals target s = (r, t)" by fastforce
  have "verified_generation k e (K0, a, b, p, None) = Inr previous" using assms(4,5) by (simp add: verify_ref)
  note inv = publication_invariant [OF assms(1-4) this assms(6,7) run]
  obtain q u where rec: "recover_suffix_publication k e (recovery_attempts k e n t) = (q, u)" by fastforce
  show ?thesis
    using inv(1) tripleD [OF inv(3) inv(2), of n] rec by (cases r; cases q) (simp_all add: run)
qed

text \<open>
  C11. Recovery completes.  In the situation of the previous property, once the backend stops
  failing, the next recovery returns, whatever happened before, and after it the generation
  verifies, with the manifest of the old tip or with that of the new one.
\<close>

theorem suffix_recovery_completes:
  assumes "sled_spec k c" "serde_spec k" "hex_text_spec e"
    and "gen_state (c (sl_db s)) = (K0, a, b, p, None)"
    and "fst (verify_generation_manifest (ref_backend k) e (view c s)) = Inr previous"
    and "manifest_files k e target new" "gm_canonical_hash target \<noteq> gm_canonical_hash previous"
    and "gm_status target \<in> {Active, Verified}"
  shows "\<exists>u. recover_suffix_publication (ref_backend k) e
      (view c (recovery_attempts k e n (snd (publish_canonical_suffix k e ancestor replacement native evm totals target s)))) = (Inr (), u) \<and>
    (fst (verify_generation_manifest (ref_backend k) e u) = Inr previous \<or>
     fst (verify_generation_manifest (ref_backend k) e u) = Inr target)"
proof -
  obtain r t where run: "publish_canonical_suffix k e ancestor replacement native evm totals target s = (r, t)" by fastforce
  have ver: "verified_generation k e (K0, a, b, p, None) = Inr previous" using assms(4,5) by (simp add: verify_ref)
  note inv = publication_invariant [OF assms(1-4) ver assms(6,7) run]
  obtain m0 best where best: "stored_best k K0 best" "tip_matches e previous best" by (rule verifiedD [OF ver])
  let ?N = "published_kv k e ancestor replacement native evm totals target K0"
  let ?s = "view c (recovery_attempts k e n t)"
  have "fst (recover_suffix_publication (ref_backend k) e ?s) = Inr ()"
    by (rule recover_ref [OF assms(6) best, of ?N "(a, b, p)"])
      (use inv(2) published_tips(1) [OF assms(3,2)] in simp_all)
  then obtain u where u: "recover_suffix_publication (ref_backend k) e ?s = (Inr (), u)" by (metis prod.collapse)
  have "triple (\<lambda>d. d) (\<lambda>d. pub_inv K0 ?N (a, b, p) new (journal_ok k previous target) (gen_state d))
      (recover_suffix_publication (ref_backend k) e) (\<lambda>_ d. pub_settled K0 ?N (a, b, p) new (gen_state d))
      (\<lambda>d. pub_inv K0 ?N (a, b, p) new (journal_ok k previous target) (gen_state d))"
    using triple_recover [of "ref_backend k" "\<lambda>d. d" e target new K0 best previous ?N "(a, b, p)", OF ref_backend_spec]
      assms(6,7) best published_tips(1) [OF assms(3,2)] unfolding ref_backend_same by blast
  from tripleD(1) [OF this _ u] inv(2) have "pub_settled K0 ?N (a, b, p) new (gen_state (sl_db u))" by simp
  then have "gen_state (sl_db u) = (K0, a, b, p, None) \<or> pub_new ?N new (gen_state (sl_db u))"
    by (simp add: pub_settled_def)
  then have "verified_generation k e (gen_state (sl_db u)) \<in> {Inr previous, Inr target}"
    using ver new_verified [OF assms(2,6), of ?N "gen_state (sl_db u)"] published_tips(2) [OF assms(3,2)] assms(8) by auto
  then show ?thesis using u by (auto simp: run verify_ref)
qed

section \<open>A concrete publication\<close>

definition demo_pub_block :: block where
  "demo_pub_block = \<lparr>b_header = (genesis_header demo_ext)\<lparr>h_number := 1,
     h_parent_hash := header_hash demo_ext (genesis_header demo_ext), h_pow_algorithm := ''demo''\<rparr>,
     b_transactions = [], b_receipts = []\<rparr>"

definition demo_manifest :: "block_header \<Rightarrow> u64 option \<Rightarrow> generation_manifest" where
  "demo_manifest h ck = \<lparr>gm_generation_id = 1, gm_status = Active, gm_canonical_height = h_number h,
     gm_canonical_hash = header_hash demo_ext h, gm_state_root = h_state_root h, gm_profile_fingerprint = ''demo'',
     gm_finalized_height = 0, gm_replay_checkpoint = ck\<rparr>"

definition demo_previous :: generation_manifest where
  "demo_previous = demo_manifest (genesis_header demo_ext) None"

definition demo_target :: generation_manifest where
  "demo_target = demo_manifest (b_header demo_pub_block) (Some 1)"

definition demo_pub_db :: "disk backend" where
  "demo_pub_db = ref_backend (table_codec [genesis_block demo_ext, demo_pub_block] [] [] [[]] [demo_previous, demo_target]
     [suffix_checkpoint demo_target 1] [\<lparr>pr_generation_id = 1, pr_manifest_checksum = hash_bytes demo_ext [1]\<rparr>]
     [\<lparr>sx_previous_manifest = demo_previous, sx_target_manifest = demo_target\<rparr>])"

definition demo_pub_kv :: "(bytes, bytes) fmap" where
  "demo_pub_kv = fmap_of_list [(as_bytes ''best:number'', to_be_bytes (0 :: u64)), (header_key 0, [0]), (block_key 0, [0])]"

definition demo_pub_store :: "disk sled_storage" where
  "demo_pub_store = \<lparr>sl_db = \<lparr>dk_kv = demo_pub_kv, dk_files = fmap_of_list [(GENERATION_MANIFEST_FILE, [0])]\<rparr>, sl_defer_flush = False\<rparr>"

lemma demo_pub_spec: "sled_spec demo_pub_db (\<lambda>d. d)" "serde_spec demo_pub_db"
  unfolding demo_pub_db_def by (simp_all add: ref_backend_spec table_codec_spec)

lemma demo_hash_differs: "header_hash demo_ext (b_header demo_pub_block) \<noteq> header_hash demo_ext (genesis_header demo_ext)"
proof
  assume "header_hash demo_ext (b_header demo_pub_block) = header_hash demo_ext (genesis_header demo_ext)"
  then have eq: "demo_digest (header_canonical_bytes (b_header demo_pub_block)) = demo_digest (header_canonical_bytes (genesis_header demo_ext))"
    by (simp add: header_hash_def hash_bytes_def demo_ext_def)
  have dig: "take 8 (arr_bytes (demo_digest bs)) = to_be_bytes (of_nat (length bs) :: u64)" for bs
    by (simp add: demo_digest_def)
  have lens: "length (header_canonical_bytes (b_header demo_pub_block)) = 304 + length ''demo''"
    "length (header_canonical_bytes (genesis_header demo_ext)) = 304 + length (DEFAULT_POW_ALGORITHM demo_ext)"
    by (simp_all add: length_header_bytes demo_pub_block_def genesis_header_def)
  have "(to_be_bytes (of_nat (304 + length ''demo'') :: u64)) = to_be_bytes (of_nat (304 + length (DEFAULT_POW_ALGORITHM demo_ext)) :: u64)"
    using arg_cong [OF eq, of "\<lambda>x. take 8 (arr_bytes x)"] unfolding dig lens .
  from arg_cong [OF this, of "from_be_bytes :: bytes \<Rightarrow> u64"]
  have "(of_nat (304 + length ''demo'') :: u64) = of_nat (304 + length (DEFAULT_POW_ALGORITHM demo_ext))"
    by (simp del: of_nat_add)
  then show False by (simp add: DEFAULT_POW_ALGORITHM_def demo_ext_def)
qed

lemma demo_pub_state: "gen_state (sl_db demo_pub_store) = (demo_pub_kv, Some [0], None, None, None)"
  by (simp add: gen_state_def demo_pub_store_def generation_file_names fmlookup_of_list)

lemma demo_pub_codec:
  "js_manifest_of demo_pub_db [0] = Inr demo_previous" "js_header_of demo_pub_db [0] = Inr (genesis_header demo_ext)"
  by (simp_all add: demo_pub_db_def table_codec_def demo_untable_def genesis_block_def)

lemma demo_pub_best: "stored_best demo_pub_db demo_pub_kv (genesis_header demo_ext)"
proof -
  have "as_bytes ''best:number'' \<noteq> header_key n" for n
    using key_bytes_inj [OF demo_hex_text_spec, of BestNumber "HeaderAt n"] unfolding key_folds [where e = demo_ext] by simp
  then show ?thesis
    by (simp add: stored_best_iff demo_pub_kv_def fmlookup_of_list demo_pub_codec)
qed

lemma demo_pub_verified: "fst (verify_generation_manifest (ref_backend demo_pub_db) demo_ext (view (\<lambda>d. d) demo_pub_store)) = Inr demo_previous"
  using demo_pub_best
  by (simp add: verify_ref demo_pub_state verified_generation_def json_at_def demo_pub_codec stored_best_def
      publication_is_stale_def check_replay_checkpoint_def sm_ok_def tip_matches_def demo_previous_def demo_manifest_def)

lemma demo_manifests_differ: "demo_previous \<noteq> demo_target"
  by (simp add: demo_previous_def demo_target_def demo_manifest_def)

lemma demo_target_files: "manifest_files demo_pub_db demo_ext demo_target (Some [1], Some [0], Some [0])"
proof -
  have ids: "gm_replay_checkpoint demo_target = Some 1" "gm_generation_id demo_target = 1"
    by (simp_all add: demo_target_def demo_manifest_def)
  show ?thesis
    using demo_manifests_differ
    by (simp add: manifest_files_def demo_pub_db_def table_codec_def demo_table_def publication_record_json_def
        manifest_checksum_def ids)
qed

text \<open>The concrete publication replaces the genesis tip; in this run nothing fails.\<close>

theorem suffix_publication_atomic_witness:
  "(case publish_canonical_suffix demo_pub_db demo_ext (genesis_header demo_ext) [demo_pub_block] fmempty fmempty (1, 0, 0)
        demo_target demo_pub_store of
      (Inr _, t) \<Rightarrow> pub_new (published_kv demo_pub_db demo_ext (genesis_header demo_ext) [demo_pub_block] fmempty fmempty (1, 0, 0)
        demo_target demo_pub_kv) (Some [1], Some [0], Some [0]) (gen_state (sl_db t))
    | (Inl _, t) \<Rightarrow>
       (case recover_suffix_publication demo_pub_db demo_ext (recovery_attempts demo_pub_db demo_ext 3 t) of
          (Inr _, u) \<Rightarrow> pub_settled demo_pub_kv (published_kv demo_pub_db demo_ext (genesis_header demo_ext) [demo_pub_block]
            fmempty fmempty (1, 0, 0) demo_target demo_pub_kv) (Some [0], None, None) (Some [1], Some [0], Some [0])
            (gen_state (sl_db u))
        | (Inl _, u) \<Rightarrow> pub_inv demo_pub_kv (published_kv demo_pub_db demo_ext (genesis_header demo_ext) [demo_pub_block]
            fmempty fmempty (1, 0, 0) demo_target demo_pub_kv) (Some [0], None, None) (Some [1], Some [0], Some [0])
            (journal_ok demo_pub_db demo_previous demo_target) (gen_state (sl_db u))))"
  by (rule suffix_publication_atomic [OF demo_pub_spec demo_hex_text_spec demo_pub_state demo_pub_verified demo_target_files])
    (use demo_hash_differs in \<open>simp add: demo_target_def demo_previous_def demo_manifest_def\<close>)

theorem suffix_recovery_completes_witness:
  "\<exists>u. recover_suffix_publication (ref_backend demo_pub_db) demo_ext (recovery_attempts demo_pub_db demo_ext 3
      (snd (publish_canonical_suffix demo_pub_db demo_ext (genesis_header demo_ext) [demo_pub_block] fmempty fmempty (1, 0, 0)
        demo_target demo_pub_store))) = (Inr (), u) \<and>
    (fst (verify_generation_manifest (ref_backend demo_pub_db) demo_ext u) = Inr demo_previous \<or>
     fst (verify_generation_manifest (ref_backend demo_pub_db) demo_ext u) = Inr demo_target)"
  using suffix_recovery_completes [OF demo_pub_spec demo_hex_text_spec demo_pub_state demo_pub_verified demo_target_files,
      of 3 "genesis_header demo_ext" "[demo_pub_block]" fmempty fmempty "(1, 0, 0)"] demo_hash_differs
  by (simp add: demo_target_def demo_previous_def demo_manifest_def)

end
