(* ===== verification/Sled_Accounts.thy ===== *)
theory Sled_Accounts
  imports Sled_Typed
begin

text \<open>
  The accounts of the database as one map.  The store spreads an account over four families of keys
  (balance, nonce, code, storage slots); the snapshots read the families with prefix scans.  Seen
  through the snapshot the store is a finite map from addresses to accounts, and \<open>put_evm_account\<close>
  is an update of that map.
\<close>

section \<open>Programs over the backend that never fails\<close>

definition kv :: "disk sled_storage \<Rightarrow> (bytes, bytes) fmap" where
  "kv s = dk_kv (sl_db s)"

definition on_kv :: "((bytes, bytes) fmap \<Rightarrow> (bytes, bytes) fmap) \<Rightarrow> disk sled_storage \<Rightarrow> disk sled_storage" where
  "on_kv f s = s\<lparr>sl_db := kv_upd f (sl_db s)\<rparr>"

lemma kv_on_kv [simp]: "kv (on_kv f s) = f (kv s)"
  by (simp add: kv_def on_kv_def)

lemma on_kv_on_kv [simp]: "on_kv g (on_kv f s) = on_kv (g \<circ> f) s"
  by (simp add: on_kv_def kv_upd_def)

lemma on_kv_id [simp]: "on_kv (\<lambda>m. m) s = s" "on_kv id s = s"
  by (simp_all add: on_kv_def kv_upd_def)

named_theorems ref_run

lemma ref_elementary [ref_run]:
  "db_get (ref_backend k) key s = (Inr (fmlookup (kv s) key), s)"
  "db_contains (ref_backend k) key s = (Inr (fmlookup (kv s) key \<noteq> None), s)"
  "db_scan (ref_backend k) p s = (Inr (map Inr (scan_entries p (kv s))), s)"
  "db_insert (ref_backend k) key v s = (Inr (), on_kv (fmupd key v) s)"
  "db_remove (ref_backend k) key s = (Inr (), on_kv (fmdrop key) s)"
  "db_apply_batch (ref_backend k) ops s = (Inr (), on_kv (batch_apply ops) s)"
  "db_flush (ref_backend k) s = (Inr (), s)" "flush_db (ref_backend k) s = (Inr (), s)"
  "sm_ok x s = (Inr x, s)" "sm_lift r s = (r, s)" "sm_err err s = (Inl err, s)" "json q s = (res_map_err Serialization q, s)"
  by (simp_all add: db_get_def db_contains_def db_scan_def db_insert_def db_remove_def db_apply_batch_def db_flush_def
      flush_db_def db_upd_def sm_gets_def kv_def on_kv_def sm_ok_def sm_lift_def sm_err_def json_def)

lemma sm_bind_run [ref_run]:
  "m s = (Inr x, t) \<Longrightarrow> sm_bind m f s = f x t"
  "m s = (Inl err, t) \<Longrightarrow> sm_bind m f s = (Inl err, t)"
  by (simp_all add: sm_bind_def)

lemma sm_seq_run [ref_run]:
  "m s = (Inr x, t) \<Longrightarrow> sm_seq m n s = n t"
  "m s = (Inl err, t) \<Longrightarrow> sm_seq m n s = (Inl err, t)"
  by (simp_all add: sm_seq_def sm_bind_def)

lemma ref_fold:
  assumes "\<And>kv acc t. kv \<in> set es \<Longrightarrow> f kv acc t = (Inr (g kv acc), t)"
  shows "sm_fold (\<lambda>item acc. scan_item item (\<lambda>kv. f kv acc)) (map Inr es) acc s = (Inr (fold g es acc), s)"
  using assms
proof (induction es arbitrary: acc)
  case (Cons x es)
  have "scan_item (Inr x) (\<lambda>kv. f kv acc) s = (Inr (g x acc), s)"
    using Cons.prems [of x acc s] by (simp add: scan_item_def sm_bind_def sm_lift_def)
  then show ?case using Cons by (simp add: sm_bind_run)
qed (simp add: sm_ok_def)

lemma ref_scan_fold:
  assumes "\<And>kv' acc t. kv' \<in> set (scan_entries p (kv s)) \<Longrightarrow> f kv' acc t = (Inr (g kv' acc), t)"
  shows "scan_fold (ref_backend k) p f acc s = (Inr (fold g (scan_entries p (kv s)) acc), s)"
  unfolding scan_fold_def by (subst sm_bind_run(1) [OF ref_elementary(3)]) (rule ref_fold [OF assms])

lemma ref_for:
  assumes "\<And>x t. x \<in> set xs \<Longrightarrow> f x t = (Inr (), on_kv (g x) t)"
  shows "sm_for f xs s = (Inr (), on_kv (fold g xs) s)"
  using assms
proof (induction xs arbitrary: s)
  case (Cons x xs)
  have "f x s = (Inr (), on_kv (g x) s)" by (rule Cons.prems) simp
  then show ?case using Cons.IH [of "on_kv (g x) s"] Cons.prems by (simp add: sm_seq_run comp_def)
qed (simp add: sm_ok_def id_def)

section \<open>Scans of one family of keys\<close>

lemma distinct_scan_entries: "distinct (map fst (scan_entries p m))"
  unfolding scan_entries_def
  by (rule distinct_map_filter) simp

text \<open>The keys of one family: \<open>K\<close> names them, \<open>p\<close> is their prefix.\<close>

definition family :: "ext \<Rightarrow> bytes \<Rightarrow> ('x \<Rightarrow> db_key) \<Rightarrow> bool" where
  "family e p K \<longleftrightarrow> inj K \<and> (\<forall>dk. prefix p (key_bytes e dk) \<longleftrightarrow> (\<exists>x. dk = K x))"

lemma families:
  "family e (as_bytes ''account:balance:'') BalanceOf" "family e (as_bytes ''account:nonce:'') NonceOf"
  "family e (as_bytes ''account:code:'') CodeOf" "family e (as_bytes ''account:storage:'') (\<lambda>(a, h). StorageOf a h)"
  "family e (as_bytes ''header:number:'') HeaderAt" "family e (as_bytes ''block:number:'') BlockAt"
  by (auto simp: family_def inj_def)

definition key_arg :: "ext \<Rightarrow> ('x \<Rightarrow> db_key) \<Rightarrow> bytes \<Rightarrow> 'x" where
  "key_arg e K key = (SOME x. key = key_bytes e (K x))"

lemma key_arg: "hex_text_spec e \<Longrightarrow> inj K \<Longrightarrow> key_arg e K (key_bytes e (K x)) = x"
  unfolding key_arg_def by (rule some_equality) (auto simp: inj_eq)

lemma scan_family:
  assumes "hex_text_spec e" "family e p K" "db_typed k e m"
  shows "map_of (map (\<lambda>(key, v). (key_arg e K key, v)) (scan_entries p m)) x = fmlookup m (key_bytes e (K x))"
    and "distinct (map (\<lambda>(key, v). key_arg e K key) (scan_entries p m))"
    and "(key, v) \<in> set (scan_entries p m) \<Longrightarrow> \<exists>x. key = key_bytes e (K x) \<and> value_ok k e (K x) v"
proof -
  let ?A = "key_arg e K"
  have pre: "prefix p (key_bytes e dk) \<longleftrightarrow> (\<exists>x. dk = K x)" for dk using assms(2) by (simp add: family_def)
  have A: "?A (key_bytes e (K x)) = x" for x using assms(1,2) by (simp add: key_arg family_def)
  show val: "\<exists>x. key = key_bytes e (K x) \<and> value_ok k e (K x) v" if "(key, v) \<in> set (scan_entries p m)" for key v
  proof -
    have "prefix p key" "fmlookup m key = Some v" using that by (simp_all add: scan_entry)
    then obtain dk where "key = key_bytes e dk" "value_ok k e dk v" using assms(3) by (auto simp: db_typed_def)
    then show ?thesis using pre [of dk] \<open>prefix p key\<close> by auto
  qed
  have "inj_on ?A (set (map fst (scan_entries p m)))"
  proof (rule inj_onI)
    fix a b assume ab: "a \<in> set (map fst (scan_entries p m))" "b \<in> set (map fst (scan_entries p m))" "?A a = ?A b"
    obtain x y where "a = key_bytes e (K x)" "b = key_bytes e (K y)" using ab(1,2) val by fastforce
    then show "a = b" using ab(3) by (simp add: A)
  qed
  then have "distinct (map ?A (map fst (scan_entries p m)))"
    using distinct_scan_entries by (simp only: distinct_map)
  then show d: "distinct (map (\<lambda>(key, v). ?A key) (scan_entries p m))"
    by (simp add: comp_def split_def)
  have fst: "distinct (map fst (map (\<lambda>(key, v). (?A key, v)) (scan_entries p m)))"
    using d by (simp add: comp_def split_def)
  have "map_of (map (\<lambda>(key, v). (?A key, v)) (scan_entries p m)) x = Some v \<longleftrightarrow> fmlookup m (key_bytes e (K x)) = Some v" for v
  proof -
    have "map_of (map (\<lambda>(key, v). (?A key, v)) (scan_entries p m)) x = Some v \<longleftrightarrow>
        (\<exists>key. (key, v) \<in> set (scan_entries p m) \<and> ?A key = x)"
      by (auto simp: map_of_eq_Some_iff [OF fst])
    also have "\<dots> \<longleftrightarrow> (key_bytes e (K x), v) \<in> set (scan_entries p m)"
      using val A by metis
    also have "\<dots> \<longleftrightarrow> fmlookup m (key_bytes e (K x)) = Some v"
      using pre by (auto simp: scan_entry)
    finally show ?thesis .
  qed
  then show "map_of (map (\<lambda>(key, v). (?A key, v)) (scan_entries p m)) x = fmlookup m (key_bytes e (K x))"
    by (metis not_Some_eq)
qed

lemma ref_family_scan:
  assumes "hex_text_spec e" "family e p K" "db_typed k e (kv s)"
    and step: "\<And>x v acc t. value_ok k e (K x) v \<Longrightarrow> f (key_bytes e (K x), v) acc t = (Inr (g x v acc), t)"
  obtains L where "distinct (map fst L)" "\<And>x. map_of L x = fmlookup (kv s) (key_bytes e (K x))"
    "scan_fold (ref_backend k) p f acc s = (Inr (fold (\<lambda>(x, v). g x v) L acc), s)"
proof -
  note sf = scan_family [OF assms(1-3)]
  let ?A = "key_arg e K"
  let ?L = "map (\<lambda>(key, v). (?A key, v)) (scan_entries p (kv s))"
  have A: "?A (key_bytes e (K x)) = x" for x using assms(1,2) by (simp add: key_arg family_def)
  have "f x acc t = (Inr ((\<lambda>(key, v). g (?A key) v) x acc), t)" if x_in: "x \<in> set (scan_entries p (kv s))" for x acc t
  proof -
    obtain key v where x: "x = (key, v)" by fastforce
    obtain y where "key = key_bytes e (K y)" "value_ok k e (K y) v" using sf(3) x_in x by blast
    then show ?thesis by (simp add: x step A)
  qed
  then have "scan_fold (ref_backend k) p f acc s = (Inr (fold (\<lambda>(key, v). g (?A key) v) (scan_entries p (kv s)) acc), s)"
    by (rule ref_scan_fold)
  moreover have "fold (\<lambda>(key, v). g (?A key) v) (scan_entries p (kv s)) acc = fold (\<lambda>(x, v). g x v) ?L acc"
    by (simp add: fold_map comp_def split_def)
  ultimately show thesis using that [of ?L] sf(1,2) by (simp add: comp_def split_def)
qed

lemma fold_fmupd_lookup:
  assumes "distinct (map fst L)"
  shows "fmlookup (fold (\<lambda>(x, v) acc. fmupd x (H v (fm_entry acc x d)) acc) L acc) a =
    (case map_of L a of None \<Rightarrow> fmlookup acc a | Some v \<Rightarrow> Some (H v (fm_entry acc a d)))"
  using assms
proof (induction L arbitrary: acc)
  case (Cons y L)
  obtain x v where y: "y = (x, v)" by fastforce
  have "map_of L x = None" using Cons.prems y by (simp add: map_of_eq_None_iff)
  then show ?case using Cons y by (auto simp: fm_entry_def split: option.splits)
qed simp

section \<open>What the keys of an address say\<close>

definition key_val :: "ext \<Rightarrow> (bytes, bytes) fmap \<Rightarrow> db_key \<Rightarrow> bytes option" where
  "key_val e m dk = fmlookup m (key_bytes e dk)"

definition stored_num :: "bytes option \<Rightarrow> 'w::len word" where
  "stored_num v = (case v of None \<Rightarrow> 0 | Some bs \<Rightarrow> from_be_bytes bs)"

definition stored_bytes :: "bytes option \<Rightarrow> bytes" where
  "stored_bytes v = (case v of None \<Rightarrow> [] | Some bs \<Rightarrow> bs)"

lemma stored_simps [simp]:
  "stored_num None = 0" "stored_num (Some bs) = from_be_bytes bs" "stored_bytes None = []" "stored_bytes (Some bs) = bs"
  by (simp_all add: stored_num_def stored_bytes_def)

definition native_at :: "ext \<Rightarrow> (bytes, bytes) fmap \<Rightarrow> address \<Rightarrow> (bix \<times> u64) option" where
  "native_at e m a =
     (if key_val e m (BalanceOf a) = None \<and> key_val e m (NonceOf a) = None then None
      else Some (stored_num (key_val e m (BalanceOf a)), stored_num (key_val e m (NonceOf a))))"

lemma ref_account_snapshot:
  assumes "hex_text_spec e" "db_typed k e (kv s)"
  obtains m where "account_snapshot (ref_backend k) e s = (Inr m, s)" "\<And>a. fmlookup m a = native_at e (kv s) a"
proof -
  define f1 :: "bytes \<times> bytes \<Rightarrow> native_accounts \<Rightarrow> (disk, native_accounts) db" where
    "f1 = (\<lambda>(key, v) accounts.
       sm_bind (sm_lift (address_from_balance_key e key)) (\<lambda>a.
       sm_bind (sm_lift (u128_from_slice v)) (\<lambda>balance.
       sm_ok (fmupd a (balance, snd (fm_entry accounts a (0, 0))) accounts))))"
  define f2 :: "bytes \<times> bytes \<Rightarrow> native_accounts \<Rightarrow> (disk, native_accounts) db" where
    "f2 = (\<lambda>(key, v) accounts.
       sm_bind (sm_lift (address_from_nonce_key e key)) (\<lambda>a.
       sm_bind (sm_lift (u64_from_slice ''invalid nonce value'' v)) (\<lambda>nonce.
       sm_ok (fmupd a (fst (fm_entry accounts a (0, 0)), nonce) accounts))))"
  let ?H1 = "\<lambda>v x. (from_be_bytes v :: bix, snd x :: u64)" and ?H2 = "\<lambda>v x. (fst x :: bix, from_be_bytes v :: u64)"
  obtain L1 where L1: "distinct (map fst L1)" "\<And>a. map_of L1 a = key_val e (kv s) (BalanceOf a)"
    "scan_fold (ref_backend k) (as_bytes ''account:balance:'') f1 fmempty s =
      (Inr (fold (\<lambda>(a, v) acc. fmupd a (?H1 v (fm_entry acc a (0, 0))) acc) L1 fmempty), s)"
    by (rule ref_family_scan [OF assms(1) families(1) assms(2), where f = f1 and acc = fmempty and
          g = "\<lambda>a v acc. fmupd a (?H1 v (fm_entry acc a (0, 0))) acc"])
      (simp_all add: f1_def address_from_keys [OF assms(1)] u128_from_slice_def sm_simps key_val_def)
  let ?m1 = "fold (\<lambda>(a, v) acc. fmupd a (?H1 v (fm_entry acc a (0, 0))) acc) L1 fmempty"
  obtain L2 where L2: "distinct (map fst L2)" "\<And>a. map_of L2 a = key_val e (kv s) (NonceOf a)"
    "scan_fold (ref_backend k) (as_bytes ''account:nonce:'') f2 ?m1 s =
      (Inr (fold (\<lambda>(a, v) acc. fmupd a (?H2 v (fm_entry acc a (0, 0))) acc) L2 ?m1), s)"
    by (rule ref_family_scan [OF assms(1) families(2) assms(2), where f = f2 and acc = ?m1 and
          g = "\<lambda>a v acc. fmupd a (?H2 v (fm_entry acc a (0, 0))) acc"])
      (simp_all add: f2_def address_from_keys [OF assms(1)] u64_from_slice_def sm_simps key_val_def)
  let ?m = "fold (\<lambda>(a, v) acc. fmupd a (?H2 v (fm_entry acc a (0, 0))) acc) L2 ?m1"
  show thesis
  proof (rule that)
    show "account_snapshot (ref_backend k) e s = (Inr ?m, s)"
      unfolding account_snapshot_def f1_def [symmetric] f2_def [symmetric]
      by (simp only: sm_bind_def L1(3) prod.case sum.case L2(3))
    have m1: "fmlookup ?m1 a = map_option (\<lambda>v. (from_be_bytes v, 0)) (key_val e (kv s) (BalanceOf a))" for a
      by (subst fold_fmupd_lookup [OF L1(1)]) (simp add: L1(2) fm_entry_def split: option.splits)
    have e1: "fm_entry ?m1 a (0, 0) = (stored_num (key_val e (kv s) (BalanceOf a)), 0)" for a
      by (simp only: fm_entry_def [of ?m1] m1) (simp split: option.splits)
    show "fmlookup ?m a = native_at e (kv s) a" for a
      by (subst fold_fmupd_lookup [OF L2(1)]) (auto simp: L2(2) m1 e1 native_at_def split: option.splits)
  qed
qed

text \<open>The account of an address in the contract state, as the four families of keys give it.\<close>

definition account_present :: "ext \<Rightarrow> (bytes, bytes) fmap \<Rightarrow> address \<Rightarrow> bool" where
  "account_present e m a \<longleftrightarrow>
     native_at e m a \<noteq> None \<or> key_val e m (CodeOf a) \<noteq> None \<or> (\<exists>h. key_val e m (StorageOf a h) \<noteq> None)"

fun account_fields :: "ext \<Rightarrow> (bytes, bytes) fmap \<Rightarrow> address \<Rightarrow> evm_account_snapshot \<Rightarrow> bool" where
  "account_fields e m a (balance, nonce, code, slots) \<longleftrightarrow>
     balance = stored_num (key_val e m (BalanceOf a)) \<and> nonce = stored_num (key_val e m (NonceOf a)) \<and>
     code = stored_bytes (key_val e m (CodeOf a)) \<and> (\<forall>h. fmlookup slots h = map_option Arr (key_val e m (StorageOf a h)))"

definition shows_accounts :: "ext \<Rightarrow> (bytes, bytes) fmap \<Rightarrow> evm_state_snapshot \<Rightarrow> bool" where
  "shows_accounts e m A \<longleftrightarrow>
     (\<forall>a. case fmlookup A a of None \<Rightarrow> \<not> account_present e m a
        | Some acc \<Rightarrow> account_present e m a \<and> account_fields e m a acc)"

lemma shows_accountsI:
  assumes "\<And>a. fmlookup A a = None \<longleftrightarrow> \<not> account_present e m a" "\<And>a. account_fields e m a (fm_entry A a evm_empty)"
  shows "shows_accounts e m A"
  unfolding shows_accounts_def
proof
  fix a
  show "case fmlookup A a of None \<Rightarrow> \<not> account_present e m a | Some acc \<Rightarrow> account_present e m a \<and> account_fields e m a acc"
    using assms(1) [of a] assms(2) [of a] by (cases "fmlookup A a") (simp_all add: fm_entry_def)
qed

definition put_slot :: "address \<times> hash256 \<Rightarrow> bytes \<Rightarrow> evm_state_snapshot \<Rightarrow> evm_state_snapshot" where
  "put_slot = (\<lambda>(a, slot) v accounts. case fm_entry accounts a evm_empty of (balance, nonce, code, slots) \<Rightarrow>
     fmupd a (balance, nonce, code, fmupd slot (Arr v) slots) accounts)"

lemma fold_put_slot:
  fixes L :: "((address \<times> hash256) \<times> bytes) list"
  assumes "distinct (map fst L)" "fm_entry acc a evm_empty = (balance, nonce, code, slots)"
  shows "\<exists>s'. fm_entry (fold (\<lambda>(x, v). put_slot x v) L acc) a evm_empty = (balance, nonce, code, s') \<and>
    (\<forall>h. fmlookup s' h = (case map_of L (a, h) of None \<Rightarrow> fmlookup slots h | Some v \<Rightarrow> Some (Arr v)))"
  using assms
proof (induction L arbitrary: acc slots)
  case (Cons y L)
  obtain b h v where y: "y = ((b, h), v)" by (metis prod.exhaust)
  obtain b1 n1 c1 s1 where b: "fm_entry acc b evm_empty = (b1, n1, c1, s1)" by (metis prod.exhaust)
  have new: "fm_entry (put_slot (b, h) v acc) a evm_empty =
      (balance, nonce, code, if a = b then fmupd h (Arr v) slots else slots)"
    using Cons.prems(2) b by (auto simp: put_slot_def fm_entry_def)
  have "map_of L (b, h) = None" using Cons.prems y by (simp add: map_of_eq_None_iff)
  then show ?case using Cons.IH [OF _ new] Cons.prems(1) y by (fastforce split: option.splits if_splits)
qed simp

lemma fold_put_slot_dom:
  "fmlookup (fold (\<lambda>(x, v). put_slot x v) L acc) a = None \<longleftrightarrow> fmlookup acc a = None \<and> (\<forall>h. map_of L (a, h) = None)"
proof (induction L arbitrary: acc)
  case (Cons y L)
  obtain b h v where y: "y = ((b, h), v)" by (metis prod.exhaust)
  obtain b1 n1 c1 s1 where b: "fm_entry acc b evm_empty = (b1, n1, c1, s1)" by (metis prod.exhaust)
  have "fmlookup (put_slot (b, h) v acc) a = None \<longleftrightarrow> fmlookup acc a = None \<and> a \<noteq> b"
    using b by (auto simp: put_slot_def)
  then show ?case using Cons.IH y by auto
qed simp

lemma ref_evm_account_snapshot:
  assumes "hex_text_spec e" "db_typed k e (kv s)"
  obtains A where "sled_evm_account_snapshot (ref_backend k) e s = (Inr A, s)" "shows_accounts e (kv s) A"
proof -
  obtain m where m: "account_snapshot (ref_backend k) e s = (Inr m, s)" "\<And>a. fmlookup m a = native_at e (kv s) a"
    using ref_account_snapshot [OF assms] by blast
  define f1 :: "bytes \<times> bytes \<Rightarrow> evm_state_snapshot \<Rightarrow> (disk, evm_state_snapshot) db" where
    "f1 = (\<lambda>(key, v) accounts.
       sm_bind (sm_lift (address_from_code_key e key)) (\<lambda>a.
       case fm_entry accounts a evm_empty of (balance, nonce, _, slots) \<Rightarrow>
       sm_ok (fmupd a (balance, nonce, v, slots) accounts)))"
  define f2 :: "bytes \<times> bytes \<Rightarrow> evm_state_snapshot \<Rightarrow> (disk, evm_state_snapshot) db" where
    "f2 = (\<lambda>(key, v) accounts.
       sm_bind (sm_lift (address_from_storage_key e key)) (\<lambda>(a, slot).
       sm_bind (sm_lift (hash_from_bytes v)) (\<lambda>x.
       case fm_entry accounts a evm_empty of (balance, nonce, code, slots) \<Rightarrow>
       sm_ok (fmupd a (balance, nonce, code, fmupd slot x slots) accounts))))"
  define H where "H = (\<lambda>(v :: bytes) (x :: evm_account_snapshot). case x of (balance, nonce, code, slots) \<Rightarrow> (balance, nonce, v, slots))"
  let ?m0 = "fmmap (\<lambda>(balance, nonce). (balance, nonce, [], fmempty)) m :: evm_state_snapshot"
  obtain L1 where L1: "distinct (map fst L1)" "\<And>a. map_of L1 a = key_val e (kv s) (CodeOf a)"
    "scan_fold (ref_backend k) (as_bytes ''account:code:'') f1 ?m0 s =
      (Inr (fold (\<lambda>(a, v) acc. fmupd a (H v (fm_entry acc a evm_empty)) acc) L1 ?m0), s)"
    by (rule ref_family_scan [OF assms(1) families(3) assms(2), where f = f1 and acc = ?m0 and
          g = "\<lambda>a v acc. fmupd a (H v (fm_entry acc a evm_empty)) acc"])
      (simp_all add: f1_def H_def address_from_keys [OF assms(1)] sm_simps key_val_def split: prod.splits)
  define m1 where "m1 = fold (\<lambda>(a, v) acc. fmupd a (H v (fm_entry acc a evm_empty)) acc) L1 ?m0"
  have step2: "f2 (key_bytes e ((\<lambda>(a, h). StorageOf a h) x), v) acc t = (Inr (put_slot x v acc), t)"
    if "value_ok k e ((\<lambda>(a, h). StorageOf a h) x) v" for x v acc t
    using that by (cases x) (auto simp: f2_def put_slot_def address_from_storage_key_ok [OF assms(1)] hash_from_bytes_def sm_simps split: prod.splits)
  obtain L2 where L2: "distinct (map fst L2)" "\<And>x. map_of L2 x = key_val e (kv s) ((\<lambda>(a, h). StorageOf a h) x)"
    "scan_fold (ref_backend k) (as_bytes ''account:storage:'') f2 m1 s = (Inr (fold (\<lambda>(x, v). put_slot x v) L2 m1), s)"
    by (rule ref_family_scan [OF assms(1) families(4) assms(2), where f = f2 and g = put_slot and acc = m1])
      (erule step2, simp_all add: key_val_def)
  let ?A = "fold (\<lambda>(x, v). put_slot x v) L2 m1"
  show thesis
  proof (rule that)
    show "sled_evm_account_snapshot (ref_backend k) e s = (Inr ?A, s)"
      unfolding sled_evm_account_snapshot_def f1_def [symmetric] f2_def [symmetric]
      by (simp only: sm_bind_def m(1) L1(3) prod.case sum.case L2(3) m1_def [symmetric])
    have m1: "fmlookup m1 a = (case key_val e (kv s) (CodeOf a) of None \<Rightarrow> fmlookup ?m0 a
        | Some v \<Rightarrow> Some (H v (fm_entry ?m0 a evm_empty)))" for a
      unfolding m1_def by (subst fold_fmupd_lookup [OF L1(1)]) (simp only: L1(2))
    have e1: "fm_entry m1 a evm_empty = (stored_num (key_val e (kv s) (BalanceOf a)), stored_num (key_val e (kv s) (NonceOf a)),
        stored_bytes (key_val e (kv s) (CodeOf a)), fmempty)" for a
      by (simp add: fm_entry_def m1 m(2) native_at_def evm_empty_def H_def split: option.splits)
    have dom: "fmlookup ?A a = None \<longleftrightarrow> \<not> account_present e (kv s) a" for a
    proof -
      have "fmlookup m1 a = None \<longleftrightarrow> key_val e (kv s) (CodeOf a) = None \<and> native_at e (kv s) a = None"
        by (simp add: m1 m(2) split: option.split)
      then show ?thesis by (simp add: fold_put_slot_dom L2(2) account_present_def del: not_None_eq)
    qed
    have "account_fields e (kv s) a (fm_entry ?A a evm_empty)" for a
      using fold_put_slot [OF L2(1) e1 [of a]] by (auto simp: L2(2) map_option_case cong: option.case_cong)
    then show "shows_accounts e (kv s) ?A"
      using dom by (rule shows_accountsI [rotated])
  qed
qed

section \<open>What writing an account changes\<close>

lemma fold_drop_lookup:
  "fmlookup (fold (\<lambda>(key, slot). if P slot then fmdrop key else id) ex m) q =
    (if \<exists>slot. (q, slot) \<in> set ex \<and> P slot then None else fmlookup m q)"
  by (induction ex arbitrary: m) (auto split: if_splits)

lemma fold_put_lookup:
  assumes "distinct (map fst es)" "inj F"
  shows "fmlookup (fold (\<lambda>(x, v). if v = z then fmdrop (F x) else fmupd (F x) (G v)) es m) (F x) =
      (case map_of es x of None \<Rightarrow> fmlookup m (F x) | Some v \<Rightarrow> if v = z then None else Some (G v))"
    "q \<notin> range F \<Longrightarrow> fmlookup (fold (\<lambda>(x, v). if v = z then fmdrop (F x) else fmupd (F x) (G v)) es m) q = fmlookup m q"
proof -
  show "fmlookup (fold (\<lambda>(x, v). if v = z then fmdrop (F x) else fmupd (F x) (G v)) es m) (F x) =
      (case map_of es x of None \<Rightarrow> fmlookup m (F x) | Some v \<Rightarrow> if v = z then None else Some (G v))"
    using assms(1)
  proof (induction es arbitrary: m)
    case (Cons y es)
    obtain x' v where y: "y = (x', v)" by fastforce
    have "map_of es x' = None" using Cons.prems y by (simp add: map_of_eq_None_iff)
    then show ?case using Cons y assms(2) by (auto simp: inj_eq split: option.splits)
  qed simp
  show "fmlookup (fold (\<lambda>(x, v). if v = z then fmdrop (F x) else fmupd (F x) (G v)) es m) q = fmlookup m q"
    if "q \<notin> range F"
    using that by (induction es arbitrary: m) auto
qed

definition slot_value :: "(hash256, hash256) fmap \<Rightarrow> hash256 \<Rightarrow> bytes option" where
  "slot_value slots h = (case fmlookup slots h of None \<Rightarrow> None | Some v \<Rightarrow> if v = ZERO_HASH then None else Some (arr_bytes v))"

fun put_value :: "address \<Rightarrow> evm_account_snapshot \<Rightarrow> db_key \<Rightarrow> bytes option \<Rightarrow> bytes option" where
  "put_value a (balance, nonce, code, slots) (BalanceOf b) old = (if b = a then Some (to_be_bytes balance) else old)"
| "put_value a (balance, nonce, code, slots) (NonceOf b) old = (if b = a then Some (to_be_bytes nonce) else old)"
| "put_value a (balance, nonce, code, slots) (CodeOf b) old = (if b = a then if code = [] then None else Some code else old)"
| "put_value a (balance, nonce, code, slots) (StorageOf b h) old = (if b = a then slot_value slots h else old)"
| "put_value a _ dk old = old"

lemma ref_put_account:
  "sled_put_account (ref_backend k) e a balance nonce s =
    (Inr (), on_kv (\<lambda>m. fmupd (nonce_key e a) (to_be_bytes nonce) (fmupd (balance_key e a) (to_be_bytes balance) m)) s)"
  by (simp add: sled_put_account_def sm_seq_def sm_bind_def ref_elementary comp_def)

text \<open>The slots of the address that the database holds: the scan that \<open>put_evm_account\<close> starts with.\<close>

lemma ref_existing_slots:
  assumes "hex_text_spec e" "db_typed k e (kv s)"
  obtains ex where "scan_fold (ref_backend k) (as_bytes ''account:storage:'') (\<lambda>(key, v) existing.
       sm_bind (sm_lift (address_from_storage_key e key)) (\<lambda>(stored_address, slot).
       sm_ok (if stored_address = a then existing @ [(key, slot)] else existing))) [] s = (Inr ex, s)"
    "\<And>key slot. (key, slot) \<in> set ex \<longleftrightarrow> key = key_bytes e (StorageOf a slot) \<and> fmlookup (kv s) key \<noteq> None"
proof -
  let ?K = "\<lambda>(a, h). StorageOf a h"
  let ?g = "\<lambda>x (v :: bytes) ex. if fst x = a then ex @ [(key_bytes e (StorageOf a (snd x)), snd x)] else ex"
  obtain L where L: "distinct (map fst L)" "\<And>x. map_of L x = fmlookup (kv s) (key_bytes e (?K x))"
    "scan_fold (ref_backend k) (as_bytes ''account:storage:'') (\<lambda>(key, v) existing.
       sm_bind (sm_lift (address_from_storage_key e key)) (\<lambda>(stored_address, slot).
       sm_ok (if stored_address = a then existing @ [(key, slot)] else existing))) [] s = (Inr (fold (\<lambda>(x, v). ?g x v) L []), s)"
    by (rule ref_family_scan [OF assms(1) families(4) assms(2), where acc = "[]" and g = ?g and f = "\<lambda>(key, v) existing.
       sm_bind (sm_lift (address_from_storage_key e key)) (\<lambda>(stored_address, slot).
       sm_ok (if stored_address = a then existing @ [(key, slot)] else existing))"])
      (auto simp: address_from_storage_key_ok [OF assms(1)] sm_simps split: prod.splits)
  have "set (fold (\<lambda>(x, v). ?g x v) M acc) =
      set acc \<union> {(key_bytes e (StorageOf a h), h) | h v. ((a, h), v) \<in> set M}" for M acc
    by (induction M arbitrary: acc) (auto split: if_splits)
  then have "(key, slot) \<in> set (fold (\<lambda>(x, v). ?g x v) L []) \<longleftrightarrow>
      key = key_bytes e (StorageOf a slot) \<and> fmlookup (kv s) key \<noteq> None" for key slot
    using map_of_eq_Some_iff [OF L(1), of "(a, slot)"] L(2) [of "(a, slot)"] by force
  then show thesis using that L(3) by blast
qed

lemma ref_put_evm_account:
  assumes e: "hex_text_spec e" and "db_typed k e (kv s)"
  obtains m where "put_evm_account (ref_backend k) e a balance nonce code slots s = (Inr (), on_kv (\<lambda>_. m) s)"
    "\<And>dk. key_val e m dk = put_value a (balance, nonce, code, slots) dk (key_val e (kv s) dk)"
proof -
  let ?f1 = "\<lambda>m. fmupd (nonce_key e a) (to_be_bytes nonce) (fmupd (balance_key e a) (to_be_bytes balance) m)"
  let ?f2 = "\<lambda>m. if code = [] then fmdrop (code_key e a) m else fmupd (code_key e a) code m"
  define s2 where "s2 = on_kv (\<lambda>m. ?f2 (?f1 m)) s"
  have typed: "db_typed k e (kv s2)"
    using assms by (auto simp: s2_def key_folds [where e = e] intro!: typed_upd typed_drop)
  define sc where "sc = scan_fold (ref_backend k) (as_bytes ''account:storage:'') (\<lambda>(key, v) existing.
       sm_bind (sm_lift (address_from_storage_key e key)) (\<lambda>(stored_address, slot).
       sm_ok (if stored_address = a then existing @ [(key, slot)] else existing))) []"
  obtain ex where ex: "sc s2 = (Inr ex, s2)"
    "\<And>key slot. (key, slot) \<in> set ex \<longleftrightarrow> key = key_bytes e (StorageOf a slot) \<and> fmlookup (kv s2) key \<noteq> None"
    unfolding sc_def using ref_existing_slots [OF e typed] by blast
  let ?g3 = "\<lambda>(key, slot). if fmlookup slots slot = None then fmdrop key else id"
  let ?g4 = "\<lambda>(slot, v). if v = ZERO_HASH then fmdrop (storage_key e a slot) else fmupd (storage_key e a slot) (arr_bytes v)"
  have r3: "sm_for (\<lambda>(key, slot). if fmlookup slots slot = None then db_remove (ref_backend k) key else sm_ok ()) ex t =
      (Inr (), on_kv (fold ?g3 ex) t)" for t
    by (rule ref_for) (auto simp: ref_elementary id_def)
  have r4: "sm_for (\<lambda>(slot, v). if v = ZERO_HASH then db_remove (ref_backend k) (storage_key e a slot)
       else db_insert (ref_backend k) (storage_key e a slot) (arr_bytes v)) (fm_entries slots) t =
      (Inr (), on_kv (fold ?g4 (fm_entries slots)) t)" for t
    by (rule ref_for) (auto simp: ref_elementary)
  have r2: "(if code = [] then db_remove (ref_backend k) (code_key e a) else db_insert (ref_backend k) (code_key e a) code)
      (on_kv ?f1 s) = (Inr (), s2)"
    by (auto simp: ref_elementary s2_def comp_def)
  define m where "m = fold ?g4 (fm_entries slots) (fold ?g3 ex (kv s2))"
  have "put_evm_account (ref_backend k) e a balance nonce code slots s =
      (Inr (), on_kv (fold ?g4 (fm_entries slots) \<circ> fold ?g3 ex) s2)"
    unfolding put_evm_account_def sc_def [symmetric]
    by (simp only: sm_seq_def sm_bind_def ref_put_account r2 ex(1) r3 r4 ref_elementary prod.case sum.case on_kv_on_kv)
  moreover have "on_kv (fold ?g4 (fm_entries slots) \<circ> fold ?g3 ex) s2 = on_kv (\<lambda>_. m) s"
    by (simp add: m_def s2_def on_kv_def kv_def kv_upd_def)
  moreover have "key_val e m dk = put_value a (balance, nonce, code, slots) dk (key_val e (kv s) dk)" for dk
  proof -
    let ?F = "storage_key e a"
    have inj: "inj ?F" using e by (auto simp: inj_def key_folds [where e = e])
    have m3: "fmlookup (fold ?g3 ex (kv s2)) q =
        (if \<exists>h. q = ?F h \<and> fmlookup slots h = None then None else fmlookup (kv s2) q)" for q
      by (auto simp: fold_drop_lookup ex(2) key_folds [where e = e])
    have slot: "fmlookup m (?F h) = slot_value slots h" for h
      unfolding m_def using inj by (subst fold_put_lookup(1)) (auto simp: m3 slot_value_def inj_eq split: option.splits)
    have other: "fmlookup m q = fmlookup (kv s2) q" if "q \<notin> range ?F" for q
      unfolding m_def using that inj by (subst fold_put_lookup(2)) (auto simp: m3)
    show ?thesis
    proof (cases "key_bytes e dk \<in> range ?F")
      case True
      then obtain h where "dk = StorageOf a h" using e by (auto simp: key_folds [where e = e])
      then show ?thesis using slot [of h] by (simp add: key_val_def key_folds [where e = e])
    next
      case False
      have "key_val e m dk = key_val e (kv s2) dk" using other [OF False] by (simp add: key_val_def)
      then show ?thesis using False e
        by (cases dk) (auto simp: key_val_def s2_def key_folds [where e = e])
    qed
  qed
  ultimately show thesis using that [of m] by simp
qed

section \<open>The database as a map of accounts\<close>

lemma shows_accounts_unique:
  assumes "shows_accounts e m A" "shows_accounts e m B"
  shows "A = B"
proof (rule fmap_ext)
  fix a
  have uniq: "x = y" if "account_fields e m a x" "account_fields e m a y" for x y
    using that by (cases x; cases y) (auto intro: fmap_ext)
  show "fmlookup A a = fmlookup B a"
    using assms [unfolded shows_accounts_def, THEN spec, of a] uniq
    by (cases "fmlookup A a"; cases "fmlookup B a") simp_all
qed

text \<open>A slot of value zero is a slot that is not stored.\<close>

fun drop_zero_slots :: "evm_account_snapshot \<Rightarrow> evm_account_snapshot" where
  "drop_zero_slots (balance, nonce, code, slots) =
     (balance, nonce, code, fmfilter (\<lambda>h. fmlookup slots h \<noteq> Some ZERO_HASH) slots)"

lemma shows_accounts_put:
  assumes "shows_accounts e m A" "\<And>dk. key_val e m' dk = put_value a acc dk (key_val e m dk)"
  shows "shows_accounts e m' (fmupd a (drop_zero_slots acc) A)"
proof -
  obtain balance nonce code slots where acc: "acc = (balance, nonce, code, slots)" by (metis prod.exhaust)
  have same: "account_present e m' b \<longleftrightarrow> account_present e m b" "account_fields e m' b x \<longleftrightarrow> account_fields e m b x" if "b \<noteq> a" for b x
    using that by (simp add: account_present_def native_at_def assms(2) acc) (use that in \<open>cases x, simp add: assms(2) acc\<close>)
  have "account_present e m' a" by (simp add: account_present_def native_at_def assms(2) acc)
  moreover have "account_fields e m' a (drop_zero_slots acc)"
    by (auto simp: acc assms(2) slot_value_def split: option.splits)
  ultimately have "case fmlookup (fmupd a (drop_zero_slots acc) A) b of None \<Rightarrow> \<not> account_present e m' b
      | Some x \<Rightarrow> account_present e m' b \<and> account_fields e m' b x" for b
    using assms(1) [unfolded shows_accounts_def, THEN spec, of b] same
    by (cases "b = a"; cases "fmlookup A b") simp_all
  then show ?thesis by (simp add: shows_accounts_def)
qed

lemma refines_flush_db [refine]: "sled_spec k c \<Longrightarrow> refines c (flush_db k) (flush_db (ref_backend k))"
  using refines_db_ops(4) [of k c] by (simp add: refines_def flush_db_def)

lemma refines_account_ops [refine]:
  assumes "sled_spec k c"
  shows "refines c (account_snapshot k e) (account_snapshot (ref_backend k) e)"
    "refines c (sled_evm_account_snapshot k e) (sled_evm_account_snapshot (ref_backend k) e)"
    "refines c (sled_put_account k e a balance nonce) (sled_put_account (ref_backend k) e a balance nonce)"
    "refines c (put_evm_account k e a balance nonce code slots) (put_evm_account (ref_backend k) e a balance nonce code slots)"
proof -
  show snap: "refines c (account_snapshot k e) (account_snapshot (ref_backend k) e)"
    unfolding account_snapshot_def by (intro refine assms)
  show "refines c (sled_evm_account_snapshot k e) (sled_evm_account_snapshot (ref_backend k) e)"
    unfolding sled_evm_account_snapshot_def by (intro refine snap assms)
  show put: "refines c (sled_put_account k e a balance nonce) (sled_put_account (ref_backend k) e a balance nonce)"
    unfolding sled_put_account_def by (intro refine assms)
  show "refines c (put_evm_account k e a balance nonce code slots) (put_evm_account (ref_backend k) e a balance nonce code slots)"
    unfolding put_evm_account_def by (intro refine put assms)
qed

text \<open>On a well-typed database the snapshot can only fail with an error of the disk; when it
  returns, it shows the accounts, and the database is as it was.\<close>

lemma evm_snapshot_shows:
  assumes "sled_spec k c" "hex_text_spec e" "disk_typed k e (c (sl_db s))" "sled_evm_account_snapshot k e s = (Inr A, t)"
  shows "shows_accounts e (dk_kv (c (sl_db s))) A"
proof -
  have "sled_evm_account_snapshot (ref_backend k) e (view c s) = (Inr A, view c t)"
    using refinesD [OF refines_account_ops(2) [OF assms(1)] assms(4)] .
  moreover have "db_typed k e (kv (view c s))" using assms(3) by (simp add: disk_typed_def kv_def)
  then obtain B where "sled_evm_account_snapshot (ref_backend k) e (view c s) = (Inr B, view c s)" "shows_accounts e (kv (view c s)) B"
    by (rule ref_evm_account_snapshot [OF assms(2)])
  ultimately have "shows_accounts e (kv (view c s)) A" by simp
  then show ?thesis by (simp add: kv_def)
qed

lemma put_account_shows:
  assumes "sled_spec k c" "hex_text_spec e" "disk_typed k e (c (sl_db s))" "shows_accounts e (dk_kv (c (sl_db s))) A"
    and "put_evm_account k e a balance nonce code slots s = (Inr (), t)"
  shows "shows_accounts e (dk_kv (c (sl_db t))) (fmupd a (drop_zero_slots (balance, nonce, code, slots)) A)"
proof -
  have run: "put_evm_account (ref_backend k) e a balance nonce code slots (view c s) = (Inr (), view c t)"
    using refinesD [OF refines_account_ops(4) [OF assms(1)] assms(5)] .
  have "db_typed k e (kv (view c s))" using assms(3) by (simp add: disk_typed_def kv_def)
  then obtain m where m: "put_evm_account (ref_backend k) e a balance nonce code slots (view c s) = (Inr (), on_kv (\<lambda>_. m) (view c s))"
    "\<And>dk. key_val e m dk = put_value a (balance, nonce, code, slots) dk (key_val e (kv (view c s)) dk)"
    using ref_put_evm_account [OF assms(2)] by blast
  have "view c t = on_kv (\<lambda>_. m) (view c s)" using run m(1) by simp
  then have "kv (view c t) = m" by simp
  then show ?thesis using shows_accounts_put [OF _ m(2)] assms(4) by (simp add: kv_def)
qed

lemma native_snapshot_shows:
  assumes "sled_spec k c" "hex_text_spec e" "disk_typed k e (c (sl_db s))" "account_snapshot k e s = (Inr A, t)"
  shows "fmlookup A a = native_at e (dk_kv (c (sl_db s))) a"
proof -
  have "account_snapshot (ref_backend k) e (view c s) = (Inr A, view c t)"
    using refinesD [OF refines_account_ops(1) [OF assms(1)] assms(4)] .
  moreover have "db_typed k e (kv (view c s))" using assms(3) by (simp add: disk_typed_def kv_def)
  then obtain B where "account_snapshot (ref_backend k) e (view c s) = (Inr B, view c s)" "\<And>a. fmlookup B a = native_at e (kv (view c s)) a"
    using ref_account_snapshot [OF assms(2)] by blast
  ultimately have "fmlookup A a = native_at e (kv (view c s)) a" by simp
  then show ?thesis by (simp add: kv_def)
qed

lemma put_native_shows:
  assumes "sled_spec k c" "hex_text_spec e" "sled_put_account k e a balance nonce s = (Inr (), t)"
  shows "native_at e (dk_kv (c (sl_db t))) b = (if b = a then Some (balance, nonce) else native_at e (dk_kv (c (sl_db s))) b)"
proof -
  have "sled_put_account (ref_backend k) e a balance nonce (view c s) = (Inr (), view c t)"
    using refinesD [OF refines_account_ops(3) [OF assms(1)] assms(3)] .
  then have "view c t = on_kv (\<lambda>m. fmupd (nonce_key e a) (to_be_bytes nonce) (fmupd (balance_key e a) (to_be_bytes balance) m)) (view c s)"
    by (simp add: ref_put_account)
  then have "kv (view c t) = fmupd (nonce_key e a) (to_be_bytes nonce) (fmupd (balance_key e a) (to_be_bytes balance) (kv (view c s)))"
    by simp
  then show ?thesis using assms(2) by (auto simp: kv_def native_at_def key_val_def key_folds [where e = e])
qed

end
