(* ===== verification/Sled_Frames.thy ===== *)
theory Sled_Frames
  imports Sled_Accounts Publication
begin

text \<open>
  What an operation of the database leaves as it was, and what a successful insertion of a block
  writes: \<open>leaves e c P m\<close> says that a successful run of \<open>m\<close> keeps the value of every key in \<open>P\<close>.
\<close>

definition key_now :: "ext \<Rightarrow> ('d \<Rightarrow> disk) \<Rightarrow> 'd sled_storage \<Rightarrow> db_key \<Rightarrow> bytes option" where
  "key_now e c s dk = key_val e (dk_kv (c (sl_db s))) dk"

definition leaves :: "ext \<Rightarrow> ('d \<Rightarrow> disk) \<Rightarrow> (db_key \<Rightarrow> bool) \<Rightarrow> ('d, 'a) db \<Rightarrow> bool" where
  "leaves e c P m \<longleftrightarrow> (\<forall>s x t dk. m s = (Inr x, t) \<longrightarrow> P dk \<longrightarrow> key_now e c t dk = key_now e c s dk)"

definition framed :: "ext \<Rightarrow> (db_key \<Rightarrow> bool) \<Rightarrow> (db_key \<Rightarrow> bytes option) \<Rightarrow> disk \<Rightarrow> bool" where
  "framed e P v d \<longleftrightarrow> (\<forall>dk. P dk \<longrightarrow> key_val e (dk_kv d) dk = v dk)"

named_theorems frame

lemma leavesD: "leaves e c P m \<Longrightarrow> m s = (Inr x, t) \<Longrightarrow> P dk \<Longrightarrow> key_now e c t dk = key_now e c s dk"
  by (auto simp: leaves_def)

lemma leaves_bind [frame]: "leaves e c P m \<Longrightarrow> (\<And>x. leaves e c P (f x)) \<Longrightarrow> leaves e c P (sm_bind m f)"
  by (auto simp: leaves_def sm_simps)

lemma leaves_seq [frame]: "leaves e c P m \<Longrightarrow> leaves e c P n \<Longrightarrow> leaves e c P (sm_seq m n)"
  unfolding sm_seq_def by (rule leaves_bind)

lemma leaves_pure [frame]: "leaves e c P (sm_ok x)" "leaves e c P (sm_err err)" "leaves e c P (sm_lift r)"
  by (auto simp: leaves_def sm_simps)

lemma leaves_if [frame]: "leaves e c P m \<Longrightarrow> leaves e c P n \<Longrightarrow> leaves e c P (if b then m else n)"
  by simp

lemma leaves_for [frame]: "(\<And>x. x \<in> set xs \<Longrightarrow> leaves e c P (f x)) \<Longrightarrow> leaves e c P (sm_for f xs)"
  by (induction xs) (simp_all add: frame)

lemma leaves_keeps: "(\<And>Q. keeps c Q m) \<Longrightarrow> leaves e c P m"
proof -
  assume k: "\<And>Q. keeps c Q m"
  have "c (sl_db t) = c (sl_db s)" if "m s = (Inr x, t)" for s x t
    using k [of "\<lambda>d. d = c (sl_db s)"] that by (auto simp: keeps_def)
  then show ?thesis by (auto simp: leaves_def key_now_def)
qed

lemma leaves_framed: "(\<And>v. keeps c (framed e P v) m) \<Longrightarrow> leaves e c P m"
proof -
  assume k: "\<And>v. keeps c (framed e P v) m"
  have "framed e P (key_now e c s) (c (sl_db t))" if "m s = (Inr x, t)" for s x t
    using k [of "key_now e c s"] that by (auto simp: keeps_def framed_def key_now_def)
  then show ?thesis by (auto simp: leaves_def framed_def key_now_def)
qed

lemma leaves_insert:
  assumes "sled_spec k c" "hex_text_spec e" "\<not> P dk"
  shows "leaves e c P (db_insert k (key_bytes e dk) w)"
  using assms by (intro leaves_framed keeps_db_writes) (auto simp: framed_def key_val_def)

lemma leaves_file_replace [frame]:
  assumes "sled_spec k c"
  shows "leaves e c P (file_replace k f j)"
  using assms by (intro leaves_framed keeps_file_replace) (simp_all add: framed_def)

lemma leaves_flush [frame]:
  assumes "sled_spec k c"
  shows "leaves e c P (flush_db k)" "leaves e c P (db_flush k)"
  using assms by (auto intro!: leaves_keeps typed_flush_db keeps_db_flush)

lemma leaves_json [frame]: "leaves e c P (json r)"
  by (simp add: json_def frame)

text \<open>Account keys, and the keys an insertion of a block writes.\<close>

fun account_key :: "db_key \<Rightarrow> bool" where
  "account_key (BalanceOf a) = True" | "account_key (NonceOf a) = True"
| "account_key (CodeOf a) = True" | "account_key (StorageOf a h) = True"
| "account_key _ = False"

fun block_index_key :: "db_key \<Rightarrow> bool" where
  "block_index_key (TransactionOf h) = True" | "block_index_key (ReceiptOf h) = True"
| "block_index_key (LogAt l) = True" | "block_index_key (LogByAddress a l) = True"
| "block_index_key (LogByTopic h l) = True" | "block_index_key _ = False"

lemma leaves_put_account:
  assumes "sled_spec k c" "hex_text_spec e" "\<And>dk. P dk \<Longrightarrow> \<not> account_key dk"
  shows "leaves e c P (sled_put_account k e a balance nonce)"
  unfolding sled_put_account_def key_folds [where e = e]
  by (intro frame leaves_insert assms(1,2)) (use assms(3) in fastforce)+

lemma leaves_index:
  assumes "sled_spec k c" "hex_text_spec e" "\<And>dk. P dk \<Longrightarrow> \<not> block_index_key dk"
  shows "leaves e c P (insert_transaction k e b it)" "leaves e c P (index_block_logs k e b)"
proof -
  have opt: "leaves e c P (case x of None \<Rightarrow> m | Some y \<Rightarrow> f y)" if "leaves e c P m" "\<And>y. leaves e c P (f y)"
    for x :: "'b option" and m f using that by (simp split: option.split)
  have prod: "leaves e c P (case x of (i, j) \<Rightarrow> f i j)" if "\<And>i j. leaves e c P (f i j)" for x :: "'b \<times> 'c" and f
    using that by (simp split: prod.split)
  show "leaves e c P (insert_transaction k e b it)"
    unfolding insert_transaction_def key_folds [where e = e]
    by (intro prod opt frame leaves_insert assms(1,2)) (use assms(3) in fastforce)+
  show "leaves e c P (index_block_logs k e b)"
    unfolding index_block_logs_def index_log_def key_folds [where e = e]
    by (intro prod frame leaves_insert assms(1,2)) (use assms(3) in fastforce)+
qed

lemma insert_now:
  assumes "sled_spec k c" "hex_text_spec e" "db_insert k (key_bytes e dk) v s = (Inr (), t)"
  shows "key_now e c t dk' = (if dk' = dk then Some v else key_now e c s dk')"
proof (cases "dk' = dk")
  case True
  have "db_insert (ref_backend k) (key_bytes e dk) v (view c s) = (Inr (), view c t)"
    using refinesD [OF refines_db_ops(1) [OF assms(1)] assms(3)] .
  then have "view c t = on_kv (fmupd (key_bytes e dk) v) (view c s)" by (simp add: ref_elementary)
  then have "kv (view c t) = fmupd (key_bytes e dk) v (kv (view c s))" by simp
  then show ?thesis using True by (simp add: kv_def key_now_def key_val_def)
next
  case False
  then show ?thesis
    using leavesD [OF leaves_insert [OF assms(1,2), of "\<lambda>x. x \<noteq> dk"] assms(3)] by simp
qed

text \<open>What a successful insertion of a block leaves in the database.\<close>

lemma insert_block_now:
  assumes k: "sled_spec k c" "hex_text_spec e" and run: "sled_insert_block k e b s = (Inr (), t)"
  obtains v w where "js_block k b = Inr v" "js_header k (b_header b) = Inr w"
    "key_now e c t (BlockAt (h_number (b_header b))) = Some v"
    "key_now e c t (HeaderAt (h_number (b_header b))) = Some w"
    "key_now e c t BestNumber = Some (to_be_bytes (h_number (b_header b)))"
    "\<And>dk. \<not> block_index_key dk \<Longrightarrow>
       dk \<notin> {BlockAt (h_number (b_header b)), HeaderAt (h_number (b_header b)), BestNumber} \<Longrightarrow>
       key_now e c t dk = key_now e c s dk"
proof -
  let ?n = "h_number (b_header b)"
  obtain v s1 s2 s3 w s4 s5 s6 where v: "js_block k b = Inr v" and
    s1: "db_insert k (key_bytes e (BlockAt ?n)) v s = (Inr (), s1)" and
    s2: "sm_for (insert_transaction k e b) (enumerate 0 (b_transactions b)) s1 = (Inr (), s2)" and
    s3: "index_block_logs k e b s2 = (Inr (), s3)" and
    w: "js_header k (b_header b) = Inr w" and
    s4: "db_insert k (key_bytes e (HeaderAt ?n)) w s3 = (Inr (), s4)" and
    s5: "db_insert k (key_bytes e BestNumber) (to_be_bytes ?n) s4 = (Inr (), s5)" and
    s6: "flush_db k s5 = (Inr (), s6)" and s7: "flush_db k s6 = (Inr (), t)"
    using run unfolding sled_insert_block_def put_header_def key_folds [where e = e]
    by (auto simp: sm_simps)
  have idx: "key_now e c s3 dk = key_now e c s1 dk" if "\<not> block_index_key dk" for dk
    using leavesD [OF leaves_for [OF leaves_index(1) [OF k, of "\<lambda>dk. \<not> block_index_key dk"]] s2]
      leavesD [OF leaves_index(2) [OF k, of "\<lambda>dk. \<not> block_index_key dk"] s3] that by auto
  have fl: "key_now e c t dk = key_now e c s5 dk" for dk
    using leavesD [OF leaves_flush(1) [OF k(1), where P = "\<lambda>_. True"] s6] leavesD [OF leaves_flush(1) [OF k(1), where P = "\<lambda>_. True"] s7] by simp
  note now = fl insert_now [OF k s5] insert_now [OF k s4] insert_now [OF k s1] idx
  show thesis by (rule that [OF v w]) (auto simp: now)
qed

end
