(* ===== verification/Transition.thy ===== *)
theory Transition
  imports Storage Raw_Tx
begin

text \<open>
  \<open>crates/blq-node/src/main.rs\<close>, the state transition of blocks of plain transfers: shape checks,
  the simulation over the account snapshot, the supply delta of a block, and building a block
  from a list of transactions.
\<close>

text \<open>The errors of the node: a message of its own, or one of the crates it calls.\<close>

datatype node_error =
    Bail string | OfStorage storage_error | OfConsensus consensus_error | OfRaw raw_error
  | OfEvm string

definition TRANSFER_GAS :: u64 where [blq_consts]: "TRANSFER_GAS = 21000"

definition is_evm_transaction :: "transaction \<Rightarrow> bool" where
  "is_evm_transaction t \<longleftrightarrow> tx_to t = None \<or> tx_payload t \<noteq> []"

fun validate_auth_loop :: "ext \<Rightarrow> bool \<Rightarrow> transaction list \<Rightarrow> node_error + unit" where
  "validate_auth_loop e req [] = Inr ()"
| "validate_auth_loop e req (t # ts) =
     res_bind (if req \<or> tx_signature t \<noteq> None \<or> tx_external_hash t \<noteq> None
               then res_map_err OfRaw (verify_transaction_signature e t) else Inr ())
       (\<lambda>_. validate_auth_loop e req ts)"

definition validate_block_transaction_auth :: "ext \<Rightarrow> bool \<Rightarrow> block \<Rightarrow> node_error + unit" where
  "validate_block_transaction_auth e req b = validate_auth_loop e req (b_transactions b)"

definition validate_transfer_transaction_shape :: "transaction \<Rightarrow> node_error + unit" where
  "validate_transfer_transaction_shape t =
     (if tx_to t = None then Inr ()
      else if tx_payload t \<noteq> [] then Inr ()
      else if tx_gas_limit t < TRANSFER_GAS
        then Inl (Bail ''plain BLQ transfer gas_limit must be at least 21000'')
      else Inr ())"

definition effective_gas_price :: "block_header \<Rightarrow> transaction \<Rightarrow> u128" where
  "effective_gas_price h t =
     min (tx_max_fee_per_gas t) (saturating_add (h_base_fee_per_gas h) (tx_max_priority_fee_per_gas t))"

definition transfer_fee :: "block_header \<Rightarrow> transaction \<Rightarrow> bix" where
  "transfer_fee h t = saturating_mul (ucast (tx_gas_limit t)) (effective_gas_price h t)"

fun gas_limits_total :: "u64 \<Rightarrow> transaction list \<Rightarrow> node_error + u64" where
  "gas_limits_total acc [] = Inr acc"
| "gas_limits_total acc (t # ts) =
     res_bind (res_of_option (Bail ''block gas overflow'') (checked_add acc (tx_gas_limit t)))
       (\<lambda>acc. gas_limits_total acc ts)"

definition transfer_receipt :: "ext \<Rightarrow> transaction \<Rightarrow> receipt" where
  "transfer_receipt e t = \<lparr>rc_transaction_hash = rpc_hash e t, rc_success = True,
     rc_gas_used = tx_gas_limit t, rc_logs_root = ZERO_HASH, rc_logs = []\<rparr>"

type_synonym transfer_acc = "native_accounts \<times> bix \<times> receipt list"

text \<open>The body of the loop over the transactions of a block.\<close>

definition transfer_step ::
  "ext \<Rightarrow> block_header \<Rightarrow> fee_split \<Rightarrow> transaction \<Rightarrow> transfer_acc \<Rightarrow> node_error + transfer_acc" where
  "transfer_step e h split t = (\<lambda>(accounts, miner_fees, receipts).
     res_bind (validate_transfer_transaction_shape t) (\<lambda>_.
     res_bind (res_map_err OfConsensus (validate_transaction_fee t (h_base_fee_per_gas h))) (\<lambda>_.
     res_bind (res_of_option (Bail ''contract creation is not implemented yet'') (tx_to t)) (\<lambda>to.
     let sender = native_account accounts (tx_from t) in
     res_bind (ensure (snd sender = tx_nonce t) (Bail ''invalid nonce'')) (\<lambda>_.
     let fee = transfer_fee h t;
         total_cost = saturating_add (tx_value t) fee in
     res_bind (ensure (\<not> fst sender < total_cost) (Bail ''account has insufficient balance'')) (\<lambda>_.
     let accounts = fmupd (tx_from t) (fst sender - total_cost, saturating_add (snd sender) 1) accounts;
         receiver = native_account accounts to;
         accounts = fmupd to (saturating_add (fst receiver) (tx_value t), snd receiver) accounts;
         miner_fee = snd (split_fee split fee)
     in Inr (accounts, saturating_add miner_fees miner_fee, receipts @ [transfer_receipt e t])))))))"

definition simulate_state_transition_from_accounts ::
  "ext \<Rightarrow> native_accounts \<Rightarrow> block \<Rightarrow> u64 \<Rightarrow> node_error + (native_accounts \<times> receipt list \<times> u64)" where
  "simulate_state_transition_from_accounts e accounts b parent_timestamp =
     res_bind (gas_limits_total 0 (b_transactions b)) (\<lambda>gas_used.
     res_bind (ensure (\<not> h_gas_limit (b_header b) < gas_used) (Bail ''block gas used exceeds gas limit'')) (\<lambda>_.
     let split = fee_split_for_utilization (utilization_basis_points gas_used (h_gas_limit (b_header b))) in
     res_bind (res_fold (transfer_step e (b_header b) split) (b_transactions b) (accounts, 0, []))
       (\<lambda>(accounts, miner_fees, receipts).
     let beneficiary = beneficiary_address (b_header b);
         beneficiary_credit = saturating_add
           (block_reward_for_interval_bix parent_timestamp (h_timestamp_seconds (b_header b))) miner_fees;
         entry = native_account accounts beneficiary;
         accounts = (if beneficiary_credit > 0
           then fmupd beneficiary (saturating_add (fst entry) beneficiary_credit, snd entry) accounts
           else accounts)
     in Inr (accounts, receipts, gas_used))))"

definition block_supply_delta :: "block \<Rightarrow> u64 \<Rightarrow> bix \<times> bix" where
  "block_supply_delta b parent_timestamp =
     (let subsidy = block_reward_for_interval_bix parent_timestamp (h_timestamp_seconds (b_header b));
          gas_used = sum_list (map rc_gas_used (b_receipts b));
          split = fee_split_for_utilization (utilization_basis_points gas_used (h_gas_limit (b_header b)));
          gross_fees = fold (\<lambda>f acc. saturating_add acc f)
            (map (\<lambda>(t, r). saturating_mul (ucast (rc_gas_used r)) (effective_gas_price (b_header b) t))
              (zip (b_transactions b) (b_receipts b))) 0;
          burned = fst (split_fee split gross_fees)
      in (subsidy, burned))"

definition build_stateful_block_from_accounts ::
  "ext \<Rightarrow> native_accounts \<Rightarrow> block \<Rightarrow> transaction list \<Rightarrow> u64 \<Rightarrow> node_error + block" where
  "build_stateful_block_from_accounts e accounts b ts parent_timestamp =
     (let b = b\<lparr>b_transactions := ts\<rparr> in
      res_bind (simulate_state_transition_from_accounts e accounts b parent_timestamp)
        (\<lambda>(next_accounts, receipts, gas_used).
      res_bind (res_map_err OfStorage (state_root_from_accounts e next_accounts)) (\<lambda>root.
      Inr (b\<lparr>b_receipts := receipts,
             b_header := (b_header b)\<lparr>h_gas_used := gas_used,
               h_transactions_root := transactions_root e (b_transactions b),
               h_receipts_root := receipts_root e receipts, h_state_root := root\<rparr>\<rparr>))))"

section \<open>Accounting of a block of transfers\<close>

definition native_supply :: "native_accounts \<Rightarrow> nat" where
  "native_supply m = fm_total (\<lambda>x. unat (fst x)) m"

lemma fm_val_native: "fm_val (\<lambda>x. unat (fst x)) m a = unat (fst (native_account m a))"
  by (simp add: fm_val_def native_account_def split: option.splits)

lemma supply_upd: "native_supply (fmupd a x m) + unat (fst (native_account m a)) = native_supply m + unat (fst x)"
  using fm_total_upd [of "\<lambda>x. unat (fst x)" a x m] by (simp add: native_supply_def fm_val_native)

lemma balance_le_supply: "unat (fst (native_account m a)) \<le> native_supply m"
  using fm_val_le_total [of "\<lambda>x. unat (fst x)" m a] by (simp add: native_supply_def fm_val_native)

lemma native_account_upd: "native_account (fmupd a x m) b = (if b = a then x else native_account m b)"
  by (simp add: native_account_def)

lemma native_credit:
  assumes "native_supply m + unat v < 2 ^ 128"
  shows "native_supply (fmupd a (saturating_add (fst (native_account m a)) v, n) m) = native_supply m + unat v"
  using assms balance_le_supply [of m a] supply_upd [of a "(saturating_add (fst (native_account m a)) v, n)" m]
  by (simp add: word_nat)

lemma native_debit:
  assumes "v \<le> fst (native_account m a)"
  shows "native_supply (fmupd a (fst (native_account m a) - v, n) m) + unat v = native_supply m"
  using assms supply_upd [of a "(fst (native_account m a) - v, n)" m]
  by (simp add: unat_sub word_le_nat_alt)

text \<open>The parts of a successful step.\<close>

lemma transfer_step_ok:
  assumes "transfer_step e h split t (m, f, rs) = Inr (m', f', rs')"
  obtains to where "tx_to t = Some to" "snd (native_account m (tx_from t)) = tx_nonce t"
    "validate_transaction_fee t (h_base_fee_per_gas h) = Inr ()"
    "saturating_add (tx_value t) (transfer_fee h t) \<le> fst (native_account m (tx_from t))"
    "m' = (let m1 = fmupd (tx_from t)
             (fst (native_account m (tx_from t)) - saturating_add (tx_value t) (transfer_fee h t),
              saturating_add (snd (native_account m (tx_from t))) 1) m
           in fmupd to (saturating_add (fst (native_account m1 to)) (tx_value t), snd (native_account m1 to)) m1)"
    "f' = saturating_add f (snd (split_fee split (transfer_fee h t)))"
    "rs' = rs @ [transfer_receipt e t]"
  using assms by (auto simp: transfer_step_def Let_def res_simps not_less)

lemma transfer_step_supply:
  assumes "transfer_step e h split t (m, f, rs) = Inr (m', f', rs')"
    and "unat (fs_burn_percent split) \<le> 100" "native_supply m + unat f < 2 ^ 128 - 1"
  shows "native_supply m' + unat f' + unat (fst (split_fee split (transfer_fee h t))) = native_supply m + unat f"
    and "unat f' + unat (fst (split_fee split (transfer_fee h t))) = unat f + unat (transfer_fee h t)"
proof -
  obtain to where step:
    "saturating_add (tx_value t) (transfer_fee h t) \<le> fst (native_account m (tx_from t))"
    "m' = (let m1 = fmupd (tx_from t)
             (fst (native_account m (tx_from t)) - saturating_add (tx_value t) (transfer_fee h t),
              saturating_add (snd (native_account m (tx_from t))) 1) m
           in fmupd to (saturating_add (fst (native_account m1 to)) (tx_value t), snd (native_account m1 to)) m1)"
    "f' = saturating_add f (snd (split_fee split (transfer_fee h t)))"
    using transfer_step_ok [OF assms(1)] by metis
  define m1 where "m1 = fmupd (tx_from t)
    (fst (native_account m (tx_from t)) - saturating_add (tx_value t) (transfer_fee h t),
     saturating_add (snd (native_account m (tx_from t))) 1) m"
  have cost: "unat (saturating_add (tx_value t) (transfer_fee h t)) = unat (tx_value t) + unat (transfer_fee h t)"
    by (rule cost_exact [OF step(1)]) (use balance_le_supply [of m "tx_from t"] assms(3) in linarith)
  have s1: "native_supply m1 + (unat (tx_value t) + unat (transfer_fee h t)) = native_supply m"
    using native_debit [OF step(1)] by (simp add: m1_def flip: cost)
  have "native_supply m' = native_supply m1 + unat (tx_value t)"
    unfolding step(2) Let_def m1_def [symmetric] by (rule native_credit) (use s1 assms(3) in linarith)
  moreover have f: "unat f' = unat f + unat (snd (split_fee split (transfer_fee h t)))"
    using s1 assms(3) split_fee_total [OF assms(2), of "transfer_fee h t"] by (simp add: step(3) word_nat)
  ultimately show "native_supply m' + unat f' + unat (fst (split_fee split (transfer_fee h t))) = native_supply m + unat f"
    using s1 split_fee_total [OF assms(2), of "transfer_fee h t"] by linarith
  show "unat f' + unat (fst (split_fee split (transfer_fee h t))) = unat f + unat (transfer_fee h t)"
    using f split_fee_total [OF assms(2), of "transfer_fee h t"] by linarith
qed

lemma transfer_fold_supply:
  assumes "res_fold (transfer_step e h split) ts (m, f, rs) = Inr (m', f', rs')"
    and "unat (fs_burn_percent split) \<le> 100" "native_supply m + unat f < 2 ^ 128 - 1"
  shows "native_supply m' + unat f' + (\<Sum>t\<leftarrow>ts. unat (fst (split_fee split (transfer_fee h t)))) = native_supply m + unat f
    \<and> unat f' + (\<Sum>t\<leftarrow>ts. unat (fst (split_fee split (transfer_fee h t)))) = unat f + (\<Sum>t\<leftarrow>ts. unat (transfer_fee h t))"
  using assms(1,3)
proof (induction ts arbitrary: m f rs)
  case Nil
  then show ?case by simp
next
  case (Cons t ts)
  then obtain m1 f1 rs1 where s: "transfer_step e h split t (m, f, rs) = Inr (m1, f1, rs1)"
    "res_fold (transfer_step e h split) ts (m1, f1, rs1) = Inr (m', f', rs')"
    by (auto simp: res_simps)
  note one = transfer_step_supply [OF s(1) assms(2) Cons.prems(2)]
  then show ?case using Cons.IH [OF s(2)] Cons.prems(2) by auto
qed

lemma transfer_fold_receipts:
  assumes "res_fold (transfer_step e h split) ts (m, f, rs) = Inr (m', f', rs')"
  shows "rs' = rs @ map (transfer_receipt e) ts"
  using assms
proof (induction ts arbitrary: m f rs)
  case Nil
  then show ?case by simp
next
  case (Cons t ts)
  then obtain m1 f1 rs1 where s: "transfer_step e h split t (m, f, rs) = Inr (m1, f1, rs1)"
    "res_fold (transfer_step e h split) ts (m1, f1, rs1) = Inr (m', f', rs')"
    by (auto simp: res_simps)
  have "rs1 = rs @ [transfer_receipt e t]" using transfer_step_ok [OF s(1)] by metis
  then show ?case using Cons.IH [OF s(2)] by simp
qed

text \<open>The nonces of one sender.\<close>

definition nonce_nat :: "native_accounts \<Rightarrow> address \<Rightarrow> nat" where
  "nonce_nat m a = unat (snd (native_account m a))"

definition sent_by :: "address \<Rightarrow> transaction list \<Rightarrow> transaction list" where
  "sent_by a ts = filter (\<lambda>t. tx_from t = a) ts"

lemma transfer_step_nonce:
  assumes "transfer_step e h split t (m, f, rs) = Inr (m', f', rs')"
  shows "nonce_nat m (tx_from t) = unat (tx_nonce t)"
    and "nonce_nat m' a = (if tx_from t = a then min (nonce_nat m a + 1) (2 ^ 64 - 1) else nonce_nat m a)"
proof -
  obtain to where step: "snd (native_account m (tx_from t)) = tx_nonce t"
    "m' = (let m1 = fmupd (tx_from t)
             (fst (native_account m (tx_from t)) - saturating_add (tx_value t) (transfer_fee h t),
              saturating_add (snd (native_account m (tx_from t))) 1) m
           in fmupd to (saturating_add (fst (native_account m1 to)) (tx_value t), snd (native_account m1 to)) m1)"
    using transfer_step_ok [OF assms(1)] by metis
  show "nonce_nat m (tx_from t) = unat (tx_nonce t)" using step(1) by (simp add: nonce_nat_def)
  show "nonce_nat m' a = (if tx_from t = a then min (nonce_nat m a + 1) (2 ^ 64 - 1) else nonce_nat m a)"
    by (auto simp: step(2) nonce_nat_def native_account_upd Let_def word_nat)
qed

lemma transfer_fold_nonces:
  assumes "res_fold (transfer_step e h split) ts (m, f, rs) = Inr (m', f', rs')"
    and "nonce_nat m a + length (sent_by a ts) < 2 ^ 64"
  shows "map (\<lambda>t. unat (tx_nonce t)) (sent_by a ts) = [nonce_nat m a ..< nonce_nat m a + length (sent_by a ts)]
    \<and> nonce_nat m' a = nonce_nat m a + length (sent_by a ts)"
  using assms
proof (induction ts arbitrary: m f rs)
  case Nil
  then show ?case by (simp add: sent_by_def)
next
  case (Cons t ts)
  then obtain m1 f1 rs1 where s: "transfer_step e h split t (m, f, rs) = Inr (m1, f1, rs1)"
    "res_fold (transfer_step e h split) ts (m1, f1, rs1) = Inr (m', f', rs')"
    by (auto simp: res_simps)
  show ?case
  proof (cases "tx_from t = a")
    case True
    then have l: "sent_by a (t # ts) = t # sent_by a ts" by (simp add: sent_by_def)
    have "nonce_nat m1 a = Suc (nonce_nat m a)"
      using transfer_step_nonce(2) [OF s(1), of a] Cons.prems(2) True by (simp add: l)
    moreover have "[n ..< n + length (sent_by a (t # ts))] = n # [Suc n ..< Suc n + length (sent_by a ts)]" for n
      by (simp add: l upt_conv_Cons del: upt_Suc)
    ultimately show ?thesis
      using Cons.IH [OF s(2)] Cons.prems(2) transfer_step_nonce(1) [OF s(1)] True by (simp add: l del: upt_Suc)
  next
    case False
    then have l: "sent_by a (t # ts) = sent_by a ts" by (simp add: sent_by_def)
    have "nonce_nat m1 a = nonce_nat m a" using transfer_step_nonce(2) [OF s(1), of a] False by simp
    then show ?thesis using Cons.IH [OF s(2)] Cons.prems(2) by (simp add: l)
  qed
qed

lemma gas_limits_total_val:
  "gas_limits_total acc ts = Inr g \<Longrightarrow> unat g = unat acc + (\<Sum>t\<leftarrow>ts. unat (tx_gas_limit t))"
proof (induction ts arbitrary: acc)
  case Nil
  then show ?case by simp
next
  case (Cons t ts)
  then obtain a where "checked_add acc (tx_gas_limit t) = Some a" "gas_limits_total a ts = Inr g"
    by (auto simp: res_simps)
  then show ?case using Cons.IH checked_add_unat by fastforce
qed

definition block_split :: "u64 \<Rightarrow> block_header \<Rightarrow> fee_split" where
  "block_split gas h = fee_split_for_utilization (utilization_basis_points gas (h_gas_limit h))"

lemma block_split_percent: "unat (fs_burn_percent (block_split g h)) \<le> 100"
  unfolding block_split_def using burn_percent_bounds(2) by (rule order_trans) simp

definition block_reward :: "block \<Rightarrow> u64 \<Rightarrow> bix" where
  "block_reward b parent_timestamp =
     block_reward_for_interval_bix parent_timestamp (h_timestamp_seconds (b_header b))"

lemma simulate_ok:
  assumes "simulate_state_transition_from_accounts e m b pts = Inr (m', rs, gas)"
  obtains m1 f where "gas_limits_total 0 (b_transactions b) = Inr gas" "gas \<le> h_gas_limit (b_header b)"
    "res_fold (transfer_step e (b_header b) (block_split gas (b_header b))) (b_transactions b) (m, 0, []) = Inr (m1, f, rs)"
    "m' = (let credit = saturating_add (block_reward b pts) f; a = beneficiary_address (b_header b)
           in if credit > 0 then fmupd a (saturating_add (fst (native_account m1 a)) credit, snd (native_account m1 a)) m1
              else m1)"
  using assms
  by (auto simp: simulate_state_transition_from_accounts_def res_simps Let_def not_less block_split_def
      block_reward_def split: prod.splits)

text \<open>
  C3. The books of a block of transfers balance.  When the simulation accepts a block, and as
  long as fewer than \<open>2 ^ 128 - 1\<close> units exist with the reward included: the balances after the
  block and the burnt parts of the fees make up exactly the balances before it and the block
  reward; every transaction has its receipt, in order, for the gas it reserved, and the gas of the
  block is their sum and within the limit; and the transactions of one sender carry consecutive
  nonces from the sender's nonce on, which advances by their number.
\<close>

theorem transfer_block_accounting:
  assumes "simulate_state_transition_from_accounts e m b pts = Inr (m', rs, gas)"
    and "native_supply m + unat (block_reward b pts) < 2 ^ 128 - 1"
  shows "native_supply m' +
      (\<Sum>t\<leftarrow>b_transactions b. unat (fst (split_fee (block_split gas (b_header b)) (transfer_fee (b_header b) t))))
      = native_supply m + unat (block_reward b pts) \<and>
    rs = map (transfer_receipt e) (b_transactions b) \<and>
    unat gas = (\<Sum>t\<leftarrow>b_transactions b. unat (tx_gas_limit t)) \<and> gas \<le> h_gas_limit (b_header b) \<and>
    (\<forall>a. nonce_nat m a + length (sent_by a (b_transactions b)) < 2 ^ 64 \<longrightarrow>
      map (\<lambda>t. unat (tx_nonce t)) (sent_by a (b_transactions b)) =
        [nonce_nat m a ..< nonce_nat m a + length (sent_by a (b_transactions b))] \<and>
      nonce_nat m' a = nonce_nat m a + length (sent_by a (b_transactions b)))"
proof -
  obtain m1 f where s: "gas_limits_total 0 (b_transactions b) = Inr gas" "gas \<le> h_gas_limit (b_header b)"
    "res_fold (transfer_step e (b_header b) (block_split gas (b_header b))) (b_transactions b) (m, 0, []) = Inr (m1, f, rs)"
    "m' = (let credit = saturating_add (block_reward b pts) f; a = beneficiary_address (b_header b)
           in if credit > 0 then fmupd a (saturating_add (fst (native_account m1 a)) credit, snd (native_account m1 a)) m1
              else m1)"
    using simulate_ok [OF assms(1)] by metis
  note books = transfer_fold_supply [OF s(3) block_split_percent, THEN conjunct1, simplified]
  have sum: "native_supply m1 + unat f + (\<Sum>t\<leftarrow>b_transactions b.
      unat (fst (split_fee (block_split gas (b_header b)) (transfer_fee (b_header b) t)))) = native_supply m"
    using books assms(2) by simp
  have credit: "unat (saturating_add (block_reward b pts) f) = unat (block_reward b pts) + unat f"
    using sum assms(2) by (simp add: word_nat)
  have "native_supply m' = native_supply m1 + unat (block_reward b pts) + unat f"
  proof (cases "saturating_add (block_reward b pts) f > 0")
    case True
    have "native_supply m1 + unat (saturating_add (block_reward b pts) f) < 2 ^ 128"
      using credit sum assms(2) by linarith
    from native_credit [OF this] show ?thesis using True credit by (simp add: s(4) Let_def)
  next
    case False
    then have "unat (saturating_add (block_reward b pts) f) = 0"
      by (metis unsigned_0 word_neq_0_conv)
    then show ?thesis using False credit by (simp add: s(4))
  qed
  moreover have n: "nonce_nat m' a = nonce_nat m1 a" for a
    by (auto simp: s(4) nonce_nat_def native_account_upd Let_def)
  ultimately show ?thesis
    using sum s(2) transfer_fold_receipts [OF s(3)] gas_limits_total_val [OF s(1)] transfer_fold_nonces [OF s(3)]
    by simp
qed

lemma sum_words: "sum_list (map f xs) = of_nat (\<Sum>x\<leftarrow>xs. unat (f x))"
  for f :: "'a \<Rightarrow> 'b::len word"
  by (induction xs) simp_all

lemma fold_saturating_add:
  "unat acc + (\<Sum>f\<leftarrow>fs. unat f) < 2 ^ LENGTH('a) \<Longrightarrow>
     unat (fold (\<lambda>f acc. saturating_add acc f) fs acc) = unat acc + (\<Sum>f\<leftarrow>fs. unat f)"
  for acc :: "'a::len word"
proof (induction fs arbitrary: acc)
  case Nil
  then show ?case by simp
next
  case (Cons f fs)
  have "unat (saturating_add acc f) = unat acc + unat f" using Cons.prems by (simp add: word_nat)
  then show ?case using Cons.IH [of "saturating_add acc f"] Cons.prems by simp
qed

lemma rounding_loss:
  fixes p :: nat
  shows "(\<Sum>f\<leftarrow>fs. f * p div 100) \<le> sum_list fs * p div 100 \<and>
    sum_list fs * p div 100 \<le> (\<Sum>f\<leftarrow>fs. f * p div 100) + (length fs - 1)"
proof (induction fs)
  case Nil
  then show ?case by simp
next
  case (Cons f fs)
  have "(f * p + sum_list fs * p) div 100 \<le> f * p div 100 + sum_list fs * p div 100 + 1"
    "f * p div 100 + sum_list fs * p div 100 \<le> (f * p + sum_list fs * p) div 100" by linarith+
  then show ?case using Cons by (cases fs) (auto simp: algebra_simps)
qed

text \<open>
  C40. The supply index is not the ledger.  The delta recorded for a block carries the right
  subsidy, but its burnt amount is the burnt share of the sum of the fees, while the state
  transition of transfers burns the share of each fee, rounded down.  As long as fees stay far
  from the width of the integers, the index therefore never reports less than was burnt, and
  can report more, by less than one unit per transaction.
\<close>

theorem supply_index_burn:
  assumes "simulate_state_transition_from_accounts e m b pts = Inr (m', rs, gas)"
    and "100 * native_supply m < 2 ^ 128"
  shows "let (subsidy, indexed) = block_supply_delta (b\<lparr>b_receipts := rs\<rparr>) pts;
      burnt = (\<Sum>t\<leftarrow>b_transactions b. unat (fst (split_fee (block_split gas (b_header b)) (transfer_fee (b_header b) t))))
    in subsidy = block_reward b pts \<and> burnt \<le> unat indexed \<and>
       unat indexed \<le> burnt + (length (b_transactions b) - 1)"
proof -
  obtain m1 f where s: "gas_limits_total 0 (b_transactions b) = Inr gas"
    "res_fold (transfer_step e (b_header b) (block_split gas (b_header b))) (b_transactions b) (m, 0, []) = Inr (m1, f, rs)"
    using simulate_ok [OF assms(1)] by metis
  define p where "p = unat (fs_burn_percent (block_split gas (b_header b)))"
  define fees where "fees = map (\<lambda>t. unat (transfer_fee (b_header b) t)) (b_transactions b)"
  have p: "p \<le> 40" unfolding p_def block_split_def by (rule burn_percent_bounds)
  have rs: "rs = map (transfer_receipt e) (b_transactions b)" using transfer_fold_receipts [OF s(2)] by simp
  have "native_supply m < 2 ^ 128 - 1" using assms(2) by simp
  then have bound: "sum_list fees \<le> native_supply m"
    using transfer_fold_supply [OF s(2) block_split_percent] by (simp add: fees_def)
  have exact: "unat (fst (split_fee (block_split gas (b_header b)) v)) = unat v * p div 100"
    if "unat v \<le> native_supply m" for v
  proof -
    have "unat v * p \<le> native_supply m * 100" using that p by (intro mult_mono) auto
    then show ?thesis using assms(2) by (simp add: split_fee_burn p_def)
  qed
  have each: "unat (transfer_fee (b_header b) t) \<le> native_supply m" if "t \<in> set (b_transactions b)" for t
  proof -
    have "unat (transfer_fee (b_header b) t) \<in> set fees" using that by (simp add: fees_def)
    from member_le_sum_list [OF this] show ?thesis using bound by linarith
  qed
  have "(\<Sum>t\<leftarrow>b_transactions b. unat (fst (split_fee (block_split gas (b_header b)) (transfer_fee (b_header b) t)))) =
      (\<Sum>f\<leftarrow>fees. f * p div 100)"
    unfolding fees_def map_map comp_def by (rule arg_cong [of _ _ sum_list], rule map_cong) (simp_all add: exact each)
  moreover have gas: "sum_list (map rc_gas_used rs) = gas"
  proof -
    have "unat gas = (\<Sum>t\<leftarrow>b_transactions b. unat (tx_gas_limit t))" using gas_limits_total_val [OF s(1)] by simp
    then show ?thesis by (simp add: rs sum_words transfer_receipt_def comp_def flip: \<open>unat gas = _\<close>)
  qed
  moreover have gross: "map (\<lambda>(t, r). saturating_mul (ucast (rc_gas_used r)) (effective_gas_price (b_header b) t))
      (zip (b_transactions b) rs) = map (transfer_fee (b_header b)) (b_transactions b)"
    by (simp add: rs zip_map2 zip_same_conv_map transfer_receipt_def transfer_fee_def)
  moreover have total: "unat (fold (\<lambda>f acc. saturating_add acc f) (map (transfer_fee (b_header b)) (b_transactions b)) 0) =
      sum_list fees"
    using bound assms(2) by (subst fold_saturating_add) (simp_all add: fees_def comp_def)
  ultimately show ?thesis
    using rounding_loss [of p fees] exact [of "fold (\<lambda>f acc. saturating_add acc f) (map (transfer_fee (b_header b)) (b_transactions b)) 0"] bound
    by (simp add: block_supply_delta_def Let_def block_reward_def fees_def flip: block_split_def)
qed

definition demo_transfer :: "u64 \<Rightarrow> transaction" where
  "demo_transfer n = demo_tx\<lparr>tx_nonce := n, tx_gas_limit := 21011, tx_max_priority_fee_per_gas := 1\<rparr>"

definition demo_block :: block where
  "demo_block = \<lparr>b_header = (genesis_header demo_ext)\<lparr>h_number := 1, h_timestamp_seconds := 30\<rparr>,
     b_transactions = [demo_transfer 0, demo_transfer 1], b_receipts = []\<rparr>"

definition demo_ledger :: native_accounts where
  "demo_ledger = fmupd (arr_rep 7) (1000000000000000000, 0) fmempty"

lemma demo_ledger_supply: "native_supply demo_ledger = 1000000000000000000"
  using supply_upd [of "arr_rep 7" "(1000000000000000000, 0)" fmempty]
  by (simp add: demo_ledger_def native_supply_def native_account_def)

lemma demo_header_fields:
  "h_base_fee_per_gas (b_header demo_block) = 1000000000" "h_gas_limit (b_header demo_block) = 30000000"
  "h_timestamp_seconds (b_header demo_block) = 30"
  "b_transactions demo_block = [demo_transfer 0, demo_transfer 1]"
  by (simp_all add: demo_block_def genesis_header_def blq_consts)

lemma demo_gas_price: "effective_gas_price (b_header demo_block) (demo_transfer n) = 1000000001"
  by (simp add: demo_transfer_def demo_tx_def effective_gas_price_def demo_header_fields
      saturating_add_def min_def word_le_nat_alt)

lemma demo_transfer_fields:
  "tx_to (demo_transfer n) = Some (arr_rep 9)" "tx_from (demo_transfer n) = arr_rep 7"
  "tx_nonce (demo_transfer n) = n" "tx_value (demo_transfer n) = 5" "tx_gas_limit (demo_transfer n) = 21011"
  "transfer_fee (b_header demo_block) (demo_transfer n) = 21011000021011"
  "validate_transfer_transaction_shape (demo_transfer n) = Inr ()"
  "validate_transaction_fee (demo_transfer n) 1000000000 = Inr ()"
  by (simp_all add: demo_transfer_def demo_tx_def transfer_fee_def effective_gas_price_def demo_header_fields
      saturating_add_def saturating_mul_def min_def word_le_nat_alt word_less_nat_alt
      validate_transfer_transaction_shape_def validate_transaction_fee_def blq_consts)

lemma demo_split: "block_split 42022 (b_header demo_block) = \<lparr>fs_burn_percent = 5, fs_miner_percent = 95\<rparr>"
  by (simp add: block_split_def demo_header_fields utilization_basis_points_def fee_split_for_utilization_def
      saturating_mul_def blq_consts Let_def min_def word_le_nat_alt)

lemma demo_fold:
  "\<exists>m1 f rs. res_fold (transfer_step demo_ext (b_header demo_block) (block_split 42022 (b_header demo_block)))
     (b_transactions demo_block) (demo_ledger, 0, []) = Inr (m1, f, rs)"
  by (simp add: demo_header_fields transfer_step_def demo_transfer_fields demo_ledger_def native_account_def
      arr_7_9 arr_7_9 [symmetric] saturating_add_def ensure_def Let_def word_less_nat_alt demo_split)

lemma demo_simulation:
  obtains m' rs where "simulate_state_transition_from_accounts demo_ext demo_ledger demo_block 0 = Inr (m', rs, 42022)"
    "rs = map (transfer_receipt demo_ext) (b_transactions demo_block)"
proof -
  obtain m1 f rs where fold: "res_fold (transfer_step demo_ext (b_header demo_block) (block_split 42022 (b_header demo_block)))
     (b_transactions demo_block) (demo_ledger, 0, []) = Inr (m1, f, rs)"
    using demo_fold by blast
  have gas: "gas_limits_total 0 (b_transactions demo_block) = Inr 42022"
    by (simp add: demo_header_fields demo_transfer_fields checked_add_def)
  have "\<exists>m'. simulate_state_transition_from_accounts demo_ext demo_ledger demo_block 0 = Inr (m', rs, 42022)"
    unfolding simulate_state_transition_from_accounts_def gas
    using fold by (simp add: Let_def ensure_def demo_header_fields word_less_nat_alt block_split_def)
  then show ?thesis using that transfer_fold_receipts [OF fold] by auto
qed

lemma demo_burn: "fst (split_fee \<lparr>fs_burn_percent = 5, fs_miner_percent = 95\<rparr> 21011000021011) = (1050550001050 :: u128)"
  by (simp add: split_fee_def saturating_mul_def Let_def)

theorem transfer_block_accounting_witness:
  "\<exists>m' rs. simulate_state_transition_from_accounts demo_ext demo_ledger demo_block 0 = Inr (m', rs, 42022) \<and>
     native_supply m' + 2101100002100 = 1050000000000000000"
proof -
  obtain m' rs where s: "simulate_state_transition_from_accounts demo_ext demo_ledger demo_block 0 = Inr (m', rs, 42022)"
    by (rule demo_simulation)
  have r: "unat (block_reward demo_block 0) = 50000000000000000"
    by (simp add: block_reward_def demo_header_fields block_reward_for_interval_bix_def saturating_sub_def
        saturating_mul_def blq_consts Let_def min_def word_le_nat_alt)
  show ?thesis
    using transfer_block_accounting [OF s] s r
    by (simp add: demo_ledger_supply demo_header_fields demo_split demo_transfer_fields demo_burn)
qed

text \<open>The two fees of 21011000021011 units burn 1050550001050 units each, their sum one unit more.\<close>

lemma demo_indexed:
  "snd (block_supply_delta (demo_block\<lparr>b_receipts := map (transfer_receipt demo_ext) (b_transactions demo_block)\<rparr>) 0)
     = 2101100002101"
  using demo_split
  by (simp add: block_supply_delta_def Let_def demo_header_fields transfer_receipt_def demo_transfer_fields
      demo_gas_price saturating_add_def split_fee_def saturating_mul_def block_split_def)

theorem supply_index_burn_witness:
  "\<exists>m' rs. simulate_state_transition_from_accounts demo_ext demo_ledger demo_block 0 = Inr (m', rs, 42022) \<and>
     unat (snd (block_supply_delta (demo_block\<lparr>b_receipts := rs\<rparr>) 0)) = 2101100002101 \<and>
     2101100002100 \<le> unat (snd (block_supply_delta (demo_block\<lparr>b_receipts := rs\<rparr>) 0)) \<and>
     fst (block_supply_delta (demo_block\<lparr>b_receipts := rs\<rparr>) 0) = block_reward demo_block 0"
proof -
  obtain m' rs where s: "simulate_state_transition_from_accounts demo_ext demo_ledger demo_block 0 = Inr (m', rs, 42022)"
    and rs: "rs = map (transfer_receipt demo_ext) (b_transactions demo_block)"
    by (rule demo_simulation)
  show ?thesis
    using supply_index_burn [OF s] s demo_indexed
    by (simp add: rs demo_ledger_supply demo_header_fields demo_split demo_transfer_fields demo_burn
        Let_def case_prod_beta)
qed

end
