(* ===== verification/Evm.thy ===== *)
theory Evm
  imports State
begin

text \<open>
  \<open>crates/blq-evm/src/lib.rs\<close>: the account state handed to the interpreter, the database reads it
  offers, the commit of the changes of a transaction, and the execution of transactions and
  blocks.  The interpreter itself (crate revm) is the parameter \<open>revm\<close>: it builds and runs a
  transaction against the state and returns a result with the changed accounts.
\<close>

datatype evm_error = Execution string | InvalidAddress

record revm_account =
  ra_nonce :: u64
  ra_balance :: u256
  ra_code :: bytes
  ra_storage :: "(u256, u256) fmap"

record revm_state =
  rs_accounts :: "(address, revm_account) fmap"

definition revm_account_default :: revm_account where
  "revm_account_default = \<lparr>ra_nonce = 0, ra_balance = 0, ra_code = [], ra_storage = fmempty\<rparr>"

definition revm_state_default :: revm_state where
  "revm_state_default = \<lparr>rs_accounts = fmempty\<rparr>"

definition revm_account_of :: "revm_state \<Rightarrow> address \<Rightarrow> revm_account" where
  "revm_account_of st a =
     (case fmlookup (rs_accounts st) a of Some ac \<Rightarrow> ac | None \<Rightarrow> revm_account_default)"

definition revm_put_account :: "revm_state \<Rightarrow> address \<Rightarrow> revm_account \<Rightarrow> revm_state" where
  "revm_put_account st a ac = st\<lparr>rs_accounts := fmupd a ac (rs_accounts st)\<rparr>"

interpretation revm_store: account_store revm_account_of revm_put_account
  by unfold_locales (simp add: revm_account_of_def revm_put_account_def)

section \<open>The database reads of the interpreter\<close>

text \<open>A bytecode value is what the two constructors the source calls make of the code.\<close>

datatype bytecode = BytecodeDefault | NewLegacy bytes

record account_info =
  ai_balance :: u256
  ai_nonce :: u64
  ai_code_hash :: hash256
  ai_code :: "bytecode option"

definition db_basic :: "ext \<Rightarrow> revm_state \<Rightarrow> address \<Rightarrow> account_info option" where
  "db_basic e st a =
     (case fmlookup (rs_accounts st) a of
        None \<Rightarrow> None
      | Some ac \<Rightarrow>
          (let code = (if ra_code ac = [] then BytecodeDefault else NewLegacy (ra_code ac))
           in Some \<lparr>ai_balance = ra_balance ac, ai_nonce = ra_nonce ac,
                    ai_code_hash = x_keccak256 e (ra_code ac), ai_code = Some code\<rparr>))"

definition db_code_by_hash :: "ext \<Rightarrow> revm_state \<Rightarrow> hash256 \<Rightarrow> bytecode" where
  "db_code_by_hash e st k =
     (case List.find (\<lambda>(a, ac). x_keccak256 e (ra_code ac) = k) (fm_entries (rs_accounts st)) of
        Some (a, ac) \<Rightarrow> NewLegacy (ra_code ac)
      | None \<Rightarrow> BytecodeDefault)"

definition db_storage :: "revm_state \<Rightarrow> address \<Rightarrow> u256 \<Rightarrow> u256" where
  "db_storage st a i =
     (case fmlookup (ra_storage (revm_account_of st a)) i of Some v \<Rightarrow> v | None \<Rightarrow> 0)"

definition db_block_hash :: "u64 \<Rightarrow> hash256" where
  "db_block_hash n = ZERO_HASH"

section \<open>Committing changes\<close>

record account_change =
  ch_selfdestructed :: bool
  ch_nonce :: u64
  ch_balance :: u256
  ch_code :: "bytes option"
  ch_storage :: "(u256 \<times> u256) list"

fun commit_slot :: "u256 \<times> u256 \<Rightarrow> (u256, u256) fmap \<Rightarrow> (u256, u256) fmap" where
  "commit_slot (key, present_value) m =
     (if present_value = 0 then fmdrop key m else fmupd key present_value m)"

fun commit_account :: "address \<times> account_change \<Rightarrow> revm_state \<Rightarrow> revm_state" where
  "commit_account (a, ch) st =
     (if ch_selfdestructed ch then st\<lparr>rs_accounts := fmdrop a (rs_accounts st)\<rparr>
      else
        (let nxt = revm_account_of st a;
             nxt = nxt\<lparr>ra_nonce := ch_nonce ch, ra_balance := ch_balance ch\<rparr>;
             nxt = (case ch_code ch of Some code \<Rightarrow> nxt\<lparr>ra_code := code\<rparr> | None \<Rightarrow> nxt);
             nxt = nxt\<lparr>ra_storage := fold commit_slot (ch_storage ch) (ra_storage nxt)\<rparr>
         in revm_put_account st a nxt))"

definition revm_commit :: "(address \<times> account_change) list \<Rightarrow> revm_state \<Rightarrow> revm_state" where
  "revm_commit changes st = fold commit_account changes st"

section \<open>Executing transactions\<close>

datatype tx_kind = TxCall address | TxCreate

record block_env =
  be_number :: u256
  be_beneficiary :: address
  be_timestamp :: u256
  be_gas_limit :: u64
  be_basefee :: u64
  be_difficulty :: u256
  be_prevrandao :: "hash256 option"
  be_blob_excess :: "(u64 \<times> u64) option"
  be_slot_num :: u64

record tx_env =
  te_caller :: address
  te_gas_limit :: u64
  te_max_fee_per_gas :: u128
  te_gas_priority_fee :: "u128 option"
  te_kind :: tx_kind
  te_value :: u256
  te_data :: bytes
  te_access_list :: "(address \<times> hash256 list) list"
  te_nonce :: u64
  te_chain_id :: "u64 option"

record exec_result =
  xr_success :: bool
  xr_gas_used :: u64
  xr_output :: "bytes option"
  xr_logs :: "log_entry list"

text \<open>The interpreter: building a transaction, and running it under a configured chain id.\<close>

record revm =
  rv_build :: "tx_env \<Rightarrow> string + tx_env"
  rv_transact :: "u64 \<Rightarrow> revm_state \<Rightarrow> block_env \<Rightarrow> tx_env \<Rightarrow>
     string + (exec_result \<times> (address \<times> account_change) list)"

record execution_output =
  xo_success :: bool
  xo_gas_used :: u64
  xo_output :: bytes
  xo_logs :: "log_entry list"

definition block_env_of :: "block_header \<Rightarrow> evm_error + block_env" where
  "block_env_of h = res_bind
     (ensure (unat (h_base_fee_per_gas h) < 2 ^ 64) (Execution ''base fee exceeds EVM range'')) (\<lambda>_.
     Inr \<lparr>be_number = ucast (h_number h), be_beneficiary = beneficiary_address h,
          be_timestamp = ucast (h_timestamp_seconds h), be_gas_limit = h_gas_limit h,
          be_basefee = ucast (h_base_fee_per_gas h), be_difficulty = 0,
          be_prevrandao = Some (h_mix_hash h), be_blob_excess = Some (0, 1),
          be_slot_num = h_number h\<rparr>)"

definition tx_env_of :: "transaction \<Rightarrow> tx_env" where
  "tx_env_of t =
     \<lparr>te_caller = tx_from t, te_gas_limit = tx_gas_limit t,
      te_max_fee_per_gas = tx_max_fee_per_gas t,
      te_gas_priority_fee = Some (tx_max_priority_fee_per_gas t),
      te_kind = (case tx_to t of Some to \<Rightarrow> TxCall to | None \<Rightarrow> TxCreate),
      te_value = ucast (tx_value t), te_data = tx_payload t,
      te_access_list = map (\<lambda>i. (al_address i, al_storage_keys i)) (tx_access_list t),
      te_nonce = tx_nonce t, te_chain_id = Some (tx_chain_id t)\<rparr>"

definition execute_transaction ::
  "revm \<Rightarrow> block_header \<Rightarrow> transaction \<Rightarrow> (revm_state, evm_error, execution_output) sm" where
  "execute_transaction v h t =
     sm_bind (sm_lift (block_env_of h)) (\<lambda>env.
     sm_bind (sm_lift (res_map_err Execution (rv_build v (tx_env_of t)))) (\<lambda>tx.
     sm_bind (sm_gets (\<lambda>st. res_map_err Execution (rv_transact v (tx_chain_id t) st env tx)))
       (\<lambda>(r, changes) st.
         (Inr \<lparr>xo_success = xr_success r, xo_gas_used = xr_gas_used r,
               xo_output = (case xr_output r of Some bs \<Rightarrow> bs | None \<Rightarrow> []), xo_logs = xr_logs r\<rparr>,
          revm_commit changes st))))"

fun execute_block_loop ::
  "revm \<Rightarrow> block_header \<Rightarrow> transaction list \<Rightarrow> u64 \<Rightarrow> (revm_state, evm_error, u64) sm" where
  "execute_block_loop v h [] gas_used = sm_ok gas_used"
| "execute_block_loop v h (t # ts) gas_used =
     sm_bind (execute_transaction v h t) (\<lambda>r.
     sm_bind (sm_lift (res_of_option (Execution ''block gas overflow'')
       (checked_add gas_used (xo_gas_used r)))) (execute_block_loop v h ts))"

definition execute_block ::
  "revm \<Rightarrow> block_header \<Rightarrow> transaction list \<Rightarrow> (revm_state, evm_error, state_transition_summary) sm" where
  "execute_block v h ts = sm_bind (execute_block_loop v h ts 0) (\<lambda>gas_used.
     sm_ok \<lparr>sts_state_root = ZERO_HASH, sts_receipts_root = ZERO_HASH, sts_gas_used = gas_used,
            sts_burned_fees = 0, sts_miner_fees = 0\<rparr>)"

definition hash_to_address :: "hash256 \<Rightarrow> address" where
  "hash_to_address k = Arr (drop 12 (arr_bytes k))"

section \<open>Commits\<close>

text \<open>No account of the state stores a zero: a slot that is cleared is removed.\<close>

definition no_zero_slots :: "revm_state \<Rightarrow> bool" where
  "no_zero_slots st \<longleftrightarrow> (\<forall>a ac i. fmlookup (rs_accounts st) a = Some ac \<longrightarrow> fmlookup (ra_storage ac) i \<noteq> Some 0)"

definition slot_val :: "(u256, u256) fmap \<Rightarrow> u256 \<Rightarrow> u256" where
  "slot_val m i = (case fmlookup m i of Some v \<Rightarrow> v | None \<Rightarrow> 0)"

lemma commit_slots_val:
  "slot_val (fold commit_slot ws m) i = (case map_of (rev ws) i of Some v \<Rightarrow> v | None \<Rightarrow> slot_val m i)"
proof (induction ws arbitrary: m)
  case Nil
  then show ?case by simp
next
  case (Cons w ws)
  then show ?case
    by (cases w) (auto simp: map_add_def slot_val_def split: option.splits)
qed

lemma commit_slots_nonzero:
  "(\<forall>i. fmlookup m i \<noteq> Some 0) \<Longrightarrow> fmlookup (fold commit_slot ws m) i \<noteq> Some 0"
proof (induction ws arbitrary: m)
  case Nil
  then show ?case by simp
next
  case (Cons w ws)
  then show ?case by (cases w) auto
qed

lemma no_zero_slots_account: "no_zero_slots st \<Longrightarrow> fmlookup (ra_storage (revm_account_of st a)) i \<noteq> Some 0"
  by (auto simp: no_zero_slots_def revm_account_of_def revm_account_default_def split: option.splits)

lemma commit_account_no_zero:
  assumes "no_zero_slots st"
  shows "no_zero_slots (commit_account w st)"
proof (cases w)
  case (Pair a ch)
  show ?thesis
  proof (cases "ch_selfdestructed ch")
    case True
    then show ?thesis using assms by (simp add: Pair no_zero_slots_def)
  next
    case False
    have "fmlookup (fold commit_slot (ch_storage ch) (ra_storage (revm_account_of st a))) i \<noteq> Some 0" for i
      using commit_slots_nonzero no_zero_slots_account [OF assms] by blast
    then show ?thesis
      using False assms by (auto simp: Pair no_zero_slots_def revm_put_account_def Let_def split: option.splits)
  qed
qed

lemma revm_commit_no_zero: "no_zero_slots st \<Longrightarrow> no_zero_slots (revm_commit ws st)"
  unfolding revm_commit_def by (induction ws arbitrary: st) (auto simp: commit_account_no_zero)

lemma commit_account_other:
  "b \<noteq> fst w \<Longrightarrow> fmlookup (rs_accounts (commit_account w st)) b = fmlookup (rs_accounts st) b"
  by (cases w) (simp add: revm_put_account_def Let_def)

lemma commit_other:
  "b \<notin> fst ` set ws \<Longrightarrow> fmlookup (rs_accounts (revm_commit ws st)) b = fmlookup (rs_accounts st) b"
  unfolding revm_commit_def
  by (induction ws arbitrary: st) (auto simp: commit_account_other simp del: commit_account.simps)

lemma commit_account_cong:
  "fmlookup (rs_accounts s) a = fmlookup (rs_accounts t) a \<Longrightarrow>
   fmlookup (rs_accounts (commit_account (a, ch) s)) a = fmlookup (rs_accounts (commit_account (a, ch) t)) a"
  by (simp add: Let_def revm_account_of_def revm_put_account_def)

lemma commit_at:
  assumes "distinct (map fst ws)" "(a, ch) \<in> set ws"
  shows "fmlookup (rs_accounts (revm_commit ws st)) a = fmlookup (rs_accounts (commit_account (a, ch) st)) a"
  using assms
proof (induction ws arbitrary: st)
  case Nil
  then show ?case by simp
next
  case (Cons w ws)
  show ?case
  proof (cases "(a, ch) = w")
    case True
    then have "a = fst w" by (metis fst_conv)
    then have "a \<notin> fst ` set ws" using Cons.prems(1) by simp
    then show ?thesis using commit_other [of a ws "commit_account w st"] True
      by (simp add: revm_commit_def del: commit_account.simps)
  next
    case False
    then have m: "(a, ch) \<in> set ws" using Cons.prems(2) by simp
    then have "a \<in> fst ` set ws" by (metis fst_conv image_eqI)
    then have "fst w \<noteq> a" using Cons.prems(1) by (cases "fst w = a") simp_all
    then have "fmlookup (rs_accounts (commit_account w st)) a = fmlookup (rs_accounts st) a"
      by (simp add: commit_account_other del: commit_account.simps)
    then have "fmlookup (rs_accounts (commit_account (a, ch) (commit_account w st))) a =
        fmlookup (rs_accounts (commit_account (a, ch) st)) a"
      by (rule commit_account_cong)
    then show ?thesis using Cons.IH [of "commit_account w st"] Cons.prems(1) m
      by (simp add: revm_commit_def del: commit_account.simps)
  qed
qed


definition demo_change :: account_change where
  "demo_change = \<lparr>ch_selfdestructed = False, ch_nonce = 1, ch_balance = 90, ch_code = None,
     ch_storage = [(1, 5), (2, 0)]\<rparr>"


end
