(* ===== verification/Evm_Transition.thy ===== *)
theory Evm_Transition
  imports Transition Evm "HOL-Library.Sublist"
begin

text \<open>
  \<open>crates/blq-node/src/main.rs\<close>, blocks that hold contract transactions: execution of a block on
  the interpreter state with its fee settlement, conversion of that state to the stored form and
  its root, and the two consumers of both kinds of execution: validation of the state root of a
  block and building a block.  The reads they make of the node's storage are the fields of
  \<open>node_view\<close>.
\<close>

fun evm_error_text :: "evm_error \<Rightarrow> string" where
  "evm_error_text (Execution s) = ''transaction execution failed: '' @ s"
| "evm_error_text InvalidAddress = ''invalid EVM address''"

definition sm_map_err :: "('e \<Rightarrow> 'f) \<Rightarrow> ('s, 'e, 'a) sm \<Rightarrow> ('s, 'f, 'a) sm" where
  "sm_map_err f m = (\<lambda>s. case m s of (r, t) \<Rightarrow> (res_map_err f r, t))"

lemma sm_map_err_eq [sm_simps]: "sm_map_err f m s = (Inr y, t) \<longleftrightarrow> m s = (Inr y, t)"
  by (auto simp: sm_map_err_def res_simps split: prod.splits)

section \<open>Executing a block\<close>

text \<open>The accumulators of the loop: gas, receipts, gross fees and the tips the interpreter paid out.\<close>

type_synonym evm_acc = "u64 \<times> receipt list \<times> u128 \<times> u128"

definition evm_receipt :: "ext \<Rightarrow> transaction \<Rightarrow> execution_output \<Rightarrow> receipt" where
  "evm_receipt e t out = \<lparr>rc_transaction_hash = rpc_hash e t, rc_success = xo_success out,
     rc_gas_used = xo_gas_used out, rc_logs_root = logs_root e (xo_logs out), rc_logs = xo_logs out\<rparr>"

definition evm_step ::
  "revm \<Rightarrow> ext \<Rightarrow> block_header \<Rightarrow> transaction \<Rightarrow> evm_acc \<Rightarrow> (revm_state, node_error, evm_acc) sm" where
  "evm_step v e h t = (\<lambda>(gas_used, receipts, gross_fees, revm_tips).
     sm_bind (sm_lift (res_map_err OfConsensus (validate_transaction_fee t (h_base_fee_per_gas h)))) (\<lambda>_.
     sm_bind (sm_map_err (\<lambda>err. OfEvm (evm_error_text err)) (execute_transaction v h t)) (\<lambda>out.
     sm_bind (sm_lift (res_of_option (Bail ''block gas overflow'') (checked_add gas_used (xo_gas_used out))))
       (\<lambda>gas_used.
     let price = effective_gas_price h t;
         fee = saturating_mul (ucast (xo_gas_used out)) price;
         tip = saturating_mul (ucast (xo_gas_used out)) (saturating_sub price (h_base_fee_per_gas h))
     in sm_ok (gas_used, receipts @ [evm_receipt e t out], saturating_add gross_fees fee,
               saturating_add revm_tips tip)))))"

fun evm_loop ::
  "revm \<Rightarrow> ext \<Rightarrow> block_header \<Rightarrow> transaction list \<Rightarrow> evm_acc \<Rightarrow> (revm_state, node_error, evm_acc) sm" where
  "evm_loop v e h [] acc = sm_ok acc"
| "evm_loop v e h (t # ts) acc = sm_bind (evm_step v e h t acc) (evm_loop v e h ts)"

definition settle_beneficiary :: "block_header \<Rightarrow> u128 \<Rightarrow> u128 \<Rightarrow> revm_state \<Rightarrow> revm_state" where
  "settle_beneficiary h revm_tips credit st =
     (let beneficiary = beneficiary_address h;
          ac = revm_account_of st beneficiary
      in revm_put_account st beneficiary
           (ac\<lparr>ra_balance := saturating_add (saturating_sub (ra_balance ac) (ucast revm_tips)) (ucast credit)\<rparr>))"

definition evm_block_body ::
  "revm \<Rightarrow> ext \<Rightarrow> block \<Rightarrow> u64 \<Rightarrow> (revm_state, node_error, receipt list \<times> u64) sm" where
  "evm_block_body v e b parent_timestamp =
     sm_bind (evm_loop v e (b_header b) (b_transactions b) (0, [], 0, 0))
       (\<lambda>(gas_used, receipts, gross_fees, revm_tips).
     sm_bind (sm_lift (ensure (\<not> h_gas_limit (b_header b) < gas_used) (Bail ''block gas used exceeds gas limit''))) (\<lambda>_ st.
     let miner_fee = snd (split_fee (block_split gas_used (b_header b)) gross_fees);
         credit = saturating_add
           (block_reward_for_interval_bix parent_timestamp (h_timestamp_seconds (b_header b))) miner_fee
     in (Inr (receipts, gas_used), settle_beneficiary (b_header b) revm_tips credit st)))"

text \<open>
  The state is moved into the executor (\<open>mem::take\<close>) and moved back only on success: an early
  return leaves the caller's state empty.
\<close>

definition execute_evm_state_transition_in_place ::
  "revm \<Rightarrow> ext \<Rightarrow> block \<Rightarrow> u64 \<Rightarrow> (revm_state, node_error, receipt list \<times> u64) sm" where
  "execute_evm_state_transition_in_place v e b parent_timestamp st =
     (case evm_block_body v e b parent_timestamp st of
        (Inr r, st') \<Rightarrow> (Inr r, st')
      | (Inl err, _) \<Rightarrow> (Inl err, revm_state_default))"

record evm_simulation =
  es_state :: revm_state
  es_receipts :: "receipt list"
  es_gas_used :: u64

definition simulate_evm_state_transition_from_state ::
  "revm \<Rightarrow> ext \<Rightarrow> revm_state \<Rightarrow> block \<Rightarrow> u64 \<Rightarrow> node_error + evm_simulation" where
  "simulate_evm_state_transition_from_state v e st b parent_timestamp =
     (case execute_evm_state_transition_in_place v e b parent_timestamp st of
        (Inr (receipts, gas_used), st') \<Rightarrow>
          Inr \<lparr>es_state = st', es_receipts = receipts, es_gas_used = gas_used\<rparr>
      | (Inl err, _) \<Rightarrow> Inl err)"

section \<open>The stored form of the interpreter state\<close>

definition hash_of_u256 :: "u256 \<Rightarrow> hash256" where
  "hash_of_u256 x = Arr (to_be_bytes x)"

definition stored_slots :: "(u256, u256) fmap \<Rightarrow> (hash256, hash256) fmap" where
  "stored_slots m = fold (\<lambda>(slot, v). fmupd (hash_of_u256 slot) (hash_of_u256 v)) (fm_entries m) fmempty"

definition stored_balance :: "u256 \<Rightarrow> bix option" where
  "stored_balance x = (if unat x < 2 ^ 128 then Some (ucast x) else None)"

definition evm_accounts_from_revm_state :: "revm_state \<Rightarrow> node_error + evm_state_snapshot" where
  "evm_accounts_from_revm_state st =
     res_fold (\<lambda>(a, ac) accounts.
       res_bind (res_of_option (Bail ''EVM balance exceeds BLQ account range'') (stored_balance (ra_balance ac)))
         (\<lambda>balance. Inr (fmupd a (balance, ra_nonce ac, ra_code ac, stored_slots (ra_storage ac)) accounts)))
       (fm_entries (rs_accounts st)) fmempty"

definition evm_state_root_from_revm_state :: "ext \<Rightarrow> revm_state \<Rightarrow> node_error + hash256" where
  "evm_state_root_from_revm_state e st = res_bind (evm_accounts_from_revm_state st)
     (\<lambda>accounts. res_map_err OfStorage (evm_state_root_from_accounts e accounts))"

section \<open>Validating and building blocks against the storage\<close>

record node_view =
  nv_header_by_number :: "u64 \<Rightarrow> storage_error + block_header"
  nv_account_snapshot :: "node_error + native_accounts"
  nv_evm_state :: "node_error + revm_state"

definition parent_timestamp_of :: "node_view \<Rightarrow> block \<Rightarrow> node_error + u64" where
  "parent_timestamp_of w b =
     (if h_number (b_header b) = 0 then Inr 0
      else res_bind (res_map_err OfStorage (nv_header_by_number w (h_number (b_header b) - 1)))
        (\<lambda>h. Inr (h_timestamp_seconds h)))"

definition simulate_evm_state_transition ::
  "revm \<Rightarrow> ext \<Rightarrow> node_view \<Rightarrow> block \<Rightarrow> node_error + evm_simulation" where
  "simulate_evm_state_transition v e w b =
     res_bind (parent_timestamp_of w b) (\<lambda>pts.
     res_bind (nv_evm_state w) (\<lambda>st. simulate_evm_state_transition_from_state v e st b pts))"

definition simulate_state_transition ::
  "ext \<Rightarrow> node_view \<Rightarrow> block \<Rightarrow> node_error + (native_accounts \<times> receipt list \<times> u64)" where
  "simulate_state_transition e w b =
     res_bind (parent_timestamp_of w b) (\<lambda>pts.
     res_bind (nv_account_snapshot w) (\<lambda>accounts. simulate_state_transition_from_accounts e accounts b pts))"

definition validate_state_root :: "revm \<Rightarrow> ext \<Rightarrow> node_view \<Rightarrow> block \<Rightarrow> node_error + unit" where
  "validate_state_root v e w b =
     (if list_ex is_evm_transaction (b_transactions b) then
        res_bind (simulate_evm_state_transition v e w b) (\<lambda>sim.
        res_bind (evm_state_root_from_revm_state e (es_state sim)) (\<lambda>expected.
        if h_gas_used (b_header b) \<noteq> es_gas_used sim then Inl (Bail ''block gas used does not match EVM execution'')
        else if b_receipts b \<noteq> es_receipts sim then Inl (Bail ''block receipts do not match EVM transaction execution'')
        else if h_transactions_root (b_header b) \<noteq> transactions_root e (b_transactions b)
          then Inl (Bail ''block transactions root does not match transactions'')
        else if h_receipts_root (b_header b) \<noteq> receipts_root e (b_receipts b)
          then Inl (Bail ''block receipts root does not match receipts'')
        else if h_state_root (b_header b) \<noteq> expected
          then Inl (Bail ''block EVM state root does not match execution'')
        else Inr ()))
      else
        res_bind (simulate_state_transition e w b) (\<lambda>(accounts, receipts, gas_used).
        res_bind (res_map_err OfStorage (state_root_from_accounts e accounts)) (\<lambda>expected.
        if h_gas_used (b_header b) \<noteq> gas_used then Inl (Bail ''block gas used does not match execution'')
        else if b_receipts b \<noteq> receipts then Inl (Bail ''block receipts do not match transaction execution'')
        else if h_transactions_root (b_header b) \<noteq> transactions_root e (b_transactions b)
          then Inl (Bail ''block transactions root does not match transactions'')
        else if h_receipts_root (b_header b) \<noteq> receipts_root e (b_receipts b)
          then Inl (Bail ''block receipts root does not match receipts'')
        else if h_state_root (b_header b) \<noteq> expected
          then Inl (Bail ''block state root does not match execution state'')
        else Inr ())))"

definition fill_block :: "ext \<Rightarrow> block \<Rightarrow> receipt list \<Rightarrow> u64 \<Rightarrow> hash256 \<Rightarrow> block" where
  "fill_block e b receipts gas_used root =
     b\<lparr>b_receipts := receipts,
       b_header := (b_header b)\<lparr>h_gas_used := gas_used,
         h_transactions_root := transactions_root e (b_transactions b),
         h_receipts_root := receipts_root e receipts, h_state_root := root\<rparr>\<rparr>"

definition build_stateful_block ::
  "revm \<Rightarrow> ext \<Rightarrow> node_view \<Rightarrow> block \<Rightarrow> transaction list \<Rightarrow> node_error + block" where
  "build_stateful_block v e w b ts =
     (let b = b\<lparr>b_transactions := ts\<rparr> in
      if list_ex is_evm_transaction (b_transactions b) then
        res_bind (simulate_evm_state_transition v e w b) (\<lambda>sim.
        res_bind (evm_state_root_from_revm_state e (es_state sim)) (\<lambda>root.
        Inr (fill_block e b (es_receipts sim) (es_gas_used sim) root)))
      else
        res_bind (simulate_state_transition e w b) (\<lambda>(accounts, receipts, gas_used).
        res_bind (res_map_err OfStorage (state_root_from_accounts e accounts)) (\<lambda>root.
        Inr (fill_block e b receipts gas_used root))))"

text \<open>The template builder drops the last transaction until the block fits.\<close>

function build_bounded_stateful_block ::
  "revm \<Rightarrow> ext \<Rightarrow> node_view \<Rightarrow> block \<Rightarrow> transaction list \<Rightarrow> node_error + block" where
  "build_bounded_stateful_block v e w b ts =
     (case build_stateful_block v e w b ts of
        Inl err \<Rightarrow> Inl err
      | Inr blk \<Rightarrow>
          if length (block_canonical_bytes blk) \<le> MAX_BLOCK_BYTES then Inr blk
          else if ts = [] then Inl (Bail ''block template cannot fit within the 2 MiB consensus limit'')
          else build_bounded_stateful_block v e w b (butlast ts))"
  by pat_completeness auto
termination by (relation "measure (\<lambda>(v, e, w, b, ts). length ts)") auto

declare build_bounded_stateful_block.simps [simp del]

section \<open>What execution reads of a header\<close>

text \<open>Headers that agree on everything execution reads.\<close>

definition same_env :: "block_header \<Rightarrow> block_header \<Rightarrow> bool" where
  "same_env g h \<longleftrightarrow> h_number g = h_number h \<and> h_beneficiary g = h_beneficiary h \<and>
     h_timestamp_seconds g = h_timestamp_seconds h \<and> h_gas_limit g = h_gas_limit h \<and>
     h_base_fee_per_gas g = h_base_fee_per_gas h"

lemma same_env_transfers:
  assumes "same_env (b_header b) (b_header c)" "b_transactions b = b_transactions c"
  shows "simulate_state_transition_from_accounts e m b pts = simulate_state_transition_from_accounts e m c pts"
proof -
  have "transfer_step e (b_header b) = transfer_step e (b_header c)"
    using assms by (simp add: fun_eq_iff transfer_step_def transfer_fee_def effective_gas_price_def same_env_def)
  then show ?thesis
    using assms by (simp add: simulate_state_transition_from_accounts_def same_env_def beneficiary_address_def)
qed

lemma same_env_evm_loop:
  assumes "same_env g h" "h_mix_hash g = h_mix_hash h"
  shows "evm_loop v e g ts acc = evm_loop v e h ts acc"
proof -
  have "evm_step v e g = evm_step v e h"
    using assms by (simp add: fun_eq_iff evm_step_def execute_transaction_def block_env_of_def
        effective_gas_price_def same_env_def beneficiary_address_def)
  then have "evm_loop v e g ts = evm_loop v e h ts"
  proof (induction ts)
    case Nil
    show ?case by (rule ext) simp
  next
    case (Cons t ts)
    then show ?case by (intro ext) simp
  qed
  then show ?thesis by simp
qed

lemma same_env_evm:
  assumes "same_env (b_header b) (b_header c)" "h_mix_hash (b_header b) = h_mix_hash (b_header c)"
    and "b_transactions b = b_transactions c"
  shows "simulate_evm_state_transition v e w b = simulate_evm_state_transition v e w c"
proof -
  have "evm_block_body v e b pts = evm_block_body v e c pts" for pts
    using assms same_env_evm_loop [OF assms(1,2)]
    by (simp add: evm_block_body_def same_env_def block_split_def settle_beneficiary_def beneficiary_address_def)
  then show ?thesis
    using assms by (simp add: simulate_evm_state_transition_def parent_timestamp_of_def same_env_def
        simulate_evm_state_transition_from_state_def execute_evm_state_transition_in_place_def)
qed

section \<open>Built blocks validate\<close>

lemma same_env_native:
  assumes "same_env (b_header b) (b_header c)" "b_transactions b = b_transactions c"
  shows "simulate_state_transition e w b = simulate_state_transition e w c"
  using assms(1) same_env_transfers [OF assms]
  by (simp add: simulate_state_transition_def parent_timestamp_of_def same_env_def)

lemma fill_block_simps [simp]:
  "b_transactions (fill_block e b rs g r) = b_transactions b" "b_receipts (fill_block e b rs g r) = rs"
  "h_gas_used (b_header (fill_block e b rs g r)) = g" "h_state_root (b_header (fill_block e b rs g r)) = r"
  "h_transactions_root (b_header (fill_block e b rs g r)) = transactions_root e (b_transactions b)"
  "h_receipts_root (b_header (fill_block e b rs g r)) = receipts_root e rs"
  "h_mix_hash (b_header (fill_block e b rs g r)) = h_mix_hash (b_header b)"
  by (simp_all add: fill_block_def)

lemma fill_block_env: "same_env (b_header (fill_block e b rs g r)) (b_header b)"
  by (simp add: fill_block_def same_env_def)

lemma simulate_fill_block [simp]:
  "simulate_evm_state_transition v e w (fill_block d b rs g r) = simulate_evm_state_transition v e w b"
  "simulate_state_transition e w (fill_block d b rs g r) = simulate_state_transition e w b"
  by (rule same_env_evm same_env_native; simp add: fill_block_env)+

definition sealed :: "u64 \<Rightarrow> hash256 \<Rightarrow> block \<Rightarrow> block" where
  "sealed n m b = b\<lparr>b_header := (b_header b)\<lparr>h_nonce := n, h_mix_hash := m\<rparr>\<rparr>"

lemma sealed_simps [simp]:
  "b_transactions (sealed n m b) = b_transactions b" "b_receipts (sealed n m b) = b_receipts b"
  "h_gas_used (b_header (sealed n m b)) = h_gas_used (b_header b)"
  "h_state_root (b_header (sealed n m b)) = h_state_root (b_header b)"
  "h_transactions_root (b_header (sealed n m b)) = h_transactions_root (b_header b)"
  "h_receipts_root (b_header (sealed n m b)) = h_receipts_root (b_header b)"
  "h_mix_hash (b_header (sealed n m b)) = m"
  by (simp_all add: sealed_def)

lemma sealed_env: "same_env (b_header (sealed n m b)) (b_header b)"
  by (simp add: sealed_def same_env_def)

lemma simulate_sealed [simp]: "simulate_state_transition e w (sealed n m b) = simulate_state_transition e w b"
  by (rule same_env_native) (simp_all add: sealed_env)

lemma build_stateful_block_cases:
  assumes "build_stateful_block v e w b ts = Inr b'"
  obtains sim root where "list_ex is_evm_transaction ts"
      "simulate_evm_state_transition v e w (b\<lparr>b_transactions := ts\<rparr>) = Inr sim"
      "evm_state_root_from_revm_state e (es_state sim) = Inr root"
      "b' = fill_block e (b\<lparr>b_transactions := ts\<rparr>) (es_receipts sim) (es_gas_used sim) root"
  | accounts receipts gas_used root where "\<not> list_ex is_evm_transaction ts"
      "simulate_state_transition e w (b\<lparr>b_transactions := ts\<rparr>) = Inr (accounts, receipts, gas_used)"
      "state_root_from_accounts e accounts = Inr root"
      "b' = fill_block e (b\<lparr>b_transactions := ts\<rparr>) receipts gas_used root"
  using assms by (auto simp: build_stateful_block_def Let_def res_simps split: if_splits prod.splits)

lemma build_stateful_block_valid:
  assumes "build_stateful_block v e w b ts = Inr b'"
  shows "validate_state_root v e w b' = Inr () \<and> b_transactions b' = ts"
  using assms
proof (cases rule: build_stateful_block_cases)
  case (1 sim root)
  then show ?thesis by (simp add: validate_state_root_def)
next
  case (2 accounts receipts gas_used root)
  then show ?thesis by (simp add: validate_state_root_def)
qed

lemma build_bounded_ok:
  "build_bounded_stateful_block v e w b ts = Inr b' \<Longrightarrow>
     \<exists>us. prefix us ts \<and> build_stateful_block v e w b us = Inr b' \<and>
       length (block_canonical_bytes b') \<le> MAX_BLOCK_BYTES"
proof (induction v e w b ts rule: build_bounded_stateful_block.induct)
  case (1 v e w b ts)
  then obtain blk where blk: "build_stateful_block v e w b ts = Inr blk"
    by (subst (asm) (2) build_bounded_stateful_block.simps) (auto split: sum.splits)
  show ?case
  proof (cases "length (block_canonical_bytes blk) \<le> MAX_BLOCK_BYTES")
    case True
    then have "b' = blk" using 1(2) blk by (subst (asm) build_bounded_stateful_block.simps) simp
    then show ?thesis using True blk by blast
  next
    case False
    then have ne: "ts \<noteq> []" and rec: "build_bounded_stateful_block v e w b (butlast ts) = Inr b'"
      using 1(2) blk by (subst (asm) build_bounded_stateful_block.simps, auto split: if_splits)+
    from 1(1) [OF blk False ne rec] show ?thesis
      by (meson prefix_order.trans prefixeq_butlast)
  qed
qed

lemma sealed_native_valid:
  "\<not> list_ex is_evm_transaction (b_transactions b) \<Longrightarrow>
     validate_state_root v e w (sealed n m b) = validate_state_root v e w b"
  by (simp add: validate_state_root_def cong: if_cong)

text \<open>
  C14. A template is valid and, without contract transactions, stays valid when it is sealed.  The
  bounded builder returns a block with a prefix of the offered transactions, within the size
  limit, which the validation of state roots accepts.  If the block holds only transfers, so does
  the block with any nonce and mix hash a miner puts in.  If it holds a contract transaction, the
  sealed block is accepted exactly when running it again, with the new mix hash as the randomness
  the interpreter sees, succeeds with the same gas, receipts and state root.
\<close>

theorem template_sealing:
  assumes "build_bounded_stateful_block v e w b ts = Inr b'"
  shows "prefix (b_transactions b') ts \<and> length (block_canonical_bytes b') \<le> MAX_BLOCK_BYTES \<and>
    validate_state_root v e w b' = Inr () \<and>
    (\<not> list_ex is_evm_transaction (b_transactions b') \<longrightarrow> validate_state_root v e w (sealed n m b') = Inr ()) \<and>
    (list_ex is_evm_transaction (b_transactions b') \<longrightarrow>
      (validate_state_root v e w (sealed n m b') = Inr () \<longleftrightarrow>
        (\<exists>sim. simulate_evm_state_transition v e w (sealed n m b') = Inr sim \<and>
          es_gas_used sim = h_gas_used (b_header b') \<and> es_receipts sim = b_receipts b' \<and>
          evm_state_root_from_revm_state e (es_state sim) = Inr (h_state_root (b_header b')))))"
proof -
  obtain us where us: "prefix us ts" "build_stateful_block v e w b us = Inr b'"
    "length (block_canonical_bytes b') \<le> MAX_BLOCK_BYTES"
    using build_bounded_ok [OF assms] by blast
  note valid = build_stateful_block_valid [OF us(2)]
  have roots: "h_transactions_root (b_header b') = transactions_root e (b_transactions b')"
    "h_receipts_root (b_header b') = receipts_root e (b_receipts b')"
    using us(2) by (cases rule: build_stateful_block_cases; simp)+
  have "validate_state_root v e w (sealed n m b') = Inr ()" if "\<not> list_ex is_evm_transaction (b_transactions b')"
    using that valid by (simp add: sealed_native_valid)
  moreover have "validate_state_root v e w (sealed n m b') = Inr () \<longleftrightarrow>
        (\<exists>sim. simulate_evm_state_transition v e w (sealed n m b') = Inr sim \<and>
          es_gas_used sim = h_gas_used (b_header b') \<and> es_receipts sim = b_receipts b' \<and>
          evm_state_root_from_revm_state e (es_state sim) = Inr (h_state_root (b_header b')))"
    if "list_ex is_evm_transaction (b_transactions b')"
    using that roots by (auto simp: validate_state_root_def res_simps split: if_splits)
  ultimately show ?thesis using us valid by blast
qed

section \<open>The supply across a block of contract transactions\<close>

definition evm_supply :: "revm_state \<Rightarrow> nat" where
  "evm_supply st = fm_total (\<lambda>ac. unat (ra_balance ac)) (rs_accounts st)"

lemma fm_val_revm: "fm_val (\<lambda>ac. unat (ra_balance ac)) (rs_accounts st) a = unat (ra_balance (revm_account_of st a))"
  by (simp add: fm_val_def revm_account_of_def revm_account_default_def split: option.splits)

lemma evm_supply_put:
  "evm_supply (revm_put_account st a ac) + unat (ra_balance (revm_account_of st a)) =
     evm_supply st + unat (ra_balance ac)"
  using fm_total_upd [of "\<lambda>ac. unat (ra_balance ac)" a ac "rs_accounts st"]
  by (simp add: evm_supply_def revm_put_account_def fm_val_revm)

lemma revm_balance_le_supply: "unat (ra_balance (revm_account_of st a)) \<le> evm_supply st"
  using fm_val_le_total [of "\<lambda>ac. unat (ra_balance ac)" "rs_accounts st" a]
  by (simp add: evm_supply_def fm_val_revm)

text \<open>The documented effect of a transaction on the balances: value moves, the base fee is burnt.\<close>

definition revm_conserves :: "revm \<Rightarrow> bool" where
  "revm_conserves v \<longleftrightarrow> (\<forall>cid st env tx r changes. rv_transact v cid st env tx = Inr (r, changes) \<longrightarrow>
     evm_supply (revm_commit changes st) + unat (xr_gas_used r) * unat (be_basefee env) \<le> evm_supply st)"

text \<open>Fee, burnt base fee and tip of an executed transaction, as natural numbers.\<close>

definition gas_cost :: "(block_header \<Rightarrow> transaction \<Rightarrow> nat) \<Rightarrow> block_header \<Rightarrow> (transaction \<times> receipt) list \<Rightarrow> nat" where
  "gas_cost price h trs = (\<Sum>(t, r)\<leftarrow>trs. unat (rc_gas_used r) * price h t)"

definition full_price :: "block_header \<Rightarrow> transaction \<Rightarrow> nat" where
  "full_price h t = unat (effective_gas_price h t)"

definition base_price :: "block_header \<Rightarrow> transaction \<Rightarrow> nat" where
  "base_price h t = unat (h_base_fee_per_gas h)"

definition tip_price :: "block_header \<Rightarrow> transaction \<Rightarrow> nat" where
  "tip_price h t = unat (effective_gas_price h t) - unat (h_base_fee_per_gas h)"

lemma gas_cost_simps [simp]:
  "gas_cost p h [] = 0" "gas_cost p h ((t, r) # trs) = unat (rc_gas_used r) * p h t + gas_cost p h trs"
  by (simp_all add: gas_cost_def)

lemma price_parts:
  assumes "validate_transaction_fee t (h_base_fee_per_gas h) = Inr ()"
  shows "full_price h t = base_price h t + tip_price h t"
proof -
  have "h_base_fee_per_gas h \<le> tx_max_fee_per_gas t" using assms by (simp add: validate_transaction_fee_iff)
  then have "unat (h_base_fee_per_gas h) \<le> unat (effective_gas_price h t)"
    using unat_lt_len [of "h_base_fee_per_gas h"]
    by (auto simp: effective_gas_price_def min_def word_le_nat_alt word_nat split: if_splits)
  then show ?thesis by (simp add: full_price_def base_price_def tip_price_def)
qed

lemma evm_step_ok:
  assumes "evm_step v e h t (gas, rs, gross, tips) st = (Inr (gas', rs', gross', tips'), st')"
  obtains env tx r changes out where
    "validate_transaction_fee t (h_base_fee_per_gas h) = Inr ()"
    "rv_transact v (tx_chain_id t) st env tx = Inr (r, changes)" "st' = revm_commit changes st"
    "unat (be_basefee env) = unat (h_base_fee_per_gas h)" "xo_gas_used out = xr_gas_used r"
    "rs' = rs @ [evm_receipt e t out]" "checked_add gas (xr_gas_used r) = Some gas'"
    "gross' = saturating_add gross (saturating_mul (ucast (xr_gas_used r)) (effective_gas_price h t))"
    "tips' = saturating_add tips (saturating_mul (ucast (xr_gas_used r))
       (saturating_sub (effective_gas_price h t) (h_base_fee_per_gas h)))"
proof -
  from assms obtain env tx r changes where s:
    "validate_transaction_fee t (h_base_fee_per_gas h) = Inr ()" "block_env_of h = Inr env"
    "rv_transact v (tx_chain_id t) st env tx = Inr (r, changes)" "st' = revm_commit changes st"
    "rs' = rs @ [evm_receipt e t \<lparr>xo_success = xr_success r, xo_gas_used = xr_gas_used r,
       xo_output = (case xr_output r of Some bs \<Rightarrow> bs | None \<Rightarrow> []), xo_logs = xr_logs r\<rparr>]"
    "checked_add gas (xr_gas_used r) = Some gas'"
    "gross' = saturating_add gross (saturating_mul (ucast (xr_gas_used r)) (effective_gas_price h t))"
    "tips' = saturating_add tips (saturating_mul (ucast (xr_gas_used r))
       (saturating_sub (effective_gas_price h t) (h_base_fee_per_gas h)))"
    by (auto simp: evm_step_def execute_transaction_def sm_simps res_simps Let_def)
  have "unat (be_basefee env) = unat (h_base_fee_per_gas h)"
    using s(2) by (auto simp: block_env_of_def res_simps unsigned_ucast_eq take_bit_nat_eq_self)
  then show ?thesis using that s by (metis execution_output.select_convs(2))
qed

lemma evm_loop_ok:
  assumes "evm_loop v e h ts (gas, rs, gross, tips) st = (Inr (gas', rs', gross', tips'), st')"
  obtains us where "rs' = rs @ us" "length us = length ts"
    "unat gas' = unat gas + (\<Sum>r\<leftarrow>us. unat (rc_gas_used r))"
    "gas_cost full_price h (zip ts us) = gas_cost base_price h (zip ts us) + gas_cost tip_price h (zip ts us)"
    "unat gross + gas_cost full_price h (zip ts us) < 2 ^ 128 \<Longrightarrow>
       unat gross' = unat gross + gas_cost full_price h (zip ts us)"
    "unat tips + gas_cost tip_price h (zip ts us) < 2 ^ 128 \<Longrightarrow>
       unat tips' = unat tips + gas_cost tip_price h (zip ts us)"
    "revm_conserves v \<Longrightarrow> evm_supply st' + gas_cost base_price h (zip ts us) \<le> evm_supply st"
proof -
  have "\<exists>us. rs' = rs @ us \<and> length us = length ts \<and>
    unat gas' = unat gas + (\<Sum>r\<leftarrow>us. unat (rc_gas_used r)) \<and>
    gas_cost full_price h (zip ts us) = gas_cost base_price h (zip ts us) + gas_cost tip_price h (zip ts us) \<and>
    (unat gross + gas_cost full_price h (zip ts us) < 2 ^ 128 \<longrightarrow>
       unat gross' = unat gross + gas_cost full_price h (zip ts us)) \<and>
    (unat tips + gas_cost tip_price h (zip ts us) < 2 ^ 128 \<longrightarrow>
       unat tips' = unat tips + gas_cost tip_price h (zip ts us)) \<and>
    (revm_conserves v \<longrightarrow> evm_supply st' + gas_cost base_price h (zip ts us) \<le> evm_supply st)"
    using assms
  proof (induction ts arbitrary: gas rs gross tips st)
    case Nil
    then show ?case by (intro exI [of _ "[]"]) (simp add: sm_simps)
  next
    case (Cons t ts)
    then obtain gas1 rs1 gross1 tips1 st1 where
      one: "evm_step v e h t (gas, rs, gross, tips) st = (Inr (gas1, rs1, gross1, tips1), st1)" and
      rest: "evm_loop v e h ts (gas1, rs1, gross1, tips1) st1 = (Inr (gas', rs', gross', tips'), st')"
      by (auto simp: sm_simps)
    obtain env tx r changes out where s: "validate_transaction_fee t (h_base_fee_per_gas h) = Inr ()"
      "rv_transact v (tx_chain_id t) st env tx = Inr (r, changes)" "st1 = revm_commit changes st"
      "unat (be_basefee env) = unat (h_base_fee_per_gas h)" "xo_gas_used out = xr_gas_used r"
      "rs1 = rs @ [evm_receipt e t out]" "checked_add gas (xr_gas_used r) = Some gas1"
      "gross1 = saturating_add gross (saturating_mul (ucast (xr_gas_used r)) (effective_gas_price h t))"
      "tips1 = saturating_add tips (saturating_mul (ucast (xr_gas_used r))
         (saturating_sub (effective_gas_price h t) (h_base_fee_per_gas h)))"
      by (rule evm_step_ok [OF one])
    from Cons.IH [OF rest] obtain us where us: "rs' = rs1 @ us" "length us = length ts"
      "unat gas' = unat gas1 + (\<Sum>r\<leftarrow>us. unat (rc_gas_used r))"
      "gas_cost full_price h (zip ts us) = gas_cost base_price h (zip ts us) + gas_cost tip_price h (zip ts us)"
      "unat gross1 + gas_cost full_price h (zip ts us) < 2 ^ 128 \<longrightarrow>
         unat gross' = unat gross1 + gas_cost full_price h (zip ts us)"
      "unat tips1 + gas_cost tip_price h (zip ts us) < 2 ^ 128 \<longrightarrow>
         unat tips' = unat tips1 + gas_cost tip_price h (zip ts us)"
      "revm_conserves v \<longrightarrow> evm_supply st' + gas_cost base_price h (zip ts us) \<le> evm_supply st1"
      by blast
    define g where "g = unat (xr_gas_used r)"
    have rg: "unat (rc_gas_used (evm_receipt e t out)) = g" by (simp add: evm_receipt_def s(5) g_def)
    have gas1: "unat gas1 = unat gas + g" using checked_add_unat [OF s(7)] by (simp add: g_def)
    have gross1: "unat gross1 = unat gross + g * full_price h t" if "unat gross + g * full_price h t < 2 ^ 128"
      using that by (simp add: s(8) word_nat g_def full_price_def)
    have tips1: "unat tips1 = unat tips + g * tip_price h t" if "unat tips + g * tip_price h t < 2 ^ 128"
      using that by (simp add: s(9) word_nat g_def tip_price_def)
    have cons: "evm_supply st1 + g * base_price h t \<le> evm_supply st" if "revm_conserves v"
      using that s(2,3,4) unfolding revm_conserves_def g_def base_price_def by metis
    show ?case
      using us gas1 gross1 tips1 cons price_parts [OF s(1)] s(6) rg
      by (intro exI [of _ "evm_receipt e t out # us"]) (auto simp: add_mult_distrib2)
  qed
  then show ?thesis using that by blast
qed

lemma gas_cost_fold:
  assumes "gas_cost full_price h trs < 2 ^ 128"
  shows "unat (fold (\<lambda>f acc. saturating_add acc f)
    (map (\<lambda>(t, r). saturating_mul (ucast (rc_gas_used r)) (effective_gas_price h t)) trs) 0) = gas_cost full_price h trs"
proof -
  have "(\<Sum>f\<leftarrow>map (\<lambda>(t, r). saturating_mul (ucast (rc_gas_used r)) (effective_gas_price h t)) trs. unat f)
      = gas_cost full_price h trs"
    using assms by (induction trs) (auto simp: word_nat full_price_def)
  then show ?thesis using assms by (subst fold_saturating_add) simp_all
qed

lemma supply_delta_evm:
  assumes "unat gas = (\<Sum>r\<leftarrow>rs. unat (rc_gas_used r))"
    and "unat gross = gas_cost full_price (b_header b) (zip (b_transactions b) rs)"
  shows "block_supply_delta (b\<lparr>b_receipts := rs\<rparr>) pts =
    (block_reward b pts, fst (split_fee (block_split gas (b_header b)) gross))"
proof -
  have gas: "sum_list (map rc_gas_used rs) = gas"
    by (simp add: sum_words flip: assms(1))
  have "gas_cost full_price (b_header b) (zip (b_transactions b) rs) < 2 ^ 128"
    using unat_lt_len [of gross] assms(2) by simp
  from gas_cost_fold [OF this] have
    "fold (\<lambda>f acc. saturating_add acc f)
      (map (\<lambda>(t, r). saturating_mul (ucast (rc_gas_used r)) (effective_gas_price (b_header b) t))
        (zip (b_transactions b) rs)) 0 = gross"
    using assms(2) by (simp add: word_unat_eq_iff)
  then show ?thesis by (simp add: block_supply_delta_def Let_def block_reward_def gas flip: block_split_def)
qed

lemma settle_supply:
  fixes h :: block_header and st :: revm_state
  assumes "evm_supply st < 2 ^ 128"
  defines "B \<equiv> unat (ra_balance (revm_account_of st (beneficiary_address h)))"
  shows "evm_supply (settle_beneficiary h tips credit st) + unat tips = evm_supply st + unat credit + (unat tips - B)"
proof -
  have B: "B \<le> evm_supply st" unfolding B_def by (rule revm_balance_le_supply)
  have "unat credit < 2 ^ 128" using unat_lt_len [of credit] by simp
  then have "unat (saturating_add (saturating_sub (ra_balance (revm_account_of st (beneficiary_address h))) (ucast tips))
      (ucast credit)) = B - unat tips + unat credit"
    using B assms(1) by (simp add: word_nat B_def)
  then show ?thesis
    using evm_supply_put [of st "beneficiary_address h" "(revm_account_of st (beneficiary_address h))\<lparr>ra_balance :=
      saturating_add (saturating_sub (ra_balance (revm_account_of st (beneficiary_address h))) (ucast tips)) (ucast credit)\<rparr>"] B
    by (simp add: settle_beneficiary_def Let_def flip: B_def)
qed


section \<open>A concrete interpreter\<close>

text \<open>
  A stand-in for the interpreter, to evaluate the model: every transaction uses 21000 gas, the
  caller pays it, the beneficiary gets the tip, and the log records the randomness of the block.  A
  call with data runs a wallet at the beneficiary address that hands its whole balance to the caller.
\<close>

definition demo_revm :: revm where
  "demo_revm = \<lparr>rv_build = Inr, rv_transact = (\<lambda>cid st env tx.
     let base = (ucast (be_basefee env) :: u128);
         price = min (te_max_fee_per_gas tx)
           (saturating_add base (case te_gas_priority_fee tx of Some p \<Rightarrow> p | None \<Rightarrow> 0));
         caller = revm_account_of st (te_caller tx);
         miner = revm_account_of st (be_beneficiary env);
         paid = ra_balance caller - 21000 * ucast price;
         earned = ra_balance miner + 21000 * ucast (price - base);
         chg = (\<lambda>ac n b. \<lparr>ch_selfdestructed = False, ch_nonce = n, ch_balance = b,
                  ch_code = None, ch_storage = []\<rparr>)
     in if te_caller tx \<noteq> be_beneficiary env \<and> base \<le> price \<and> 21000 * unat price \<le> unat (ra_balance caller) \<and>
          unat (ra_balance caller) + unat (ra_balance miner) < 2 ^ 256
        then Inr (\<lparr>xr_success = True, xr_gas_used = 21000, xr_output = None,
               xr_logs = [\<lparr>log_address = te_caller tx,
                 log_topics = (case be_prevrandao env of Some m \<Rightarrow> [m] | None \<Rightarrow> []), log_data = []\<rparr>]\<rparr>,
             if te_data tx = []
             then [(te_caller tx, chg caller (ra_nonce caller + 1) paid),
                   (be_beneficiary env, chg miner (ra_nonce miner) earned)]
             else [(te_caller tx, chg caller (ra_nonce caller + 1) (paid + earned)),
                   (be_beneficiary env, chg miner (ra_nonce miner) 0)])
        else Inl ''insufficient funds'')\<rparr>"

lemma commit_two:
  assumes "a \<noteq> c" "\<not> ch_selfdestructed x" "\<not> ch_selfdestructed y"
  shows "evm_supply (revm_commit [(a, x), (c, y)] st) + unat (ra_balance (revm_account_of st a)) +
      unat (ra_balance (revm_account_of st c)) = evm_supply st + unat (ch_balance x) + unat (ch_balance y)"
proof -
  define st1 where "st1 = commit_account (a, x) st"
  obtain p where p: "st1 = revm_put_account st a p" "ra_balance p = ch_balance x"
    using assms(2) by (auto simp: st1_def Let_def split: option.splits)
  obtain q where q: "commit_account (c, y) st1 = revm_put_account st1 c q" "ra_balance q = ch_balance y"
    using assms(3) by (auto simp: Let_def split: option.splits)
  have "revm_account_of st1 c = revm_account_of st c" using assms(1) by (simp add: p(1) revm_store.acct_put)
  moreover have "revm_commit [(a, x), (c, y)] st = revm_put_account st1 c q"
    using q(1) by (simp add: revm_commit_def st1_def del: commit_account.simps)
  ultimately show ?thesis
    using evm_supply_put [of st a p] evm_supply_put [of st1 c q] p q(2) by simp
qed

lemma demo_revm_conserves: "revm_conserves demo_revm"
  unfolding revm_conserves_def
proof (intro allI impI)
  fix cid st env tx r changes
  assume run: "rv_transact demo_revm cid st env tx = Inr (r, changes)"
  define base price where "base = (ucast (be_basefee env) :: u128)" and
    "price = min (te_max_fee_per_gas tx) (saturating_add base (case te_gas_priority_fee tx of Some p \<Rightarrow> p | None \<Rightarrow> 0))"
  define C M where "C = ra_balance (revm_account_of st (te_caller tx))" and
    "M = ra_balance (revm_account_of st (be_beneficiary env))"
  have guard: "te_caller tx \<noteq> be_beneficiary env" "base \<le> price" "21000 * unat price \<le> unat C"
    "unat C + unat M < 2 ^ 256"
    using run by (auto simp: demo_revm_def Let_def base_def price_def C_def M_def split: if_splits)
  have g: "xr_gas_used r = 21000"
    using run by (auto simp: demo_revm_def Let_def split: if_splits)
  have b: "unat base = unat (be_basefee env)" by (simp add: base_def word_nat)
  have bp: "unat (price - base) = unat price - unat base" using guard(2) by (simp add: unat_sub)
  have small: "21000 * unat price < 2 ^ 256" using guard(3) unat_lt_len [of C] by simp
  have "unat (21000 * ucast price :: u256) = 21000 * unat price"
    using small by (subst unat_mul_no_wrap) (simp_all add: word_nat)
  then have paid: "unat (C - 21000 * ucast price) = unat C - 21000 * unat price"
    using guard(3) by (subst unat_sub) (simp_all add: word_le_nat_alt)
  have "unat (21000 * ucast (price - base) :: u256) = 21000 * (unat price - unat base)"
    using small by (subst unat_mul_no_wrap) (simp_all add: word_nat bp)
  then have earned: "unat (M + 21000 * ucast (price - base)) = unat M + 21000 * (unat price - unat base)"
    using guard(3,4) by (subst unat_add_no_wrap) simp_all
  have both: "unat ((C - 21000 * ucast price) + (M + 21000 * ucast (price - base))) =
      (unat C - 21000 * unat price) + (unat M + 21000 * (unat price - unat base))"
    using guard(3,4) paid earned by (subst unat_add_no_wrap) simp_all
  obtain x y where xy: "changes = [(te_caller tx, x), (be_beneficiary env, y)]" "\<not> ch_selfdestructed x"
    "\<not> ch_selfdestructed y"
    "unat (ch_balance x) + unat (ch_balance y) = (unat C - 21000 * unat price) + (unat M + 21000 * (unat price - unat base))"
    using run paid earned both
    by (auto simp: demo_revm_def Let_def simp flip: base_def price_def C_def M_def split: if_splits)
  have "unat base \<le> unat price" using guard(2) by (simp add: word_le_nat_alt)
  then have "evm_supply (revm_commit changes st) + 21000 * unat base = evm_supply st"
    using commit_two [OF guard(1) xy(2,3), of st] xy(4) guard(3) unfolding xy(1) C_def M_def by linarith
  then show "evm_supply (revm_commit changes st) + unat (xr_gas_used r) * unat (be_basefee env) \<le> evm_supply st"
    by (simp add: g b)
qed

section \<open>Concrete blocks\<close>

definition demo_call :: transaction where
  "demo_call = demo_tx\<lparr>tx_payload := [1]\<rparr>"

definition demo_call_block :: block where
  "demo_call_block = demo_block\<lparr>b_transactions := [demo_call]\<rparr>"

definition demo_revm_state :: revm_state where
  "demo_revm_state = \<lparr>rs_accounts = fmupd (arr_rep 7)
     \<lparr>ra_nonce = 0, ra_balance = 1000000000000000000, ra_code = [], ra_storage = fmempty\<rparr> fmempty\<rparr>"

lemma demo_miner: "beneficiary_address (b_header demo_block) = arr_rep 0"
  by (simp add: beneficiary_address_def demo_block_def genesis_header_def ZERO_HASH_def address_from_word_def
      arr_eq_iff arr_bytes_Arr)

lemma arr_0_7: "(arr_rep 0 :: address) \<noteq> arr_rep 7"
  by (simp add: arr_eq_iff)

definition demo_call_output :: "hash256 \<Rightarrow> execution_output" where
  "demo_call_output m = \<lparr>xo_success = True, xo_gas_used = 21000, xo_output = [],
     xo_logs = [\<lparr>log_address = arr_rep 7, log_topics = [m], log_data = []\<rparr>]\<rparr>"

definition demo_call_changes :: "(address \<times> account_change) list" where
  "demo_call_changes =
     [(arr_rep 7, \<lparr>ch_selfdestructed = False, ch_nonce = 1, ch_balance = 999979000000000000, ch_code = None, ch_storage = []\<rparr>),
      (arr_rep 0, \<lparr>ch_selfdestructed = False, ch_nonce = 0, ch_balance = 0, ch_code = None, ch_storage = []\<rparr>)]"

lemma demo_call_env:
  assumes "same_env h (b_header demo_block)"
  shows "block_env_of h = Inr \<lparr>be_number = 1, be_beneficiary = arr_rep 0, be_timestamp = 30, be_gas_limit = 30000000,
     be_basefee = 1000000000, be_difficulty = 0, be_prevrandao = Some (h_mix_hash h), be_blob_excess = Some (0, 1), be_slot_num = 1\<rparr>"
proof -
  have "beneficiary_address h = arr_rep 0" using assms demo_miner by (simp add: same_env_def beneficiary_address_def)
  then show ?thesis
    using assms by (simp add: block_env_of_def same_env_def demo_header_fields ensure_def)
      (simp add: demo_block_def)
qed

lemma demo_call_fields:
  "tx_chain_id demo_call = 707070" "validate_transaction_fee demo_call 1000000000 = Inr ()"
  "same_env h (b_header demo_block) \<Longrightarrow> effective_gas_price h demo_call = 1001000000"
  by (simp_all add: demo_call_def demo_tx_def validate_transaction_fee_def blq_consts word_less_nat_alt
      effective_gas_price_def same_env_def demo_header_fields saturating_add_def min_def word_le_nat_alt)

lemma demo_call_run:
  assumes "same_env h (b_header demo_block)"
  shows "execute_transaction demo_revm h demo_call demo_revm_state =
    (Inr (demo_call_output (h_mix_hash h)), revm_commit demo_call_changes demo_revm_state)"
  using assms arr_0_7
  by (simp add: execute_transaction_def demo_call_env sm_bind_def sm_lift_def sm_gets_def demo_revm_def tx_env_of_def
      demo_call_def demo_tx_def Let_def saturating_add_def min_def word_le_nat_alt demo_revm_state_def
      revm_account_of_def revm_account_default_def demo_call_changes_def demo_call_output_def eq_commute [of "arr_rep 7" "arr_rep 0"])

lemma demo_call_loop:
  assumes "same_env h (b_header demo_block)"
  shows "evm_loop demo_revm demo_ext h [demo_call] (0, [], 0, 0) demo_revm_state =
    (Inr (21000, [evm_receipt demo_ext demo_call (demo_call_output (h_mix_hash h))], 21021000000000, 21000000000),
     revm_commit demo_call_changes demo_revm_state)"
  using assms
  by (simp add: evm_step_def sm_bind_def sm_lift_def sm_ok_def sm_map_err_def demo_call_run demo_call_fields Let_def
      demo_call_output_def same_env_def demo_header_fields checked_add_def saturating_add_def saturating_mul_def
      saturating_sub_def word_le_nat_alt word_less_nat_alt)

lemma demo_call_state:
  "rs_accounts (revm_commit demo_call_changes demo_revm_state) =
     fmupd (arr_rep 0) \<lparr>ra_nonce = 0, ra_balance = 0, ra_code = [], ra_storage = fmempty\<rparr>
       (fmupd (arr_rep 7) \<lparr>ra_nonce = 1, ra_balance = 999979000000000000, ra_code = [], ra_storage = fmempty\<rparr> fmempty)"
  using arr_0_7 by (simp add: demo_call_changes_def demo_revm_state_def revm_commit_def revm_put_account_def
      revm_account_of_def revm_account_default_def)

lemma demo_call_supply:
  "evm_supply demo_revm_state = 1000000000000000000"
  "evm_supply (revm_commit demo_call_changes demo_revm_state) = 999979000000000000"
  using arr_0_7 by (simp_all add: evm_supply_def demo_call_state fm_total_def) (simp add: demo_revm_state_def)



lemma small_balances_stored:
  assumes "\<And>a ac. fmlookup (rs_accounts st) a = Some ac \<Longrightarrow> unat (ra_balance ac) < 2 ^ 128"
  shows "\<exists>m. evm_accounts_from_revm_state st = Inr m"
proof -
  have "\<exists>m. res_fold (\<lambda>(a, ac) accounts.
       res_bind (res_of_option (Bail ''EVM balance exceeds BLQ account range'') (stored_balance (ra_balance ac)))
         (\<lambda>balance. Inr (fmupd a (balance, ra_nonce ac, ra_code ac, stored_slots (ra_storage ac)) accounts)))
       es m0 = Inr m" if "\<forall>(a, ac) \<in> set es. unat (ra_balance ac) < 2 ^ 128" for es m0
    using that
  proof (induction es arbitrary: m0)
    case (Cons x es)
    then show ?case by (cases x) (simp add: stored_balance_def)
  qed simp
  moreover have "\<forall>(a, ac) \<in> set (fm_entries (rs_accounts st)). unat (ra_balance ac) < 2 ^ 128"
    using assms by (auto simp: set_fm_entries)
  ultimately show ?thesis
    unfolding evm_accounts_from_revm_state_def by blast
qed

definition demo_call_view :: node_view where
  "demo_call_view = \<lparr>nv_header_by_number = (\<lambda>_. Inr (genesis_header demo_ext)),
     nv_account_snapshot = Inr fmempty, nv_evm_state = Inr demo_revm_state\<rparr>"

lemma demo_call_simulation:
  assumes "same_env (b_header b) (b_header demo_block)" "b_transactions b = [demo_call]"
  shows "\<exists>st'. simulate_evm_state_transition demo_revm demo_ext demo_call_view b =
    Inr \<lparr>es_state = st', es_receipts = [evm_receipt demo_ext demo_call (demo_call_output (h_mix_hash (b_header b)))],
      es_gas_used = 21000\<rparr> \<and> (\<exists>r. evm_state_root_from_revm_state demo_ext st' = Inr r)"
proof -
  let ?st1 = "revm_commit demo_call_changes demo_revm_state"
  define pts where "pts = h_timestamp_seconds (genesis_header demo_ext)"
  define credit where "credit = saturating_add (block_reward_for_interval_bix pts (h_timestamp_seconds (b_header b)))
    (snd (split_fee (block_split 21000 (b_header b)) 21021000000000))"
  define st' where "st' = settle_beneficiary (b_header b) 21000000000 credit ?st1"
  have fields: "h_number (b_header b) = 1" "h_gas_limit (b_header b) = 30000000" "beneficiary_address (b_header b) = arr_rep 0"
    using assms(1) demo_miner by (simp_all add: same_env_def demo_header_fields beneficiary_address_def) (simp add: demo_block_def)
  have sim: "simulate_evm_state_transition demo_revm demo_ext demo_call_view b =
    Inr \<lparr>es_state = st', es_receipts = [evm_receipt demo_ext demo_call (demo_call_output (h_mix_hash (b_header b)))],
      es_gas_used = 21000\<rparr>"
    by (simp add: simulate_evm_state_transition_def parent_timestamp_of_def fields demo_call_view_def
        simulate_evm_state_transition_from_state_def execute_evm_state_transition_in_place_def evm_block_body_def
        assms(2) demo_call_loop [OF assms(1)] sm_bind_def sm_lift_def ensure_def Let_def st'_def credit_def pts_def del: evm_loop.simps)
  have wide: "saturating_add 0 x = x" for x :: u256
    using unat_lt_len [of x] by (simp add: saturating_add_def)
  have "rs_accounts st' = fmupd (arr_rep 0) \<lparr>ra_nonce = 0, ra_balance = ucast credit, ra_code = [], ra_storage = fmempty\<rparr>
    (rs_accounts ?st1)"
    by (simp add: st'_def settle_beneficiary_def Let_def fields revm_account_of_def revm_put_account_def demo_call_state
        saturating_sub_def wide)
  moreover have "unat (ucast credit :: u256) < 2 ^ 128"
    using unat_lt_len [of credit] by (simp add: unat_widen)
  ultimately have "\<exists>m. evm_accounts_from_revm_state st' = Inr m"
    by (intro small_balances_stored) (auto simp: demo_call_state split: if_splits)
  then show ?thesis
    using sim by (auto simp: evm_state_root_from_revm_state_def evm_state_root_from_accounts_def)
qed


lemma demo_call_build:
  obtains b' where "build_bounded_stateful_block demo_revm demo_ext demo_call_view demo_block [demo_call] = Inr b'"
    "b_transactions b' = [demo_call]" "same_env (b_header b') (b_header demo_block)"
    "b_receipts b' = [evm_receipt demo_ext demo_call (demo_call_output (h_mix_hash (b_header demo_block)))]"
proof -
  let ?b = "demo_block\<lparr>b_transactions := [demo_call]\<rparr>"
  let ?rs = "[evm_receipt demo_ext demo_call (demo_call_output (h_mix_hash (b_header demo_block)))]"
  have evm: "is_evm_transaction demo_call" by (simp add: is_evm_transaction_def demo_call_def)
  have env: "same_env (b_header ?b) (b_header demo_block)" by (simp add: same_env_def)
  obtain st' r where s: "simulate_evm_state_transition demo_revm demo_ext demo_call_view ?b =
      Inr \<lparr>es_state = st', es_receipts = ?rs, es_gas_used = 21000\<rparr>" "evm_state_root_from_revm_state demo_ext st' = Inr r"
    using demo_call_simulation [OF env] by auto
  let ?b' = "fill_block demo_ext ?b ?rs 21000 r"
  have build: "build_stateful_block demo_revm demo_ext demo_call_view demo_block [demo_call] = Inr ?b'"
    using s evm by (simp add: build_stateful_block_def Let_def)
  have "length (block_canonical_bytes ?b') \<le> MAX_BLOCK_BYTES"
    by (simp add: block_canonical_bytes_def length_header_bytes put_bytes_def u64_code.width u128_code.width hash_code.width
        address_code.width bool_code.width transaction_canonical_bytes_def receipt_canonical_bytes_def log_entry_canonical_bytes_def
        evm_receipt_def demo_call_output_def demo_call_def demo_tx_def demo_signature_def demo_block_def genesis_header_def
        DEFAULT_POW_ALGORITHM_def demo_ext_def fill_block_def blq_consts)
  then have "build_bounded_stateful_block demo_revm demo_ext demo_call_view demo_block [demo_call] = Inr ?b'"
    by (subst build_bounded_stateful_block.simps) (simp add: build)
  then show thesis
    using that [of ?b'] fill_block_env [of demo_ext ?b ?rs 21000 r] env by (simp add: same_env_def)
qed

theorem template_sealing_witness:
  "\<exists>b'. build_bounded_stateful_block demo_revm demo_ext demo_call_view demo_block [demo_call] = Inr b' \<and>
     validate_state_root demo_revm demo_ext demo_call_view b' = Inr () \<and>
     validate_state_root demo_revm demo_ext demo_call_view (sealed 0 (arr_rep 1) b') \<noteq> Inr ()"
proof -
  obtain b' where b': "build_bounded_stateful_block demo_revm demo_ext demo_call_view demo_block [demo_call] = Inr b'"
    "b_transactions b' = [demo_call]" "same_env (b_header b') (b_header demo_block)"
    "b_receipts b' = [evm_receipt demo_ext demo_call (demo_call_output (h_mix_hash (b_header demo_block)))]"
    by (rule demo_call_build)
  have evm: "is_evm_transaction demo_call" by (simp add: is_evm_transaction_def demo_call_def)
  have env: "same_env (b_header (sealed 0 (arr_rep 1) b')) (b_header demo_block)"
    using b'(3) sealed_env [of 0 "arr_rep 1" b'] by (simp add: same_env_def)
  have "h_mix_hash (b_header demo_block) \<noteq> arr_rep 1"
    by (simp add: demo_block_def genesis_header_def ZERO_HASH_def arr_eq_iff)
  then have "\<nexists>sim. simulate_evm_state_transition demo_revm demo_ext demo_call_view (sealed 0 (arr_rep 1) b') = Inr sim \<and>
      es_receipts sim = b_receipts b'"
    using demo_call_simulation [OF env] b' by (auto simp: evm_receipt_def demo_call_output_def)
  then show ?thesis
    using template_sealing [OF b'(1), of 0 "arr_rep 1"] b' evm by auto
qed

end
