(* ===== verification/Full_Store.thy ===== *)
theory Full_Store
  imports Recovery Sled_Frames Evm_Transition Network
begin

text \<open>
  \<open>crates/blq-node/src/main.rs\<close>, the functions that run on the database of a full node: inserting a
  block with the state it leads to, keeping the manifest of the generation at the tip, the two
  backfills, and the validation of a stored generation.  An operation of the store inside a
  function that returns \<open>anyhow::Result\<close> has its error wrapped in \<open>OfStorage\<close>.  The text of an error
  (trait Display, derived by thiserror and anyhow) is the argument \<open>disp\<close>.
\<close>

type_synonym ('d, 'a) node_db = "('d sled_storage, node_error, 'a) sm"

definition stored :: "('d, 'a) db \<Rightarrow> ('d, 'a) node_db" where
  "stored m = sm_map_err OfStorage m"

text \<open>The range \<open>a..=b\<close>.\<close>

definition heights :: "u64 \<Rightarrow> u64 \<Rightarrow> u64 list" where
  "heights a b = map of_nat [unat a..<Suc (unat b)]"

text \<open>\<open>match storage.best_header()\<close> with an early return when there is no block.\<close>

definition with_best :: "'d backend \<Rightarrow> (block_header \<Rightarrow> ('d, unit) node_db) \<Rightarrow> ('d, unit) node_db" where
  "with_best k f s =
     (case sled_best_header k s of
        (Inr best, t) \<Rightarrow> f best t
      | (Inl NotFound, t) \<Rightarrow> (Inr (), t)
      | (Inl err, t) \<Rightarrow> (Inl (OfStorage err), t))"

section \<open>The configuration the storage code reads\<close>

datatype storage_mode = Archive | Pruned

record node_section =
  ns_mode :: node_mode
  ns_max_storage_bytes :: u64
  ns_filesystem_reserve_bytes :: u64
  ns_prune_trigger_percent :: u8
  ns_storage_mode :: storage_mode
  ns_prune_history :: bool
  ns_retain_snapshots :: bool
  ns_retain_finalized_checkpoints :: bool
  ns_expected_genesis_hash :: "string option"
  ns_require_signed_transactions :: bool
  ns_block_size_activation_height :: "u64 option"
  ns_block_time_v2_activation_height :: "u64 option"

definition pruning_enabled :: "node_section \<Rightarrow> bool" where
  "pruning_enabled c \<longleftrightarrow> ns_storage_mode c = Pruned \<or> ns_prune_history c"

definition FINALITY_CONFIRMATION_DEPTH :: u64 where [blq_consts]: "FINALITY_CONFIRMATION_DEPTH = 6"

definition finalized_height :: "u64 \<Rightarrow> u64" where
  "finalized_height best_number = saturating_sub best_number FINALITY_CONFIRMATION_DEPTH"

definition consensus_profile_for_genesis :: "ext \<Rightarrow> hash256 \<Rightarrow> string" where
  "consensus_profile_for_genesis e genesis_hash =
     ''blq-consensus-v2|chain='' @ dec_string (unat MAINNET_CHAIN_ID) @ ''|genesis='' @ hash_to_hex e genesis_hash @
     ''|pow='' @ h_pow_algorithm (genesis_header e) @ ''|target_time='' @ dec_string (unat TARGET_BLOCK_TIME_SECONDS) @
     ''|deadband=15..45|adjustment_cap=25|issuance=elapsed-time-0.1-blq-per-minute''"

section \<open>The interpreter state in the database\<close>

definition u256_of_hash :: "hash256 \<Rightarrow> u256" where
  "u256_of_hash h = from_be_bytes (arr_bytes h)"

definition loaded_slots :: "(hash256, hash256) fmap \<Rightarrow> (u256, u256) fmap" where
  "loaded_slots m = fold (\<lambda>(slot, v). fmupd (u256_of_hash slot) (u256_of_hash v)) (fm_entries m) fmempty"

definition loaded_account :: "evm_account_snapshot \<Rightarrow> revm_account" where
  "loaded_account = (\<lambda>(balance, nonce, code, slots).
     \<lparr>ra_nonce = nonce, ra_balance = ucast balance, ra_code = code, ra_storage = loaded_slots slots\<rparr>)"

definition revm_state_of_snapshot :: "evm_state_snapshot \<Rightarrow> revm_state" where
  "revm_state_of_snapshot m =
     fold (\<lambda>(a, acc) st. revm_put_account st a (loaded_account acc)) (fm_entries m) revm_state_default"

definition merge_native_accounts_into_revm_state :: "native_accounts \<Rightarrow> revm_state \<Rightarrow> revm_state" where
  "merge_native_accounts_into_revm_state accounts st =
     fold (\<lambda>(a, balance, nonce) st.
       revm_put_account st a ((revm_account_of st a)\<lparr>ra_balance := ucast balance, ra_nonce := nonce\<rparr>)) (fm_entries accounts) st"

definition revm_state_from_sled :: "'d backend \<Rightarrow> ext \<Rightarrow> ('d, revm_state) db" where
  "revm_state_from_sled k e =
     sm_bind (sled_evm_account_snapshot k e) (\<lambda>snapshot.
     sm_bind (account_snapshot k e) (\<lambda>accounts.
     sm_ok (merge_native_accounts_into_revm_state accounts (revm_state_of_snapshot snapshot))))"

definition persist_revm_state :: "'d backend \<Rightarrow> ext \<Rightarrow> revm_state \<Rightarrow> ('d, unit) db" where
  "persist_revm_state k e st =
     sm_for (\<lambda>(a, account).
       sm_bind (sm_lift (res_of_option (Serialization ''EVM balance exceeds BLQ account range'') (stored_balance (ra_balance account)))) (\<lambda>balance.
       put_evm_account k e a balance (ra_nonce account) (ra_code account) (stored_slots (ra_storage account))))
       (fm_entries (rs_accounts st))"

definition EVM_STATE_SNAPSHOT_INTERVAL :: u64 where [blq_consts]: "EVM_STATE_SNAPSHOT_INTERVAL = 256"

definition persist_historical_evm_snapshot :: "'d backend \<Rightarrow> ext \<Rightarrow> u64 \<Rightarrow> ('d, unit) db" where
  "persist_historical_evm_snapshot k e number =
     (if number mod EVM_STATE_SNAPSHOT_INTERVAL \<noteq> 0 then sm_ok ()
      else sm_bind (sled_evm_account_snapshot k e) (\<lambda>snapshot. put_evm_state_snapshot k number snapshot))"

section \<open>Inserting a block\<close>

definition refresh_generation_manifest :: "'d backend \<Rightarrow> ext \<Rightarrow> ('d, unit) db" where
  "refresh_generation_manifest k e =
     sm_bind (load_generation_manifest k) (\<lambda>loaded.
     case loaded of
       None \<Rightarrow> sm_ok ()
     | Some manifest \<Rightarrow>
         sm_bind (sled_best_header k) (\<lambda>best.
         let manifest = manifest\<lparr>gm_status := Active, gm_canonical_height := h_number best,
               gm_canonical_hash := header_hash e best, gm_state_root := h_state_root best,
               gm_finalized_height := finalized_height (h_number best)\<rparr>
         in sm_seq (write_generation_manifest k manifest) (write_generation_publication k e manifest)))"

definition full_parent_timestamp :: "'d backend \<Rightarrow> block \<Rightarrow> ('d, u64) db" where
  "full_parent_timestamp k b =
     (if h_number (b_header b) = 0 then sm_ok 0
      else sm_bind (sled_header_by_number k (h_number (b_header b) - 1)) (\<lambda>h. sm_ok (h_timestamp_seconds h)))"

definition put_accounts :: "'d backend \<Rightarrow> ext \<Rightarrow> native_accounts \<Rightarrow> ('d, unit) db" where
  "put_accounts k e accounts = sm_for (\<lambda>(a, balance, nonce). sled_put_account k e a balance nonce) (fm_entries accounts)"

definition full_insert_block ::
  "revm \<Rightarrow> (node_error \<Rightarrow> string) \<Rightarrow> 'd backend \<Rightarrow> ext \<Rightarrow> block \<Rightarrow> ('d, unit) db" where
  "full_insert_block v disp k e b =
     sm_seq
      (if list_ex is_evm_transaction (b_transactions b) then
         sm_bind (full_parent_timestamp k b) (\<lambda>parent_timestamp.
         sm_bind (revm_state_from_sled k e) (\<lambda>st.
         sm_bind (sm_lift (res_map_err (\<lambda>err. Serialization (disp err))
           (simulate_evm_state_transition_from_state v e st b parent_timestamp))) (\<lambda>simulation.
         sm_seq (sled_insert_block k e b)
        (sm_seq (persist_revm_state k e (es_state simulation))
         (set_reward_indexed_to k (h_number (b_header b)))))))
       else
         sm_bind (full_parent_timestamp k b) (\<lambda>parent_timestamp.
         sm_bind (account_snapshot k e) (\<lambda>snapshot.
         sm_bind (sm_lift (res_map_err (\<lambda>err. Serialization (disp err))
           (simulate_state_transition_from_accounts e snapshot b parent_timestamp))) (\<lambda>(accounts, _, _).
         sm_seq (sled_insert_block k e b)
        (sm_seq (put_accounts k e accounts)
         (set_reward_indexed_to k (h_number (b_header b))))))))
    (sm_seq (persist_historical_evm_snapshot k e (h_number (b_header b)))
     (refresh_generation_manifest k e))"

section \<open>Backfills\<close>

definition backfill_rewards :: "'d backend \<Rightarrow> ext \<Rightarrow> ('d, unit) node_db" where
  "backfill_rewards k e = with_best k (\<lambda>best.
     sm_bind (stored (reward_indexed_to k)) (\<lambda>indexed_to.
     if h_number best \<le> indexed_to then sm_ok ()
     else sm_bind (stored (has_persisted_native_accounts k)) (\<lambda>persisted.
     if persisted then stored (set_reward_indexed_to k (h_number best))
     else sm_for (\<lambda>number.
       sm_bind (stored (sled_block_by_number k number)) (\<lambda>b.
       if list_ex is_evm_transaction (b_transactions b) then stored (set_reward_indexed_to k number)
       else
         sm_bind (stored (account_snapshot k e)) (\<lambda>snapshot.
         sm_bind (stored (full_parent_timestamp k b)) (\<lambda>parent_timestamp.
         sm_bind (sm_lift (simulate_state_transition_from_accounts e snapshot b parent_timestamp)) (\<lambda>(accounts, _, _).
         sm_seq (stored (put_accounts k e accounts))
         (stored (set_reward_indexed_to k number)))))))
       (heights (saturating_add indexed_to 1) (h_number best)))))"

definition SUPPLY_BACKFILL_CHECKPOINT_INTERVAL :: u64 where [blq_consts]: "SUPPLY_BACKFILL_CHECKPOINT_INTERVAL = 256"

definition supply_step :: "'d backend \<Rightarrow> u64 \<Rightarrow> u64 \<Rightarrow> u128 \<times> u128 \<Rightarrow> ('d, u128 \<times> u128) node_db" where
  "supply_step k best number = (\<lambda>(total, burned).
     sm_bind (stored (sled_block_by_number k number)) (\<lambda>b.
     sm_bind (stored (full_parent_timestamp k b)) (\<lambda>parent_timestamp.
     case block_supply_delta b parent_timestamp of (subsidy, burned_fees) \<Rightarrow>
     let total = saturating_add total subsidy; burned = saturating_add burned burned_fees
     in sm_seq (if number mod SUPPLY_BACKFILL_CHECKPOINT_INTERVAL = 0 \<or> number = best
                then stored (set_supply_totals k number total burned) else sm_ok ())
        (sm_ok (total, burned)))))"

definition backfill_supply_storage :: "'d backend \<Rightarrow> ('d, unit) node_db" where
  "backfill_supply_storage k = with_best k (\<lambda>best.
     sm_bind (stored (supply_totals k)) (\<lambda>(indexed_to, total, burned).
     sm_bind (if h_number best < indexed_to
              then sm_seq (stored (set_supply_totals k 0 0 0)) (sm_ok (0, 0, 0))
              else sm_ok (indexed_to, total, burned)) (\<lambda>(indexed_to, total, burned).
     if h_number best \<le> indexed_to then sm_ok ()
     else sm_seq (sm_fold (supply_step k (h_number best))
            (heights (saturating_add indexed_to 1) (h_number best)) (total, burned)) (sm_ok ()))))"

section \<open>Validating a stored generation\<close>

definition generation_work :: "'d backend \<Rightarrow> ('d, u128 \<times> block_header) node_db" where
  "generation_work k =
     sm_bind (stored (sled_best_header k)) (\<lambda>best.
     sm_bind (sm_fold (\<lambda>height work.
         sm_bind (stored (sled_header_by_number k height)) (\<lambda>header.
         sm_ok (saturating_add work (work_for_target (h_difficulty_target header)))))
       (heights 0 (h_number best)) 0) (\<lambda>work.
     sm_ok (work, best)))"

definition validate_generation_step ::
  "'d backend \<Rightarrow> ext \<Rightarrow> bool \<Rightarrow> u64 \<Rightarrow> block_header \<Rightarrow> ('d, block_header) node_db" where
  "validate_generation_step k e pruned number previous =
     sm_bind (stored (sled_header_by_number k number)) (\<lambda>header.
     if h_number header \<noteq> saturating_add (h_number previous) 1
     then sm_err (Bail (''canonical generation has a height gap at height '' @ dec_string (unat number)))
     else if h_parent_hash header \<noteq> header_hash e previous
     then sm_err (Bail (''canonical generation has a broken parent link at height '' @ dec_string (unat number)))
     else if pruned then sm_ok header
     else sm_bind (stored (sled_block_by_number k number)) (\<lambda>b.
       if b_header b \<noteq> header
       then sm_err (Bail (''canonical generation block/header mismatch at height '' @ dec_string (unat number)))
       else sm_ok header))"

definition validate_generation_storage :: "'d backend \<Rightarrow> ext \<Rightarrow> bool \<Rightarrow> ('d, unit) node_db" where
  "validate_generation_storage k e pruned = with_best k (\<lambda>best.
     sm_bind (stored (sled_header_by_number k 0)) (\<lambda>first.
     sm_bind (sm_fold (validate_generation_step k e pruned) (heights 1 (h_number best)) first) (\<lambda>previous.
     if header_hash e previous \<noteq> header_hash e best
     then sm_err (Bail ''canonical generation best-header index is inconsistent'')
     else sm_bind (stored (load_generation_manifest k)) (\<lambda>manifest.
       if manifest \<noteq> None then sm_seq (stored (verify_generation_manifest k e)) (sm_ok ())
       else sm_ok ()))))"

definition validate_generation_storage_on_open :: "'d backend \<Rightarrow> ext \<Rightarrow> bool \<Rightarrow> ('d, unit) node_db" where
  "validate_generation_storage_on_open k e pruned =
     (if pruned then validate_generation_storage k e True
      else
        sm_bind (stored (sled_best_header k)) (\<lambda>best.
        sm_bind (stored (sled_header_by_number k (h_number best))) (\<lambda>tip.
        if header_hash e tip \<noteq> header_hash e best
        then sm_err (Bail ''archive generation best-header index is inconsistent'')
        else sm_seq (stored (verify_generation_manifest k e)) (sm_ok ()))))"

definition validate_generation_identity :: "node_section \<Rightarrow> 'd backend \<Rightarrow> ext \<Rightarrow> ('d, unit) node_db" where
  "validate_generation_identity config k e =
     (case ns_expected_genesis_hash config of
        None \<Rightarrow> sm_ok ()
      | Some text \<Rightarrow>
          sm_bind (sm_lift (res_map_err (\<lambda>err. Bail (''invalid expected_genesis_hash: '' @ hex_hash_error_debug err)) (hash_from_hex e text))) (\<lambda>expected.
          sm_bind (stored (sled_header_by_number k 0)) (\<lambda>first.
          if header_hash e first \<noteq> expected
          then sm_err (Bail (''generation genesis '' @ hash_to_hex e (header_hash e first) @
            '' does not match configured genesis '' @ hash_to_hex e expected))
          else sm_bind (stored (load_generation_manifest k)) (\<lambda>loaded.
            case loaded of
              Some manifest \<Rightarrow>
                if gm_profile_fingerprint manifest \<noteq> consensus_profile_for_genesis e expected
                then sm_err (Bail ''generation consensus profile does not match configured genesis'')
                else sm_ok ()
            | None \<Rightarrow> sm_ok ()))))"

definition validate_generation_storage_for_config :: "node_section \<Rightarrow> 'd backend \<Rightarrow> ext \<Rightarrow> ('d, unit) node_db" where
  "validate_generation_storage_for_config config k e =
     sm_seq (validate_generation_identity config k e)
       (validate_generation_storage_on_open k e (pruning_enabled config))"

definition stored_genesis_hash :: "'d backend \<Rightarrow> ext \<Rightarrow> ('d, hash256) node_db" where
  "stored_genesis_hash k e s =
     (case sled_header_by_number k 0 s of
        (Inr h, t) \<Rightarrow> (Inr (header_hash e h), t)
      | (Inl NotFound, t) \<Rightarrow> (Inr (header_hash e (genesis_header e)), t)
      | (Inl err, t) \<Rightarrow> (Inl (OfStorage err), t))"

definition ensure_generation_manifest :: "'d backend \<Rightarrow> ext \<Rightarrow> ('d, unit) node_db" where
  "ensure_generation_manifest k e s =
     (if sled_is_empty k s then (Inr (), s)
      else with_best k (\<lambda>best.
        sm_bind (stored (load_generation_manifest k)) (\<lambda>loaded.
        case loaded of
          Some manifest \<Rightarrow>
            if gm_status manifest = Active \<and> \<not> tip_matches e manifest best
            then sm_err (Bail (''active generation manifest does not match canonical tip: manifest '' @
              dec_string (unat (gm_canonical_height manifest)) @ '' '' @ hash_to_hex e (gm_canonical_hash manifest) @ '', storage '' @
              dec_string (unat (h_number best)) @ '' '' @ hash_to_hex e (header_hash e best)))
            else sm_seq (stored (verify_generation_manifest k e)) (sm_ok ())
        | None \<Rightarrow>
            sm_bind (stored_genesis_hash k e) (\<lambda>genesis_hash.
            stored (write_generation_manifest k
              \<lparr>gm_generation_id = 0, gm_status = Active, gm_canonical_height = h_number best,
               gm_canonical_hash = header_hash e best, gm_state_root = h_state_root best,
               gm_profile_fingerprint = consensus_profile_for_genesis e genesis_hash,
               gm_finalized_height = finalized_height (h_number best), gm_replay_checkpoint = None\<rparr>)))) s)"

text \<open>What validation of a block reads of a full store (\<open>header_by_number\<close>, \<open>account_snapshot\<close> and
  \<open>evm_state\<close> of \<open>NodeStorage\<close>).\<close>

definition full_view :: "'d backend \<Rightarrow> ext \<Rightarrow> 'd sled_storage \<Rightarrow> node_view" where
  "full_view k e s =
     \<lparr>nv_header_by_number = (\<lambda>n. fst (sled_header_by_number k n s)),
      nv_account_snapshot = res_map_err OfStorage (fst (account_snapshot k e s)),
      nv_evm_state = res_map_err OfStorage (fst (revm_state_from_sled k e s))\<rparr>"

section \<open>What the operations leave and write\<close>

lemma typed_put_accounts [typed]:
  assumes "sled_spec k c"
  shows "keeps c (disk_typed k e) (put_accounts k e accounts)"
  unfolding put_accounts_def by (intro keep typed assms)

lemma leaves_put_accounts:
  assumes "sled_spec k c" "hex_text_spec e" "\<And>dk. P dk \<Longrightarrow> \<not> account_key dk"
  shows "leaves e c P (put_accounts k e accounts)"
  unfolding put_accounts_def
  by (intro frame) (use leaves_put_account [OF assms] in \<open>auto split: prod.split\<close>)

lemma leaves_snapshot:
  assumes "sled_spec k c" "hex_text_spec e" "\<And>dk. P dk \<Longrightarrow> \<forall>n. dk \<noteq> EvmSnapshotAt n"
  shows "leaves e c P (persist_historical_evm_snapshot k e n)"
  unfolding persist_historical_evm_snapshot_def put_evm_state_snapshot_def key_folds [where e = e]
  by (intro frame leaves_insert leaves_keeps assms(1,2) keeps_reads) (use assms(3) in blast)

lemma leaves_refresh:
  assumes "sled_spec k c"
  shows "leaves e c P (refresh_generation_manifest k e)"
proof -
  have opt: "leaves e c P (case x of None \<Rightarrow> m | Some y \<Rightarrow> f y)" if "leaves e c P m" "\<And>y. leaves e c P (f y)"
    for x :: "'b option" and m f using that by (simp split: option.split)
  have rd: "leaves e c P (load_generation_manifest k)" "leaves e c P (sled_best_header k)"
    unfolding load_generation_manifest_def load_json_def sled_best_header_def get_best_number_def sled_header_by_number_def
    by (intro leaves_keeps keep)+
  show ?thesis
    unfolding refresh_generation_manifest_def write_generation_manifest_def write_generation_publication_def Let_def
    by (intro frame opt rd assms)
qed

lemma reward_index_now:
  assumes "sled_spec k c" "hex_text_spec e" "set_reward_indexed_to k n s = (Inr (), t)"
  shows "key_now e c t dk = (if dk = RewardsIndexedTo then Some (to_be_bytes n) else key_now e c s dk)"
proof -
  obtain s1 where s1: "db_insert k (key_bytes e RewardsIndexedTo) (to_be_bytes n) s = (Inr (), s1)" and "flush_db k s1 = (Inr (), t)"
    using assms(3) unfolding set_reward_indexed_to_def key_folds [where e = e] by (auto simp: sm_simps)
  then show ?thesis
    using insert_now [OF assms(1,2) s1] leavesD [OF leaves_flush(1) [OF assms(1), where P = "\<lambda>_. True"]] by metis
qed

lemma native_at_now:
  assumes "\<And>a. key_now e c t (BalanceOf a) = key_now e c s (BalanceOf a)" "\<And>a. key_now e c t (NonceOf a) = key_now e c s (NonceOf a)"
  shows "native_at e (dk_kv (c (sl_db t))) a = native_at e (dk_kv (c (sl_db s))) a"
  using assms by (simp add: native_at_def key_now_def)

text \<open>Writing the accounts of a map makes the database agree with the map on its domain.\<close>

lemma put_accounts_native:
  assumes k: "sled_spec k c" "hex_text_spec e" and run: "put_accounts k e accounts s = (Inr (), t)"
  shows "native_at e (dk_kv (c (sl_db t))) a =
    (case fmlookup accounts a of Some x \<Rightarrow> Some x | None \<Rightarrow> native_at e (dk_kv (c (sl_db s))) a)"
proof -
  have "native_at e (dk_kv (c (sl_db t))) a =
      fold (\<lambda>(b, x) old. if b = a then Some x else old) (fm_entries accounts) (native_at e (dk_kv (c (sl_db s))) a)"
    by (rule sm_for_fold [where obs = "\<lambda>s. native_at e (dk_kv (c (sl_db s))) a", OF _ run [unfolded put_accounts_def]])
      (auto simp: put_native_shows [OF k])
  also have "\<dots> = (case map_of (fm_entries accounts) a of Some x \<Rightarrow> Some x | None \<Rightarrow> native_at e (dk_kv (c (sl_db s))) a)"
  proof -
    have "fold (\<lambda>(b, x) old. if b = a then Some x else old) es old = (case map_of es a of Some x \<Rightarrow> Some x | None \<Rightarrow> old)"
      if "distinct (map fst es)" for es :: "(address \<times> bix \<times> u64) list" and old
      using that
    proof (induction es arbitrary: old)
      case (Cons x es)
      then have "fst x = a \<Longrightarrow> map_of es a = None" by (auto simp: map_of_eq_None_iff)
      then show ?case using Cons by (cases x) (auto split: option.splits)
    qed simp
    then show ?thesis by simp
  qed
  finally show ?thesis by simp
qed

lemma simulated_accounts_grow:
  assumes "simulate_state_transition_from_accounts e A b pts = Inr (accounts, rs, g)" "fmlookup A a \<noteq> None"
  shows "fmlookup accounts a \<noteq> None"
proof -
  obtain split acc fees rs' where fold: "res_fold (transfer_step e (b_header b) split) (b_transactions b) (A, 0, []) = Inr (acc, fees, rs')"
    and acc: "fmlookup acc a \<noteq> None \<Longrightarrow> fmlookup accounts a \<noteq> None"
    using assms(1) by (auto simp: simulate_state_transition_from_accounts_def res_simps Let_def split: prod.splits if_splits)
  have "fmlookup (fst (acc, fees, rs')) a \<noteq> None"
    by (rule res_fold_invariant [OF fold, where P = "\<lambda>x. fmlookup (fst x) a \<noteq> None"])
      (use assms(2) in \<open>auto simp: transfer_step_def res_simps Let_def split: prod.splits if_splits\<close>)
  then show ?thesis using acc by simp
qed

section \<open>Reads do not change the store\<close>

definition pure_read :: "('s, 'e, 'a) sm \<Rightarrow> bool" where
  "pure_read m \<longleftrightarrow> (\<forall>s. snd (m s) = s)"

named_theorems pure_reads

lemma pure_read_basic [pure_reads]:
  "pure_read (sm_ok x)" "pure_read (sm_err err)" "pure_read (sm_lift r)" "pure_read (sm_gets f)"
  by (simp_all add: pure_read_def sm_ok_def sm_err_def sm_lift_def sm_gets_def)

lemma pure_read_bind [pure_reads]: "pure_read m \<Longrightarrow> (\<And>x. pure_read (f x)) \<Longrightarrow> pure_read (sm_bind m f)"
  unfolding pure_read_def sm_bind_def by (metis (mono_tags, lifting) case_prod_beta old.sum.exhaust old.sum.simps(5,6) snd_conv)

lemma pure_read_fold [pure_reads]: "(\<And>x acc. pure_read (f x acc)) \<Longrightarrow> pure_read (sm_fold f xs acc)"
  by (induction xs arbitrary: acc) (simp_all add: pure_reads)

lemma pure_read_cases [pure_reads]:
  "pure_read m \<Longrightarrow> pure_read n \<Longrightarrow> pure_read (if b then m else n)"
  "pure_read m \<Longrightarrow> (\<And>y. pure_read (f y)) \<Longrightarrow> pure_read (case x of None \<Rightarrow> m | Some y \<Rightarrow> f y)"
  "(\<And>i j. pure_read (g i j)) \<Longrightarrow> pure_read (case p of (i, j) \<Rightarrow> g i j)"
  "(\<And>i j. pure_read (h i j acc)) \<Longrightarrow> pure_read ((case p of (i, j) \<Rightarrow> h i j) acc)"
  by (simp_all split: option.split prod.split)

lemma pure_read_db [pure_reads]:
  "pure_read (db_get k key)" "pure_read (db_scan k p)" "pure_read (json r)"
  "(\<And>kv acc. pure_read (f kv acc)) \<Longrightarrow> pure_read (scan_fold k p f acc)"
  unfolding db_get_def db_scan_def json_def scan_fold_def scan_item_def by (intro pure_reads; simp)+

lemma pure_read_store [pure_reads]:
  "pure_read (sled_header_by_number k n)" "pure_read (account_snapshot k e)" "pure_read (sled_evm_account_snapshot k e)"
  "pure_read (full_parent_timestamp k b)"
  unfolding sled_header_by_number_def account_snapshot_def sled_evm_account_snapshot_def full_parent_timestamp_def
  by (intro pure_reads)+

lemma pure_readD: "pure_read m \<Longrightarrow> m s = (r, t) \<Longrightarrow> t = s \<and> fst (m s) = r"
  by (auto simp: pure_read_def dest: spec [of _ s])

section \<open>The state after a block of transfers\<close>

lemma transfer_block_run:
  assumes "\<not> list_ex is_evm_transaction (b_transactions b)" "full_insert_block v disp k e b s = (Inr (), t)"
  obtains pts A accounts rs g s1 s2 s3 s4 where
    "full_parent_timestamp k b s = (Inr pts, s)" "account_snapshot k e s = (Inr A, s)"
    "simulate_state_transition_from_accounts e A b pts = Inr (accounts, rs, g)"
    "sled_insert_block k e b s = (Inr (), s1)" "put_accounts k e accounts s1 = (Inr (), s2)"
    "set_reward_indexed_to k (h_number (b_header b)) s2 = (Inr (), s3)"
    "persist_historical_evm_snapshot k e (h_number (b_header b)) s3 = (Inr (), s4)"
    "refresh_generation_manifest k e s4 = (Inr (), t)"
proof -
  obtain pts u1 A u2 where u1: "full_parent_timestamp k b s = (Inr pts, u1)" and u2: "account_snapshot k e u1 = (Inr A, u2)"
    and rest: "\<exists>accounts rs g s1 s2 s3 s4. simulate_state_transition_from_accounts e A b pts = Inr (accounts, rs, g) \<and>
      sled_insert_block k e b u2 = (Inr (), s1) \<and> put_accounts k e accounts s1 = (Inr (), s2) \<and>
      set_reward_indexed_to k (h_number (b_header b)) s2 = (Inr (), s3) \<and>
      persist_historical_evm_snapshot k e (h_number (b_header b)) s3 = (Inr (), s4) \<and>
      refresh_generation_manifest k e s4 = (Inr (), t)"
    using assms unfolding full_insert_block_def by (force simp: sm_simps res_simps split: prod.splits)
  have "u1 = s" using pure_readD [OF pure_read_store(4) u1] by simp
  moreover have "u2 = u1" using pure_readD [OF pure_read_store(2) u2] by simp
  ultimately show thesis using u1 u2 rest that by metis
qed

lemma reads_kv_fst: "reads_kv m \<Longrightarrow> fst (m s) = fst (m (bare (dk_kv (sl_db s))))"
  unfolding reads_kv_def by (metis fst_conv)

lemma typed_full_parts [typed]:
  assumes "sled_spec k c" "serde_spec k"
  shows "keeps c (disk_typed k e) (persist_historical_evm_snapshot k e n)"
    "keeps c (disk_typed k e) (refresh_generation_manifest k e)"
proof -
  show "keeps c (disk_typed k e) (persist_historical_evm_snapshot k e n)"
    unfolding persist_historical_evm_snapshot_def by (intro keep typed assms)
  have "keeps c (disk_typed k e) (file_replace k f j)" for f j
    by (rule keeps_file_replace [OF assms(1)]) (simp_all add: disk_typed_def)
  then show "keeps c (disk_typed k e) (refresh_generation_manifest k e)"
    unfolding refresh_generation_manifest_def write_generation_manifest_def write_generation_publication_def
      load_generation_manifest_def load_json_def sled_best_header_def get_best_number_def sled_header_by_number_def Let_def
    by (intro keep typed)
qed

lemma keepsD: "keeps c P m \<Longrightarrow> m s = (r, t) \<Longrightarrow> P (c (sl_db s)) \<Longrightarrow> P (c (sl_db t))"
  by (metis keeps_def snd_conv)

text \<open>What the reads of the tip return on a disk that does not fail.\<close>

lemma tip_reads:
  assumes "serde_spec k" "js_block k b = Inr w" "js_header k (b_header b) = Inr x"
    and "key_now e c t (BlockAt (h_number (b_header b))) = Some w" "key_now e c t (HeaderAt (h_number (b_header b))) = Some x"
    and "key_now e c t BestNumber = Some (to_be_bytes (h_number (b_header b)))"
  shows "fst (sled_best_header (ref_backend k) (view c t)) = Inr (b_header b)"
    "fst (sled_block_by_number (ref_backend k) (h_number (b_header b)) (view c t)) = Inr b"
proof -
  let ?m = "dk_kv (c (sl_db t))"
  note key = assms(4-6) [unfolded key_now_def key_val_def key_folds [where e = e, symmetric]]
  have "stored_best k ?m (b_header b)"
    using key serde_roundtrip(2) [OF assms(1,3)] by (simp add: stored_best_iff)
  then show "fst (sled_best_header (ref_backend k) (view c t)) = Inr (b_header b)"
    using reads_kv_fst [OF reads_kv_headers(3), of k "view c t"] by (simp add: stored_best_def)
  show "fst (sled_block_by_number (ref_backend k) (h_number (b_header b)) (view c t)) = Inr b"
    using key serde_roundtrip(1) [OF assms(1,2)]
    by (simp add: sled_block_by_number_def json_def sm_bind_def sm_gets_def sm_lift_def db_get_def res_simps)
qed

lemma block_of_transfers_state:
  assumes k: "sled_spec k c" "hex_text_spec e" "serde_spec k" "disk_typed k e (c (sl_db s))"
    and native: "\<not> list_ex is_evm_transaction (b_transactions b)"
    and run: "full_insert_block v disp k e b s = (Inr (), t)"
  obtains pts A accounts rs g where
    "fst (full_parent_timestamp k b s) = Inr pts" "fst (account_snapshot k e s) = Inr A"
    "simulate_state_transition_from_accounts e A b pts = Inr (accounts, rs, g)"
    "disk_typed k e (c (sl_db t))" "fst (account_snapshot (ref_backend k) e (view c t)) = Inr accounts"
    "fst (sled_best_header (ref_backend k) (view c t)) = Inr (b_header b)"
    "fst (sled_block_by_number (ref_backend k) (h_number (b_header b)) (view c t)) = Inr b"
proof -
  obtain pts A accounts rs g s1 s2 s3 s4 where
    r: "full_parent_timestamp k b s = (Inr pts, s)" "account_snapshot k e s = (Inr A, s)"
    "simulate_state_transition_from_accounts e A b pts = Inr (accounts, rs, g)"
    "sled_insert_block k e b s = (Inr (), s1)" "put_accounts k e accounts s1 = (Inr (), s2)"
    "set_reward_indexed_to k (h_number (b_header b)) s2 = (Inr (), s3)"
    "persist_historical_evm_snapshot k e (h_number (b_header b)) s3 = (Inr (), s4)"
    "refresh_generation_manifest k e s4 = (Inr (), t)"
    by (rule transfer_block_run [OF native run])
  obtain w x where wx: "js_block k b = Inr w" "js_header k (b_header b) = Inr x"
    "key_now e c s1 (BlockAt (h_number (b_header b))) = Some w"
    "key_now e c s1 (HeaderAt (h_number (b_header b))) = Some x"
    "key_now e c s1 BestNumber = Some (to_be_bytes (h_number (b_header b)))"
    "\<And>dk. account_key dk \<Longrightarrow> key_now e c s1 dk = key_now e c s dk"
  proof (rule insert_block_now [OF k(1,2) r(4)])
    fix w x
    assume a: "js_block k b = Inr w" "js_header k (b_header b) = Inr x"
      "key_now e c s1 (BlockAt (h_number (b_header b))) = Some w"
      "key_now e c s1 (HeaderAt (h_number (b_header b))) = Some x"
      "key_now e c s1 BestNumber = Some (to_be_bytes (h_number (b_header b)))"
      "\<And>dk. \<not> block_index_key dk \<Longrightarrow> dk \<notin> {BlockAt (h_number (b_header b)), HeaderAt (h_number (b_header b)), BestNumber} \<Longrightarrow>
        key_now e c s1 dk = key_now e c s dk"
    show thesis
      by (rule that [OF a(1-5)]) (rule a(6); case_tac dk; simp)
  qed
  let ?P = "\<lambda>dk. dk \<noteq> RewardsIndexedTo \<and> (\<forall>n. dk \<noteq> EvmSnapshotAt n)"
  have later: "key_now e c t dk = key_now e c s2 dk" if "?P dk" for dk
    using leavesD [OF leaves_refresh [OF k(1), where P = ?P] r(8)] leavesD [OF leaves_snapshot [OF k(1,2), where P = ?P] r(7)]
      reward_index_now [OF k(1,2) r(6)] that by auto
  have block: "key_now e c t dk = key_now e c s1 dk" if "?P dk" "\<not> account_key dk" for dk
    using leavesD [OF leaves_put_accounts [OF k(1,2), where P = "\<lambda>dk. \<not> account_key dk"] r(5)] later that by simp
  have typed1: "disk_typed k e (c (sl_db s1))" by (rule keepsD [OF typed_insert_block [OF k(1,3)] r(4) k(4)])
  have typed2: "disk_typed k e (c (sl_db s2))" by (rule keepsD [OF typed_put_accounts [OF k(1)] r(5) typed1])
  have typed3: "disk_typed k e (c (sl_db s3))" by (rule keepsD [OF typed_counters(1) [OF k(1)] r(6) typed2])
  have typed4: "disk_typed k e (c (sl_db s4))" by (rule keepsD [OF typed_full_parts(1) [OF k(1,3)] r(7) typed3])
  have typed: "disk_typed k e (c (sl_db t))" by (rule keepsD [OF typed_full_parts(2) [OF k(1,3)] r(8) typed4])
  have native_s1: "native_at e (dk_kv (c (sl_db s1))) a = fmlookup A a" for a
    using native_at_now [of e c s1 s a] wx(6) native_snapshot_shows [OF k(1,2,4) r(2), of a] by simp
  have native_t: "native_at e (dk_kv (c (sl_db t))) a = fmlookup accounts a" for a
    using native_at_now [of e c t s2 a] later put_accounts_native [OF k(1,2) r(5), of a] native_s1 [of a]
      simulated_accounts_grow [OF r(3), of a] by (cases "fmlookup A a") (auto split: option.splits)
  have "db_typed k e (kv (view c t))" using typed by (simp add: disk_typed_def kv_def)
  then obtain B where B: "account_snapshot (ref_backend k) e (view c t) = (Inr B, view c t)" "\<And>a. fmlookup B a = native_at e (kv (view c t)) a"
    using ref_account_snapshot [OF k(2)] by blast
  have "B = accounts" using B(2) native_t by (intro fmap_ext) (simp add: kv_def)
  then show thesis
    using that [of pts A accounts rs g] r(1-3) typed B(1) tip_reads [OF k(3) wx(1,2), of e c t] block wx(3-5) by simp
qed

section \<open>The interpreter state written and read back\<close>

lemma u256_hash [simp]: "u256_of_hash (hash_of_u256 x) = x"
  by (simp add: u256_of_hash_def hash_of_u256_def)

lemma hash_of_u256_inj: "inj hash_of_u256"
  by (rule inj_on_inverseI [where g = u256_of_hash]) simp

lemma to_be_from_be: "length bs * 8 = LENGTH('a) \<Longrightarrow> to_be_bytes (from_be_bytes bs :: 'a::len word) = bs"
  using be_val_lt [of bs] by (simp add: to_be_bytes_def from_be_bytes_def unat_of_nat byte_power mult.commute be_simps)

lemma hash_u256 [simp]: "hash_of_u256 (u256_of_hash h) = h"
  by (simp add: u256_of_hash_def hash_of_u256_def to_be_from_be)

lemma fold_fmupd_map:
  assumes "distinct (map fst es)" "inj F"
  shows "fmlookup (fold (\<lambda>(y, v). fmupd (F y) (G v)) es m) (F x) =
    (case map_of es x of None \<Rightarrow> fmlookup m (F x) | Some v \<Rightarrow> Some (G v))"
  using assms(1)
proof (induction es arbitrary: m)
  case (Cons y es)
  obtain z v where y: "y = (z, v)" by fastforce
  have "map_of es z = None" using Cons.prems y by (simp add: map_of_eq_None_iff)
  then show ?case using Cons y assms(2) by (auto simp: inj_eq split: option.splits)
qed simp

lemma fold_fmupd_inj:
  assumes "inj F"
  shows "fmlookup (fold (\<lambda>(y, v). fmupd (F y) (G v)) (fm_entries m) fmempty) (F x) = map_option G (fmlookup m x)"
  using assms by (subst fold_fmupd_map) (auto split: option.splits)

lemma stored_slots_lookup: "fmlookup (stored_slots m) h = map_option hash_of_u256 (fmlookup m (u256_of_hash h))"
  using fold_fmupd_inj [OF hash_of_u256_inj, of hash_of_u256 m "u256_of_hash h"] by (simp add: stored_slots_def)

lemma loaded_slots_lookup: "fmlookup (loaded_slots m) i = map_option u256_of_hash (fmlookup m (hash_of_u256 i))"
proof -
  have "inj u256_of_hash" by (rule inj_on_inverseI [where g = hash_of_u256]) simp
  from fold_fmupd_inj [OF this, of u256_of_hash m "hash_of_u256 i"] show ?thesis by (simp add: loaded_slots_def)
qed

definition drop_zeros :: "revm_account \<Rightarrow> revm_account" where
  "drop_zeros ac = ac\<lparr>ra_storage := fmfilter (\<lambda>i. fmlookup (ra_storage ac) i \<noteq> Some 0) (ra_storage ac)\<rparr>"

lemma zero_hash_u256: "hash_of_u256 x = ZERO_HASH \<longleftrightarrow> x = 0"
proof -
  have "be_val (replicate n 0) = 0" for n by (induction n) simp_all
  then have "u256_of_hash ZERO_HASH = 0" by (simp add: u256_of_hash_def ZERO_HASH_def from_be_bytes_def)
  then show ?thesis by (metis u256_hash hash_u256)
qed

lemma loaded_stored_account:
  assumes "stored_balance (ra_balance ac) = Some balance"
  shows "loaded_account (drop_zero_slots (balance, ra_nonce ac, ra_code ac, stored_slots (ra_storage ac))) = drop_zeros ac"
proof -
  have "ucast balance = ra_balance ac"
  proof -
    have "unat (ra_balance ac) < 2 ^ 128" "balance = ucast (ra_balance ac)"
      using assms by (simp_all add: stored_balance_def split: if_splits)
    then have "unat balance = unat (ra_balance ac)" by (simp add: unsigned_ucast_eq take_bit_nat_eq_self)
    then have "unat (ucast balance :: u256) = unat (ra_balance ac)" by (simp add: unat_widen)
    then show ?thesis by (simp add: word_unat_eq_iff)
  qed
  moreover have "loaded_slots (fmfilter (\<lambda>h. fmlookup (stored_slots (ra_storage ac)) h \<noteq> Some ZERO_HASH) (stored_slots (ra_storage ac))) =
      fmfilter (\<lambda>i. fmlookup (ra_storage ac) i \<noteq> Some 0) (ra_storage ac)"
    by (rule fmap_ext) (auto simp: loaded_slots_lookup stored_slots_lookup zero_hash_u256 option.map_comp comp_def option.map_ident)
  ultimately show ?thesis by (simp add: loaded_account_def drop_zeros_def)
qed

lemma revm_state_of_snapshot_lookup:
  "fmlookup (rs_accounts (revm_state_of_snapshot m)) a = map_option loaded_account (fmlookup m a)"
proof -
  have "rs_accounts (fold (\<lambda>(a, acc) st. revm_put_account st a (loaded_account acc)) es st) =
      fold (\<lambda>(a, acc). fmupd a (loaded_account acc)) es (rs_accounts st)" for es st
    by (induction es arbitrary: st) (auto simp: revm_put_account_def)
  then show ?thesis
    using fold_fmupd_inj [of "\<lambda>x. x" loaded_account m a] by (simp add: revm_state_of_snapshot_def revm_state_default_def)
qed

lemma merge_native_lookup:
  "fmlookup (rs_accounts (merge_native_accounts_into_revm_state accounts st)) a =
    (case fmlookup accounts a of None \<Rightarrow> fmlookup (rs_accounts st) a
     | Some (balance, nonce) \<Rightarrow> Some ((revm_account_of st a)\<lparr>ra_balance := ucast balance, ra_nonce := nonce\<rparr>))"
proof -
  define f :: "address \<times> bix \<times> u64 \<Rightarrow> revm_state \<Rightarrow> revm_state" where
    "f = (\<lambda>(a, balance, nonce) st. revm_put_account st a ((revm_account_of st a)\<lparr>ra_balance := ucast balance, ra_nonce := nonce\<rparr>))"
  have "fmlookup (rs_accounts (fold f es st)) a =
      (case map_of es a of None \<Rightarrow> fmlookup (rs_accounts st) a
       | Some (balance, nonce) \<Rightarrow> Some ((revm_account_of st a)\<lparr>ra_balance := ucast balance, ra_nonce := nonce\<rparr>))"
    if "distinct (map fst es)" for es
    using that
  proof (induction es arbitrary: st)
    case (Cons x es)
    obtain b balance nonce where x: "x = (b, balance, nonce)" by (metis prod.exhaust)
    have "map_of es b = None" using Cons.prems x by (simp add: map_of_eq_None_iff)
    moreover have "fmlookup (rs_accounts (f x st)) a = (if b = a
        then Some ((revm_account_of st a)\<lparr>ra_balance := ucast balance, ra_nonce := nonce\<rparr>) else fmlookup (rs_accounts st) a)"
      by (simp add: x f_def revm_put_account_def)
    moreover have "b \<noteq> a \<Longrightarrow> revm_account_of (f x st) a = revm_account_of st a"
      by (simp add: x f_def revm_put_account_def revm_account_of_def)
    ultimately show ?case using Cons x by (auto split: option.splits)
  qed simp
  then show ?thesis by (simp add: merge_native_accounts_into_revm_state_def f_def)
qed

text \<open>Reading the state: the accounts the database shows, since the native keys are among them.\<close>

lemma revm_state_from_sled_shows:
  assumes k: "sled_spec k c" "hex_text_spec e" "disk_typed k e (c (sl_db s))"
    and run: "revm_state_from_sled k e s = (Inr st, t)"
  obtains A where "shows_accounts e (dk_kv (c (sl_db s))) A"
    "\<And>a. fmlookup (rs_accounts st) a = map_option loaded_account (fmlookup A a)"
proof -
  obtain A u N where A: "sled_evm_account_snapshot k e s = (Inr A, u)" and N: "account_snapshot k e u = (Inr N, t)"
    and st: "st = merge_native_accounts_into_revm_state N (revm_state_of_snapshot A)"
    using run unfolding revm_state_from_sled_def by (auto simp: sm_simps)
  have "u = s" using pure_readD [OF pure_read_store(3) A] by simp
  note sh = evm_snapshot_shows [OF k A] and nat = native_snapshot_shows [OF k N [unfolded \<open>u = s\<close>]]
  have "fmlookup (rs_accounts st) a = map_option loaded_account (fmlookup A a)" for a
  proof (cases "fmlookup N a")
    case None
    then show ?thesis by (simp add: st merge_native_lookup revm_state_of_snapshot_lookup)
  next
    case (Some x)
    obtain balance nonce where x: "x = (balance, nonce)" by fastforce
    have at: "native_at e (dk_kv (c (sl_db s))) a = Some (balance, nonce)" using nat [of a] Some x by simp
    then have "account_present e (dk_kv (c (sl_db s))) a" by (simp add: account_present_def)
    then obtain acc where acc: "fmlookup A a = Some acc" "account_fields e (dk_kv (c (sl_db s))) a acc"
      using sh [unfolded shows_accounts_def, THEN spec, of a] by (cases "fmlookup A a") auto
    obtain code slots where "acc = (balance, nonce, code, slots)"
      using acc(2) at by (cases acc) (auto simp: native_at_def split: if_splits)
    then show ?thesis using Some x acc(1)
      by (simp add: st merge_native_lookup revm_state_of_snapshot_lookup revm_account_of_def loaded_account_def)
  qed
  then show thesis using that sh by blast
qed

lemma persist_shows:
  assumes k: "sled_spec k c" "hex_text_spec e"
    and "disk_typed k e (c (sl_db s))" "shows_accounts e (dk_kv (c (sl_db s))) A"
    and "sm_for (\<lambda>(a, account).
       sm_bind (sm_lift (res_of_option (Serialization ''EVM balance exceeds BLQ account range'') (stored_balance (ra_balance account)))) (\<lambda>balance.
       put_evm_account k e a balance (ra_nonce account) (ra_code account) (stored_slots (ra_storage account)))) xs s = (Inr (), t)"
    and "distinct (map fst xs)"
  obtains B where "disk_typed k e (c (sl_db t))" "shows_accounts e (dk_kv (c (sl_db t))) B"
    "\<And>a. map_option loaded_account (fmlookup B a) =
      (case map_of xs a of Some ac \<Rightarrow> Some (drop_zeros ac) | None \<Rightarrow> map_option loaded_account (fmlookup A a))"
  using assms(3-)
proof (induction xs arbitrary: s A thesis)
  case Nil
  then show ?case by (auto simp: sm_simps)
next
  case (Cons x xs)
  obtain a ac where x: "x = (a, ac)" by fastforce
  obtain balance u where b: "stored_balance (ra_balance ac) = Some balance"
    and u: "put_evm_account k e a balance (ra_nonce ac) (ra_code ac) (stored_slots (ra_storage ac)) s = (Inr (), u)"
    and rest: "sm_for (\<lambda>(a, account).
       sm_bind (sm_lift (res_of_option (Serialization ''EVM balance exceeds BLQ account range'') (stored_balance (ra_balance account)))) (\<lambda>balance.
       put_evm_account k e a balance (ra_nonce account) (ra_code account) (stored_slots (ra_storage account)))) xs u = (Inr (), t)"
    using Cons.prems(4) x by (auto simp: sm_simps res_simps split: option.splits)
  have typed: "disk_typed k e (c (sl_db u))" by (rule keepsD [OF typed_put_evm_account [OF k(1)] u Cons.prems(2)])
  have dist: "distinct (map fst xs)" "map_of xs a = None" using Cons.prems(5) x by (simp_all add: map_of_eq_None_iff)
  show ?case
  proof (rule Cons.IH [OF _ typed put_account_shows [OF k Cons.prems(2,3) u] rest dist(1)])
    fix B
    assume B: "disk_typed k e (c (sl_db t))" "shows_accounts e (dk_kv (c (sl_db t))) B"
      "\<And>b. map_option loaded_account (fmlookup B b) = (case map_of xs b of Some ac \<Rightarrow> Some (drop_zeros ac)
        | None \<Rightarrow> map_option loaded_account (fmlookup (fmupd a (drop_zero_slots (balance, ra_nonce ac, ra_code ac, stored_slots (ra_storage ac))) A) b))"
    show thesis
      by (rule Cons.prems(1) [OF B(1,2)])
        (use dist(2) loaded_stored_account [OF b] in \<open>simp add: B(3) x del: drop_zero_slots.simps split: option.split\<close>)
  qed
qed

section \<open>Properties\<close>

text \<open>
  C2. A block of transfers that validates and is inserted leaves the database at the state its
  header commits to: the accounts read back from the disk hash to the state root of the header, the
  best header is the header of the block, its body is stored at its height, and the database stays
  well typed.
\<close>

theorem inserted_block_matches_state_root:
  assumes "sled_spec k c" "serde_spec k" "hex_text_spec e" "disk_typed k e (c (sl_db s))"
    and "\<not> list_ex is_evm_transaction (b_transactions b)"
    and "validate_state_root v e (full_view k e s) b = Inr ()"
    and "full_insert_block v disp k e b s = (Inr (), t)"
  shows "fst (sled_state_root (ref_backend k) e (view c t)) = Inr (h_state_root (b_header b)) \<and>
    fst (sled_best_header (ref_backend k) (view c t)) = Inr (b_header b) \<and>
    fst (sled_block_by_number (ref_backend k) (h_number (b_header b)) (view c t)) = Inr b \<and>
    disk_typed k e (c (sl_db t))"
proof -
  obtain pts A accounts rs g where st:
    "fst (full_parent_timestamp k b s) = Inr pts" "fst (account_snapshot k e s) = Inr A"
    "simulate_state_transition_from_accounts e A b pts = Inr (accounts, rs, g)"
    "disk_typed k e (c (sl_db t))" "fst (account_snapshot (ref_backend k) e (view c t)) = Inr accounts"
    "fst (sled_best_header (ref_backend k) (view c t)) = Inr (b_header b)"
    "fst (sled_block_by_number (ref_backend k) (h_number (b_header b)) (view c t)) = Inr b"
    by (rule block_of_transfers_state [OF assms(1,3,2,4,5,7)])
  have "parent_timestamp_of (full_view k e s) b = Inr pts"
    using st(1) by (auto simp: parent_timestamp_of_def full_view_def full_parent_timestamp_def sm_bind_def sm_ok_def
        split: prod.splits sum.splits if_splits)
  then have "simulate_state_transition e (full_view k e s) b = Inr (accounts, rs, g)"
    using st(2,3) by (simp add: simulate_state_transition_def full_view_def)
  then have "state_root_from_accounts e accounts = Inr (h_state_root (b_header b))"
    using assms(5,6) by (auto simp: validate_state_root_def res_simps split: if_splits)
  moreover obtain u where "account_snapshot (ref_backend k) e (view c t) = (Inr accounts, u)"
    using st(5) by (metis prod.collapse)
  ultimately show ?thesis
    using st(4,6,7) by (simp add: sled_state_root_def sm_bind_def sm_lift_def)
qed

text \<open>
  C10. The state of the interpreter survives the database.  After a successful \<open>persist_revm_state\<close>
  the state read back has every account of the persisted state, with the same balance, nonce and
  code and with its non-zero slots, whatever slots the address had before.  An address outside the
  persisted state keeps the account it had: the database forgets no account, also not one that a
  contract destroyed.
\<close>

theorem persisted_state_reloads:
  assumes "sled_spec k c" "hex_text_spec e" "disk_typed k e (c (sl_db s))"
    and "revm_state_from_sled k e s = (Inr st0, s0)"
    and "persist_revm_state k e st s = (Inr (), t)"
    and "revm_state_from_sled k e t = (Inr st1, t1)"
  shows "fmlookup (rs_accounts st1) a =
    (case fmlookup (rs_accounts st) a of
       Some ac \<Rightarrow> Some (drop_zeros ac)
     | None \<Rightarrow> fmlookup (rs_accounts st0) a)"
proof -
  obtain A where A: "shows_accounts e (dk_kv (c (sl_db s))) A"
    "\<And>a. fmlookup (rs_accounts st0) a = map_option loaded_account (fmlookup A a)"
    using revm_state_from_sled_shows [OF assms(1-4)] by blast
  obtain B where B: "disk_typed k e (c (sl_db t))" "shows_accounts e (dk_kv (c (sl_db t))) B"
    "\<And>a. map_option loaded_account (fmlookup B a) =
      (case map_of (fm_entries (rs_accounts st)) a of Some ac \<Rightarrow> Some (drop_zeros ac)
       | None \<Rightarrow> map_option loaded_account (fmlookup A a))"
    using persist_shows [OF assms(1-3) A(1) assms(5) [unfolded persist_revm_state_def] distinct_fm_entries] by blast
  obtain B' where B': "shows_accounts e (dk_kv (c (sl_db t))) B'"
    "\<And>a. fmlookup (rs_accounts st1) a = map_option loaded_account (fmlookup B' a)"
    using revm_state_from_sled_shows [OF assms(1,2) B(1) assms(6)] by blast
  show ?thesis
    using B(3) [of a] B'(2) [of a] A(2) [of a] shows_accounts_unique [OF B(2) B'(1)] by (simp split: option.split)
qed

section \<open>Witnesses\<close>

definition demo_empty_block :: block where
  "demo_empty_block = \<lparr>b_header = (genesis_header demo_ext)\<lparr>h_timestamp_seconds := 0,
       h_transactions_root := transactions_root demo_ext [], h_receipts_root := receipts_root demo_ext [],
       h_state_root := hash_bytes demo_ext (state_root_preimage fmempty)\<rparr>,
     b_transactions = [], b_receipts = []\<rparr>"

definition demo_full_db :: "disk backend" where
  "demo_full_db = ref_backend (table_codec [demo_empty_block] [] [] [[]] [] [] [] [])"

lemma demo_full_spec: "sled_spec demo_full_db (\<lambda>d. d)" "serde_spec demo_full_db"
  unfolding demo_full_db_def by (simp_all add: ref_backend_spec table_codec_spec)

lemma ref_full: "ref_backend demo_full_db = demo_full_db"
  by (simp add: demo_full_db_def ref_backend_def)

lemma demo_empty_typed: "disk_typed k e (sl_db empty_store)"
  by (simp add: disk_typed_def typed_empty empty_store_def)

lemma demo_snapshots:
  "account_snapshot demo_full_db demo_ext empty_store = (Inr fmempty, empty_store)"
proof -
  have "db_typed demo_full_db demo_ext (kv empty_store)" by (simp add: kv_def empty_store_def typed_empty)
  then obtain m where "account_snapshot (ref_backend demo_full_db) demo_ext empty_store = (Inr m, empty_store)"
    "\<And>a. fmlookup m a = native_at demo_ext (kv empty_store) a"
    using ref_account_snapshot [OF demo_hex_text_spec] by blast
  moreover have "m = fmempty"
    using calculation(2) by (intro fmap_ext) (simp add: native_at_def key_val_def kv_def empty_store_def)
  ultimately show ?thesis by (simp add: ref_full)
qed

lemma demo_full_simulation:
  "simulate_state_transition_from_accounts demo_ext fmempty demo_empty_block 0 = Inr (fmempty, [], 0)"
  by (simp add: simulate_state_transition_from_accounts_def demo_empty_block_def genesis_header_def Let_def ensure_def
      block_reward_for_interval_bix_def saturating_sub_def saturating_mul_def saturating_add_def)

lemma demo_validates: "validate_state_root v demo_ext (full_view demo_full_db demo_ext empty_store) demo_empty_block = Inr ()"
proof -
  have "simulate_state_transition demo_ext (full_view demo_full_db demo_ext empty_store) demo_empty_block = Inr (fmempty, [], 0)"
    by (simp add: simulate_state_transition_def parent_timestamp_of_def full_view_def demo_snapshots demo_full_simulation)
      (simp add: demo_empty_block_def genesis_header_def)
  then show ?thesis
    by (simp add: validate_state_root_def demo_empty_block_def state_root_from_accounts_def genesis_header_def)
qed

lemma demo_codec:
  "js_block demo_full_db demo_empty_block = Inr [0]" "js_header demo_full_db (b_header demo_empty_block) = Inr [0]"
  "js_snapshot demo_full_db [] = Inr [0]"
  by (simp_all add: demo_full_db_def table_codec_def demo_table_def)

lemmas demo_run = ref_elementary(1-8) [where k = demo_full_db, unfolded ref_full] ref_elementary(9-)

definition demo_inserted :: "(bytes, bytes) fmap" where
  "demo_inserted = fmupd (as_bytes ''state:rewards:indexed_to'') (to_be_bytes (0 :: u64))
     (fmupd (as_bytes ''best:number'') (to_be_bytes (0 :: u64)) (fmupd (header_key 0) [0] (fmupd (block_key 0) [0] fmempty)))"

lemma demo_insert_run:
  "sm_seq (sled_insert_block demo_full_db demo_ext demo_empty_block) (sm_seq (put_accounts demo_full_db demo_ext fmempty)
     (set_reward_indexed_to demo_full_db 0)) empty_store = (Inr (), on_kv (\<lambda>_. demo_inserted) empty_store)"
proof -
  have "b_transactions demo_empty_block = []" "b_receipts demo_empty_block = []" "h_number (b_header demo_empty_block) = 0"
    by (simp_all add: demo_empty_block_def genesis_header_def)
  moreover have "fm_entries (fmempty :: native_accounts) = []" by (simp add: fm_entries_def)
  moreover have "kv empty_store = fmempty" by (simp add: kv_def empty_store_def)
  ultimately show ?thesis
    by (simp add: sled_insert_block_def put_accounts_def set_reward_indexed_to_def put_header_def index_block_logs_def
        sm_seq_def sm_bind_def demo_run demo_codec res_simps comp_def demo_inserted_def on_kv_def kv_def kv_upd_def)
qed

lemma demo_inserted_typed: "db_typed demo_full_db demo_ext demo_inserted"
  unfolding demo_inserted_def key_folds [where e = demo_ext]
  by (intro typed_upd typed_empty)
    (simp_all add: demo_full_db_def table_codec_def demo_untable_def demo_empty_block_def genesis_header_def)

lemma demo_inserted_snapshot:
  assumes "kv s = demo_inserted"
  shows "sled_evm_account_snapshot demo_full_db demo_ext s = (Inr fmempty, s)"
proof -
  have "db_typed demo_full_db demo_ext (kv s)" using assms demo_inserted_typed by simp
  then obtain A where A: "sled_evm_account_snapshot (ref_backend demo_full_db) demo_ext s = (Inr A, s)" "shows_accounts demo_ext (kv s) A"
    using ref_evm_account_snapshot [OF demo_hex_text_spec] by blast
  have "key_val demo_ext demo_inserted dk = None" if "account_key dk" for dk
    using that demo_hex_text_spec by (cases dk) (simp_all add: demo_inserted_def key_val_def key_folds [where e = demo_ext])
  then have "shows_accounts demo_ext demo_inserted fmempty"
    by (simp add: shows_accounts_def account_present_def native_at_def)
  then have "A = fmempty" using shows_accounts_unique A(2) assms by metis
  then show ?thesis using A(1) by (simp add: ref_full)
qed

lemma demo_full_run:
  "full_insert_block v disp demo_full_db demo_ext demo_empty_block empty_store =
    (Inr (), snd (full_insert_block v disp demo_full_db demo_ext demo_empty_block empty_store))"
proof -
  let ?s = "on_kv (\<lambda>_. demo_inserted) empty_store"
  have b: "\<not> list_ex is_evm_transaction (b_transactions demo_empty_block)" "h_number (b_header demo_empty_block) = 0"
    by (simp_all add: demo_empty_block_def genesis_header_def)
  have empty: "snapshot_entries fmempty = []" by (simp add: snapshot_entries_def fm_entries_def)
  have snap: "sled_evm_account_snapshot demo_full_db demo_ext ?s = (Inr fmempty, ?s)"
    by (rule demo_inserted_snapshot) simp
  define u where "u = on_kv (fmupd (evm_snapshot_key 0) [0]) ?s"
  have u: "persist_historical_evm_snapshot demo_full_db demo_ext 0 ?s = (Inr (), u)" "dk_files (sl_db u) = fmempty"
    by (simp_all add: persist_historical_evm_snapshot_def put_evm_state_snapshot_def sm_seq_def sm_bind_def snap empty
        demo_run demo_codec res_simps u_def del: on_kv_on_kv) (simp add: on_kv_def kv_upd_def empty_store_def)
  have "refresh_generation_manifest demo_full_db demo_ext u = (Inr (), u)"
    using u(2) by (simp add: refresh_generation_manifest_def load_generation_manifest_def load_json_def sm_bind_def
        file_exists_def sm_gets_def sm_ok_def demo_full_db_def)
  then have "full_insert_block v disp demo_full_db demo_ext demo_empty_block empty_store = (Inr (), u)"
    using demo_insert_run u(1)
    by (simp add: full_insert_block_def b full_parent_timestamp_def sm_seq_def sm_bind_def demo_run demo_snapshots demo_full_simulation)
  then show ?thesis by simp
qed

theorem inserted_block_matches_state_root_witness:
  "fst (sled_state_root demo_full_db demo_ext (snd (full_insert_block demo_revm (\<lambda>_. []) demo_full_db demo_ext demo_empty_block empty_store))) =
     Inr (h_state_root (b_header demo_empty_block)) \<and>
   fst (sled_best_header demo_full_db (snd (full_insert_block demo_revm (\<lambda>_. []) demo_full_db demo_ext demo_empty_block empty_store))) =
     Inr (b_header demo_empty_block)"
  using inserted_block_matches_state_root [OF demo_full_spec demo_hex_text_spec demo_empty_typed _ demo_validates demo_full_run]
  by (simp add: ref_full demo_empty_block_def)

definition demo_contract :: revm_account where
  "demo_contract = \<lparr>ra_nonce = 1, ra_balance = 5, ra_code = [1], ra_storage = fmupd 1 2 (fmupd 3 0 fmempty)\<rparr>"

definition demo_contract_state :: revm_state where
  "demo_contract_state = \<lparr>rs_accounts = fmupd (arr_rep 7) demo_contract fmempty\<rparr>"

lemma ref_revm_state:
  assumes "hex_text_spec e" "db_typed k e (kv s)"
  obtains st where "revm_state_from_sled (ref_backend k) e s = (Inr st, s)"
proof -
  obtain A where "sled_evm_account_snapshot (ref_backend k) e s = (Inr A, s)" using ref_evm_account_snapshot [OF assms] by blast
  moreover obtain N where "account_snapshot (ref_backend k) e s = (Inr N, s)" using ref_account_snapshot [OF assms] by blast
  ultimately show thesis using that by (simp add: revm_state_from_sled_def sm_bind_def sm_ok_def)
qed

theorem persisted_state_reloads_witness:
  "\<exists>t st1. persist_revm_state demo_full_db demo_ext demo_contract_state empty_store = (Inr (), t) \<and>
     revm_state_from_sled demo_full_db demo_ext t = (Inr st1, t) \<and>
     fmlookup (rs_accounts st1) (arr_rep 7) = Some (drop_zeros demo_contract) \<and>
     fmlookup (ra_storage (drop_zeros demo_contract)) 1 = Some 2 \<and> fmlookup (ra_storage (drop_zeros demo_contract)) 3 = None"
proof -
  have typed: "db_typed demo_full_db demo_ext (kv empty_store)" by (simp add: kv_def empty_store_def typed_empty)
  obtain st0 where st0: "revm_state_from_sled demo_full_db demo_ext empty_store = (Inr st0, empty_store)"
    using ref_revm_state [OF demo_hex_text_spec typed] by (auto simp: ref_full)
  have entries: "fm_entries (rs_accounts demo_contract_state) = [(arr_rep 7, demo_contract)]"
    by (simp add: demo_contract_state_def fm_entries_def)
  have balance: "stored_balance (ra_balance demo_contract) = Some 5"
    by (simp add: stored_balance_def demo_contract_def)
  obtain m where "put_evm_account demo_full_db demo_ext (arr_rep 7) 5 (ra_nonce demo_contract) (ra_code demo_contract)
      (stored_slots (ra_storage demo_contract)) empty_store = (Inr (), on_kv (\<lambda>_. m) empty_store)"
    using ref_put_evm_account [OF demo_hex_text_spec typed, unfolded ref_full] by blast
  then obtain t where t: "persist_revm_state demo_full_db demo_ext demo_contract_state empty_store = (Inr (), t)"
    by (simp add: persist_revm_state_def entries balance sm_seq_def sm_bind_def sm_lift_def sm_ok_def)
  have "keeps (\<lambda>d. d) (disk_typed demo_full_db demo_ext) (persist_revm_state demo_full_db demo_ext demo_contract_state)"
    unfolding persist_revm_state_def by (intro keep typed_put_evm_account [OF demo_full_spec(1)])
  from keepsD [OF this t] have "db_typed demo_full_db demo_ext (kv t)"
    using demo_empty_typed [of demo_full_db demo_ext] by (simp add: disk_typed_def kv_def)
  then obtain st1 where st1: "revm_state_from_sled demo_full_db demo_ext t = (Inr st1, t)"
    using ref_revm_state [OF demo_hex_text_spec, where k = demo_full_db and s = t, unfolded ref_full] by blast
  have "fmlookup (rs_accounts st1) (arr_rep 7) = Some (drop_zeros demo_contract)"
    using persisted_state_reloads [OF demo_full_spec(1) demo_hex_text_spec demo_empty_typed st0 t st1, of "arr_rep 7"]
    by (simp add: demo_contract_state_def)
  then show ?thesis using t st1 by (auto simp: drop_zeros_def demo_contract_def)
qed

end
