(* ===== verification/Node_Storage.thy ===== *)
theory Node_Storage
  imports Full_Store
begin

text \<open>
  \<open>crates/blq-node/src/main.rs\<close>, the storage of a node: the database of a full node or the two files
  of a partial node behind one set of operations.  An operation that needs the database is refused
  on a partial node, with the message of the source, or returns the empty answer of the source.
  The outcome of appending to a file of a partial node is the argument \<open>io\<close>.
\<close>

datatype 'd node_storage = Full "'d sled_storage" | Partial file_storage

type_synonym ('d, 'a) node_st = "('d node_storage, storage_error, 'a) sm"
type_synonym ('d, 'a) node = "('d node_storage, node_error, 'a) sm"

definition on_storage :: "('d sled_storage, 'e, 'a) sm \<Rightarrow> (file_storage, 'e, 'a) sm \<Rightarrow> ('d node_storage, 'e, 'a) sm" where
  "on_storage m p s =
     (case s of
        Full f \<Rightarrow> (case m f of (r, f') \<Rightarrow> (r, Full f'))
      | Partial q \<Rightarrow> (case p q of (r, q') \<Rightarrow> (r, Partial q')))"

definition full_only :: "string \<Rightarrow> ('d, 'a) db \<Rightarrow> ('d, 'a) node" where
  "full_only msg m = on_storage (stored m) (sm_err (Bail msg))"

definition full_or :: "'a \<Rightarrow> ('d, 'a) db \<Rightarrow> ('d, 'a) node" where
  "full_or x m = on_storage (stored m) (sm_ok x)"

definition of_storage :: "('d, 'a) node_st \<Rightarrow> ('d, 'a) node" where
  "of_storage m = sm_map_err OfStorage m"

section \<open>The interface all storages share\<close>

definition node_best_header :: "'d backend \<Rightarrow> ('d, block_header) node_st" where
  "node_best_header k = on_storage (sled_best_header k) (sm_gets file_best_header)"

definition node_header_by_hash :: "'d backend \<Rightarrow> ext \<Rightarrow> hash256 \<Rightarrow> ('d, block_header) node_st" where
  "node_header_by_hash k e h = on_storage (sled_header_by_hash k e h) (sm_gets (\<lambda>q. file_header_by_hash e q h))"

definition node_header_by_number :: "'d backend \<Rightarrow> u64 \<Rightarrow> ('d, block_header) node_st" where
  "node_header_by_number k n = on_storage (sled_header_by_number k n) (sm_gets (\<lambda>q. file_header_by_number q n))"

definition node_block_by_number :: "'d backend \<Rightarrow> u64 \<Rightarrow> ('d, block) node_st" where
  "node_block_by_number k n = on_storage (sled_block_by_number k n) (sm_gets (\<lambda>q. file_block_by_number q n))"

definition node_insert_header :: "storage_error + unit \<Rightarrow> 'd backend \<Rightarrow> block_header \<Rightarrow> ('d, unit) node_st" where
  "node_insert_header io k h = on_storage (sled_insert_header k h) (file_insert_header io h)"

definition node_insert_block ::
  "storage_error + unit \<Rightarrow> revm \<Rightarrow> (node_error \<Rightarrow> string) \<Rightarrow> 'd backend \<Rightarrow> ext \<Rightarrow> block \<Rightarrow> ('d, unit) node_st" where
  "node_insert_block io v disp k e b = on_storage (full_insert_block v disp k e b) (file_insert_block io b)"

section \<open>Batches\<close>

definition begin_sync_batch :: "('d, unit) node" where
  "begin_sync_batch = full_or () begin_batch"

definition flush_sync_batch :: "'d backend \<Rightarrow> ('d, unit) node" where
  "flush_sync_batch k = full_or () (flush_batch k)"

definition end_sync_batch :: "'d backend \<Rightarrow> ('d, unit) node" where
  "end_sync_batch k = full_or () (end_batch k)"

section \<open>Reads\<close>

definition node_is_empty :: "'d backend \<Rightarrow> 'd node_storage \<Rightarrow> bool" where
  "node_is_empty k s = (case s of Full f \<Rightarrow> sled_is_empty k f | Partial q \<Rightarrow> file_is_empty q)"

definition node_headers_after :: "'d backend \<Rightarrow> u64 \<Rightarrow> nat \<Rightarrow> ('d, block_header list) node" where
  "node_headers_after k n limit =
     on_storage (stored (sled_headers_after k n limit)) (sm_gets (\<lambda>q. Inr (file_headers_after q n limit)))"

definition node_balance :: "'d backend \<Rightarrow> ext \<Rightarrow> address \<Rightarrow> ('d, bix) node" where
  "node_balance k e a = full_or 0 (sled_balance k e a)"

definition node_nonce :: "'d backend \<Rightarrow> ext \<Rightarrow> address \<Rightarrow> ('d, u64) node" where
  "node_nonce k e a = full_or 0 (sled_nonce k e a)"

definition node_transaction_by_hash :: "'d backend \<Rightarrow> ext \<Rightarrow> hash256 \<Rightarrow> ('d, transaction) node_st" where
  "node_transaction_by_hash k e h = on_storage (transaction_by_hash k e h) (sm_err NotFound)"

definition node_transaction_receipt_by_hash :: "'d backend \<Rightarrow> ext \<Rightarrow> hash256 \<Rightarrow> ('d, receipt \<times> block_header \<times> nat \<times> transaction) node_st" where
  "node_transaction_receipt_by_hash k e h = on_storage (transaction_receipt_by_hash k e h) (sm_err NotFound)"

definition node_indexed_transaction_receipt_by_hash :: "'d backend \<Rightarrow> ext \<Rightarrow> hash256 \<Rightarrow> ('d, receipt \<times> block_header \<times> nat \<times> transaction) node_st" where
  "node_indexed_transaction_receipt_by_hash k e h = on_storage (indexed_transaction_receipt_by_hash k e h) (sm_err NotFound)"

definition node_account_snapshot :: "'d backend \<Rightarrow> ext \<Rightarrow> ('d, native_accounts) node" where
  "node_account_snapshot k e = full_or fmempty (account_snapshot k e)"

definition node_evm_state :: "'d backend \<Rightarrow> ext \<Rightarrow> ('d, revm_state) node" where
  "node_evm_state k e = full_only ''EVM state is unavailable on partial storage''
     (sm_bind (sled_evm_account_snapshot k e) (\<lambda>snapshot.
      sm_bind (account_snapshot k e) (\<lambda>accounts.
      sm_ok (merge_native_accounts_into_revm_state accounts (revm_state_of_snapshot snapshot)))))"

definition node_evm_code :: "'d backend \<Rightarrow> ext \<Rightarrow> address \<Rightarrow> ('d, bytes) node" where
  "node_evm_code k e a = full_only ''EVM code is unavailable on partial storage'' (evm_code k e a)"

definition node_evm_storage_at :: "'d backend \<Rightarrow> ext \<Rightarrow> address \<Rightarrow> hash256 \<Rightarrow> ('d, hash256) node" where
  "node_evm_storage_at k e a slot = full_only ''EVM storage is unavailable on partial storage'' (evm_storage_at k e a slot)"

definition node_oldest_body_height :: "'d backend \<Rightarrow> ('d, u64 option) node" where
  "node_oldest_body_height k = on_storage (stored (oldest_body_height k))
     (sm_gets (\<lambda>q. Inr (case file_headers_after q 0 (2 ^ 64 - 1) of [] \<Rightarrow> None | h # _ \<Rightarrow> Some (h_number h))))"

definition node_canonical_blocks :: "'d backend \<Rightarrow> ('d, block list) node" where
  "node_canonical_blocks k = full_only ''canonical block bodies require full storage'' (canonical_blocks k)"

definition node_block_by_hash :: "'d backend \<Rightarrow> ext \<Rightarrow> hash256 \<Rightarrow> ('d, block) node" where
  "node_block_by_hash k e h = full_only ''block bodies require full storage'' (block_by_hash k e h)"

text \<open>\<open>if let Ok(x) = m { return Ok(x) }\<close> followed by another attempt.\<close>

definition or_try :: "('s, 'e, 'a) sm \<Rightarrow> ('s, 'f, 'a) sm \<Rightarrow> ('s, 'f, 'a) sm" where
  "or_try m n s = (case m s of (Inr x, t) \<Rightarrow> (Inr x, t) | (Inl _, t) \<Rightarrow> n t)"

definition sync_block_by_hash :: "'d backend \<Rightarrow> ext \<Rightarrow> hash256 \<Rightarrow> ('d, block) node" where
  "sync_block_by_hash k e h = on_storage
     (or_try (block_by_hash k e h)
     (or_try (candidate_block_by_hash k e h)
       (sm_bind (stored (orphan_blocks k)) (\<lambda>bs.
        sm_lift (res_of_option (Bail (''block '' @ hash_to_hex e h @ '' was not found''))
          (List.find (\<lambda>b. header_hash e (b_header b) = h) bs))))))
     (sm_err (Bail ''block bodies require full storage''))"

definition node_latest_candidate_tip :: "'d backend \<Rightarrow> ext \<Rightarrow> ('d, (block_header \<times> u128) option) node" where
  "node_latest_candidate_tip k e = full_or None (latest_candidate_tip k e)"

definition node_indexed_log_block_numbers ::
  "'d backend \<Rightarrow> ext \<Rightarrow> u64 \<Rightarrow> u64 \<Rightarrow> address list option \<Rightarrow> hash256 list option \<Rightarrow> ('d, u64 fset) node" where
  "node_indexed_log_block_numbers k e a b addresses topics =
     full_only ''log indexes require full storage'' (indexed_log_block_numbers k e a b addresses topics)"

section \<open>Candidates, orphans and the recovery spool\<close>

definition node_prune_old_blocks :: "'d backend \<Rightarrow> ext \<Rightarrow> u64 \<Rightarrow> u64 \<Rightarrow> ('d, unit) node" where
  "node_prune_old_blocks k e max_bytes floor_height = full_or () (prune_old_blocks k e max_bytes floor_height)"

definition node_store_orphan_block :: "'d backend \<Rightarrow> ext \<Rightarrow> block \<Rightarrow> ('d, unit) node" where
  "node_store_orphan_block k e b = full_only ''orphan blocks require full storage'' (store_orphan_block k e b)"

definition node_orphan_blocks :: "'d backend \<Rightarrow> ('d, block list) node" where
  "node_orphan_blocks k = full_or [] (orphan_blocks k)"

definition node_remove_orphan_block :: "'d backend \<Rightarrow> ext \<Rightarrow> hash256 \<Rightarrow> ('d, unit) node" where
  "node_remove_orphan_block k e h = full_or () (remove_orphan_block k e h)"

definition node_store_candidate_block :: "'d backend \<Rightarrow> ext \<Rightarrow> block \<Rightarrow> u128 \<Rightarrow> ('d, unit) node" where
  "node_store_candidate_block k e b work =
     full_only ''candidate block bodies require full storage'' (store_candidate_block k e b work)"

definition node_remove_candidate_blocks :: "'d backend \<Rightarrow> ext \<Rightarrow> hash256 list \<Rightarrow> ('d, unit) node" where
  "node_remove_candidate_blocks k e hs = full_or () (remove_candidate_blocks k e hs)"

definition node_candidate_work :: "'d backend \<Rightarrow> ext \<Rightarrow> hash256 \<Rightarrow> ('d, u128) node" where
  "node_candidate_work k e h = full_only ''candidate block bodies require full storage'' (candidate_work k e h)"

definition node_quarantine_candidate_tip :: "'d backend \<Rightarrow> ext \<Rightarrow> hash256 \<Rightarrow> string \<Rightarrow> ('d, unit) node" where
  "node_quarantine_candidate_tip k e h reason = full_or () (quarantine_candidate_tip k e h reason)"

definition node_clear_canonical_state :: "'d backend \<Rightarrow> ('d, unit) node" where
  "node_clear_canonical_state k = full_only ''canonical state requires full storage'' (clear_canonical_state k)"

definition store_recovery_spool_block :: "'d backend \<Rightarrow> ext \<Rightarrow> hash256 \<Rightarrow> block \<Rightarrow> u128 \<Rightarrow> ('d, unit) node" where
  "store_recovery_spool_block k e tip b work =
     full_only ''recovery spool requires full storage'' (store_recovery_block_unflushed k e tip b work)"

definition recovery_spool_block_by_hash :: "'d backend \<Rightarrow> ext \<Rightarrow> hash256 \<Rightarrow> ('d, block \<times> u128) node" where
  "recovery_spool_block_by_hash k e h = full_only ''recovery spool requires full storage'' (recovery_block_by_hash k e h)"

definition recovery_spool_blocks_for_tip :: "'d backend \<Rightarrow> ext \<Rightarrow> hash256 \<Rightarrow> ('d, (block \<times> u128) list) node" where
  "recovery_spool_blocks_for_tip k e tip =
     full_only ''recovery spool requires full storage'' (recovery_blocks_for_tip k e tip)"

definition node_recovery_spool_tips :: "'d backend \<Rightarrow> ext \<Rightarrow> ('d, hash256 list) node" where
  "node_recovery_spool_tips k e = full_or [] (recovery_spool_tips k e)"

definition clear_recovery_spool_for_tip :: "'d backend \<Rightarrow> ext \<Rightarrow> hash256 \<Rightarrow> ('d, unit) node" where
  "clear_recovery_spool_for_tip k e tip = full_or () (clear_recovery_blocks_for_tip k e tip)"

definition difficulty_header_by_hash :: "'d backend \<Rightarrow> ext \<Rightarrow> hash256 \<Rightarrow> ('d, block_header) node" where
  "difficulty_header_by_hash k e h =
     or_try (node_header_by_hash k e h)
       (sm_bind (recovery_spool_block_by_hash k e h) (\<lambda>(b, _). sm_ok (b_header b)))"

definition node_backfill_rewards :: "'d backend \<Rightarrow> ext \<Rightarrow> ('d, unit) node" where
  "node_backfill_rewards k e = on_storage (backfill_rewards k e) (sm_ok ())"

section \<open>Validation against the storage\<close>

definition configured_genesis_hash :: "'d backend \<Rightarrow> ext \<Rightarrow> ('d, hash256) node" where
  "configured_genesis_hash k e =
     or_try (sm_bind (node_header_by_number k 0) (\<lambda>h. sm_ok (header_hash e h)))
       (sm_ok (header_hash e (genesis_header e)))"

definition validate_block_for_storage :: "node_section \<Rightarrow> 'd backend \<Rightarrow> ext \<Rightarrow> block_header \<Rightarrow> block \<Rightarrow> ('d, unit) node" where
  "validate_block_for_storage config k e parent b =
     sm_bind (configured_genesis_hash k e) (\<lambda>genesis_hash.
     sm_lift (res_map_err OfConsensus
       (validate_block_with_genesis_and_activation e parent b genesis_hash (ns_block_size_activation_height config))))"

definition validate_header_for_storage :: "'d backend \<Rightarrow> ext \<Rightarrow> block_header \<Rightarrow> block_header \<Rightarrow> ('d, unit) node" where
  "validate_header_for_storage k e parent h =
     sm_bind (configured_genesis_hash k e) (\<lambda>genesis_hash.
     sm_lift (res_map_err OfConsensus (validate_header_with_genesis e parent h genesis_hash)))"

text \<open>The reads of \<open>validate_state_root\<close> are the fields of \<open>node_view\<close>.\<close>

definition view_of :: "'d backend \<Rightarrow> ext \<Rightarrow> 'd node_storage \<Rightarrow> node_view" where
  "view_of k e s =
     \<lparr>nv_header_by_number = (\<lambda>n. fst (node_header_by_number k n s)),
      nv_account_snapshot = fst (node_account_snapshot k e s),
      nv_evm_state = fst (node_evm_state k e s)\<rparr>"

definition node_validate_state_root :: "revm \<Rightarrow> 'd backend \<Rightarrow> ext \<Rightarrow> block \<Rightarrow> ('d, unit) node" where
  "node_validate_state_root v k e b = sm_gets (\<lambda>s. validate_state_root v e (view_of k e s) b)"

end
