(* ===== verification/Replay.thy ===== *)
theory Replay
  imports Node_Storage Difficulty
begin

text \<open>
  \<open>crates/blq-node/src/main.rs\<close>, replaying blocks: the difficulty a block must have, given a lookup of
  earlier headers, the validation of a block against a state kept in memory, and the overlay that a
  candidate suffix is replayed in.  The lookup is a program over the store or over the overlay's own
  history.
\<close>

section \<open>The expected difficulty\<close>

fun history_loop ::
  "(hash256 \<Rightarrow> ('s, node_error, block_header) sm) \<Rightarrow> nat \<Rightarrow> block_header \<Rightarrow> block_header list \<Rightarrow> ('s, node_error, block_header list) sm" where
  "history_loop lookup 0 cursor newest_to_oldest = sm_ok newest_to_oldest"
| "history_loop lookup (Suc n) cursor newest_to_oldest =
     (if h_number cursor = 0 then sm_ok newest_to_oldest
      else sm_bind (lookup (h_parent_hash cursor)) (\<lambda>cursor. history_loop lookup n cursor (newest_to_oldest @ [cursor])))"

definition difficulty_history_headers_with_lookup ::
  "block_header \<Rightarrow> (hash256 \<Rightarrow> ('s, node_error, block_header) sm) \<Rightarrow> ('s, node_error, block_header list) sm" where
  "difficulty_history_headers_with_lookup parent lookup =
     sm_bind (history_loop lookup BLOCK_TIME_V2_MEDIAN_WINDOW parent [parent]) (\<lambda>hs. sm_ok (rev hs))"

fun header_intervals :: "block_header list \<Rightarrow> u64 list" where
  "header_intervals (a # b # hs) =
     max (saturating_sub (h_timestamp_seconds b) (h_timestamp_seconds a)) 1 # header_intervals (b # hs)"
| "header_intervals _ = []"

text \<open>With no interval the index is out of range and the call panics.\<close>

definition difficulty_history_intervals_with_lookup ::
  "block_header \<Rightarrow> (hash256 \<Rightarrow> ('s, node_error, block_header) sm) \<Rightarrow> ('s, node_error, u64 \<times> u64) sm" where
  "difficulty_history_intervals_with_lookup parent lookup =
     sm_bind (difficulty_history_headers_with_lookup parent lookup) (\<lambda>hs.
     let intervals = header_intervals hs;
         latest = (if intervals = [] then 1 else last intervals);
         sorted = sort intervals
     in if sorted = [] then sm_err (OfStorage Panic)
        else sm_ok (sorted ! (length sorted div 2), latest))"

definition expected_difficulty_target_with_lookup ::
  "block_header \<Rightarrow> block_header \<Rightarrow> u64 option \<Rightarrow> (hash256 \<Rightarrow> ('s, node_error, block_header) sm) \<Rightarrow> ('s, node_error, hash256) sm" where
  "expected_difficulty_target_with_lookup parent child activation lookup =
     (if h_number child = 0 then sm_ok (h_difficulty_target parent)
      else
        let actual_seconds = max (saturating_sub (h_timestamp_seconds child) (h_timestamp_seconds parent)) 1 in
        if (case activation of None \<Rightarrow> False | Some a \<Rightarrow> a \<le> h_number child) then
          sm_bind (difficulty_history_intervals_with_lookup parent lookup) (\<lambda>(median_interval, latest_interval).
          sm_ok (next_block_difficulty_target_v2 (h_difficulty_target parent) median_interval latest_interval))
        else sm_ok (next_block_difficulty_target (h_difficulty_target parent) actual_seconds))"

definition expected_difficulty_target ::
  "'d backend \<Rightarrow> ext \<Rightarrow> block_header \<Rightarrow> block_header \<Rightarrow> u64 option \<Rightarrow> ('d, hash256) node" where
  "expected_difficulty_target k e parent child activation =
     expected_difficulty_target_with_lookup parent child activation (difficulty_header_by_hash k e)"

definition validate_difficulty_target ::
  "'d backend \<Rightarrow> ext \<Rightarrow> block_header \<Rightarrow> block_header \<Rightarrow> u64 option \<Rightarrow> ('d, unit) node" where
  "validate_difficulty_target k e parent child activation =
     sm_bind (expected_difficulty_target k e parent child activation) (\<lambda>expected.
     if h_difficulty_target child \<noteq> expected
     then sm_err (Bail (''block difficulty target does not match retarget rule: expected '' @ hash_to_hex e expected @
       '', got '' @ hash_to_hex e (h_difficulty_target child)))
     else sm_ok ())"

definition MAX_LIVE_TIMESTAMP_FUTURE_DRIFT_SECONDS :: u64 where
  [blq_consts]: "MAX_LIVE_TIMESTAMP_FUTURE_DRIFT_SECONDS = 30"

text \<open>\<open>now\<close> is the wall clock, None when it is before the epoch.\<close>

definition validate_live_timestamp_admission :: "u64 option \<Rightarrow> block_header \<Rightarrow> node_error + unit" where
  "validate_live_timestamp_admission clock h =
     (let now = (case clock of Some t \<Rightarrow> t | None \<Rightarrow> h_timestamp_seconds h)
      in if saturating_add now MAX_LIVE_TIMESTAMP_FUTURE_DRIFT_SECONDS < h_timestamp_seconds h
         then Inl (Bail ''block timestamp exceeds the live admission future-drift limit'') else Inr ())"

section \<open>Validation against a state in memory\<close>

definition accounts_from_revm_state :: "revm_state \<Rightarrow> node_error + native_accounts" where
  "accounts_from_revm_state st =
     res_fold (\<lambda>(a, ac) accounts.
       res_bind (res_of_option (Bail ''historical EVM balance exceeds BLQ range'') (stored_balance (ra_balance ac)))
         (\<lambda>balance. Inr (fmupd a (balance, ra_nonce ac) accounts)))
       (fm_entries (rs_accounts st)) fmempty"

definition apply_accounts_to_revm_state :: "native_accounts \<Rightarrow> revm_state \<Rightarrow> revm_state" where
  "apply_accounts_to_revm_state accounts st =
     fold (\<lambda>(a, balance, nonce) st.
       revm_put_account st a ((revm_account_of st a)\<lparr>ra_balance := ucast balance, ra_nonce := nonce\<rparr>)) (fm_entries accounts) st"

definition replay_failed :: "block \<Rightarrow> node_error" where
  "replay_failed b = Bail (''candidate recovery bootstrap state validation failed at block '' @ dec_string (unat (h_number (b_header b))))"

definition roots_match :: "ext \<Rightarrow> block \<Rightarrow> u64 \<Rightarrow> receipt list \<Rightarrow> hash256 \<Rightarrow> bool" where
  "roots_match e b gas_used receipts expected \<longleftrightarrow>
     h_gas_used (b_header b) = gas_used \<and> b_receipts b = receipts \<and>
     h_transactions_root (b_header b) = transactions_root e (b_transactions b) \<and>
     h_receipts_root (b_header b) = receipts_root e (b_receipts b) \<and> h_state_root (b_header b) = expected"

text \<open>The two maps are the state; an error leaves what the source leaves of them.\<close>

definition validate_replay_state_root ::
  "revm \<Rightarrow> ext \<Rightarrow> block \<Rightarrow> u64 \<Rightarrow> (native_accounts \<times> revm_state, node_error, unit) sm" where
  "validate_replay_state_root v e b parent_timestamp = (\<lambda>(native_accounts, evm_state).
     if list_ex is_evm_transaction (b_transactions b) then
       (case execute_evm_state_transition_in_place v e b parent_timestamp evm_state of
          (Inl err, evm_state) \<Rightarrow> (Inl err, native_accounts, evm_state)
        | (Inr (receipts, gas_used), evm_state) \<Rightarrow>
            (case evm_state_root_from_revm_state e evm_state of
               Inl err \<Rightarrow> (Inl err, native_accounts, evm_state)
             | Inr expected \<Rightarrow>
                 if \<not> roots_match e b gas_used receipts expected then (Inl (replay_failed b), native_accounts, evm_state)
                 else (case accounts_from_revm_state evm_state of
                    Inl err \<Rightarrow> (Inl err, native_accounts, evm_state)
                  | Inr accounts \<Rightarrow> (Inr (), accounts, evm_state))))
     else
       (case simulate_state_transition_from_accounts e native_accounts b parent_timestamp of
          Inl err \<Rightarrow> (Inl err, fmempty, evm_state)
        | Inr (accounts, receipts, gas_used) \<Rightarrow>
            (case state_root_from_accounts e accounts of
               Inl err \<Rightarrow> (Inl (OfStorage err), fmempty, evm_state)
             | Inr expected \<Rightarrow>
                 if \<not> roots_match e b gas_used receipts expected then (Inl (replay_failed b), fmempty, evm_state)
                 else (Inr (), accounts, apply_accounts_to_revm_state accounts evm_state))))"

section \<open>The overlay of a candidate suffix\<close>

record execution_snapshot =
  xs_generation_id :: u64
  xs_height :: u64
  xs_block_hash :: hash256
  xs_state_root :: hash256
  xs_profile_fingerprint :: string
  xs_finalized_height :: u64
  xs_native_accounts :: native_accounts
  xs_evm_accounts :: evm_state_snapshot

record execution_replay_overlay =
  ov_native_accounts :: native_accounts
  ov_evm_state :: revm_state
  ov_parent :: block_header
  ov_difficulty_history :: "block_header list"

definition overlay_from_snapshot ::
  "ext \<Rightarrow> execution_snapshot \<Rightarrow> block_header \<Rightarrow> block_header list \<Rightarrow> node_error + execution_replay_overlay" where
  "overlay_from_snapshot e snapshot parent difficulty_history =
     (if xs_block_hash snapshot \<noteq> header_hash e parent \<or> xs_height snapshot \<noteq> h_number parent \<or>
         xs_state_root snapshot \<noteq> h_state_root parent
      then Inl (Bail ''execution snapshot does not match replay parent'')
      else
        Inr \<lparr>ov_native_accounts = xs_native_accounts snapshot,
             ov_evm_state = apply_accounts_to_revm_state (xs_native_accounts snapshot) (revm_state_of_snapshot (xs_evm_accounts snapshot)),
             ov_parent = parent, ov_difficulty_history = difficulty_history\<rparr>)"

definition overlay_lookup :: "ext \<Rightarrow> block_header list \<Rightarrow> hash256 \<Rightarrow> ('s, node_error, block_header) sm" where
  "overlay_lookup e history h =
     sm_lift (res_of_option (Bail ''candidate replay difficulty history is incomplete'')
       (List.find (\<lambda>header. header_hash e header = h) history))"

text \<open>\<open>push\<close> followed by \<open>remove(0)\<close> when the history is longer than the window needs.\<close>

definition push_history :: "block_header list \<Rightarrow> block_header \<Rightarrow> block_header list" where
  "push_history history h =
     (let history = history @ [h]
      in if BLOCK_TIME_V2_MEDIAN_WINDOW + 1 < length history then tl history else history)"

definition overlay_execute :: "revm \<Rightarrow> ext \<Rightarrow> block \<Rightarrow> (execution_replay_overlay, node_error, unit) sm" where
  "overlay_execute v e b ov =
     (case validate_replay_state_root v e b (h_timestamp_seconds (ov_parent ov)) (ov_native_accounts ov, ov_evm_state ov) of
        (Inl err, accounts, st) \<Rightarrow> (Inl err, ov\<lparr>ov_native_accounts := accounts, ov_evm_state := st\<rparr>)
      | (Inr _, accounts, st) \<Rightarrow>
          (Inr (), \<lparr>ov_native_accounts = accounts, ov_evm_state = st, ov_parent = b_header b,
            ov_difficulty_history = push_history (ov_difficulty_history ov) (b_header b)\<rparr>))"

definition overlay_apply ::
  "revm \<Rightarrow> node_section \<Rightarrow> ext \<Rightarrow> hash256 \<Rightarrow> block \<Rightarrow> (execution_replay_overlay, node_error, unit) sm" where
  "overlay_apply v config e genesis_hash b =
     sm_seq (sm_lift (validate_block_transaction_auth e (ns_require_signed_transactions config) b))
    (sm_seq (sm_gets (\<lambda>ov. res_map_err OfConsensus
       (validate_block_with_genesis_and_activation e (ov_parent ov) b genesis_hash (ns_block_size_activation_height config))))
    (sm_bind (sm_gets (\<lambda>ov. fst (expected_difficulty_target_with_lookup (ov_parent ov) (b_header b)
         (ns_block_time_v2_activation_height config) (overlay_lookup e (ov_difficulty_history ov)) ()))) (\<lambda>expected_difficulty.
     sm_seq (sm_lift (ensure (h_difficulty_target (b_header b) = expected_difficulty)
       (Bail (''candidate replay difficulty mismatch at block '' @ dec_string (unat (h_number (b_header b)))))))
       (overlay_execute v e b))))"

section \<open>Replaying a whole chain\<close>

text \<open>A result computed first, then a closing action that always runs: \<open>let flush = \<dots>; result?; flush\<close>.\<close>

definition and_finally :: "('s, 'e, 'a) sm \<Rightarrow> ('s, 'e, unit) sm \<Rightarrow> ('s, 'e, 'a) sm" where
  "and_finally m close s =
     (case m s of (r, t) \<Rightarrow> (case close t of (q, u) \<Rightarrow> (res_bind r (\<lambda>x. res_bind q (\<lambda>_. Inr x)), u)))"

definition REPLAY_CHECKPOINT_INTERVAL :: nat where [blq_consts]: "REPLAY_CHECKPOINT_INTERVAL = 16"

definition replay_block ::
  "storage_error + unit \<Rightarrow> revm \<Rightarrow> (node_error \<Rightarrow> string) \<Rightarrow> 'd backend \<Rightarrow> ext \<Rightarrow> u64 option \<Rightarrow> u64 option \<Rightarrow>
   nat \<times> block \<Rightarrow> ('d, unit) node" where
  "replay_block io v disp k e size_activation time_activation = (\<lambda>(index, b).
     sm_bind (of_storage (node_best_header k)) (\<lambda>parent.
     sm_bind (configured_genesis_hash k e) (\<lambda>genesis_hash.
     sm_seq (sm_lift (res_map_err OfConsensus
       (validate_block_with_genesis_and_activation e parent b genesis_hash size_activation)))
    (sm_seq (validate_difficulty_target k e parent (b_header b) time_activation)
    (sm_seq (node_validate_state_root v k e b)
    (sm_seq (of_storage (node_insert_block io v disp k e b))
     (if index mod REPLAY_CHECKPOINT_INTERVAL = 0 then flush_sync_batch k else sm_ok ())))))))"

definition replay_canonical_chain ::
  "storage_error + unit \<Rightarrow> revm \<Rightarrow> (node_error \<Rightarrow> string) \<Rightarrow> 'd backend \<Rightarrow> ext \<Rightarrow> u64 option \<Rightarrow> u64 option \<Rightarrow>
   block list \<Rightarrow> ('d, unit) node" where
  "replay_canonical_chain io v disp k e size_activation time_activation chain =
     (case chain of
        [] \<Rightarrow> sm_err (Bail ''cannot replay an empty chain'')
      | genesis # blocks \<Rightarrow>
          if h_number (b_header genesis) \<noteq> 0 then sm_err (Bail ''canonical replay must begin at genesis'')
          else sm_seq begin_sync_batch
            (and_finally
              (sm_seq (of_storage (node_insert_block io v disp k e genesis))
                (sm_for (replay_block io v disp k e size_activation time_activation) (enumerate 1 blocks)))
              (end_sync_batch k)))"

definition rebuild_canonical_chain ::
  "storage_error + unit \<Rightarrow> revm \<Rightarrow> (node_error \<Rightarrow> string) \<Rightarrow> 'd backend \<Rightarrow> ext \<Rightarrow> u64 option \<Rightarrow> u64 option \<Rightarrow>
   block list \<Rightarrow> block list \<Rightarrow> ('d, unit) node" where
  "rebuild_canonical_chain io v disp k e size_activation time_activation replacement previous =
     sm_seq (node_clear_canonical_state k)
       (\<lambda>s. case replay_canonical_chain io v disp k e size_activation time_activation replacement s of
          (Inr _, t) \<Rightarrow> (Inr (), t)
        | (Inl reorg_error, t) \<Rightarrow>
            (case sm_seq (node_clear_canonical_state k)
                (replay_canonical_chain io v disp k e size_activation time_activation previous) t of
               (Inr _, u) \<Rightarrow> (Inr (), u)
             | (Inl rollback_error, u) \<Rightarrow>
                 (Inl (Bail (''candidate reorg failed: '' @ disp reorg_error @ ''; rollback failed: '' @ disp rollback_error)), u)))"

section \<open>Replay and validation agree\<close>

text \<open>Collecting entries whose value may be missing: it succeeds when no value is.\<close>

lemma res_fold_collect:
  "res_fold (\<lambda>(a, x) m. res_bind (res_of_option err (g x)) (\<lambda>y. Inr (fmupd a (h x y) m))) es m = Inr m' \<longleftrightarrow>
    list_all (\<lambda>(_, x). g x \<noteq> None) es \<and> m' = fold (\<lambda>(a, x). fmupd a (h x (the (g x)))) es m"
proof (induction es arbitrary: m)
  case (Cons p es)
  obtain a x where p: "p = (a, x)" by fastforce
  show ?case by (cases "g x") (simp_all add: p Cons.IH)
qed auto

definition small_balances :: "revm_state \<Rightarrow> bool" where
  "small_balances st \<longleftrightarrow> list_all (\<lambda>(_, ac). stored_balance (ra_balance ac) \<noteq> None) (fm_entries (rs_accounts st))"

definition native_part :: "revm_account \<Rightarrow> bix \<times> u64" where
  "native_part ac = (the (stored_balance (ra_balance ac)), ra_nonce ac)"

lemma accounts_from_revm_state_iff:
  "accounts_from_revm_state st = Inr m \<longleftrightarrow> small_balances st \<and> m = fmmap native_part (rs_accounts st)"
proof -
  have "fold (\<lambda>(a, ac). fmupd a (native_part ac)) (fm_entries (rs_accounts st)) fmempty = fmmap native_part (rs_accounts st)"
    by (rule fmap_ext) (use fold_fmupd_inj [of "\<lambda>x. x" native_part "rs_accounts st"] in simp)
  then show ?thesis
    unfolding accounts_from_revm_state_def small_balances_def
    by (subst res_fold_collect) (simp add: native_part_def)
qed

lemma evm_accounts_small: "evm_accounts_from_revm_state st = Inr m \<Longrightarrow> small_balances st"
  unfolding evm_accounts_from_revm_state_def small_balances_def by (subst (asm) res_fold_collect) simp

lemma evm_root_small: "evm_state_root_from_revm_state e st = Inr r \<Longrightarrow> small_balances st"
  by (auto simp: evm_state_root_from_revm_state_def res_simps intro: evm_accounts_small)

lemma stored_balance_widen [simp]: "stored_balance (ucast x) = Some x" for x :: bix
proof -
  have "unat (ucast x :: u256) < 2 ^ 128" using unat_lt_len [of x] by (simp add: unat_widen)
  then show ?thesis by (simp add: stored_balance_def) (transfer, simp)
qed

lemma apply_accounts_lookup:
  "fmlookup (rs_accounts (apply_accounts_to_revm_state accounts st)) a =
    (case fmlookup accounts a of None \<Rightarrow> fmlookup (rs_accounts st) a
     | Some (balance, nonce) \<Rightarrow> Some ((revm_account_of st a)\<lparr>ra_balance := ucast balance, ra_nonce := nonce\<rparr>))"
  using merge_native_lookup
  by (simp add: apply_accounts_to_revm_state_def merge_native_accounts_into_revm_state_def)

lemma apply_accounts_in_step:
  assumes "fmdom (rs_accounts st) |\<subseteq>| fmdom accounts"
  shows "accounts_from_revm_state (apply_accounts_to_revm_state accounts st) = Inr accounts"
proof -
  let ?st = "apply_accounts_to_revm_state accounts st"
  have covered: "fmlookup accounts a = None \<Longrightarrow> fmlookup (rs_accounts st) a = None" for a
    using assms by (metis fmdom_notD fmdom_notI fsubsetD)
  have "stored_balance (ra_balance ac) \<noteq> None" if "fmlookup (rs_accounts ?st) a = Some ac" for a ac
    using that covered [of a] by (auto simp: apply_accounts_lookup split: option.splits)
  then have "small_balances ?st" by (auto simp: small_balances_def list_all_iff set_fm_entries)
  moreover have "accounts = fmmap native_part (rs_accounts ?st)"
    by (rule fmap_ext) (auto simp: apply_accounts_lookup covered native_part_def split: option.split)
  ultimately show ?thesis by (simp add: accounts_from_revm_state_iff)
qed

lemma transfer_step_dom: "transfer_step e h split t acc = Inr acc' \<Longrightarrow> fmdom (fst acc) |\<subseteq>| fmdom (fst acc')"
  by (cases acc) (auto simp: transfer_step_def res_simps Let_def)

lemma simulate_dom:
  assumes "simulate_state_transition_from_accounts e accounts b pts = Inr (accounts', receipts, gas)"
  shows "fmdom accounts |\<subseteq>| fmdom accounts'"
proof -
  let ?step = "transfer_step e (b_header b) (fee_split_for_utilization
    (utilization_basis_points gas (h_gas_limit (b_header b))))"
  obtain m fees rs where f: "res_fold ?step (b_transactions b) (accounts, 0, []) = Inr (m, fees, rs)"
      and m: "fmdom m |\<subseteq>| fmdom accounts'"
    using assms by (fastforce simp: simulate_state_transition_from_accounts_def res_simps Let_def split: if_splits)
  have "fmdom accounts |\<subseteq>| fmdom (fst (m, fees, rs))"
    by (rule res_fold_invariant [OF f, where P = "\<lambda>acc. fmdom accounts |\<subseteq>| fmdom (fst acc)"])
      (simp, rule order_trans, assumption, rule transfer_step_dom)
  then show ?thesis using m by auto
qed

text \<open>A successful replay is a simulation with matching roots; the two maps agree afterwards.\<close>

lemma replay_evm:
  assumes "list_ex is_evm_transaction (b_transactions b)"
  shows "validate_replay_state_root v e b pts (N, E) = (Inr (), N', E') \<longleftrightarrow>
    (\<exists>receipts gas expected. execute_evm_state_transition_in_place v e b pts E = (Inr (receipts, gas), E') \<and>
       evm_state_root_from_revm_state e E' = Inr expected \<and> roots_match e b gas receipts expected \<and>
       accounts_from_revm_state E' = Inr N')"
  using assms by (auto simp: validate_replay_state_root_def split: prod.splits sum.splits if_splits)

lemma replay_native:
  assumes "\<not> list_ex is_evm_transaction (b_transactions b)"
  shows "validate_replay_state_root v e b pts (N, E) = (Inr (), N', E') \<longleftrightarrow>
    (\<exists>receipts gas expected. simulate_state_transition_from_accounts e N b pts = Inr (N', receipts, gas) \<and>
       state_root_from_accounts e N' = Inr expected \<and> roots_match e b gas receipts expected \<and>
       E' = apply_accounts_to_revm_state N' E)"
  using assms by (auto simp: validate_replay_state_root_def split: prod.splits sum.splits if_splits)

text \<open>
  C5. Replaying a block over the two maps of a candidate's state accepts exactly the blocks that the
  validation against the store accepts, when the store holds that state; and from maps that agree on
  every balance and nonce it leads to maps that agree.
\<close>

theorem replay_matches_validation:
  assumes w: "nv_account_snapshot w = Inr N" "nv_evm_state w = Inr E" "parent_timestamp_of w b = Inr pts"
    and in_step: "accounts_from_revm_state E = Inr N"
  shows "(validate_state_root v e w b = Inr () \<longleftrightarrow>
      (\<exists>N' E'. validate_replay_state_root v e b pts (N, E) = (Inr (), N', E'))) \<and>
    (\<forall>N' E'. validate_replay_state_root v e b pts (N, E) = (Inr (), N', E') \<longrightarrow> accounts_from_revm_state E' = Inr N')"
proof (cases "list_ex is_evm_transaction (b_transactions b)")
  case True
  obtain x E' where run: "execute_evm_state_transition_in_place v e b pts E = (x, E')" by fastforce
  have "\<exists>N'. accounts_from_revm_state E' = Inr N'" if "evm_state_root_from_revm_state e E' = Inr r" for r
    using evm_root_small [OF that] by (simp add: accounts_from_revm_state_iff)
  then have "validate_state_root v e w b = Inr () \<longleftrightarrow>
      (\<exists>N' E'. validate_replay_state_root v e b pts (N, E) = (Inr (), N', E'))"
    using True by (cases x; cases "evm_state_root_from_revm_state e E'")
      (simp_all add: run replay_evm [OF True] validate_state_root_def simulate_evm_state_transition_def w
        simulate_evm_state_transition_from_state_def roots_match_def split: prod.split, blast?)
  moreover have "\<forall>N' E'. validate_replay_state_root v e b pts (N, E) = (Inr (), N', E') \<longrightarrow> accounts_from_revm_state E' = Inr N'"
    by (auto simp: replay_evm [OF True])
  ultimately show ?thesis by blast
next
  case False
  have "fmdom (rs_accounts E) |\<subseteq>| fmdom N'"
    if "simulate_state_transition_from_accounts e N b pts = Inr (N', receipts, gas)" for N' receipts gas
    using simulate_dom [OF that] in_step by (auto simp: accounts_from_revm_state_iff)
  then have "\<forall>N' E'. validate_replay_state_root v e b pts (N, E) = (Inr (), N', E') \<longrightarrow> accounts_from_revm_state E' = Inr N'"
    by (auto simp: replay_native [OF False] apply_accounts_in_step)
  moreover have "validate_state_root v e w b = Inr () \<longleftrightarrow>
      (\<exists>N' E'. validate_replay_state_root v e b pts (N, E) = (Inr (), N', E'))"
  proof (cases "simulate_state_transition_from_accounts e N b pts")
    case (Inr r)
    obtain N' receipts gas where r: "r = (N', receipts, gas)" by (metis prod.exhaust)
    show ?thesis using False Inr
      by (cases "state_root_from_accounts e N'") (auto simp: r replay_native [OF False] validate_state_root_def
          simulate_state_transition_def w roots_match_def)
  qed (use False in \<open>simp add: replay_native [OF False] validate_state_root_def simulate_state_transition_def w\<close>)
  ultimately show ?thesis by blast
qed

definition demo_replay_state :: revm_state where
  "demo_replay_state = apply_accounts_to_revm_state demo_ledger revm_state_default"

definition demo_replay_view :: node_view where
  "demo_replay_view = \<lparr>nv_header_by_number = (\<lambda>_. Inr (genesis_header demo_ext)),
     nv_account_snapshot = Inr demo_ledger, nv_evm_state = Inr demo_replay_state\<rparr>"

lemma demo_replay_timestamp: "h_number (b_header b) = 1 \<Longrightarrow> parent_timestamp_of demo_replay_view b = Inr 0"
  by (simp add: parent_timestamp_of_def demo_replay_view_def demo_child_fields)

lemma demo_replay_build:
  obtains b where "build_stateful_block demo_revm demo_ext demo_replay_view demo_block (b_transactions demo_block) = Inr b"
    "h_number (b_header b) = 1"
proof -
  obtain m' rs where sim: "simulate_state_transition_from_accounts demo_ext demo_ledger demo_block 0 = Inr (m', rs, 42022)"
    using Transition.demo_simulation by blast
  have n: "h_number (b_header demo_block) = 1" by (simp add: demo_block_def)
  have "simulate_state_transition demo_ext demo_replay_view demo_block = Inr (m', rs, 42022)"
    using sim demo_replay_timestamp [OF n] by (simp add: simulate_state_transition_def demo_replay_view_def)
  moreover have "demo_block\<lparr>b_transactions := b_transactions demo_block\<rparr> = demo_block" by simp
  moreover have "\<not> list_ex is_evm_transaction (b_transactions demo_block)"
    by (simp add: demo_block_def is_evm_transaction_def demo_transfer_def demo_tx_def)
  ultimately show thesis
    using that n by (simp add: build_stateful_block_def Let_def state_root_from_accounts_def fill_block_def)
qed

theorem replay_matches_validation_witness:
  "\<exists>b N' E'. b_transactions b = [demo_transfer 0, demo_transfer 1] \<and>
     validate_state_root demo_revm demo_ext demo_replay_view b = Inr () \<and>
     validate_replay_state_root demo_revm demo_ext b 0 (demo_ledger, demo_replay_state) = (Inr (), N', E') \<and>
     accounts_from_revm_state E' = Inr N'"
proof -
  obtain b where b: "build_stateful_block demo_revm demo_ext demo_replay_view demo_block (b_transactions demo_block) = Inr b"
      "h_number (b_header b) = 1"
    by (rule demo_replay_build)
  have "accounts_from_revm_state demo_replay_state = Inr demo_ledger"
    unfolding demo_replay_state_def by (rule apply_accounts_in_step) (simp add: revm_state_default_def)
  then show ?thesis
    using replay_matches_validation [of demo_replay_view demo_ledger demo_replay_state b 0 demo_revm demo_ext]
      demo_replay_timestamp [OF b(2)] build_stateful_block_valid [OF b(1)]
    by (simp add: demo_header_fields) (simp add: demo_replay_view_def, blast)
qed

section \<open>The difficulty window of the overlay\<close>

fun headers_linked :: "ext \<Rightarrow> block_header list \<Rightarrow> bool" where
  "headers_linked e (a # b # hs) \<longleftrightarrow>
     h_number b = h_number a + 1 \<and> h_parent_hash b = header_hash e a \<and> headers_linked e (b # hs)"
| "headers_linked e _ \<longleftrightarrow> True"

lemma headers_linked_snoc:
  "headers_linked e (hs @ [a, b]) \<longleftrightarrow>
     headers_linked e (hs @ [a]) \<and> h_number b = h_number a + 1 \<and> h_parent_hash b = header_hash e a"
  by (induction e hs rule: headers_linked.induct) auto

lemma headers_linked_tl: "headers_linked e hs \<Longrightarrow> headers_linked e (tl hs)"
  by (induction e hs rule: headers_linked.induct) auto

definition window_ok :: "ext \<Rightarrow> block_header \<Rightarrow> block_header list \<Rightarrow> bool" where
  "window_ok e parent history \<longleftrightarrow>
     (\<exists>older. history = older @ [parent] \<and> length older = min BLOCK_TIME_V2_MEDIAN_WINDOW (unat (h_number parent))) \<and>
     headers_linked e history \<and> distinct (map (header_hash e) history)"

text \<open>A lookup that knows the older headers of a linked window walks exactly them.\<close>

lemma history_loop_window:
  assumes "headers_linked e (older @ [cursor])" "length older = min n (unat (h_number cursor))"
    and "\<forall>h \<in> set older. lookup (header_hash e h) s = (Inr h, s)"
  shows "history_loop lookup n cursor acc s = (Inr (acc @ rev older), s)"
  using assms
proof (induction n arbitrary: cursor older acc)
  case (Suc n)
  show ?case
  proof (cases "h_number cursor = 0")
    case True
    then show ?thesis using Suc.prems by (simp add: sm_ok_def)
  next
    case False
    then have "unat (h_number cursor) \<noteq> 0" by (simp add: unat_eq_zero)
    then have "older \<noteq> []" using Suc.prems(2) by auto
    then obtain older' p where o: "older = older' @ [p]" by (metis append_butlast_last_id)
    have link: "headers_linked e (older' @ [p])" "h_number cursor = h_number p + 1" "h_parent_hash cursor = header_hash e p"
      using Suc.prems(1) by (simp_all add: o headers_linked_snoc)
    then have "unat (h_number cursor) = Suc (unat (h_number p))"
      using False by (metis unatSuc add.commute)
    then have "length older' = min n (unat (h_number p))" using Suc.prems(2) by (simp add: o)
    then show ?thesis
      using Suc.IH [OF link(1), of "acc @ [p]"] Suc.prems(3) False
      by (simp add: o link(3) sm_bind_def)
  qed
qed (simp add: sm_ok_def)

lemma window_walk:
  assumes "window_ok e parent history" "\<forall>h \<in> set history. lookup (header_hash e h) s = (Inr h, s)"
  shows "difficulty_history_headers_with_lookup parent lookup s = (Inr history, s)"
proof -
  obtain older where o: "history = older @ [parent]" "length older = min BLOCK_TIME_V2_MEDIAN_WINDOW (unat (h_number parent))"
    using assms(1) by (auto simp: window_ok_def)
  show ?thesis
    using history_loop_window [of e older parent BLOCK_TIME_V2_MEDIAN_WINDOW lookup s "[parent]"] assms o
    by (simp add: difficulty_history_headers_with_lookup_def window_ok_def sm_bind_def sm_ok_def)
qed

lemma overlay_lookup_window:
  assumes "distinct (map (header_hash e) history)" "h \<in> set history"
  shows "overlay_lookup e history (header_hash e h) s = (Inr h, s)"
proof -
  have "List.find (\<lambda>x. header_hash e x = header_hash e h) history = Some h"
    using assms by (induction history) auto
  then show ?thesis by (simp add: overlay_lookup_def sm_lift_def)
qed

lemma window_push:
  assumes "window_ok e parent history" "h_number b = h_number parent + 1" "h_parent_hash b = header_hash e parent"
    and "h_number b \<noteq> 0" "header_hash e b \<notin> header_hash e ` set history"
  shows "window_ok e b (push_history history b)"
proof -
  obtain older where o: "history = older @ [parent]" "length older = min BLOCK_TIME_V2_MEDIAN_WINDOW (unat (h_number parent))"
    using assms(1) by (auto simp: window_ok_def)
  have n: "unat (h_number b) = Suc (unat (h_number parent))"
    using assms(2,4) by (metis unatSuc add.commute)
  have linked: "headers_linked e (history @ [b])"
    using assms(1-3) by (simp add: window_ok_def o headers_linked_snoc)
  have dist: "distinct (map (header_hash e) (history @ [b]))"
    using assms(1,5) by (auto simp: window_ok_def)
  show ?thesis
  proof (cases "BLOCK_TIME_V2_MEDIAN_WINDOW + 1 < length (history @ [b])")
    case True
    then have "push_history history b = tl history @ [b]" by (cases older) (simp_all add: push_history_def o)
    moreover have "headers_linked e (tl history @ [b])" using headers_linked_tl [OF linked] by (cases older) (simp_all add: o)
    moreover have "distinct (map (header_hash e) (tl history @ [b]))" using dist by (cases history) auto
    ultimately show ?thesis using True o n by (auto simp: window_ok_def)
  next
    case False
    then have "push_history history b = history @ [b]" by (simp add: push_history_def)
    then show ?thesis using False linked dist o n by (auto simp: window_ok_def)
  qed
qed

lemma overlay_apply_ok:
  assumes "overlay_apply v config e g b ov = (Inr (), ov')"
  shows "validate_block_with_genesis_and_activation e (ov_parent ov) b g (ns_block_size_activation_height config) = Inr ()"
    "ov_parent ov' = b_header b" "ov_difficulty_history ov' = push_history (ov_difficulty_history ov) (b_header b)"
proof -
  have run: "overlay_execute v e b ov = (Inr (), ov')"
    using assms by (auto simp: overlay_apply_def sm_simps res_simps)
  show "validate_block_with_genesis_and_activation e (ov_parent ov) b g (ns_block_size_activation_height config) = Inr ()"
    using assms by (auto simp: overlay_apply_def sm_simps res_simps)
  show "ov_parent ov' = b_header b" "ov_difficulty_history ov' = push_history (ov_difficulty_history ov) (b_header b)"
    using run by (auto simp: overlay_execute_def split: prod.splits sum.splits)
qed

lemma overlay_apply_difficulty:
  assumes "overlay_apply v config e g b ov = (Inr (), ov')"
  shows "fst (expected_difficulty_target_with_lookup (ov_parent ov) (b_header b) (ns_block_time_v2_activation_height config)
    (overlay_lookup e (ov_difficulty_history ov)) ()) = Inr (h_difficulty_target (b_header b))"
  using assms by (auto simp: overlay_apply_def sm_simps res_simps split: if_splits)

lemma expected_difficulty_window:
  assumes "difficulty_history_headers_with_lookup parent lookup s = (Inr history, s)"
    and "difficulty_history_headers_with_lookup parent lookup' s' = (Inr history, s')"
  shows "fst (expected_difficulty_target_with_lookup parent child activation lookup s) =
    fst (expected_difficulty_target_with_lookup parent child activation lookup' s')"
  using assms
  by (simp add: expected_difficulty_target_with_lookup_def difficulty_history_intervals_with_lookup_def Let_def
      sm_bind_def sm_ok_def sm_err_def split: option.splits)

text \<open>
  C20. The headers the overlay of a candidate suffix keeps are those the retarget rule reads: it
  computes for every child the difficulty that the node computes from its store, if the store
  finds these headers; and accepting a block keeps the window in that shape, below the largest
  number and while no two of the headers share a hash.
\<close>

theorem overlay_window:
  assumes ok: "window_ok e (ov_parent ov) (ov_difficulty_history ov)"
    and stored: "\<forall>h \<in> set (ov_difficulty_history ov). difficulty_header_by_hash k e (header_hash e h) s = (Inr h, s)"
    and run: "overlay_apply v config e g b ov = (Inr (), ov')"
    and fresh: "h_number (b_header b) \<noteq> 0"
      "header_hash e (b_header b) \<notin> header_hash e ` set (ov_difficulty_history ov)"
  shows "fst (validate_difficulty_target k e (ov_parent ov) (b_header b) (ns_block_time_v2_activation_height config) s) = Inr () \<and>
    window_ok e (ov_parent ov') (ov_difficulty_history ov')"
proof
  have "difficulty_history_headers_with_lookup (ov_parent ov) (overlay_lookup e (ov_difficulty_history ov)) () =
      (Inr (ov_difficulty_history ov), ())"
    using ok by (intro window_walk [OF ok] ballI overlay_lookup_window) (simp_all add: window_ok_def)
  from expected_difficulty_window [OF window_walk [where s = s and lookup = "difficulty_header_by_hash k e", OF ok stored] this]
  obtain t where "expected_difficulty_target k e (ov_parent ov) (b_header b) (ns_block_time_v2_activation_height config) s =
      (Inr (h_difficulty_target (b_header b)), t)"
    using overlay_apply_difficulty [OF run] unfolding expected_difficulty_target_def by (metis prod.collapse)
  then show "fst (validate_difficulty_target k e (ov_parent ov) (b_header b) (ns_block_time_v2_activation_height config) s) = Inr ()"
    by (simp add: validate_difficulty_target_def sm_bind_def sm_ok_def)
  have "h_number (b_header b) = h_number (ov_parent ov) + 1" "h_parent_hash (b_header b) = header_hash e (ov_parent ov)"
    using overlay_apply_ok(1) [OF run] by (simp_all add: validate_block_iff validate_header_iff)
  then show "window_ok e (ov_parent ov') (ov_difficulty_history ov')"
    using window_push [OF ok] fresh by (simp add: overlay_apply_ok(2,3) [OF run])
qed

definition demo_overlay :: execution_replay_overlay where
  "demo_overlay = \<lparr>ov_native_accounts = fmempty, ov_evm_state = revm_state_default,
     ov_parent = genesis_header demo_rx, ov_difficulty_history = [genesis_header demo_rx]\<rparr>"

definition demo_config :: node_section where
  "demo_config = \<lparr>ns_mode = node_mode.Full, ns_max_storage_bytes = 0, ns_filesystem_reserve_bytes = 0,
     ns_prune_trigger_percent = 80, ns_storage_mode = Archive, ns_prune_history = False, ns_retain_snapshots = True,
     ns_retain_finalized_checkpoints = True, ns_expected_genesis_hash = None,
     ns_require_signed_transactions = True, ns_block_size_activation_height = None, ns_block_time_v2_activation_height = None\<rparr>"

text \<open>The child of genesis with the state root of a replay from no accounts.\<close>

definition demo_replayed :: block where
  "demo_replayed = demo_child\<lparr>b_header := (b_header demo_child)\<lparr>h_state_root :=
     hash_bytes demo_rx (state_root_preimage (fst (projr (simulate_state_transition_from_accounts demo_rx fmempty demo_child 0))))\<rparr>\<rparr>"

lemma demo_replayed_sim:
  "\<exists>N. simulate_state_transition_from_accounts demo_rx fmempty demo_child 0 = Inr (N, [], 0)"
  by (simp add: simulate_state_transition_from_accounts_def demo_child_fields Let_def ensure_def)

lemma demo_replayed_env:
  "simulate_state_transition_from_accounts demo_rx fmempty demo_replayed 0 =
   simulate_state_transition_from_accounts demo_rx fmempty demo_child 0"
  by (rule same_env_transfers) (simp_all add: same_env_def demo_replayed_def)

lemma demo_replayed_valid:
  "validate_block_with_genesis_and_activation demo_rx (genesis_header demo_rx) demo_replayed g None = Inr ()"
proof -
  have pow: "blq_rx_hash demo_rx (b_header demo_replayed) g = blq_rx_hash demo_rx (b_header demo_child) g"
    by (simp add: blq_rx_hash_def native_randomx_hash_def demo_rx_def demo_replayed_def Let_def)
  have "validate_pow_fields demo_rx (b_header demo_replayed) g = validate_pow_fields demo_rx (b_header demo_child) g"
    by (simp only: validate_pow_fields_def pow) (simp add: demo_replayed_def)
  moreover have "block_size_rule_active n None = False" for n by (simp add: block_size_rule_active_def)
  ultimately show ?thesis
    using demo_child_valid [of g] unfolding validate_block_iff validate_header_iff pow
    by (simp add: demo_replayed_def demo_child_fields(6))
qed

lemma demo_replayed_run:
  "\<exists>ov'. overlay_apply demo_revm demo_config demo_rx g demo_replayed demo_overlay = (Inr (), ov')"
proof -
  obtain N where N: "simulate_state_transition_from_accounts demo_rx fmempty demo_replayed 0 = Inr (N, [], 0)"
    using demo_replayed_sim demo_replayed_env by auto
  have f: "b_transactions demo_replayed = []" "b_receipts demo_replayed = []"
      "h_gas_used (b_header demo_replayed) = 0"
      "h_transactions_root (b_header demo_replayed) = transactions_root demo_rx []"
      "h_receipts_root (b_header demo_replayed) = receipts_root demo_rx []"
      "h_state_root (b_header demo_replayed) = hash_bytes demo_rx (state_root_preimage N)"
    using N by (simp_all add: demo_replayed_env) (simp_all add: demo_replayed_def demo_child_fields)
  have "\<exists>N' E'. validate_replay_state_root demo_revm demo_rx demo_replayed 0 (fmempty, revm_state_default) = (Inr (), N', E')"
    using f by (simp add: replay_native N roots_match_def state_root_from_accounts_def)
  moreover have "expected_difficulty_target_with_lookup (genesis_header demo_rx) (b_header demo_replayed) None lookup () =
      (Inr (h_difficulty_target (b_header demo_replayed)), ())" for lookup
    by (simp add: expected_difficulty_target_with_lookup_def demo_replayed_def demo_child_def genesis_header_def Let_def
        next_block_difficulty_target_def blq_consts saturating_sub_def sm_ok_def word_le_nat_alt max_def)
  ultimately show ?thesis
    using demo_replayed_valid [of g] f
    by (auto simp: overlay_apply_def demo_config_def demo_overlay_def validate_block_transaction_auth_def
        overlay_execute_def
        sm_seq_def sm_bind_def sm_lift_def sm_gets_def sm_ok_def ensure_def genesis_header_def blq_consts)
qed

lemma demo_hashes_differ: "header_hash demo_rx (b_header demo_replayed) \<noteq> header_hash demo_rx (genesis_header demo_rx)"
proof
  let ?d = "\<lambda>h. arr_bytes (header_hash demo_rx h) ! 15"
  have "?d h = arr_bytes (h_parent_hash h) ! 7" for h
    by (simp add: header_hash_def hash_bytes_def demo_rx_def demo_ext_def demo_digest_def nth_append
        header_canonical_bytes_def header_common_bytes_def put_hash_def)
  moreover have "arr_bytes (h_parent_hash (b_header demo_replayed)) ! 7 \<noteq> arr_bytes (h_parent_hash (genesis_header demo_rx)) ! 7"
  proof -
    let ?g = "genesis_header demo_rx"
    have len: "length (header_canonical_bytes ?g) = 312"
      by (simp add: length_header_bytes genesis_header_def DEFAULT_POW_ALGORITHM_def demo_rx_def)
    have "x_sha256 demo_rx = demo_digest" by (simp add: demo_rx_def demo_ext_def)
    then have "arr_bytes (header_hash demo_rx ?g) ! 7 = to_be_bytes (312 :: u64) ! 7"
      by (simp add: header_hash_def hash_bytes_def demo_digest_def nth_append len)
    also have "to_be_bytes (312 :: u64) ! 7 = 56"
      by code_simp
    finally show ?thesis
      by (simp add: demo_replayed_def demo_child_fields) (simp add: genesis_header_def ZERO_HASH_def)
  qed
  moreover assume "header_hash demo_rx (b_header demo_replayed) = header_hash demo_rx (genesis_header demo_rx)"
  ultimately show False by metis
qed

theorem overlay_window_witness:
  "\<exists>ov'. overlay_apply demo_revm demo_config demo_rx ZERO_HASH demo_replayed demo_overlay = (Inr (), ov') \<and>
     fst (validate_difficulty_target demo_full_db demo_rx (genesis_header demo_rx) (b_header demo_replayed) None
       (Partial (file_open [] [genesis_header demo_rx]))) = Inr () \<and>
     window_ok demo_rx (ov_parent ov') (ov_difficulty_history ov')"
proof -
  obtain ov' where run: "overlay_apply demo_revm demo_config demo_rx ZERO_HASH demo_replayed demo_overlay = (Inr (), ov')"
    using demo_replayed_run by blast
  have "window_ok demo_rx (ov_parent demo_overlay) (ov_difficulty_history demo_overlay)"
    by (simp add: window_ok_def demo_overlay_def genesis_header_def)
  from overlay_window [OF this _ run, of demo_full_db "Partial (file_open [] [genesis_header demo_rx])"] show ?thesis
    using run demo_hashes_differ
    by (simp add: demo_overlay_def demo_config_def difficulty_header_by_hash_def or_try_def node_header_by_hash_def
        on_storage_def file_header_by_hash_def file_open_def sm_gets_def demo_replayed_def demo_child_fields)
qed

end
