(* ===== verification/Branch.thy ===== *)
theory Branch
  imports Replay "HOL-Library.While_Combinator"
begin

text \<open>
  \<open>crates/blq-node/src/main.rs\<close>, the branch of a competing tip: the walk from the tip to its first
  canonical ancestor, over the recovery spool and the stored blocks, and what is done with the
  branch.  The walk is a loop of the source that no counter bounds; one iteration is a function and
  the loop is \<open>while_option\<close>, so that it ends is a statement of its own.
\<close>

section \<open>Loops\<close>

definition loop_until :: "('w \<Rightarrow> 'w + 'r) \<Rightarrow> 'w \<Rightarrow> 'r option" where
  "loop_until step w = map_option (projr \<circ> step) (while_option (isl \<circ> step) (projl \<circ> step) w)"

lemma loop_until_unfold:
  "loop_until step w = (case step w of Inr r \<Rightarrow> Some r | Inl w' \<Rightarrow> loop_until step w')"
  by (subst loop_until_def, subst while_option_unfold) (simp add: loop_until_def split: sum.split)

text \<open>A loop with an invariant and a measure that every iteration lowers ends, and ends well.\<close>

lemma loop_until_ends:
  assumes "I w"
    and "\<And>w w'. I w \<Longrightarrow> step w = Inl w' \<Longrightarrow> I w' \<and> m w' < (m w :: nat)"
    and "\<And>w r. I w \<Longrightarrow> step w = Inr r \<Longrightarrow> Q r"
  shows "\<exists>r. loop_until step w = Some r \<and> Q r"
  using assms(1)
proof (induction "m w" arbitrary: w rule: less_induct)
  case less
  show ?case
  proof (cases "step w")
    case (Inl w')
    then show ?thesis using less.hyps [of w'] assms(2) [OF less.prems Inl] by (simp add: loop_until_unfold [of step w])
  next
    case (Inr r)
    then show ?thesis using assms(3) [OF less.prems Inr] by (simp add: loop_until_unfold [of step w])
  qed
qed

section \<open>The branch of a tip\<close>

record candidate_branch =
  cb_common_height :: u64
  cb_common_hash :: hash256
  cb_suffix :: "block list"

definition MAX_CANDIDATE_REPLAY_SUFFIX :: nat where [blq_consts]: "MAX_CANDIDATE_REPLAY_SUFFIX = 8192"
definition MAX_CANDIDATE_REPLAY_BYTES :: u64 where [blq_consts]: "MAX_CANDIDATE_REPLAY_BYTES = 256 * 1024 * 1024"

record 'd branch_walk =
  bw_reversed :: "block list"
  bw_bytes :: u64
  bw_visited :: "hash256 fset"
  bw_current :: block
  bw_storage :: "'d node_storage"

definition branch_start :: "block \<Rightarrow> 'd node_storage \<Rightarrow> 'd branch_walk" where
  "branch_start tip s = \<lparr>bw_reversed = [], bw_bytes = 0, bw_visited = {||}, bw_current = tip, bw_storage = s\<rparr>"

definition block_hash :: "ext \<Rightarrow> block \<Rightarrow> hash256" where
  "block_hash e b = header_hash e (b_header b)"

definition block_size :: "block \<Rightarrow> u64" where
  "block_size b = of_nat (length (block_canonical_bytes b))"

text \<open>The parent of the current block: from the spool, else from the stored blocks.\<close>

definition walk_parent :: "'d backend \<Rightarrow> ext \<Rightarrow> block \<Rightarrow> ('d, block) node" where
  "walk_parent k e current =
     or_try (or_try (sm_bind (recovery_spool_block_by_hash k e (h_parent_hash (b_header current))) (\<lambda>(b, _). sm_ok b))
              (node_block_by_hash k e (h_parent_hash (b_header current))))
       (sm_err (Bail ''candidate branch incomplete; waiting-for-provider''))"

definition not_parent :: "ext \<Rightarrow> block \<Rightarrow> block \<Rightarrow> bool" where
  "not_parent e parent current \<longleftrightarrow>
     saturating_add (h_number (b_header parent)) 1 \<noteq> h_number (b_header current) \<or>
     block_hash e parent \<noteq> h_parent_hash (b_header current)"

text \<open>One iteration: the next state of the walk, or the result with the storage as it then is.\<close>

definition branch_iter ::
  "'d backend \<Rightarrow> ext \<Rightarrow> 'd branch_walk \<Rightarrow> 'd branch_walk + (node_error + candidate_branch) \<times> 'd node_storage" where
  "branch_iter k e w =
     (let current = bw_current w; h = block_hash e current; bytes = saturating_add (bw_bytes w) (block_size current)
      in if h |\<in>| bw_visited w then Inr (Inl (Bail ''candidate rejected: parent cycle detected''), bw_storage w)
      else case node_block_by_number k (h_number (b_header current)) (bw_storage w) of
        (found, s) \<Rightarrow>
          if (case found of Inr canonical \<Rightarrow> block_hash e canonical = h | Inl _ \<Rightarrow> False)
          then Inr (Inr \<lparr>cb_common_height = h_number (b_header (projr found)), cb_common_hash = h,
                         cb_suffix = rev (bw_reversed w)\<rparr>, s)
          else if MAX_CANDIDATE_REPLAY_SUFFIX \<le> length (bw_reversed w) \<or> MAX_CANDIDATE_REPLAY_BYTES < bytes
          then Inr (Inl (Bail ''candidate rejected: branch suffix exceeds live replay limit''), s)
          else (case walk_parent k e current s of
             (Inl err, s) \<Rightarrow> Inr (Inl err, s)
           | (Inr parent, s) \<Rightarrow>
               if not_parent e parent current then Inr (Inl (Bail ''candidate rejected: non-contiguous parent linkage''), s)
               else Inl \<lparr>bw_reversed = bw_reversed w @ [current], bw_bytes = bytes,
                         bw_visited = finsert h (bw_visited w), bw_current = parent, bw_storage = s\<rparr>))"

definition candidate_branch_from_storage :: "'d backend \<Rightarrow> ext \<Rightarrow> block \<Rightarrow> ('d, candidate_branch) node" where
  "candidate_branch_from_storage k e tip s = the (loop_until (branch_iter k e) (branch_start tip s))"

text \<open>The walk against a list of the canonical blocks: a map by hash, built from the list in order.\<close>

definition replacement_iter ::
  "'d backend \<Rightarrow> ext \<Rightarrow> block list \<Rightarrow> 'd branch_walk \<Rightarrow> 'd branch_walk + (node_error + candidate_branch) \<times> 'd node_storage" where
  "replacement_iter k e previous_canonical w =
     (let current = bw_current w; h = block_hash e current
      in if h |\<in>| bw_visited w then Inr (Inl (Bail ''candidate rejected: parent cycle detected''), bw_storage w)
      else case List.find (\<lambda>b. block_hash e b = h) (rev previous_canonical) of
        Some canonical \<Rightarrow>
          if MAX_CANDIDATE_REPLAY_SUFFIX < length (bw_reversed w)
          then Inr (Inl (Bail ''candidate rejected: branch suffix exceeds replay limit''), bw_storage w)
          else Inr (Inr \<lparr>cb_common_height = h_number (b_header canonical), cb_common_hash = block_hash e canonical,
                         cb_suffix = rev (bw_reversed w)\<rparr>, bw_storage w)
      | None \<Rightarrow>
          if MAX_CANDIDATE_REPLAY_SUFFIX < length (bw_reversed w @ [current])
          then Inr (Inl (Bail ''candidate rejected: branch suffix exceeds replay limit''), bw_storage w)
          else (case walk_parent k e current (bw_storage w) of
             (Inl err, s) \<Rightarrow> Inr (Inl err, s)
           | (Inr parent, s) \<Rightarrow>
               if not_parent e parent current then Inr (Inl (Bail ''candidate rejected: non-contiguous parent linkage''), s)
               else Inl (w\<lparr>bw_reversed := bw_reversed w @ [current], bw_visited := finsert h (bw_visited w),
                           bw_current := parent, bw_storage := s\<rparr>)))"

definition candidate_replacement :: "'d backend \<Rightarrow> ext \<Rightarrow> block \<Rightarrow> block list \<Rightarrow> ('d, candidate_branch) node" where
  "candidate_replacement k e tip previous_canonical s =
     the (loop_until (replacement_iter k e previous_canonical) (branch_start tip s))"

definition materialize_candidate_replacement :: "ext \<Rightarrow> candidate_branch \<Rightarrow> block list \<Rightarrow> node_error + block list" where
  "materialize_candidate_replacement e branch canonical =
     (let i = unat (cb_common_height branch) in
      if length canonical \<le> i then Inl (Bail ''candidate common ancestor is absent from canonical storage'')
      else if block_hash e (canonical ! i) \<noteq> cb_common_hash branch
      then Inl (Bail ''candidate common ancestor does not match canonical storage'')
      else Inr (take (Suc i) canonical @ cb_suffix branch))"

fun suffix_linked :: "ext \<Rightarrow> block_header \<Rightarrow> block list \<Rightarrow> bool" where
  "suffix_linked e parent [] \<longleftrightarrow> True"
| "suffix_linked e parent (b # bs) \<longleftrightarrow>
     h_number (b_header b) = saturating_add (h_number parent) 1 \<and> h_parent_hash (b_header b) = header_hash e parent \<and>
     suffix_linked e (b_header b) bs"

definition validate_candidate_branch_shape :: "'d backend \<Rightarrow> ext \<Rightarrow> candidate_branch \<Rightarrow> ('d, unit) node" where
  "validate_candidate_branch_shape k e branch =
     (if cb_suffix branch = [] then sm_err (Bail ''candidate branch is empty'')
      else sm_bind (node_canonical_blocks k) (\<lambda>canonical.
        let i = unat (cb_common_height branch) in
        if length canonical \<le> i then sm_err (Bail ''candidate common ancestor is absent from canonical storage'')
        else if block_hash e (canonical ! i) \<noteq> cb_common_hash branch
        then sm_err (Bail ''candidate common ancestor does not match canonical storage'')
        else if \<not> suffix_linked e (b_header (canonical ! i)) (cb_suffix branch)
        then sm_err (Bail ''candidate rejected: suffix parent linkage is not contiguous'')
        else sm_ok ()))"

section \<open>Work\<close>

definition canonical_work :: "block list \<Rightarrow> u128" where
  "canonical_work bs = fold (\<lambda>b work. saturating_add work (work_for_target (h_difficulty_target (b_header b)))) bs 0"

fun work_through :: "ext \<Rightarrow> hash256 \<Rightarrow> u128 \<Rightarrow> block list \<Rightarrow> u128 option" where
  "work_through e h work [] = None"
| "work_through e h work (b # bs) =
     (let work = saturating_add work (work_for_target (h_difficulty_target (b_header b)))
      in if block_hash e b = h then Some work else work_through e h work bs)"

definition cumulative_work_through :: "ext \<Rightarrow> block list \<Rightarrow> hash256 \<Rightarrow> u128 option" where
  "cumulative_work_through e bs h = work_through e h 0 bs"

definition canonical_work_through_node_storage :: "'d backend \<Rightarrow> u64 \<Rightarrow> ('d, u128) node" where
  "canonical_work_through_node_storage k height =
     sm_fold (\<lambda>number work. sm_bind (of_storage (node_block_by_number k number)) (\<lambda>b.
       sm_ok (saturating_add work (work_for_target (h_difficulty_target (b_header b)))))) (heights 0 height) 0"

definition canonical_work_through_storage :: "'d backend \<Rightarrow> u64 \<Rightarrow> ('d, u128) node_db" where
  "canonical_work_through_storage k height =
     sm_fold (\<lambda>number work. sm_bind (stored (sled_header_by_number k number)) (\<lambda>header.
       sm_ok (saturating_add work (work_for_target (h_difficulty_target header))))) (heights 0 height) 0"


section \<open>The walk ends, and what it returns\<close>

lemma suffix_linked_contiguous:
  "suffix_linked e parent bs \<Longrightarrow>
     contiguous_suffix e parent bs = Inr (if bs = [] then parent else b_header (last bs))"
  by (induction e parent bs rule: suffix_linked.induct) auto

lemma saturating_sum_below:
  fixes a b c :: "'a::len word"
  assumes "saturating_add a b \<le> c" "unat c < 2 ^ LENGTH('a) - 1"
  shows "unat (saturating_add a b) = unat a + unat b"
  using assms by (auto simp: word_le_nat_alt word_nat)

definition walk_ok :: "ext \<Rightarrow> block \<Rightarrow> 'd branch_walk \<Rightarrow> bool" where
  "walk_ok e tip w \<longleftrightarrow>
     hd (bw_reversed w @ [bw_current w]) = tip \<and>
     suffix_linked e (b_header (bw_current w)) (rev (bw_reversed w)) \<and>
     length (bw_reversed w) \<le> MAX_CANDIDATE_REPLAY_SUFFIX \<and>
     fset (bw_visited w) = block_hash e ` set (bw_reversed w) \<and> distinct (map (block_hash e) (bw_reversed w))"

definition walk_bytes_ok :: "'d branch_walk \<Rightarrow> bool" where
  "walk_bytes_ok w \<longleftrightarrow>
     unat (bw_bytes w) = (\<Sum>b\<leftarrow>bw_reversed w. unat (block_size b)) \<and> bw_bytes w \<le> MAX_CANDIDATE_REPLAY_BYTES"

lemma branch_start_ok: "walk_ok e tip (branch_start tip s)" "walk_bytes_ok (branch_start tip s)"
  by (simp_all add: walk_ok_def walk_bytes_ok_def branch_start_def)

lemma walk_ok_push:
  assumes "walk_ok e tip w" "block_hash e (bw_current w) |\<notin>| bw_visited w" "\<not> not_parent e parent (bw_current w)"
    and "bw_reversed w' = bw_reversed w @ [bw_current w]" "bw_visited w' = finsert (block_hash e (bw_current w)) (bw_visited w)"
    and "bw_current w' = parent" "length (bw_reversed w') \<le> MAX_CANDIDATE_REPLAY_SUFFIX"
  shows "walk_ok e tip w'"
  using assms by (auto simp: walk_ok_def not_parent_def block_hash_def hd_append)

definition branch_of_tip :: "ext \<Rightarrow> block \<Rightarrow> candidate_branch \<Rightarrow> bool" where
  "branch_of_tip e tip branch \<longleftrightarrow>
     (\<exists>ancestor. header_hash e ancestor = cb_common_hash branch \<and>
        contiguous_suffix e ancestor (cb_suffix branch) = Inr (b_header tip)) \<and>
     length (cb_suffix branch) \<le> MAX_CANDIDATE_REPLAY_SUFFIX \<and>
     distinct (cb_common_hash branch # map (block_hash e) (cb_suffix branch)) \<and>
     (cb_suffix branch = [] \<or> last (cb_suffix branch) = tip)"

lemma walk_ok_branch:
  assumes "walk_ok e tip w" "block_hash e (bw_current w) |\<notin>| bw_visited w"
    and "cb_common_hash branch = block_hash e (bw_current w)" "cb_suffix branch = rev (bw_reversed w)"
  shows "branch_of_tip e tip branch"
proof -
  have "contiguous_suffix e (b_header (bw_current w)) (cb_suffix branch) = Inr (b_header tip)"
    using assms suffix_linked_contiguous [of e "b_header (bw_current w)" "rev (bw_reversed w)"]
    by (cases "bw_reversed w") (auto simp: walk_ok_def last_rev)
  then show ?thesis
    using assms by (auto simp: branch_of_tip_def walk_ok_def block_hash_def rev_map [symmetric] last_rev hd_append)
qed

lemma branch_iter_next:
  assumes "branch_iter k e w = Inl w'"
  shows "block_hash e (bw_current w) |\<notin>| bw_visited w"
    and "length (bw_reversed w) < MAX_CANDIDATE_REPLAY_SUFFIX"
    and "\<not> not_parent e (bw_current w') (bw_current w)"
    and "bw_reversed w' = bw_reversed w @ [bw_current w]"
    and "bw_visited w' = finsert (block_hash e (bw_current w)) (bw_visited w)"
    and "bw_bytes w' = saturating_add (bw_bytes w) (block_size (bw_current w))"
    and "bw_bytes w' \<le> MAX_CANDIDATE_REPLAY_BYTES"
  using assms unfolding branch_iter_def Let_def
  by (auto split: if_splits prod.splits sum.splits)

lemma branch_iter_result:
  assumes "branch_iter k e w = Inr (Inr branch, t)"
  shows "block_hash e (bw_current w) |\<notin>| bw_visited w"
    and "cb_common_hash branch = block_hash e (bw_current w)" and "cb_suffix branch = rev (bw_reversed w)"
    and "\<exists>canonical. node_block_by_number k (h_number (b_header (bw_current w))) (bw_storage w) = (Inr canonical, t) \<and>
      block_hash e canonical = cb_common_hash branch \<and> h_number (b_header canonical) = cb_common_height branch"
  using assms unfolding branch_iter_def Let_def
  by (auto split: if_splits prod.splits sum.splits)

lemma replacement_iter_next:
  assumes "replacement_iter k e previous w = Inl w'"
  shows "block_hash e (bw_current w) |\<notin>| bw_visited w"
    and "length (bw_reversed w) < MAX_CANDIDATE_REPLAY_SUFFIX"
    and "\<not> not_parent e (bw_current w') (bw_current w)"
    and "bw_reversed w' = bw_reversed w @ [bw_current w]"
    and "bw_visited w' = finsert (block_hash e (bw_current w)) (bw_visited w)"
  using assms unfolding replacement_iter_def Let_def
  by (auto split: if_splits prod.splits sum.splits option.splits)

lemma replacement_iter_result:
  assumes "replacement_iter k e previous w = Inr (Inr branch, t)"
  shows "block_hash e (bw_current w) |\<notin>| bw_visited w"
    and "cb_common_hash branch = block_hash e (bw_current w)" and "cb_suffix branch = rev (bw_reversed w)"
  using assms unfolding replacement_iter_def Let_def
  by (auto split: if_splits prod.splits sum.splits option.splits dest: find_eq_Some_sat)

definition branch_result :: "'d backend \<Rightarrow> ext \<Rightarrow> block \<Rightarrow> candidate_branch \<Rightarrow> 'd node_storage \<Rightarrow> bool" where
  "branch_result k e tip branch t \<longleftrightarrow> branch_of_tip e tip branch \<and>
     (\<Sum>b\<leftarrow>cb_suffix branch. unat (block_size b)) \<le> 268435456 \<and>
     (\<exists>number canonical u. node_block_by_number k number u = (Inr canonical, t) \<and>
        block_hash e canonical = cb_common_hash branch \<and> h_number (b_header canonical) = cb_common_height branch)"

lemma branch_iter_good:
  assumes w: "walk_ok e tip w" "walk_bytes_ok w" and run: "branch_iter k e w = Inr (Inr branch, t)"
  shows "branch_result k e tip branch t"
proof -
  note r = branch_iter_result [OF run]
  have "branch_of_tip e tip branch" using walk_ok_branch [OF w(1) r(1-3)] .
  moreover have "(\<Sum>b\<leftarrow>cb_suffix branch. unat (block_size b)) \<le> 268435456"
    using w by (simp add: r(3) walk_bytes_ok_def rev_map [symmetric] word_le_nat_alt blq_consts)
  moreover have "\<exists>number canonical u. node_block_by_number k number u = (Inr canonical, t) \<and>
      block_hash e canonical = cb_common_hash branch \<and> h_number (b_header canonical) = cb_common_height branch"
    by (rule exI, rule exE [OF r(4)], rule exI, rule exI)
  ultimately show ?thesis by (simp only: branch_result_def)
qed

lemma branch_iter_keeps:
  assumes w: "walk_ok e tip w" "walk_bytes_ok w" and run: "branch_iter k e w = Inl w'"
  shows "walk_ok e tip w'" "walk_bytes_ok w'" "length (bw_reversed w) < length (bw_reversed w')"
    "length (bw_reversed w) < MAX_CANDIDATE_REPLAY_SUFFIX"
proof -
  note n = branch_iter_next [OF run]
  have "length (bw_reversed w') \<le> MAX_CANDIDATE_REPLAY_SUFFIX" using n(2) by (simp add: n(4))
  then show "walk_ok e tip w'" using walk_ok_push [OF w(1) n(1,3,4,5) refl] by simp
  have "unat (bw_bytes w') = unat (bw_bytes w) + unat (block_size (bw_current w))"
    unfolding n(6) by (rule saturating_sum_below [OF n(7) [unfolded n(6)]]) (simp add: MAX_CANDIDATE_REPLAY_BYTES_def)
  then show "walk_bytes_ok w'" using w n(7) by (simp add: walk_bytes_ok_def n(4))
  show "length (bw_reversed w) < length (bw_reversed w')" by (simp add: n(4))
  show "length (bw_reversed w) < MAX_CANDIDATE_REPLAY_SUFFIX" by (rule n(2))
qed

lemma branch_loop_ends:
  "\<exists>x. loop_until (branch_iter k e) (branch_start tip s) = Some x \<and>
    (\<forall>branch t. x = (Inr branch, t) \<longrightarrow> branch_result k e tip branch t)"
proof (rule loop_until_ends [where m = "\<lambda>w. Suc MAX_CANDIDATE_REPLAY_SUFFIX - length (bw_reversed w)"
      and I = "\<lambda>w. walk_ok e tip w \<and> walk_bytes_ok w"
      and Q = "\<lambda>x. \<forall>branch t. x = (Inr branch, t) \<longrightarrow> branch_result k e tip branch t"], goal_cases)
  case 1
  show ?case by (simp add: branch_start_ok)
next
  case (2 w w')
  then show ?case using branch_iter_keeps [of e tip w k w'] by simp
next
  case (3 w x)
  then show ?case using branch_iter_good [of e tip w k] by simp
qed

lemma branch_tip_last:
  assumes "candidate_branch_from_storage k e tip s = (Inr branch, t)"
  shows "cb_suffix branch = [] \<or> last (cb_suffix branch) = tip"
proof -
  obtain x where "loop_until (branch_iter k e) (branch_start tip s) = Some x"
      "\<And>branch t. x = (Inr branch, t) \<Longrightarrow> branch_result k e tip branch t"
    using branch_loop_ends [of k e tip s] by blast
  with assms show ?thesis by (simp add: candidate_branch_from_storage_def branch_result_def branch_of_tip_def)
qed

text \<open>
  C4. The walk from a competing tip to the canonical chain ends, whatever the storage answers, after
  at most 8192 blocks and 256 MiB.  A branch it returns starts at a block that the storage has at
  its height on the canonical chain, is linked from there to the tip, passes the contiguity check of
  the suffix publication, and holds no block twice.
\<close>

theorem branch_walk_ends:
  "\<exists>r t. loop_until (branch_iter k e) (branch_start tip s) = Some (r, t) \<and> candidate_branch_from_storage k e tip s = (r, t) \<and>
    (\<forall>branch. r = Inr branch \<longrightarrow>
      (\<exists>ancestor. header_hash e ancestor = cb_common_hash branch \<and>
         contiguous_suffix e ancestor (cb_suffix branch) = Inr (b_header tip)) \<and>
      length (cb_suffix branch) \<le> 8192 \<and> (\<Sum>b\<leftarrow>cb_suffix branch. unat (block_size b)) \<le> 268435456 \<and>
      distinct (cb_common_hash branch # map (block_hash e) (cb_suffix branch)) \<and>
      (\<exists>number canonical u. node_block_by_number k number u = (Inr canonical, t) \<and>
         block_hash e canonical = cb_common_hash branch \<and> h_number (b_header canonical) = cb_common_height branch))"
proof -
  obtain r t where rt: "loop_until (branch_iter k e) (branch_start tip s) = Some (r, t)"
      and good: "\<And>branch. r = Inr branch \<Longrightarrow> branch_result k e tip branch t"
    using branch_loop_ends [of k e tip s] by (metis prod.exhaust)
  have run: "candidate_branch_from_storage k e tip s = (r, t)" by (simp add: candidate_branch_from_storage_def rt)
  show ?thesis
    by (rule exI, rule exI, rule conjI [OF rt], rule conjI [OF run])
      (use good in \<open>simp add: branch_result_def branch_of_tip_def MAX_CANDIDATE_REPLAY_SUFFIX_def\<close>)
qed

lemma replacement_iter_keeps:
  assumes w: "walk_ok e tip w" and run: "replacement_iter k e previous w = Inl w'"
  shows "walk_ok e tip w'" "length (bw_reversed w) < length (bw_reversed w')"
    "length (bw_reversed w) < MAX_CANDIDATE_REPLAY_SUFFIX"
proof -
  note n = replacement_iter_next [OF run]
  have "length (bw_reversed w') \<le> MAX_CANDIDATE_REPLAY_SUFFIX" using n(2) by (simp add: n(4))
  then show "walk_ok e tip w'" using walk_ok_push [OF w n(1,3,4,5) refl] by simp
  show "length (bw_reversed w) < length (bw_reversed w')" by (simp add: n(4))
  show "length (bw_reversed w) < MAX_CANDIDATE_REPLAY_SUFFIX" by (rule n(2))
qed

lemma replacement_walk_ends:
  "\<exists>x. loop_until (replacement_iter k e previous) (branch_start tip s) = Some x \<and>
    (\<forall>branch t. x = (Inr branch, t) \<longrightarrow> branch_of_tip e tip branch)"
proof (rule loop_until_ends [where m = "\<lambda>w. Suc MAX_CANDIDATE_REPLAY_SUFFIX - length (bw_reversed w)"
      and I = "walk_ok e tip"
      and Q = "\<lambda>x. \<forall>branch t. x = (Inr branch, t) \<longrightarrow> branch_of_tip e tip branch"], goal_cases)
  case 1
  show ?case by (rule branch_start_ok)
next
  case (2 w w')
  then show ?case using replacement_iter_keeps [of e tip w k previous w'] by simp
next
  case (3 w x)
  then show ?case using replacement_iter_result [of k e previous w] walk_ok_branch [of e tip w] by simp
qed

definition demo_branch_tip :: block where
  "demo_branch_tip = demo_empty_block\<lparr>b_header := (b_header demo_empty_block)\<lparr>h_number := 1,
     h_parent_hash := block_hash demo_ext demo_empty_block\<rparr>\<rparr>"

definition demo_branch_store :: "disk node_storage" where
  "demo_branch_store = node_storage.Full (on_kv (\<lambda>_. demo_inserted) empty_store)"

lemma scan_entries_single:
  assumes "\<And>key v. (key, v) \<in> set (scan_entries p m) \<longleftrightarrow> key = x \<and> v = y"
  shows "scan_entries p m = [(x, y)]"
proof -
  have d: "distinct (scan_entries p m)"
    unfolding scan_entries_def by (rule distinct_filter) (metis distinct_fm_entries distinct_map)
  have "set (scan_entries p m) = {(x, y)}" using assms by auto
  with d show ?thesis by (metis distinct_singleton list.set(1,2) set_eq_iff_mset_eq_distinct mset_single_iff_right mset.simps)
qed

lemma demo_inserted_scans:
  "scan_entries (as_bytes ''block:number:'') demo_inserted = [(block_key 0, [0])]"
  "scan_entries (as_bytes ''recovery:'') demo_inserted = []"
proof -
  show "scan_entries (as_bytes ''block:number:'') demo_inserted = [(block_key 0, [0])]"
    by (rule scan_entries_single)
      (use demo_hex_text_spec in \<open>auto simp: scan_entry demo_inserted_def key_folds [where e = demo_ext] split: if_splits\<close>)
  have not_recovery: "\<not> prefix (as_bytes ''recovery:'') (key_bytes demo_ext dk)"
    if "dk \<in> {BlockAt 0, HeaderAt 0, BestNumber, RewardsIndexedTo}" for dk
    using that by (auto simp: key_bytes_def prefix_as_bytes)
  have "(key, v) \<notin> set (scan_entries (as_bytes ''recovery:'') demo_inserted)" for key v
    using demo_hex_text_spec not_recovery
    by (auto simp: scan_entry demo_inserted_def key_folds [where e = demo_ext] split: if_splits)
  then show "scan_entries (as_bytes ''recovery:'') demo_inserted = []"
    by (metis list.set_intros(1) neq_Nil_conv surj_pair)
qed

lemma demo_branch_decode: "js_block_of demo_full_db [0] = Inr demo_empty_block"
  by (simp add: demo_full_db_def table_codec_def demo_untable_def)

lemma demo_branch_reads:
  "node_block_by_number demo_full_db 0 demo_branch_store = (Inr demo_empty_block, demo_branch_store)"
  "node_block_by_number demo_full_db 1 demo_branch_store = (Inl NotFound, demo_branch_store)"
  using demo_hex_text_spec
  by (simp_all add: node_block_by_number_def on_storage_def demo_branch_store_def sled_block_by_number_def sm_bind_def demo_run
      demo_inserted_def res_simps demo_branch_decode key_folds [where e = demo_ext])

lemma demo_branch_parent: "walk_parent demo_full_db demo_ext demo_branch_tip demo_branch_store = (Inr demo_empty_block, demo_branch_store)"
proof -
  let ?s = "on_kv (\<lambda>_. demo_inserted) empty_store" and ?h = "block_hash demo_ext demo_empty_block"
  have "fmlookup demo_inserted (as_bytes (recovery_hash_key demo_ext ?h)) = None"
    using demo_hex_text_spec by (simp add: demo_inserted_def key_folds [where e = demo_ext])
  then have "recovery_block_by_hash demo_full_db demo_ext ?h ?s = (Inl NotFound, ?s)"
    by (simp add: recovery_block_by_hash_def find_and_index_recovery_block_def scan_find_def sm_bind_def demo_run Let_def
        demo_inserted_scans)
  moreover have "canonical_blocks demo_full_db ?s = (Inr [demo_empty_block], ?s)"
    by (simp add: canonical_blocks_def scan_fold_def sm_bind_def demo_run demo_inserted_scans scan_item_def
        demo_branch_decode res_simps sort_by_def)
  then have "block_by_hash demo_full_db demo_ext ?h ?s = (Inr demo_empty_block, ?s)"
    by (simp add: block_by_hash_def sm_bind_def demo_run block_hash_def)
  ultimately show ?thesis
    by (simp add: walk_parent_def or_try_def recovery_spool_block_by_hash_def node_block_by_hash_def full_only_def
        on_storage_def demo_branch_store_def stored_def sm_map_err_def sm_bind_def demo_run demo_branch_tip_def)
qed

lemma demo_tip_size: "block_size demo_branch_tip \<le> MAX_CANDIDATE_REPLAY_BYTES"
proof -
  have "length (block_canonical_bytes demo_branch_tip) = 328"
    by (simp add: block_canonical_bytes_def u64_code.width length_header_bytes demo_branch_tip_def demo_empty_block_def
        genesis_header_def DEFAULT_POW_ALGORITHM_def demo_ext_def)
  then show ?thesis by (simp add: block_size_def MAX_CANDIDATE_REPLAY_BYTES_def)
qed

lemma demo_tip_hash: "block_hash demo_ext demo_empty_block \<noteq> block_hash demo_ext demo_branch_tip"
proof
  have sha: "x_sha256 demo_ext = demo_digest" by (simp add: demo_ext_def)
  have parent: "arr_bytes (header_hash demo_ext h) ! 15 = arr_bytes (h_parent_hash h) ! 7" for h
    by (simp add: header_hash_def hash_bytes_def sha demo_digest_def nth_append
        header_canonical_bytes_def header_common_bytes_def put_hash_def)
  have len: "length (header_canonical_bytes (b_header demo_empty_block)) = 312"
    by (simp add: length_header_bytes demo_empty_block_def genesis_header_def DEFAULT_POW_ALGORITHM_def demo_ext_def)
  have byte: "to_be_bytes (312 :: u64) ! 7 = 56" by code_simp
  have "arr_bytes (block_hash demo_ext demo_empty_block) ! 7 = 56"
    by (simp add: block_hash_def header_hash_def hash_bytes_def sha demo_digest_def nth_append len byte)
  moreover have "h_parent_hash (b_header demo_branch_tip) = block_hash demo_ext demo_empty_block"
      "h_parent_hash (b_header demo_empty_block) = arr_rep 0"
    by (simp_all add: demo_branch_tip_def) (simp add: demo_empty_block_def genesis_header_def ZERO_HASH_def)
  moreover assume "block_hash demo_ext demo_empty_block = block_hash demo_ext demo_branch_tip"
  ultimately show False
    using parent [of "b_header demo_branch_tip"] parent [of "b_header demo_empty_block"] by (simp add: block_hash_def)
qed

theorem branch_walk_ends_witness:
  "candidate_branch_from_storage demo_full_db demo_ext demo_branch_tip demo_branch_store =
     (Inr \<lparr>cb_common_height = 0, cb_common_hash = block_hash demo_ext demo_empty_block, cb_suffix = [demo_branch_tip]\<rparr>, demo_branch_store) \<and>
   (\<exists>ancestor. header_hash demo_ext ancestor = block_hash demo_ext demo_empty_block \<and>
     contiguous_suffix demo_ext ancestor [demo_branch_tip] = Inr (b_header demo_branch_tip))"
proof -
  let ?k = demo_full_db and ?e = demo_ext and ?s = demo_branch_store
  let ?w = "\<lparr>bw_reversed = [demo_branch_tip], bw_bytes = block_size demo_branch_tip,
    bw_visited = {|block_hash ?e demo_branch_tip|}, bw_current = demo_empty_block, bw_storage = ?s\<rparr>"
  have zero: "saturating_add 0 x = x" "saturating_add (0 :: u64) 1 = 1" for x :: u64
    using unat_lt_len [of x] by (simp_all add: word_unat_eq_iff word_nat)
  have n: "h_number (b_header demo_branch_tip) = 1" "h_number (b_header demo_empty_block) = 0"
    "h_parent_hash (b_header demo_branch_tip) = block_hash ?e demo_empty_block"
    by (simp_all add: demo_branch_tip_def demo_empty_block_def genesis_header_def)
  have "branch_iter ?k ?e (branch_start demo_branch_tip ?s) = Inl ?w"
    using demo_tip_size zero by (simp add: branch_iter_def branch_start_def Let_def n demo_branch_reads demo_branch_parent not_parent_def
        MAX_CANDIDATE_REPLAY_SUFFIX_def)
  moreover have "branch_iter ?k ?e ?w = Inr (Inr \<lparr>cb_common_height = 0, cb_common_hash = block_hash ?e demo_empty_block,
      cb_suffix = [demo_branch_tip]\<rparr>, ?s)"
    using demo_tip_hash by (simp add: branch_iter_def Let_def n demo_branch_reads)
  ultimately have run: "candidate_branch_from_storage ?k ?e demo_branch_tip ?s =
      (Inr \<lparr>cb_common_height = 0, cb_common_hash = block_hash ?e demo_empty_block, cb_suffix = [demo_branch_tip]\<rparr>, ?s)"
    by (simp add: candidate_branch_from_storage_def loop_until_unfold [of _ "branch_start demo_branch_tip ?s"] loop_until_unfold [of _ ?w])
  then show ?thesis using branch_walk_ends [of ?k ?e demo_branch_tip ?s] by simp
qed

end
