(* ===== verification/Snapshots.thy ===== *)
theory Snapshots
  imports Branch
begin

text \<open>
  \<open>crates/blq-storage/src/lib.rs\<close>, the snapshot files of a generation: a compact execution snapshot
  (the accounts at a height) and the older full snapshot that also holds every entry of the
  database.  The listing of the directory and the JSON forms of the two records are parameters; a
  file is written under a temporary name and renamed.
\<close>

record generation_snapshot =
  gs_execution :: execution_snapshot
  gs_entries :: "(bytes \<times> bytes) list"

text \<open>\<open>read_dir\<close> may fail as a whole and at every entry.\<close>

record 'd snapshot_files =
  sf_exists :: "'d \<Rightarrow> bool"
  sf_names :: "'d \<Rightarrow> string + (string + string) list"
  sf_exec :: "execution_snapshot \<Rightarrow> string + bytes"
  sf_exec_of :: "bytes \<Rightarrow> string + execution_snapshot"
  sf_gen :: "generation_snapshot \<Rightarrow> string + bytes"
  sf_gen_of :: "bytes \<Rightarrow> string + generation_snapshot"

definition SNAPSHOT_PREFIX :: string where "SNAPSHOT_PREFIX = ''snapshot-''"
definition EXECUTION_SNAPSHOT_PREFIX :: string where "EXECUTION_SNAPSHOT_PREFIX = ''execution-snapshot-''"

definition snapshot_path :: "u64 \<Rightarrow> string" where
  "snapshot_path height = SNAPSHOT_PREFIX @ pad20 height @ ''.json''"

definition execution_snapshot_path :: "u64 \<Rightarrow> string" where
  "execution_snapshot_path height = EXECUTION_SNAPSHOT_PREFIX @ pad20 height @ ''.json''"

section \<open>Writing\<close>

definition file_rename :: "'d backend \<Rightarrow> string \<Rightarrow> string + bytes \<Rightarrow> ('d, unit) db" where
  "file_rename k f bytes =
     sm_bind (json bytes) (\<lambda>bs.
     sm_seq (db_upd (fs_create_dir_all k))
    (sm_seq (db_upd (fs_write k (f @ ''.tmp'') bs))
     (db_upd (fs_rename k (f @ ''.tmp'') f))))"

definition write_execution_snapshot :: "'d snapshot_files \<Rightarrow> 'd backend \<Rightarrow> execution_snapshot \<Rightarrow> ('d, unit) db" where
  "write_execution_snapshot z k snapshot =
     file_rename k (execution_snapshot_path (xs_height snapshot)) (sf_exec z snapshot)"

definition create_execution_snapshot ::
  "'d snapshot_files \<Rightarrow> 'd backend \<Rightarrow> ext \<Rightarrow> u64 \<Rightarrow> u64 \<Rightarrow> hash256 \<Rightarrow> string \<Rightarrow> u64 \<Rightarrow> ('d, unit) db" where
  "create_execution_snapshot z k e generation_id height hash profile finalized =
     sm_bind (sled_block_by_number k height) (\<lambda>b.
     if header_hash e (b_header b) \<noteq> hash
     then sm_err (Serialization ''execution snapshot block hash does not match canonical storage'')
     else sm_bind (account_snapshot k e) (\<lambda>native_accounts.
       sm_bind (sled_evm_account_snapshot k e) (\<lambda>evm_accounts.
       write_execution_snapshot z k
         \<lparr>xs_generation_id = generation_id, xs_height = height, xs_block_hash = hash,
          xs_state_root = h_state_root (b_header b), xs_profile_fingerprint = profile,
          xs_finalized_height = finalized, xs_native_accounts = native_accounts, xs_evm_accounts = evm_accounts\<rparr>)))"

definition write_snapshot :: "'d snapshot_files \<Rightarrow> 'd backend \<Rightarrow> generation_snapshot \<Rightarrow> ('d, unit) db" where
  "write_snapshot z k snapshot =
     file_rename k (snapshot_path (xs_height (gs_execution snapshot))) (sf_gen z snapshot)"

definition create_snapshot ::
  "'d snapshot_files \<Rightarrow> 'd backend \<Rightarrow> ext \<Rightarrow> u64 \<Rightarrow> u64 \<Rightarrow> hash256 \<Rightarrow> string \<Rightarrow> u64 \<Rightarrow> ('d, unit) db" where
  "create_snapshot z k e generation_id height hash profile finalized =
     sm_bind (sled_block_by_number k height) (\<lambda>b.
     if header_hash e (b_header b) \<noteq> hash
     then sm_err (Serialization ''snapshot block hash does not match canonical storage'')
     else sm_bind (account_snapshot k e) (\<lambda>native_accounts.
       sm_bind (sled_evm_account_snapshot k e) (\<lambda>evm_accounts.
       sm_bind (scan_fold k [] (\<lambda>entry entries. sm_ok (entries @ [entry])) []) (\<lambda>entries.
       write_snapshot z k
         \<lparr>gs_execution = \<lparr>xs_generation_id = generation_id, xs_height = height, xs_block_hash = hash,
            xs_state_root = h_state_root (b_header b), xs_profile_fingerprint = profile,
            xs_finalized_height = finalized, xs_native_accounts = native_accounts, xs_evm_accounts = evm_accounts\<rparr>,
          gs_entries = entries\<rparr>))))"

section \<open>Reading\<close>

definition load_execution_snapshot :: "'d snapshot_files \<Rightarrow> 'd backend \<Rightarrow> string \<Rightarrow> ('d, execution_snapshot) db" where
  "load_execution_snapshot z k f =
     sm_bind (file_read k f) (\<lambda>bs.
     sm_lift (res_map_err (\<lambda>err. Serialization (''invalid execution snapshot: '' @ err)) (sf_exec_of z bs)))"

definition load_snapshot :: "'d snapshot_files \<Rightarrow> 'd backend \<Rightarrow> string \<Rightarrow> ('d, generation_snapshot) db" where
  "load_snapshot z k f =
     sm_bind (file_read k f) (\<lambda>bs.
     sm_lift (res_map_err (\<lambda>err. Serialization (''invalid generation snapshot: '' @ err)) (sf_gen_of z bs)))"

definition read_dir :: "'d snapshot_files \<Rightarrow> ('d, (string + string) list) db" where
  "read_dir z = sm_gets (\<lambda>s. res_map_err Io (sf_names z (sl_db s)))"

definition latest_snapshot_at_or_before ::
  "'d snapshot_files \<Rightarrow> 'd backend \<Rightarrow> u64 \<Rightarrow> string \<Rightarrow> ('d, generation_snapshot option) db" where
  "latest_snapshot_at_or_before z k height expected_profile =
     (\<lambda>s. if \<not> sf_exists z (sl_db s) then (Inr None, s)
      else sm_bind (read_dir z) (\<lambda>entries.
        sm_bind (sm_fold (\<lambda>entry candidates.
          sm_bind (sm_lift (res_map_err Io entry)) (\<lambda>name.
          if \<not> prefix SNAPSHOT_PREFIX name \<or> \<not> suffix ''.json'' name then sm_ok candidates
          else sm_bind (load_snapshot z k name) (\<lambda>snapshot.
            sm_ok (if xs_height (gs_execution snapshot) \<le> height \<and>
                 xs_profile_fingerprint (gs_execution snapshot) = expected_profile
               then candidates @ [snapshot] else candidates)))) entries []) (\<lambda>candidates.
        sm_ok (case sort_by (\<lambda>a b. xs_height (gs_execution b) \<le> xs_height (gs_execution a)) candidates of
            [] \<Rightarrow> None | snapshot # _ \<Rightarrow> Some snapshot))) s)"

definition strip_prefix_text :: "string \<Rightarrow> string \<Rightarrow> string option" where
  "strip_prefix_text p s = (if prefix p s then Some (drop (length p) s) else None)"

definition strip_suffix_text :: "string \<Rightarrow> string \<Rightarrow> string option" where
  "strip_suffix_text p s = (if suffix p s then Some (take (length s - length p) s) else None)"

definition snapshot_height :: "string \<Rightarrow> u64" where
  "snapshot_height name =
     (case Option.bind (Option.bind (or_else (strip_prefix_text EXECUTION_SNAPSHOT_PREFIX name) (strip_prefix_text SNAPSHOT_PREFIX name))
         (strip_suffix_text ''.json'')) parse_u64 of
        Some height \<Rightarrow> height | None \<Rightarrow> 0)"

definition newest_first :: "string list \<Rightarrow> string list" where
  "newest_first = sort_by (\<lambda>a b. snapshot_height b \<le> snapshot_height a)"

fun first_usable :: "'d snapshot_files \<Rightarrow> 'd backend \<Rightarrow> u64 \<Rightarrow> string \<Rightarrow> string list \<Rightarrow> ('d, execution_snapshot option) db" where
  "first_usable z k height expected_profile [] = sm_ok None"
| "first_usable z k height expected_profile (f # fs) =
     sm_bind (load_execution_snapshot z k f) (\<lambda>snapshot.
     if xs_height snapshot \<le> height \<and> xs_profile_fingerprint snapshot = expected_profile then sm_ok (Some snapshot)
     else first_usable z k height expected_profile fs)"

text \<open>The execution snapshots come before the older ones, each group by descending height.\<close>

definition latest_execution_snapshot_at_or_before ::
  "'d snapshot_files \<Rightarrow> 'd backend \<Rightarrow> u64 \<Rightarrow> string \<Rightarrow> ('d, execution_snapshot option) db" where
  "latest_execution_snapshot_at_or_before z k height expected_profile =
     (\<lambda>s. if \<not> sf_exists z (sl_db s) then (Inr None, s)
      else sm_bind (read_dir z) (\<lambda>entries.
        sm_bind (sm_fold (\<lambda>entry (execution, legacy).
          sm_bind (sm_lift (res_map_err Io entry)) (\<lambda>name.
          sm_ok (if \<not> suffix ''.json'' name then (execution, legacy)
            else if prefix EXECUTION_SNAPSHOT_PREFIX name then (execution @ [name], legacy)
            else if prefix SNAPSHOT_PREFIX name then (execution, legacy @ [name])
            else (execution, legacy)))) entries ([], [])) (\<lambda>(execution, legacy).
        first_usable z k height expected_profile (newest_first execution @ newest_first legacy))) s)"

text \<open>The periodic snapshot of the running node; the active generation is read from its file.\<close>

definition EXECUTION_SNAPSHOT_INTERVAL :: u64 where [blq_consts]: "EXECUTION_SNAPSHOT_INTERVAL = 256"

definition write_periodic_snapshot ::
  "storage_error + u64 option \<Rightarrow> storage_error + unit \<Rightarrow> 'd snapshot_files \<Rightarrow> node_section \<Rightarrow> 'd backend \<Rightarrow> ext \<Rightarrow> ('d, unit) node" where
  "write_periodic_snapshot active prune z config k e =
     (if \<not> ns_retain_snapshots config then sm_ok ()
      else sm_bind (of_storage (node_best_header k)) (\<lambda>best.
        if h_number best = 0 \<or> h_number best mod EXECUTION_SNAPSHOT_INTERVAL \<noteq> 0 then sm_ok ()
        else (\<lambda>s. case s of
            Partial _ \<Rightarrow> (Inr (), s)
          | node_storage.Full _ \<Rightarrow>
              sm_bind (sm_lift (res_map_err OfStorage active)) (\<lambda>active.
              case active of
                None \<Rightarrow> sm_ok ()
              | Some generation_id \<Rightarrow>
                  sm_bind (configured_genesis_hash k e) (\<lambda>genesis_hash.
                  sm_seq (full_or () (create_execution_snapshot z k e generation_id (h_number best) (header_hash e best)
                    (consensus_profile_for_genesis e genesis_hash) (finalized_height (h_number best))))
                    (sm_lift (res_map_err OfStorage prune)))) s)))"

end
