(* ===== verification/Import.thy ===== *)
theory Import
  imports Snapshots Mempool
begin

text \<open>
  \<open>crates/blq-node/src/main.rs\<close>, the import of blocks: network blocks and headers, orphans, competing
  tips, blocks of a recovery, and the publication of a candidate branch.  Between two sections that
  hold the storage mutex other threads may run; what they do to the storage is an arbitrary function
  of the environment.  Clock, memory limits, free space and the housekeeping of other generation
  directories are read from the environment too.
\<close>

section \<open>The environment\<close>

type_synonym cgroup = "string option \<times> string option \<times> string option"

record 'd host =
  ho_clock :: "u64 option"
  ho_cgroup :: "nat \<Rightarrow> cgroup"
  ho_others :: "nat \<Rightarrow> 'd node_storage \<Rightarrow> 'd node_storage"
  ho_finalized :: "node_error + u64 option"
  ho_housekeeping :: "storage_error + unit"
  ho_free :: "u64 option \<times> u64 option"
  ho_partial_usage :: "storage_error + u64"
  ho_file_write :: "storage_error + unit"
  ho_display :: "node_error \<Rightarrow> string"
  ho_fresh :: "node_error + 'd sled_storage"
  ho_cleanup :: "string + unit"
  ho_files :: "'d snapshot_files"

text \<open>Taking the mutex again: the other threads have run meanwhile.\<close>

definition relock :: "'d host \<Rightarrow> nat \<Rightarrow> ('d, unit) node" where
  "relock ho i s = (Inr (), ho_others ho i s)"

definition MIN_CANDIDATE_REPLAY_MEMORY_HEADROOM_BYTES :: u64 where
  [blq_consts]: "MIN_CANDIDATE_REPLAY_MEMORY_HEADROOM_BYTES = 768 * 1024 * 1024"

definition white_space :: "char \<Rightarrow> bool" where
  "white_space ch \<longleftrightarrow> of_char ch \<in> {9, 10, 11, 12, 13, 32 :: nat}"

definition parse_cgroup_memory_limit :: "string \<Rightarrow> u64 option" where
  "parse_cgroup_memory_limit contents =
     (let text = rev (dropWhile white_space (rev (dropWhile white_space contents)))
      in if text = [] \<or> text = ''max'' then None else parse_u64 text)"

definition candidate_replay_memory_headroom_available :: "u64 option \<Rightarrow> u64 option \<Rightarrow> u64 option \<Rightarrow> bool" where
  "candidate_replay_memory_headroom_available current high maximum =
     (let limit = (case (high, maximum) of
            (Some h, Some m) \<Rightarrow> Some (min h m)
          | (Some l, None) \<Rightarrow> Some l
          | (None, Some l) \<Rightarrow> Some l
          | (None, None) \<Rightarrow> None)
      in case (current, limit) of
           (Some c, Some l) \<Rightarrow> saturating_add c MIN_CANDIDATE_REPLAY_MEMORY_HEADROOM_BYTES \<le> l
         | _ \<Rightarrow> True)"

definition ensure_candidate_replay_memory_headroom :: "cgroup \<Rightarrow> node_error + unit" where
  "ensure_candidate_replay_memory_headroom = (\<lambda>(current, high, maximum).
     let limit = (\<lambda>file. Option.bind file parse_cgroup_memory_limit) in
     ensure (candidate_replay_memory_headroom_available (limit current) (limit high) (limit maximum))
       (Bail (''candidate replay deferred: cgroup memory headroom is below '' @
         dec_string (unat MIN_CANDIDATE_REPLAY_MEMORY_HEADROOM_BYTES) @ '' bytes'')))"

section \<open>The storage cap\<close>

definition prune_floor :: "'d host \<Rightarrow> node_section \<Rightarrow> node_error + u64" where
  "prune_floor ho config =
     (if \<not> ns_retain_finalized_checkpoints config then Inr 0
      else res_bind (ho_finalized ho) (\<lambda>h. Inr (case h of Some n \<Rightarrow> n | None \<Rightarrow> 0)))"

definition prune_to_floor :: "'d host \<Rightarrow> node_section \<Rightarrow> 'd backend \<Rightarrow> ext \<Rightarrow> ('d, unit) node" where
  "prune_to_floor ho config k e =
     sm_bind (sm_lift (prune_floor ho config)) (\<lambda>floor. node_prune_old_blocks k e (ns_max_storage_bytes config) floor)"

definition node_disk_usage_bytes :: "'d host \<Rightarrow> 'd backend \<Rightarrow> ('d, u64) node" where
  "node_disk_usage_bytes ho k = on_storage (stored (disk_usage_bytes k)) (sm_lift (res_map_err OfStorage (ho_partial_usage ho)))"

definition ensure_storage_cap :: "'d host \<Rightarrow> node_section \<Rightarrow> 'd backend \<Rightarrow> ext \<Rightarrow> ('d, unit) node" where
  "ensure_storage_cap ho config k e =
     (let maximum = ns_max_storage_bytes config;
          low = (\<lambda>free. case free of Some f \<Rightarrow> f < ns_filesystem_reserve_bytes config | None \<Rightarrow> False)
      in
      sm_seq (if pruning_enabled config
        then sm_seq (sm_lift (prune_floor ho config)) (sm_lift (res_map_err OfStorage (ho_housekeeping ho))) else sm_ok ())
     (sm_seq (if low (fst (ho_free ho))
        then sm_seq (if pruning_enabled config then prune_to_floor ho config k e else sm_ok ())
          (if low (snd (ho_free ho))
           then sm_err (Bail (''filesystem reserve unavailable: free '' @
             dec_string (case snd (ho_free ho) of Some f \<Rightarrow> unat f | None \<Rightarrow> 0) @ '' bytes, reserve '' @
             dec_string (unat (ns_filesystem_reserve_bytes config)) @ '' bytes; node is storage-blocked''))
           else sm_ok ())
        else sm_ok ())
      (if maximum = 0 then sm_ok ()
       else sm_bind (node_disk_usage_bytes ho k) (\<lambda>used.
         sm_seq (if pruning_enabled config \<and>
             saturating_mul maximum (ucast (ns_prune_trigger_percent config)) \<le> saturating_mul used 100
           then prune_to_floor ho config k e else sm_ok ())
        (sm_bind (node_disk_usage_bytes ho k) (\<lambda>used.
         if maximum \<le> used
         then sm_err (Bail (''node storage cap reached: used '' @ dec_string (unat used) @ '' bytes, max '' @
           dec_string (unat maximum) @ '' bytes''))
         else sm_ok ()))))))"

section \<open>Publishing a candidate branch\<close>

text \<open>A branch on top of the tip is committed in place.\<close>

definition direct_block ::
  "revm \<Rightarrow> node_section \<Rightarrow> 'd backend \<Rightarrow> ext \<Rightarrow> hash256 \<Rightarrow> nat \<Rightarrow> nat \<times> block \<Rightarrow>
   block_header \<times> native_accounts \<times> revm_state \<Rightarrow> ('d, block_header \<times> native_accounts \<times> revm_state) node_db" where
  "direct_block v config k e genesis_hash n = (\<lambda>(index, b) (parent, native_accounts, evm_state).
     sm_seq (sm_lift (validate_block_transaction_auth e (ns_require_signed_transactions config) b))
    (sm_seq (sm_lift (res_map_err OfConsensus (validate_block_with_genesis_and_activation e parent b genesis_hash
        (ns_block_size_activation_height config))))
    (sm_bind (expected_difficulty_target_with_lookup parent (b_header b) (ns_block_time_v2_activation_height config)
        (\<lambda>h. stored (sled_header_by_hash k e h))) (\<lambda>expected_difficulty.
     if h_difficulty_target (b_header b) \<noteq> expected_difficulty
     then sm_err (Bail (''direct recovery difficulty mismatch at block '' @ dec_string (unat (h_number (b_header b)))))
     else case validate_replay_state_root v e b (h_timestamp_seconds parent) (native_accounts, evm_state) of
        (Inl err, _) \<Rightarrow> sm_err err
      | (Inr _, native_accounts, evm_state) \<Rightarrow>
          sm_seq (stored (sled_insert_block k e b))
         (sm_seq (if (index + 1) mod REPLAY_CHECKPOINT_INTERVAL = 0 \<or> index + 1 = n
            then stored (flush_batch k) else sm_ok ())
          (sm_ok (b_header b, native_accounts, evm_state)))))))"

definition direct_extension ::
  "revm \<Rightarrow> node_section \<Rightarrow> 'd backend \<Rightarrow> ext \<Rightarrow> hash256 \<Rightarrow> block_header \<Rightarrow> block list \<Rightarrow> ('d, unit) node_db" where
  "direct_extension v config k e genesis_hash best bs =
     sm_bind (stored (account_snapshot k e)) (\<lambda>native_accounts.
     sm_bind (stored (revm_state_from_sled k e)) (\<lambda>evm_state.
     sm_seq (stored begin_batch)
      (and_finally
        (sm_bind (sm_fold (direct_block v config k e genesis_hash (length bs)) (enumerate 0 bs)
           (best, native_accounts, evm_state)) (\<lambda>(parent, native_accounts, evm_state).
         sm_seq (stored (put_accounts k e native_accounts))
        (sm_seq (stored (persist_revm_state k e evm_state))
        (sm_seq (stored (set_reward_indexed_to k (h_number parent)))
         (stored (refresh_generation_manifest k e))))))
        (stored (end_batch k)))))"

definition commit_direct_candidate_extension ::
  "'d host \<Rightarrow> revm \<Rightarrow> node_section \<Rightarrow> 'd backend \<Rightarrow> ext \<Rightarrow> candidate_branch \<Rightarrow> ('d, bool) node" where
  "commit_direct_candidate_extension ho v config k e branch =
     (if cb_suffix branch = [] then sm_ok False
      else sm_bind (configured_genesis_hash k e) (\<lambda>genesis_hash.
        \<lambda>s. (case s of
           Partial _ \<Rightarrow> (Inr False, s)
         | node_storage.Full _ \<Rightarrow>
             sm_bind (full_only [] (sled_best_header k)) (\<lambda>best.
             if h_number best \<noteq> cb_common_height branch \<or> header_hash e best \<noteq> cb_common_hash branch then sm_ok False
             else sm_seq (on_storage (direct_extension v config k e genesis_hash best (cb_suffix branch)) (sm_ok ()))
                 (sm_seq (if pruning_enabled config then prune_to_floor ho config k e else sm_ok ())
                 (sm_seq (node_remove_candidate_blocks k e (map (block_hash e) (cb_suffix branch)))
                  (sm_ok True)))) s)))"

definition supply_minus :: "'d backend \<Rightarrow> u64 \<Rightarrow> u64 \<times> u128 \<times> u128 \<Rightarrow> ('d, u64 \<times> u128 \<times> u128) node_db" where
  "supply_minus k number = (\<lambda>(parent_timestamp, total, burned).
     sm_bind (stored (sled_block_by_number k number)) (\<lambda>b.
     let (subsidy, burned_fees) = block_supply_delta b parent_timestamp
     in sm_ok (h_timestamp_seconds (b_header b), saturating_sub total subsidy, saturating_sub burned burned_fees)))"

definition supply_plus :: "block \<Rightarrow> u64 \<times> u128 \<times> u128 \<Rightarrow> u64 \<times> u128 \<times> u128" where
  "supply_plus b = (\<lambda>(parent_timestamp, total, burned).
     let (subsidy, burned_fees) = block_supply_delta b parent_timestamp
     in (h_timestamp_seconds (b_header b), saturating_add total subsidy, saturating_add burned burned_fees))"

definition suffix_supply_totals ::
  "'d backend \<Rightarrow> block_header \<Rightarrow> block_header \<Rightarrow> block list \<Rightarrow> ('d, u64 \<times> u128 \<times> u128) node_db" where
  "suffix_supply_totals k ancestor previous_best replacement =
     sm_bind (stored (supply_totals k)) (\<lambda>(indexed_to, total, burned).
     sm_bind (if indexed_to < h_number previous_best
       then sm_seq (backfill_supply_storage k)
         (sm_bind (stored (supply_totals k)) (\<lambda>(indexed_to, total, burned).
          if indexed_to < h_number previous_best
          then sm_err (Bail ''candidate publication deferred: supply index is incomplete'') else sm_ok (total, burned)))
       else sm_ok (total, burned)) (\<lambda>(total, burned).
     sm_bind (sm_fold (supply_minus k) (heights (saturating_add (h_number ancestor) 1) (h_number previous_best))
         (h_timestamp_seconds ancestor, total, burned)) (\<lambda>(_, total, burned).
     let (_, total, burned) = fold supply_plus replacement (h_timestamp_seconds ancestor, total, burned)
     in sm_ok (saturating_add (h_number ancestor) (of_nat (length replacement)), total, burned))))"

record replay_capture =
  rc_snapshot :: execution_snapshot
  rc_parent :: block_header
  rc_history :: "block_header list"
  rc_ancestor :: block_header
  rc_active_tip :: block_header
  rc_profile :: string
  rc_genesis_hash :: hash256

definition replay_full :: "('d, 'a) db \<Rightarrow> ('d, 'a) node" where
  "replay_full m = full_only ''candidate replay requires full storage'' m"

fun suffix_exceeds :: "u64 \<Rightarrow> block list \<Rightarrow> bool" where
  "suffix_exceeds bytes [] \<longleftrightarrow> False"
| "suffix_exceeds bytes (b # bs) \<longleftrightarrow>
     (let bytes = saturating_add bytes (block_size b) in MAX_CANDIDATE_REPLAY_BYTES < bytes \<or> suffix_exceeds bytes bs)"

text \<open>First section under the mutex: what the replay starts from.\<close>

definition capture_replay :: "'d host \<Rightarrow> 'd backend \<Rightarrow> ext \<Rightarrow> candidate_branch \<Rightarrow> ('d, replay_capture) node" where
  "capture_replay ho k e branch =
     sm_bind (replay_full (sled_header_by_number k (cb_common_height branch))) (\<lambda>ancestor.
     if header_hash e ancestor \<noteq> cb_common_hash branch
     then sm_err (Bail ''candidate common ancestor does not match canonical storage'')
     else if \<not> suffix_linked e ancestor (cb_suffix branch)
     then sm_err (Bail ''candidate rejected: suffix parent linkage is not contiguous'')
     else
     sm_bind (configured_genesis_hash k e) (\<lambda>genesis_hash.
     let profile = consensus_profile_for_genesis e genesis_hash in
     sm_seq (sm_lift (ensure_candidate_replay_memory_headroom (ho_cgroup ho 0)))
    (sm_bind (replay_full (latest_execution_snapshot_at_or_before (ho_files ho) k (cb_common_height branch) profile)) (\<lambda>found.
     sm_bind (sm_lift (res_of_option (Bail ''candidate replay deferred: no verified execution snapshot'') found)) (\<lambda>snapshot.
     sm_bind (replay_full (sled_header_by_number k (xs_height snapshot))) (\<lambda>snapshot_parent.
     if header_hash e snapshot_parent \<noteq> xs_block_hash snapshot \<or> h_state_root snapshot_parent \<noteq> xs_state_root snapshot
     then sm_err (Bail ''candidate replay deferred: execution snapshot is not canonical'')
     else
     sm_bind (difficulty_history_headers_with_lookup snapshot_parent (\<lambda>h. replay_full (sled_header_by_hash k e h))) (\<lambda>replay_history.
     let replay_len = saturating_add (saturating_sub (cb_common_height branch) (xs_height snapshot)) (of_nat (length (cb_suffix branch))) in
     if MAX_CANDIDATE_REPLAY_SUFFIX < unat replay_len
     then sm_err (Bail ''candidate rejected: compact snapshot replay exceeds live replay limit'')
     else if suffix_exceeds 0 (cb_suffix branch)
     then sm_err (Bail ''candidate rejected: suffix exceeds live replay memory budget'')
     else
     sm_bind (replay_full (sled_best_header k)) (\<lambda>active_tip.
     sm_bind (configured_genesis_hash k e) (\<lambda>genesis_hash.
     sm_ok \<lparr>rc_snapshot = snapshot, rc_parent = snapshot_parent, rc_history = replay_history, rc_ancestor = ancestor,
            rc_active_tip = active_tip, rc_profile = profile, rc_genesis_hash = genesis_hash\<rparr>)))))))))"

text \<open>The replay: archive blocks up to the ancestor are read one at a time, each under the mutex.\<close>

definition replay_archive_block ::
  "'d host \<Rightarrow> revm \<Rightarrow> node_section \<Rightarrow> 'd backend \<Rightarrow> ext \<Rightarrow> hash256 \<Rightarrow> u64 \<Rightarrow> execution_replay_overlay \<Rightarrow> ('d, execution_replay_overlay) node" where
  "replay_archive_block ho v config k e genesis_hash number overlay =
     sm_seq (relock ho (4 + unat number))
    (sm_bind (replay_full (sled_block_by_number k number)) (\<lambda>b.
     case overlay_apply v config e genesis_hash b overlay of
       (Inl err, _) \<Rightarrow> sm_err err
     | (Inr _, overlay) \<Rightarrow>
         sm_seq (if number mod of_nat REPLAY_CHECKPOINT_INTERVAL = 0
           then sm_lift (ensure_candidate_replay_memory_headroom (ho_cgroup ho (unat number))) else sm_ok ())
           (sm_ok overlay)))"

definition replay_suffix_block ::
  "'d host \<Rightarrow> revm \<Rightarrow> node_section \<Rightarrow> ext \<Rightarrow> hash256 \<Rightarrow> nat \<times> block \<Rightarrow> execution_replay_overlay \<Rightarrow> node_error + execution_replay_overlay" where
  "replay_suffix_block ho v config e genesis_hash = (\<lambda>(index, b) overlay.
     case overlay_apply v config e genesis_hash b overlay of
       (Inl err, _) \<Rightarrow> Inl err
     | (Inr _, overlay) \<Rightarrow>
         res_bind (if (index + 1) mod REPLAY_CHECKPOINT_INTERVAL = 0
           then ensure_candidate_replay_memory_headroom (ho_cgroup ho (unat (h_number (b_header b)))) else Inr ())
           (\<lambda>_. Inr overlay))"

definition evm_accounts_from_revm_state_owned :: "revm_state \<Rightarrow> node_error + evm_state_snapshot" where
  "evm_accounts_from_revm_state_owned st =
     res_fold (\<lambda>(a, ac) accounts.
       res_bind (res_of_option (Bail ''EVM balance exceeds BLQ account range'') (stored_balance (ra_balance ac)))
         (\<lambda>balance. Inr (fmupd a (balance, ra_nonce ac, ra_code ac, stored_slots (ra_storage ac)) accounts)))
       (fm_entries (rs_accounts st)) fmempty"

text \<open>The last section under the mutex.\<close>

definition superseded :: "ext \<Rightarrow> u128 \<Rightarrow> u128 \<Rightarrow> block_header \<Rightarrow> block_header \<Rightarrow> bool" where
  "superseded e cand work tip current \<longleftrightarrow>
     cand < work \<or> (cand = work \<and> header_hash e current \<le> header_hash e tip)"

definition publish_candidate ::
  "'d backend \<Rightarrow> ext \<Rightarrow> candidate_branch \<Rightarrow> replay_capture \<Rightarrow> native_accounts \<Rightarrow> evm_state_snapshot \<Rightarrow> block_header \<Rightarrow> ('d, unit) node_db" where
  "publish_candidate k e branch cap native_accounts evm_accounts expected_tip =
     sm_bind (stored (sled_best_header k)) (\<lambda>current.
     if current \<noteq> rc_active_tip cap
     then sm_err (Bail ''candidate publication deferred: active tip changed during replay'')
     else sm_bind (canonical_work_through_storage k (cb_common_height branch)) (\<lambda>ancestor_work.
       let candidate_work = fold (\<lambda>b work. saturating_add work (work_for_target (h_difficulty_target (b_header b))))
             (cb_suffix branch) ancestor_work in
       sm_bind (canonical_work_through_storage k (h_number current)) (\<lambda>current_work.
       if superseded e candidate_work current_work expected_tip current
       then sm_err (Bail ''candidate replay superseded by current canonical work'')
       else sm_bind (stored (load_generation_manifest k)) (\<lambda>loaded.
       sm_bind (sm_lift (res_of_option (Bail ''candidate publication requires active manifest'') loaded)) (\<lambda>manifest.
       sm_bind (suffix_supply_totals k (rc_ancestor cap) current (cb_suffix branch)) (\<lambda>totals.
       stored (publish_canonical_suffix k e (rc_ancestor cap) (cb_suffix branch) native_accounts evm_accounts totals
         (manifest\<lparr>gm_status := Active, gm_canonical_height := h_number expected_tip,
            gm_canonical_hash := header_hash e expected_tip, gm_state_root := h_state_root expected_tip,
            gm_profile_fingerprint := rc_profile cap, gm_finalized_height := finalized_height (h_number expected_tip),
            gm_replay_checkpoint := Some (h_number expected_tip)\<rparr>))))))))"

definition stage_and_publish_candidate ::
  "'d host \<Rightarrow> revm \<Rightarrow> node_section \<Rightarrow> 'd backend \<Rightarrow> ext \<Rightarrow> candidate_branch \<Rightarrow> ('d, unit) node" where
  "stage_and_publish_candidate ho v config k e branch =
     sm_bind (commit_direct_candidate_extension ho v config k e branch) (\<lambda>committed.
     if committed then sm_ok ()
     else
     sm_seq (relock ho 0)
    (sm_bind (capture_replay ho k e branch) (\<lambda>cap.
     sm_bind (sm_lift (overlay_from_snapshot e (rc_snapshot cap) (rc_parent cap) (rc_history cap))) (\<lambda>overlay.
     sm_bind (sm_fold (replay_archive_block ho v config k e (rc_genesis_hash cap))
        (heights (saturating_add (h_number (ov_parent overlay)) 1) (cb_common_height branch)) overlay) (\<lambda>overlay.
     sm_bind (sm_lift (res_fold (replay_suffix_block ho v config e (rc_genesis_hash cap)) (enumerate 0 (cb_suffix branch)) overlay)) (\<lambda>overlay.
     sm_bind (sm_lift (evm_accounts_from_revm_state_owned (ov_evm_state overlay))) (\<lambda>evm_accounts.
     if cb_suffix branch = [] then sm_err (Bail ''candidate branch is empty'')
     else
     let expected_tip = b_header (last (cb_suffix branch)) in
     if ov_parent overlay \<noteq> expected_tip then sm_err (Bail ''candidate replay did not reach the supplied tip'')
     else
     sm_seq (relock ho 1)
    (sm_seq (on_storage (publish_candidate k e branch cap (ov_native_accounts overlay) evm_accounts expected_tip)
        (sm_err (Bail ''candidate replay requires full storage'')))
     (node_remove_candidate_blocks k e (map (block_hash e) (cb_suffix branch)))))))))))"

section \<open>Competing blocks\<close>

text \<open>The candidate in a store of its own, in a directory that is removed afterwards.\<close>

definition validate_replacement_in_isolation ::
  "'d host \<Rightarrow> revm \<Rightarrow> 'd backend \<Rightarrow> ext \<Rightarrow> block list \<Rightarrow> u64 option \<Rightarrow> u64 option \<Rightarrow> node_error + unit" where
  "validate_replacement_in_isolation ho v k e replacement size_activation time_activation =
     (if replacement = [] then Inl (Bail ''candidate branch is empty'')
      else res_bind (res_bind (ho_fresh ho) (\<lambda>f. fst (replay_canonical_chain (ho_file_write ho) v (ho_display ho) k e
          size_activation time_activation replacement (node_storage.Full f)))) (\<lambda>_.
        res_map_err (\<lambda>err. Bail (''remove replay validation: '' @ err)) (ho_cleanup ho)))"

definition promote_candidate_chain ::
  "'d host \<Rightarrow> revm \<Rightarrow> 'd backend \<Rightarrow> ext \<Rightarrow> block \<Rightarrow> block list \<Rightarrow> u64 option \<Rightarrow> u64 option \<Rightarrow> ('d, unit) node" where
  "promote_candidate_chain ho v k e tip previous_canonical size_activation time_activation =
     sm_bind (candidate_replacement k e tip previous_canonical) (\<lambda>branch.
     sm_bind (sm_lift (materialize_candidate_replacement e branch previous_canonical)) (\<lambda>replacement.
     sm_seq (sm_lift (validate_replacement_in_isolation ho v k e replacement size_activation time_activation))
       (rebuild_canonical_chain (ho_file_write ho) v (ho_display ho) k e size_activation time_activation replacement previous_canonical)))"

text \<open>Both entry points store the block as an orphan, or as a candidate with its cumulative work.\<close>

definition store_competing_block :: "bool \<Rightarrow> 'd backend \<Rightarrow> ext \<Rightarrow> block \<Rightarrow> ('d, u128 option) node" where
  "store_competing_block require_signed_transactions k e b =
     sm_seq (sm_lift (validate_block_transaction_auth e require_signed_transactions b))
       (\<lambda>s. case node_block_by_hash k e (h_parent_hash (b_header b)) s of
          (Inl _, s) \<Rightarrow> sm_seq (node_store_orphan_block k e b) (sm_ok None) s
        | (Inr branch_parent, s) \<Rightarrow>
            sm_seq (validate_header_for_storage k e (b_header branch_parent) (b_header b))
           (sm_bind (or_try (node_candidate_work k e (h_parent_hash (b_header b)))
               (canonical_work_through_node_storage k (h_number (b_header branch_parent)))) (\<lambda>parent_work.
            let work = saturating_add parent_work (work_for_target (h_difficulty_target (b_header b))) in
            sm_seq (node_store_candidate_block k e b work) (sm_ok (Some work)))) s)"

definition not_preferred :: "ext \<Rightarrow> u128 \<Rightarrow> u128 \<Rightarrow> block \<Rightarrow> block_header \<Rightarrow> bool" where
  "not_preferred e cand work b current \<longleftrightarrow>
     cand < work \<or>
     (cand = work \<and> h_number (b_header b) = h_number current \<and> header_hash e current \<le> block_hash e b)"

definition queue_competing_block :: "'d host \<Rightarrow> revm \<Rightarrow> node_section \<Rightarrow> 'd backend \<Rightarrow> ext \<Rightarrow> block \<Rightarrow> ('d, bool) node" where
  "queue_competing_block ho v config k e b =
     sm_bind (store_competing_block (ns_require_signed_transactions config) k e b) (\<lambda>stored_work.
     case stored_work of
       None \<Rightarrow> sm_ok False
     | Some cand \<Rightarrow>
         sm_bind (node_canonical_blocks k) (\<lambda>canonical.
         if canonical = [] then sm_err (Bail ''canonical chain is empty'')
         else if not_preferred e cand (canonical_work canonical) b (b_header (last canonical)) then sm_ok False
         else sm_seq (promote_candidate_chain ho v k e b canonical (ns_block_size_activation_height config)
             (ns_block_time_v2_activation_height config)) (sm_ok True)))"

definition queue_competing_block_pending :: "node_section \<Rightarrow> 'd backend \<Rightarrow> ext \<Rightarrow> block \<Rightarrow> ('d, candidate_branch option) node" where
  "queue_competing_block_pending config k e b =
     sm_bind (store_competing_block (ns_require_signed_transactions config) k e b) (\<lambda>stored_work.
     case stored_work of
       None \<Rightarrow> sm_ok None
     | Some cand \<Rightarrow>
         sm_bind (of_storage (node_best_header k)) (\<lambda>current.
         sm_bind (canonical_work_through_node_storage k (h_number current)) (\<lambda>work.
         if not_preferred e cand work b current then sm_ok None
         else sm_bind (candidate_branch_from_storage k e b) (\<lambda>branch. sm_ok (Some branch)))))"

section \<open>Orphans\<close>

definition MAX_P2P_HEADERS :: nat where [blq_consts]: "MAX_P2P_HEADERS = 512"

fun text_contains :: "string \<Rightarrow> string \<Rightarrow> bool" where
  "text_contains p [] \<longleftrightarrow> p = []"
| "text_contains p (ch # s) \<longleftrightarrow> prefix p (ch # s) \<or> text_contains p s"

definition extends_tip :: "ext \<Rightarrow> block_header \<Rightarrow> block \<Rightarrow> bool" where
  "extends_tip e parent b \<longleftrightarrow>
     h_parent_hash (b_header b) = header_hash e parent \<and> h_number (b_header b) = h_number parent + 1"

text \<open>A block on top of the tip is validated and inserted.\<close>

definition validate_next_block :: "revm \<Rightarrow> node_section \<Rightarrow> 'd backend \<Rightarrow> ext \<Rightarrow> block_header \<Rightarrow> block \<Rightarrow> ('d, unit) node" where
  "validate_next_block v config k e parent b =
     sm_seq (validate_block_for_storage config k e parent b)
    (sm_seq (validate_difficulty_target k e parent (b_header b) (ns_block_time_v2_activation_height config))
     (node_validate_state_root v k e b))"

definition drain_orphan :: "'d host \<Rightarrow> revm \<Rightarrow> node_section \<Rightarrow> 'd backend \<Rightarrow> ext \<Rightarrow> block \<Rightarrow> bool \<Rightarrow> ('d, bool) node" where
  "drain_orphan ho v config k e b progressed =
     sm_bind (of_storage (node_best_header k)) (\<lambda>parent.
     if extends_tip e parent b then
       sm_seq (validate_next_block v config k e parent b)
      (sm_seq (of_storage (node_insert_block (ho_file_write ho) v (ho_display ho) k e b))
      (sm_seq (node_remove_orphan_block k e (block_hash e b)) (sm_ok True)))
     else (\<lambda>s. case node_header_by_hash k e (h_parent_hash (b_header b)) s of
        (Inl _, s) \<Rightarrow> (Inr progressed, s)
      | (Inr _, s) \<Rightarrow>
          (case queue_competing_block ho v config k e b s of
             (Inr _, s) \<Rightarrow> sm_seq (node_remove_orphan_block k e (block_hash e b)) (sm_ok True) s
           | (Inl err, s) \<Rightarrow> if text_contains ''was not found'' (ho_display ho err) then (Inr progressed, s) else (Inl err, s))))"

fun drain_rounds :: "nat \<Rightarrow> 'd host \<Rightarrow> revm \<Rightarrow> node_section \<Rightarrow> 'd backend \<Rightarrow> ext \<Rightarrow> ('d, unit) node" where
  "drain_rounds 0 ho v config k e = sm_ok ()"
| "drain_rounds (Suc n) ho v config k e =
     sm_bind (node_orphan_blocks k) (\<lambda>orphans.
     sm_bind (sm_fold (drain_orphan ho v config k e) orphans False) (\<lambda>progressed.
     if \<not> progressed then sm_ok ()
     else sm_seq (if pruning_enabled config then prune_to_floor ho config k e else sm_ok ()) (drain_rounds n ho v config k e)))"

definition drain_orphan_blocks :: "'d host \<Rightarrow> revm \<Rightarrow> node_section \<Rightarrow> 'd backend \<Rightarrow> ext \<Rightarrow> ('d, unit) node" where
  "drain_orphan_blocks = drain_rounds MAX_P2P_HEADERS"

section \<open>The running node\<close>

text \<open>What the import asks other parts of the node to do is recorded as events.\<close>

datatype node_event =
    Gossiped hash256 block
  | TemplatesInvalidated
  | MaintenanceScheduled
  | RecoveryStarted
  | CanonicalImport u64
  | BodyRequested hash256

record 'd live_node =
  ln_storage :: "'d node_storage"
  ln_mempool :: mempool
  ln_events :: "node_event list"

type_synonym ('d, 'a) live = "('d live_node, node_error, 'a) sm"

definition locked :: "('d, 'a) node \<Rightarrow> ('d, 'a) live" where
  "locked m n = (case m (ln_storage n) of (r, s) \<Rightarrow> (r, n\<lparr>ln_storage := s\<rparr>))"

definition notify :: "node_event list \<Rightarrow> ('d, unit) live" where
  "notify evs n = (Inr (), n\<lparr>ln_events := ln_events n @ evs\<rparr>)"

definition drop_included :: "ext \<Rightarrow> hash256 list \<Rightarrow> ('d, unit) live" where
  "drop_included e hashes n = (Inr (), if hashes = [] then n else n\<lparr>ln_mempool := remove_included e (ln_mempool n) hashes\<rparr>)"

definition gossip_genesis :: "'d backend \<Rightarrow> ext \<Rightarrow> ('d, hash256) live" where
  "gossip_genesis k e = locked (or_try (configured_genesis_hash k e) (sm_ok (header_hash e (genesis_header e))))"

datatype import_path = Settled | Competing candidate_branch | Extending

definition classify_block :: "node_section \<Rightarrow> 'd backend \<Rightarrow> ext \<Rightarrow> block \<Rightarrow> ('d, import_path) node" where
  "classify_block config k e b = (\<lambda>s. case node_header_by_hash k e (block_hash e b) s of
     (Inr _, s) \<Rightarrow> (Inr Settled, s)
   | (Inl _, s) \<Rightarrow>
       sm_bind (of_storage (node_best_header k)) (\<lambda>parent.
       if saturating_add (h_number parent) 1 < h_number (b_header b)
       then sm_seq (node_store_orphan_block k e b) (sm_ok Settled)
       else if \<not> extends_tip e parent b
       then sm_bind (queue_competing_block_pending config k e b) (\<lambda>candidate.
         sm_ok (case candidate of Some branch \<Rightarrow> Competing branch | None \<Rightarrow> Extending))
       else sm_ok Extending) s)"

definition publish_competing ::
  "'d host \<Rightarrow> revm \<Rightarrow> node_section \<Rightarrow> 'd backend \<Rightarrow> ext \<Rightarrow> block \<Rightarrow> candidate_branch \<Rightarrow> ('d, unit) live" where
  "publish_competing ho v config k e b branch n =
     (case stage_and_publish_candidate ho v config k e branch (ho_others ho 2 (ln_storage n)) of
        (Inl _, s) \<Rightarrow> sm_bind (gossip_genesis k e) (\<lambda>_. sm_ok ()) (n\<lparr>ln_storage := s\<rparr>)
      | (Inr _, s) \<Rightarrow>
          sm_seq (drop_included e (concat (map (\<lambda>c. map (transaction_hash e) (b_transactions c)) (cb_suffix branch))))
         (sm_bind (gossip_genesis k e) (\<lambda>genesis_hash. notify [Gossiped genesis_hash b])) (n\<lparr>ln_storage := s\<rparr>))"

definition extend_chain :: "'d host \<Rightarrow> revm \<Rightarrow> node_section \<Rightarrow> 'd backend \<Rightarrow> ext \<Rightarrow> block \<Rightarrow> ('d, unit) live" where
  "extend_chain ho v config k e b =
     sm_bind (locked (sm_seq (relock ho 2) (of_storage (node_best_header k)))) (\<lambda>parent.
     if \<not> extends_tip e parent b
     then sm_seq (locked (drain_orphan_blocks ho v config k e)) (notify [RecoveryStarted])
     else
     sm_seq (locked (sm_seq (validate_next_block v config k e parent b)
         (sm_seq (ensure_storage_cap ho config k e)
         (sm_seq (of_storage (node_insert_block (ho_file_write ho) v (ho_display ho) k e b))
          (drain_orphan_blocks ho v config k e)))))
    (sm_seq (drop_included e (map (transaction_hash e) (b_transactions b)))
    (sm_seq (notify [TemplatesInvalidated, MaintenanceScheduled, CanonicalImport (h_number (b_header b))])
    (sm_bind (gossip_genesis k e) (\<lambda>genesis_hash. notify [Gossiped genesis_hash b])))))"

definition import_network_block :: "'d host \<Rightarrow> revm \<Rightarrow> node_section \<Rightarrow> 'd backend \<Rightarrow> ext \<Rightarrow> block \<Rightarrow> ('d, unit) live" where
  "import_network_block ho v config k e b =
     (if ns_mode config \<noteq> node_mode.Full then sm_ok ()
      else
      sm_seq (sm_lift (validate_live_timestamp_admission (ho_clock ho) (b_header b)))
     (sm_seq (sm_lift (validate_block_transaction_auth e (ns_require_signed_transactions config) b))
     (sm_bind (locked (classify_block config k e b)) (\<lambda>path.
      case path of
        Settled \<Rightarrow> sm_ok ()
      | Competing branch \<Rightarrow> publish_competing ho v config k e b branch
      | Extending \<Rightarrow> extend_chain ho v config k e b))))"

definition import_network_header :: "'d host \<Rightarrow> node_section \<Rightarrow> 'd backend \<Rightarrow> ext \<Rightarrow> block_header \<Rightarrow> ('d, unit) node" where
  "import_network_header ho config k e header =
     (if ns_mode config \<noteq> node_mode.Partial then sm_ok ()
      else sm_bind (of_storage (node_best_header k)) (\<lambda>parent.
        if h_number header \<le> h_number parent then sm_ok ()
        else
        sm_seq (validate_header_for_storage k e parent header)
       (if h_parent_hash header \<noteq> header_hash e parent
        then sm_err (Bail ''network header parent hash does not match current best header'')
        else
        sm_seq (validate_difficulty_target k e parent header (ns_block_time_v2_activation_height config))
       (sm_seq (ensure_storage_cap ho config k e)
        (of_storage (node_insert_header (ho_file_write ho) k header))))))"

definition handle_network_header :: "'d host \<Rightarrow> node_section \<Rightarrow> 'd backend \<Rightarrow> ext \<Rightarrow> block_header \<Rightarrow> ('d, unit) live" where
  "handle_network_header ho config k e header =
     (case ns_mode config of
        node_mode.Partial \<Rightarrow> locked (import_network_header ho config k e header)
      | node_mode.Full \<Rightarrow>
          sm_bind (locked (\<lambda>s. case node_header_by_number k (h_number header) s of
               (Inr existing, s) \<Rightarrow> (Inr (header_hash e existing \<noteq> header_hash e header), s)
             | (Inl NotFound, s) \<Rightarrow> (Inr True, s)
             | (Inl err, s) \<Rightarrow> (Inl (OfStorage err), s))) (\<lambda>needs_body.
          if needs_body then notify [BodyRequested (header_hash e header)] else sm_ok ()))"

section \<open>Blocks of a recovery\<close>

text \<open>The parent by its height when the hash fits, else by hash, else from the spool.\<close>

definition recovery_parent :: "'d backend \<Rightarrow> ext \<Rightarrow> u64 \<Rightarrow> block \<Rightarrow> ('d, block_header \<times> u128) node" where
  "recovery_parent k e expected_height b =
     or_try
       (sm_bind (or_try
           (if expected_height = 0 then sm_err (OfStorage NotFound)
            else sm_bind (of_storage (node_block_by_number k (expected_height - 1))) (\<lambda>parent.
              if block_hash e parent = h_parent_hash (b_header b) then sm_ok parent else sm_err (OfStorage NotFound)))
           (node_block_by_hash k e (h_parent_hash (b_header b)))) (\<lambda>parent.
        sm_bind (or_try (node_candidate_work k e (block_hash e parent))
          (or_try (canonical_work_through_node_storage k (h_number (b_header parent))) (sm_ok 0))) (\<lambda>work.
        sm_ok (b_header parent, work))))
       (or_try (sm_bind (recovery_spool_block_by_hash k e (h_parent_hash (b_header b))) (\<lambda>(parent, work). sm_ok (b_header parent, work)))
         (sm_err (Bail (''recovery parent '' @ hash_to_hex e (h_parent_hash (b_header b)) @
           '' was not found in canonical storage or the durable spool''))))"

definition import_recovery_block ::
  "'d host \<Rightarrow> node_section \<Rightarrow> 'd backend \<Rightarrow> ext \<Rightarrow> hash256 \<Rightarrow> u64 \<Rightarrow> hash256 \<Rightarrow> block \<Rightarrow> ('d, unit) node" where
  "import_recovery_block ho config k e tip_hash expected_height expected_parent_hash b =
     sm_seq (sm_lift (validate_live_timestamp_admission (ho_clock ho) (b_header b)))
    (sm_seq (sm_lift (validate_block_transaction_auth e (ns_require_signed_transactions config) b))
    (if h_number (b_header b) \<noteq> expected_height
     then sm_err (Bail (''recovery body height '' @ dec_string (unat (h_number (b_header b))) @
       '' does not match durable cursor '' @ dec_string (unat expected_height)))
     else if h_parent_hash (b_header b) \<noteq> expected_parent_hash
     then sm_err (Bail ''recovery body parent does not match durable cursor'')
     else
     sm_bind (recovery_parent k e expected_height b) (\<lambda>(parent, parent_work).
     sm_seq (validate_header_for_storage k e parent (b_header b))
    (sm_seq (validate_difficulty_target k e parent (b_header b) (ns_block_time_v2_activation_height config))
     (if parent_work = 0 \<and> h_number parent \<noteq> 0 then sm_err (Bail ''recovery parent has no cumulative-work record'')
      else store_recovery_spool_block k e tip_hash b
        (saturating_add parent_work (work_for_target (h_difficulty_target (b_header b)))))))))"

section \<open>The pool and the chain\<close>

definition confirmed_nonces :: "'d backend \<Rightarrow> ext \<Rightarrow> address list \<Rightarrow> ('d, address \<Rightarrow> u64) node" where
  "confirmed_nonces k e senders =
     sm_fold (\<lambda>a nonces. sm_bind (or_try (node_nonce k e a) (sm_ok 0)) (\<lambda>n. sm_ok (nonces(a := n)))) senders (\<lambda>_. 0)"

definition reconcile_mempool_with_canonical_state :: "'d host \<Rightarrow> 'd backend \<Rightarrow> ext \<Rightarrow> ('d, nat) live" where
  "reconcile_mempool_with_canonical_state ho k e n =
     (let senders = remdups (map tx_from (pending (ln_mempool n))) in
      case locked (sm_seq (relock ho 3) (confirmed_nonces k e senders)) n of
        (Inl err, n) \<Rightarrow> (Inl err, n)
      | (Inr nonces, n) \<Rightarrow>
          (let pool = remove_stale_nonces e (ln_mempool n) nonces
           in (Inr (length (pending (ln_mempool n)) - length (pending pool)), n\<lparr>ln_mempool := pool\<rparr>)))"

end
