(* ===== verification/Candidate_Publication.thy ===== *)
theory Candidate_Publication
  imports Import
begin

text \<open>
  What the publication of a candidate branch (\<^verbatim>\<open>stage_and_publish_candidate\<close> of
  \<^verbatim>\<open>blq-node\<close>) guarantees: the blocks were validated one on another, the tip they
  replace is the one the replay started from, and the fork rule prefers them.  The second part runs
  the operation on a store that holds a genesis block.
\<close>

section \<open>What is published\<close>

text \<open>
  Blocks one on another: every block is admitted and validated on the header before it, and its
  execution on the accounts the block before it has left gives the roots of its header.
\<close>

definition admitted_block :: "node_section \<Rightarrow> ext \<Rightarrow> hash256 \<Rightarrow> block_header \<Rightarrow> block \<Rightarrow> bool" where
  "admitted_block config e g parent b \<longleftrightarrow>
     validate_block_transaction_auth e (ns_require_signed_transactions config) b = Inr () \<and>
     validate_block_with_genesis_and_activation e parent b g (ns_block_size_activation_height config) = Inr ()"

fun executed_chain ::
  "revm \<Rightarrow> node_section \<Rightarrow> ext \<Rightarrow> hash256 \<Rightarrow> block_header \<Rightarrow> native_accounts \<times> revm_state \<Rightarrow> block list \<Rightarrow> bool" where
  "executed_chain v config e g parent st [] \<longleftrightarrow> True"
| "executed_chain v config e g parent st (b # bs) \<longleftrightarrow>
     admitted_block config e g parent b \<and>
     (\<exists>st'. validate_replay_state_root v e b (h_timestamp_seconds parent) st = (Inr (), st') \<and>
        executed_chain v config e g (b_header b) st' bs)"

lemma executed_chain_linked:
  "executed_chain v config e g parent st (b # bs) \<Longrightarrow> h_parent_hash (b_header b) = header_hash e parent"
  by (auto simp: admitted_block_def validate_block_iff)

lemma executed_chain_last:
  assumes "executed_chain v config e g parent st bs" "bs \<noteq> []"
  shows "\<exists>parent st st'. admitted_block config e g parent (last bs) \<and>
    validate_replay_state_root v e (last bs) (h_timestamp_seconds parent) st = (Inr (), st')"
  using assms by (induction bs arbitrary: parent st) (auto, blast)

lemma overlay_apply_executed:
  assumes "overlay_apply v config e g b ov = (Inr (), ov')"
  shows "admitted_block config e g (ov_parent ov) b" "ov_parent ov' = b_header b"
    "validate_replay_state_root v e b (h_timestamp_seconds (ov_parent ov)) (ov_native_accounts ov, ov_evm_state ov) =
      (Inr (), ov_native_accounts ov', ov_evm_state ov')"
proof -
  have run: "overlay_execute v e b ov = (Inr (), ov')"
    using assms by (auto simp: overlay_apply_def sm_simps res_simps)
  show "admitted_block config e g (ov_parent ov) b"
    using assms by (auto simp: admitted_block_def overlay_apply_def sm_simps res_simps)
  show "ov_parent ov' = b_header b" by (rule overlay_apply_ok(2) [OF assms])
  show "validate_replay_state_root v e b (h_timestamp_seconds (ov_parent ov)) (ov_native_accounts ov, ov_evm_state ov) =
      (Inr (), ov_native_accounts ov', ov_evm_state ov')"
    using run by (auto simp: overlay_execute_def split: prod.splits sum.splits)
qed

lemma replay_suffix_executed:
  assumes "res_fold (replay_suffix_block ho v config e g) (enumerate n bs) ov = Inr ov'"
  shows "executed_chain v config e g (ov_parent ov) (ov_native_accounts ov, ov_evm_state ov) bs"
  using assms
proof (induction bs arbitrary: n ov)
  case (Cons b bs)
  obtain r ov1 where a: "overlay_apply v config e g b ov = (r, ov1)" by fastforce
  with Cons.prems obtain u where r: "r = Inr u" by (cases r) (auto simp: replay_suffix_block_def)
  then have rest: "res_fold (replay_suffix_block ho v config e g) (enumerate (Suc n) bs) ov1 = Inr ov'"
    using Cons.prems a by (auto simp: replay_suffix_block_def res_simps split: if_splits)
  show ?case using overlay_apply_executed [of v config e g b ov ov1] Cons.IH [OF rest] a r by simp
qed simp

lemma direct_block_executed:
  assumes "direct_block v config k e g n (i, b) (parent, N, E) s = (Inr (parent', N', E'), t)"
  shows "admitted_block config e g parent b" "parent' = b_header b"
    "validate_replay_state_root v e b (h_timestamp_seconds parent) (N, E) = (Inr (), N', E')"
  using assms by (auto simp: admitted_block_def direct_block_def sm_simps res_simps split: if_splits prod.splits sum.splits)

lemma direct_fold_executed:
  assumes "sm_fold (direct_block v config k e g n) (enumerate i bs) (parent, N, E) s = (Inr r, t)"
  shows "executed_chain v config e g parent (N, E) bs"
  using assms
proof (induction bs arbitrary: i parent N E s)
  case (Cons b bs)
  then obtain p1 N1 E1 s1 where step: "direct_block v config k e g n (i, b) (parent, N, E) s = (Inr (p1, N1, E1), s1)"
      and rest: "sm_fold (direct_block v config k e g n) (enumerate (Suc i) bs) (p1, N1, E1) s1 = (Inr r, t)"
    by (auto simp: sm_simps)
  show ?case using direct_block_executed [OF step] Cons.IH [OF rest] by simp
qed simp

lemma and_finally_eq [sm_simps]:
  "and_finally m c s = (Inr x, u) \<longleftrightarrow> (\<exists>t q. m s = (Inr x, t) \<and> c t = (Inr q, u))"
  by (auto simp: and_finally_def res_simps split: prod.splits)

lemma stored_eq [sm_simps]: "stored m s = (Inr y, t) \<longleftrightarrow> m s = (Inr y, t)"
  by (simp add: stored_def sm_simps)

lemma on_storage_full [sm_simps]: "on_storage m p (node_storage.Full f) = (Inr y, t) \<longleftrightarrow> (\<exists>f'. m f = (Inr y, f') \<and> t = node_storage.Full f')"
  by (auto simp: on_storage_def split: prod.splits)

lemma on_storage_full_only [sm_simps]:
  "on_storage m (sm_err err) s = (Inr y, t) \<longleftrightarrow> (\<exists>f f'. s = node_storage.Full f \<and> m f = (Inr y, f') \<and> t = node_storage.Full f')"
  by (cases s) (auto simp: on_storage_def sm_simps split: prod.splits)

lemma full_only_eq [sm_simps]:
  "full_only msg m s = (Inr y, t) \<longleftrightarrow> (\<exists>f f'. s = node_storage.Full f \<and> m f = (Inr y, f') \<and> t = node_storage.Full f')"
  by (simp add: full_only_def sm_simps)

lemma direct_commit_executed:
  assumes "commit_direct_candidate_extension ho v config k e branch s = (Inr True, t)"
  obtains f best f' g where "configured_genesis_hash k e s = (Inr g, node_storage.Full f)"
    "sled_best_header k f = (Inr best, f')" "h_number best = cb_common_height branch"
    "header_hash e best = cb_common_hash branch" "cb_suffix branch \<noteq> []"
    "\<exists>st. executed_chain v config e g best st (cb_suffix branch)"
proof -
  have ne: "cb_suffix branch \<noteq> []" using assms by (auto simp: commit_direct_candidate_extension_def sm_simps split: if_splits)
  obtain g u where g: "configured_genesis_hash k e s = (Inr g, u)" and u: "(case u of Partial _ \<Rightarrow> (Inr False, u)
         | node_storage.Full _ \<Rightarrow>
             sm_bind (full_only [] (sled_best_header k)) (\<lambda>best.
             if h_number best \<noteq> cb_common_height branch \<or> header_hash e best \<noteq> cb_common_hash branch then sm_ok False
             else sm_seq (on_storage (direct_extension v config k e g best (cb_suffix branch)) (sm_ok ()))
                 (sm_seq (if pruning_enabled config then prune_to_floor ho config k e else sm_ok ())
                 (sm_seq (node_remove_candidate_blocks k e (map (block_hash e) (cb_suffix branch)))
                  (sm_ok True)))) u) = (Inr True, t)"
    using assms ne by (auto simp: commit_direct_candidate_extension_def sm_simps)
  then obtain f where f: "u = node_storage.Full f" by (cases u) auto
  with u obtain best f1 f2 where best: "sled_best_header k f = (Inr best, f1)" "h_number best = cb_common_height branch"
      "header_hash e best = cb_common_hash branch"
      and ext: "direct_extension v config k e g best (cb_suffix branch) f1 = (Inr (), f2)"
    by (auto simp: sm_simps split: if_splits)
  from ext obtain N E f3 r f4 where "sm_fold (direct_block v config k e g (length (cb_suffix branch))) (enumerate 0 (cb_suffix branch))
      (best, N, E) f3 = (Inr r, f4)"
    by (auto simp: direct_extension_def sm_simps)
  from that [OF g [unfolded f] best ne exI, OF direct_fold_executed [OF this]] show thesis .
qed

definition suffix_work :: "block list \<Rightarrow> u128 \<Rightarrow> u128" where
  "suffix_work = fold (\<lambda>b work. saturating_add work (work_for_target (h_difficulty_target (b_header b))))"

definition heavier :: "'d backend \<Rightarrow> ext \<Rightarrow> candidate_branch \<Rightarrow> block_header \<Rightarrow> 'd sled_storage \<Rightarrow> bool" where
  "heavier k e branch current f \<longleftrightarrow>
     (\<exists>f1 ancestor_work f2 work f3. sled_best_header k f = (Inr current, f1) \<and>
        canonical_work_through_storage k (cb_common_height branch) f1 = (Inr ancestor_work, f2) \<and>
        canonical_work_through_storage k (h_number current) f2 = (Inr work, f3) \<and>
        (work < suffix_work (cb_suffix branch) ancestor_work \<or>
         work = suffix_work (cb_suffix branch) ancestor_work \<and>
         block_hash e (last (cb_suffix branch)) < header_hash e current))"

lemma publish_candidate_heavier:
  assumes "publish_candidate k e branch cap N A (b_header (last (cb_suffix branch))) f = (Inr u, f')"
  shows "heavier k e branch (rc_active_tip cap) f"
proof -
  let ?tip = "b_header (last (cb_suffix branch))"
  obtain f1 aw f2 cw f3 where "sled_best_header k f = (Inr (rc_active_tip cap), f1)"
      "canonical_work_through_storage k (cb_common_height branch) f1 = (Inr aw, f2)"
      "canonical_work_through_storage k (h_number (rc_active_tip cap)) f2 = (Inr cw, f3)"
      "\<not> superseded e (suffix_work (cb_suffix branch) aw) cw ?tip (rc_active_tip cap)"
    using assms unfolding publish_candidate_def Let_def suffix_work_def [symmetric]
    by (auto simp: sm_simps split: if_splits)
  then show ?thesis unfolding heavier_def by (auto simp: superseded_def block_hash_def)
qed

lemma capture_tip:
  assumes "capture_replay ho k e branch s = (Inr cap, t)"
  obtains f f' where "sled_best_header k f = (Inr (rc_active_tip cap), f')" "header_hash e (rc_ancestor cap) = cb_common_hash branch"
    "suffix_linked e (rc_ancestor cap) (cb_suffix branch)"
proof -
  have "\<exists>f f'. sled_best_header k f = (Inr (rc_active_tip cap), f') \<and> header_hash e (rc_ancestor cap) = cb_common_hash branch \<and>
      suffix_linked e (rc_ancestor cap) (cb_suffix branch)"
    using assms unfolding capture_replay_def Let_def replay_full_def
    by (auto simp: sm_simps split: if_splits) blast
  then show thesis using that by blast
qed

lemma stage_and_publish_cases:
  assumes "stage_and_publish_candidate ho v config k e branch s = (Inr (), t)"
  obtains (direct) u where "commit_direct_candidate_extension ho v config k e branch s = (Inr True, u)"
  | (replayed) u cap w ov ov' x f A f' where "commit_direct_candidate_extension ho v config k e branch s = (Inr False, u)"
      "capture_replay ho k e branch (ho_others ho 0 u) = (Inr cap, w)" "cb_suffix branch \<noteq> []"
      "res_fold (replay_suffix_block ho v config e (rc_genesis_hash cap)) (enumerate 0 (cb_suffix branch)) ov = Inr ov'"
      "ho_others ho 1 x = node_storage.Full f"
      "publish_candidate k e branch cap (ov_native_accounts ov') A (b_header (last (cb_suffix branch))) f = (Inr (), f')"
proof -
  obtain committed u where c: "commit_direct_candidate_extension ho v config k e branch s = (Inr committed, u)"
    using assms by (auto simp: stage_and_publish_candidate_def sm_simps)
  show thesis
  proof (cases committed)
    case True
    then show ?thesis using c direct by simp
  next
    case False
    then show ?thesis
      using assms c replayed unfolding stage_and_publish_candidate_def Let_def
      by (auto simp: sm_simps relock_def split: if_splits)
  qed
qed

lemma replayed_branch_executed:
  assumes cap: "capture_replay ho k e branch s = (Inr cap, w)" and ne: "cb_suffix branch \<noteq> []"
    and run: "res_fold (replay_suffix_block ho v config e g) (enumerate 0 (cb_suffix branch)) ov = Inr ov'"
  shows "\<exists>parent st. header_hash e parent = cb_common_hash branch \<and> executed_chain v config e g parent st (cb_suffix branch)"
proof -
  have exec: "executed_chain v config e g (ov_parent ov) (ov_native_accounts ov, ov_evm_state ov) (cb_suffix branch)"
    by (rule replay_suffix_executed [OF run])
  obtain b bs where suffix: "cb_suffix branch = b # bs" using ne by (cases "cb_suffix branch") auto
  have "h_parent_hash (b_header b) = cb_common_hash branch"
    using capture_tip [OF cap] suffix by (metis suffix_linked.simps(2))
  moreover have "h_parent_hash (b_header b) = header_hash e (ov_parent ov)"
    using exec suffix executed_chain_linked by metis
  ultimately show ?thesis using exec by metis
qed

lemma published_branch_executed:
  assumes run: "stage_and_publish_candidate ho v config k e branch s = (Inr (), t)"
  shows "cb_suffix branch \<noteq> []" "\<exists>parent g st. header_hash e parent = cb_common_hash branch \<and> executed_chain v config e g parent st (cb_suffix branch)"
    "(\<exists>g f best f'. configured_genesis_hash k e s = (Inr g, node_storage.Full f) \<and>
        sled_best_header k f = (Inr best, f') \<and> header_hash e best = cb_common_hash branch) \<or>
     (\<exists>u cap w x f. commit_direct_candidate_extension ho v config k e branch s = (Inr False, u) \<and>
        capture_replay ho k e branch (ho_others ho 0 u) = (Inr cap, w) \<and>
        ho_others ho 1 x = node_storage.Full f \<and> heavier k e branch (rc_active_tip cap) f)"
proof -
  have "cb_suffix branch \<noteq> [] \<and>
    (\<exists>parent g st. header_hash e parent = cb_common_hash branch \<and> executed_chain v config e g parent st (cb_suffix branch)) \<and>
    ((\<exists>g f best f'. configured_genesis_hash k e s = (Inr g, node_storage.Full f) \<and>
        sled_best_header k f = (Inr best, f') \<and> header_hash e best = cb_common_hash branch) \<or>
     (\<exists>u cap w x f. commit_direct_candidate_extension ho v config k e branch s = (Inr False, u) \<and>
        capture_replay ho k e branch (ho_others ho 0 u) = (Inr cap, w) \<and>
        ho_others ho 1 x = node_storage.Full f \<and> heavier k e branch (rc_active_tip cap) f))"
    using run
  proof (cases rule: stage_and_publish_cases)
    case (direct u)
    from direct_commit_executed [OF this] show ?thesis by metis
  next
    case (replayed u cap w ov ov' x f A f')
    show ?thesis
      using replayed(1,2,3,5) replayed_branch_executed [OF replayed(2-4)] publish_candidate_heavier [OF replayed(6)] by blast
  qed
  then show "cb_suffix branch \<noteq> []" "\<exists>parent g st. header_hash e parent = cb_common_hash branch \<and> executed_chain v config e g parent st (cb_suffix branch)"
    "(\<exists>g f best f'. configured_genesis_hash k e s = (Inr g, node_storage.Full f) \<and>
        sled_best_header k f = (Inr best, f') \<and> header_hash e best = cb_common_hash branch) \<or>
     (\<exists>u cap w x f. commit_direct_candidate_extension ho v config k e branch s = (Inr False, u) \<and>
        capture_replay ho k e branch (ho_others ho 0 u) = (Inr cap, w) \<and>
        ho_others ho 1 x = node_storage.Full f \<and> heavier k e branch (rc_active_tip cap) f)" by blast+
qed

text \<open>
  At equal work the rule of the two queues for competing blocks decides nothing between tips of
  different heights, so it prefers each of them to the other; the rule of the publication decides.
\<close>

lemma equal_work_rules:
  assumes "h_number (b_header a) \<noteq> h_number (b_header b)" "block_hash e a \<noteq> block_hash e b"
  shows "\<not> not_preferred e work work a (b_header b) \<and> \<not> not_preferred e work work b (b_header a) \<and>
    (superseded e work work (b_header a) (b_header b) \<longleftrightarrow> \<not> superseded e work work (b_header b) (b_header a))"
  using assms by (auto simp: not_preferred_def superseded_def block_hash_def)


section \<open>What is relayed\<close>

definition relayed :: "'d live_node \<Rightarrow> 'd live_node \<Rightarrow> block set" where
  "relayed n n' = {b. \<exists>g. Gossiped g b \<in> set (drop (length (ln_events n)) (ln_events n'))}"

lemma locked_eq [sm_simps]: "locked m n = (r, n') \<longleftrightarrow> (\<exists>s. m (ln_storage n) = (r, s) \<and> n' = n\<lparr>ln_storage := s\<rparr>)"
  by (auto simp: locked_def split: prod.splits)

lemma notify_eq [sm_simps]: "notify evs n = (r, n') \<longleftrightarrow> r = Inr () \<and> n' = n\<lparr>ln_events := ln_events n @ evs\<rparr>"
  by (auto simp: notify_def)

lemma drop_included_eq [sm_simps]:
  "drop_included e hashes n = (r, n') \<longleftrightarrow> r = Inr () \<and> n' = (if hashes = [] then n else n\<lparr>ln_mempool := remove_included e (ln_mempool n) hashes\<rparr>)"
  by (auto simp: drop_included_def)

lemma extend_chain_relays:
  assumes "extend_chain ho v config k e b n = (Inr (), n')" "c \<in> relayed n n'"
  shows "c = b \<and> (\<exists>parent s t. extends_tip e parent b \<and> validate_next_block v config k e parent b s = (Inr (), t))"
  using assms unfolding extend_chain_def
  by (auto simp: sm_simps gossip_genesis_def relayed_def relock_def split: if_splits)

lemma publish_competing_relays:
  assumes "publish_competing ho v config k e b branch n = (Inr (), n')" "c \<in> relayed n n'"
  shows "c = b \<and> (\<exists>s t. stage_and_publish_candidate ho v config k e branch s = (Inr (), t))"
  using assms unfolding publish_competing_def
  by (auto simp: sm_simps gossip_genesis_def relayed_def split: if_splits prod.splits sum.splits)

lemma pending_branch_last:
  assumes "queue_competing_block_pending config k e b s = (Inr (Some branch), t)"
  shows "cb_suffix branch = [] \<or> last (cb_suffix branch) = b"
proof -
  obtain u where "candidate_branch_from_storage k e b u = (Inr branch, t)"
    using assms unfolding queue_competing_block_pending_def
    by (auto simp: sm_simps split: option.splits if_splits)
  then show ?thesis by (rule branch_tip_last)
qed

lemma classify_competing:
  assumes "classify_block config k e b s = (Inr (Competing branch), t)"
  shows "cb_suffix branch = [] \<or> last (cb_suffix branch) = b"
proof -
  obtain u where "queue_competing_block_pending config k e b u = (Inr (Some branch), t)"
    using assms unfolding classify_block_def
    by (auto simp: sm_simps split: prod.splits sum.splits if_splits option.splits)
  then show ?thesis by (rule pending_branch_last)
qed


section \<open>A branch that is published\<close>

text \<open>Programs that succeed on the reference backend over a well-typed store without files and without orphans.\<close>

definition clean :: "'d backend \<Rightarrow> ext \<Rightarrow> disk sled_storage \<Rightarrow> bool" where
  "clean k e s \<longleftrightarrow> db_typed k e (kv s) \<and> (\<forall>h. key_val e (kv s) (OrphanOf h) = None) \<and> dk_files (sl_db s) = fmempty"

definition runs :: "'d backend \<Rightarrow> ext \<Rightarrow> (disk sled_storage, 'e, 'a) sm \<Rightarrow> bool" where
  "runs k e m \<longleftrightarrow> (\<forall>s. clean k e s \<longrightarrow> (\<exists>x t. m s = (Inr x, t) \<and> clean k e t))"

lemma runsD: "runs k e m \<Longrightarrow> clean k e s \<Longrightarrow> \<exists>x t. m s = (Inr x, t) \<and> clean k e t"
  by (simp add: runs_def)

lemma runs_basic:
  "runs k e (sm_ok x)" "runs k e m \<Longrightarrow> (\<And>x. runs k e (f x)) \<Longrightarrow> runs k e (sm_bind m f)"
  "runs k e m \<Longrightarrow> runs k e n \<Longrightarrow> runs k e (sm_seq m n)" "runs k e p \<Longrightarrow> runs k e (stored p)"
  by (fastforce simp: runs_def sm_ok_def sm_bind_def sm_seq_def stored_def sm_map_err_def split: prod.splits sum.splits)+

lemma runs_for: "(\<And>x. x \<in> set xs \<Longrightarrow> runs k e (f x)) \<Longrightarrow> runs k e (sm_for f xs)"
  by (induction xs) (auto intro!: runs_basic)

lemma clean_kv: "clean k e s \<Longrightarrow> db_typed k e m \<Longrightarrow> (\<And>h. key_val e m (OrphanOf h) = None) \<Longrightarrow> clean k e (on_kv (\<lambda>_. m) s)"
  by (simp add: clean_def on_kv_def kv_def kv_upd_def)

lemma runs_insert:
  "hex_text_spec e \<Longrightarrow> value_ok k e dk v \<Longrightarrow> \<forall>h. dk \<noteq> OrphanOf h \<Longrightarrow> runs k e (db_insert (ref_backend k) (key_bytes e dk) v)"
  by (auto simp: runs_def ref_elementary clean_def on_kv_def kv_def kv_upd_def key_val_def dest: key_bytes_inj intro!: typed_upd)

lemma runs_remove: "runs k e (db_remove (ref_backend k) key)"
  by (auto simp: runs_def ref_elementary clean_def on_kv_def kv_def kv_upd_def key_val_def intro!: typed_drop)

lemma runs_flush: "runs k e (db_flush (ref_backend k))" "runs k e (flush_db (ref_backend k))" "runs k e (flush_batch (ref_backend k))"
  by (auto simp: runs_def ref_elementary flush_batch_def)

lemma runs_batch: "runs k e begin_batch" "runs k e (end_batch (ref_backend k))"
  by (auto simp: runs_def begin_batch_def end_batch_def flush_batch_def sm_seq_def sm_bind_def ref_elementary clean_def kv_def)

lemma runs_put_account: "hex_text_spec e \<Longrightarrow> runs k e (sled_put_account (ref_backend k) e a balance nonce)"
  unfolding sled_put_account_def key_folds [where e = e] by (intro runs_basic runs_insert runs_flush) simp_all

lemma ref_typed: "db_typed (ref_backend k) e m \<longleftrightarrow> db_typed k e m"
proof -
  have "value_ok (ref_backend k) e dk v \<longleftrightarrow> value_ok k e dk v" for dk v
    by (cases dk) (simp_all add: ref_backend_def)
  then show ?thesis by (simp add: db_typed_def)
qed

lemma runs_put_evm_account: "hex_text_spec e \<Longrightarrow> runs k e (put_evm_account (ref_backend k) e a balance nonce code slots)"
  unfolding runs_def
proof (intro allI impI)
  fix s assume e: "hex_text_spec e" and s: "clean k e s"
  then obtain m where m: "put_evm_account (ref_backend k) e a balance nonce code slots s = (Inr (), on_kv (\<lambda>_. m) s)"
      "\<And>dk. key_val e m dk = put_value a (balance, nonce, code, slots) dk (key_val e (kv s) dk)"
    using ref_put_evm_account [OF e, of k s] by (metis clean_def)
  have "keeps (\<lambda>d. d) (disk_typed (ref_backend k) e) (put_evm_account (ref_backend k) e a balance nonce code slots)"
    by (intro typed_put_evm_account ref_backend_spec)
  from keepsD [OF this m(1)] have "db_typed k e m"
    using s by (simp add: disk_typed_def clean_def kv_def on_kv_def kv_upd_def ref_typed)
  then show "\<exists>x t. put_evm_account (ref_backend k) e a balance nonce code slots s = (Inr x, t) \<and> clean k e t"
    using m clean_kv [OF s, of m] s by (auto simp: clean_def)
qed

lemma runs_insert_block:
  assumes "hex_text_spec e" "js_block k b = Inr v" "js_block_of k v = Inr b" "js_header k (b_header b) = Inr w" "js_header_of k w = Inr (b_header b)"
    and "b_transactions b = []" "b_receipts b = []"
  shows "runs k e (sled_insert_block (ref_backend k) e b)"
proof -
  have js: "json (js_block (ref_backend k) b) = (sm_ok v :: (disk, bytes) db)"
      "json (js_header (ref_backend k) (b_header b)) = (sm_ok w :: (disk, bytes) db)"
    using assms by (simp_all add: json_def ref_backend_def fun_eq_iff sm_lift_def sm_ok_def)
  have bind_ok: "sm_bind (sm_ok x) f = (f x :: (disk, unit) db)" for x :: bytes and f
    by (simp add: fun_eq_iff sm_bind_def sm_ok_def)
  show ?thesis
    unfolding sled_insert_block_def put_header_def index_block_logs_def js bind_ok key_folds [where e = e]
    by (intro runs_basic runs_insert runs_flush runs_for assms(1)) (use assms in auto)
qed

lemma runs_refresh: "runs k e (refresh_generation_manifest (ref_backend k) e)"
  by (auto simp: runs_def refresh_generation_manifest_def load_generation_manifest_def load_json_def sm_bind_def
      file_exists_def sm_gets_def sm_ok_def clean_def ref_backend_def)

definition demo_fork_genesis :: block where
  "demo_fork_genesis = \<lparr>b_header = genesis_header demo_rx, b_transactions = [], b_receipts = []\<rparr>"

definition demo_fork_codec :: "unit backend" where
  "demo_fork_codec = table_codec [demo_fork_genesis, demo_replayed] [] [] [[]] [] [] [] []"

definition demo_fork_kv :: "(bytes, bytes) fmap" where
  "demo_fork_kv = fmupd (as_bytes ''best:number'') (to_be_bytes (0 :: u64)) (fmupd (header_key 0) [0] (fmupd (block_key 0) [0] fmempty))"

definition demo_fork_store :: "disk sled_storage" where
  "demo_fork_store = on_kv (\<lambda>_. demo_fork_kv) empty_store"

definition demo_fork_branch :: candidate_branch where
  "demo_fork_branch = \<lparr>cb_common_height = 0, cb_common_hash = header_hash demo_rx (genesis_header demo_rx), cb_suffix = [demo_replayed]\<rparr>"

definition demo_host :: "disk host" where
  "demo_host = \<lparr>ho_clock = None, ho_cgroup = (\<lambda>_. (None, None, None)), ho_others = (\<lambda>_ s. s), ho_finalized = Inr None,
     ho_housekeeping = Inr (), ho_free = (None, None), ho_partial_usage = Inr 0, ho_file_write = Inr (), ho_display = (\<lambda>_. []),
     ho_fresh = Inr empty_store, ho_cleanup = Inr (),
     ho_files = \<lparr>sf_exists = (\<lambda>_. False), sf_names = (\<lambda>_. Inr []), sf_exec = (\<lambda>_. Inl []), sf_exec_of = (\<lambda>_. Inl []),
       sf_gen = (\<lambda>_. Inl []), sf_gen_of = (\<lambda>_. Inl [])\<rparr>\<rparr>"

lemma demo_rx_hex: "hex_text_spec demo_rx"
  using demo_hex_text_spec by (simp add: hex_text_spec_def hex_spec_def demo_rx_def)

lemma demo_fork_clean: "clean demo_fork_codec demo_rx demo_fork_store"
proof -
  have "db_typed demo_fork_codec demo_rx demo_fork_kv"
    unfolding demo_fork_kv_def key_folds [where e = demo_rx]
    by (intro typed_upd typed_empty)
      (simp_all add: demo_fork_codec_def table_codec_def demo_untable_def demo_fork_genesis_def genesis_header_def)
  moreover have "key_val demo_rx demo_fork_kv (OrphanOf h) = None" for h
    using demo_rx_hex by (simp add: demo_fork_kv_def key_val_def key_folds [where e = demo_rx])
  ultimately show ?thesis by (simp add: clean_def demo_fork_store_def on_kv_def kv_def kv_upd_def empty_store_def)
qed

lemma demo_fork_blocks:
  "js_block demo_fork_codec demo_replayed = Inr [1]" "js_block_of demo_fork_codec [1] = Inr demo_replayed"
  "js_header demo_fork_codec (b_header demo_replayed) = Inr [1]" "js_header_of demo_fork_codec [1] = Inr (b_header demo_replayed)"
  "js_header_of demo_fork_codec [0] = Inr (genesis_header demo_rx)"
proof -
  have "h_number (b_header demo_replayed) \<noteq> h_number (genesis_header demo_rx)"
    by (simp add: demo_replayed_def demo_child_fields)
  then have "b_header demo_replayed \<noteq> genesis_header demo_rx" by auto
  moreover have "demo_replayed \<noteq> demo_fork_genesis" using calculation by (metis block.select_convs(1) demo_fork_genesis_def)
  ultimately show "js_block demo_fork_codec demo_replayed = Inr [1]" "js_block_of demo_fork_codec [1] = Inr demo_replayed"
    "js_header demo_fork_codec (b_header demo_replayed) = Inr [1]" "js_header_of demo_fork_codec [1] = Inr (b_header demo_replayed)"
    "js_header_of demo_fork_codec [0] = Inr (genesis_header demo_rx)"
    by (simp_all add: demo_fork_codec_def table_codec_def demo_table_def demo_untable_def demo_fork_genesis_def)
qed

lemma demo_fork_reads:
  "sled_best_header (ref_backend demo_fork_codec) demo_fork_store = (Inr (genesis_header demo_rx), demo_fork_store)"
  "sled_header_by_number (ref_backend demo_fork_codec) 0 demo_fork_store = (Inr (genesis_header demo_rx), demo_fork_store)"
proof -
  have "js_header_of (ref_backend demo_fork_codec) [0] = Inr (genesis_header demo_rx)"
    using demo_fork_blocks(5) by (simp add: ref_backend_def)
  then show "sled_best_header (ref_backend demo_fork_codec) demo_fork_store = (Inr (genesis_header demo_rx), demo_fork_store)"
    "sled_header_by_number (ref_backend demo_fork_codec) 0 demo_fork_store = (Inr (genesis_header demo_rx), demo_fork_store)"
    using demo_rx_hex
    by (simp_all add: sled_best_header_def get_best_number_def sled_header_by_number_def sm_bind_def ref_elementary demo_fork_store_def
        demo_fork_kv_def key_folds [where e = demo_rx] res_simps u64_from_slice_def)
qed

lemma demo_fork_accounts:
  "account_snapshot (ref_backend demo_fork_codec) demo_rx demo_fork_store = (Inr fmempty, demo_fork_store)"
  "revm_state_from_sled (ref_backend demo_fork_codec) demo_rx demo_fork_store = (Inr revm_state_default, demo_fork_store)"
  "sled_evm_account_snapshot (ref_backend demo_fork_codec) demo_rx demo_fork_store = (Inr fmempty, demo_fork_store)"
proof -
  have typed: "db_typed demo_fork_codec demo_rx (kv demo_fork_store)" and kv: "kv demo_fork_store = demo_fork_kv"
    using demo_fork_clean by (simp_all add: clean_def demo_fork_store_def)
  have none: "key_val demo_rx demo_fork_kv dk = None" if "account_key dk" for dk
    using that demo_rx_hex by (cases dk) (simp_all add: demo_fork_kv_def key_val_def key_folds [where e = demo_rx])
  obtain N where N: "account_snapshot (ref_backend demo_fork_codec) demo_rx demo_fork_store = (Inr N, demo_fork_store)"
      "\<And>a. fmlookup N a = native_at demo_rx (kv demo_fork_store) a"
    using ref_account_snapshot [OF demo_rx_hex typed] by blast
  have "N = fmempty" by (rule fmap_ext) (simp add: N(2) kv native_at_def none)
  with N show snapshot: "account_snapshot (ref_backend demo_fork_codec) demo_rx demo_fork_store = (Inr fmempty, demo_fork_store)" by simp
  obtain A where A: "sled_evm_account_snapshot (ref_backend demo_fork_codec) demo_rx demo_fork_store = (Inr A, demo_fork_store)"
      "shows_accounts demo_rx (kv demo_fork_store) A"
    using ref_evm_account_snapshot [OF demo_rx_hex typed] by blast
  have "shows_accounts demo_rx demo_fork_kv fmempty" by (simp add: shows_accounts_def account_present_def native_at_def none)
  then have "A = fmempty" using shows_accounts_unique A(2) kv by metis
  with A show evm: "sled_evm_account_snapshot (ref_backend demo_fork_codec) demo_rx demo_fork_store = (Inr fmempty, demo_fork_store)" by simp
  show "revm_state_from_sled (ref_backend demo_fork_codec) demo_rx demo_fork_store = (Inr revm_state_default, demo_fork_store)"
    using evm snapshot
    by (simp add: revm_state_from_sled_def sm_bind_def sm_ok_def revm_state_of_snapshot_def merge_native_accounts_into_revm_state_def fm_entries_def)
qed

lemma runs_persist:
  assumes "hex_text_spec e" "small_balances st"
  shows "runs k e (persist_revm_state (ref_backend k) e st)"
  unfolding persist_revm_state_def
proof (rule runs_for)
  fix x assume x: "x \<in> set (fm_entries (rs_accounts st))"
  obtain a ac where ac: "x = (a, ac)" by fastforce
  with x assms(2) obtain balance where "stored_balance (ra_balance ac) = Some balance"
    by (auto simp: small_balances_def list_all_iff)
  then show "runs k e ((\<lambda>(a, account).
       sm_bind (sm_lift (res_of_option (Serialization ''EVM balance exceeds BLQ account range'') (stored_balance (ra_balance account)))) (\<lambda>balance.
       put_evm_account (ref_backend k) e a balance (ra_nonce account) (ra_code account) (stored_slots (ra_storage account)))) x)"
    using runs_put_evm_account [OF assms(1)] by (simp add: ac runs_def sm_bind_def sm_lift_def)
qed

lemma runs_tail:
  assumes "hex_text_spec e" "small_balances st"
  shows "runs k e (sm_seq (stored (put_accounts (ref_backend k) e N))
        (sm_seq (stored (persist_revm_state (ref_backend k) e st))
        (sm_seq (stored (set_reward_indexed_to (ref_backend k) n))
         (stored (refresh_generation_manifest (ref_backend k) e)))))"
  unfolding put_accounts_def set_reward_indexed_to_def key_folds [where e = e]
  by (intro runs_basic runs_for runs_persist runs_insert runs_flush runs_refresh assms)
    (use runs_put_account [OF assms(1)] in auto)

lemma demo_replay_ok:
  obtains N where "validate_replay_state_root demo_revm demo_rx demo_replayed (h_timestamp_seconds (genesis_header demo_rx)) (fmempty, revm_state_default) =
      (Inr (), N, apply_accounts_to_revm_state N revm_state_default)"
    "small_balances (apply_accounts_to_revm_state N revm_state_default)"
proof -
  let ?r = "validate_replay_state_root demo_revm demo_rx demo_replayed (h_timestamp_seconds (genesis_header demo_rx)) (fmempty, revm_state_default)"
  obtain ov' where "overlay_apply demo_revm demo_config demo_rx ZERO_HASH demo_replayed demo_overlay = (Inr (), ov')"
    using demo_replayed_run by blast
  then have "\<exists>N E. ?r = (Inr (), N, E)"
    using overlay_apply_executed(3) by (metis demo_overlay_def execution_replay_overlay.select_convs(1-3))
  then obtain N E where r: "?r = (Inr (), N, E)" by blast
  have "\<not> list_ex is_evm_transaction (b_transactions demo_replayed)" by (simp add: demo_replayed_def demo_child_fields)
  with r have "E = apply_accounts_to_revm_state N revm_state_default" by (auto simp: replay_native)
  moreover from this have "accounts_from_revm_state E = Inr N" by (simp add: apply_accounts_in_step revm_state_default_def)
  ultimately show thesis using that r by (simp add: accounts_from_revm_state_iff)
qed

lemma demo_admitted:
  "validate_block_transaction_auth demo_rx True demo_replayed = Inr ()"
  "expected_difficulty_target_with_lookup (genesis_header demo_rx) (b_header demo_replayed) None lookup =
     (sm_ok (h_difficulty_target (b_header demo_replayed)) :: (_, node_error, _) sm)"
proof -
  obtain ov' where run: "overlay_apply demo_revm demo_config demo_rx ZERO_HASH demo_replayed demo_overlay = (Inr (), ov')"
    using demo_replayed_run by blast
  show "validate_block_transaction_auth demo_rx True demo_replayed = Inr ()"
    using overlay_apply_executed(1) [OF run] by (simp add: admitted_block_def demo_config_def)
  have "fst (expected_difficulty_target_with_lookup (genesis_header demo_rx) (b_header demo_replayed) None
         (overlay_lookup demo_rx [genesis_header demo_rx]) ()) = Inr (h_difficulty_target (b_header demo_replayed))"
    using overlay_apply_difficulty [OF run] by (simp add: demo_config_def demo_overlay_def)
  then show "expected_difficulty_target_with_lookup (genesis_header demo_rx) (b_header demo_replayed) None lookup =
     (sm_ok (h_difficulty_target (b_header demo_replayed)) :: (_, node_error, _) sm)"
    by (simp add: expected_difficulty_target_with_lookup_def Let_def sm_ok_def fun_eq_iff split: if_splits)
qed

lemma demo_direct_block:
  obtains N E where "small_balances E" "direct_block demo_revm demo_config k demo_rx g 1 (0, demo_replayed)
      (genesis_header demo_rx, fmempty, revm_state_default) =
    sm_seq (stored (sled_insert_block k demo_rx demo_replayed)) (sm_seq (stored (flush_batch k))
      (sm_ok (b_header demo_replayed, N, E)))"
proof -
  obtain N where N: "validate_replay_state_root demo_revm demo_rx demo_replayed (h_timestamp_seconds (genesis_header demo_rx)) (fmempty, revm_state_default) =
      (Inr (), N, apply_accounts_to_revm_state N revm_state_default)"
    "small_balances (apply_accounts_to_revm_state N revm_state_default)"
    by (rule demo_replay_ok)
  show thesis
    by (rule that [where N = N, OF N(2)])
      (simp add: direct_block_def demo_config_def demo_admitted demo_replayed_valid [of g] N(1) fun_eq_iff sm_seq_def sm_bind_def sm_lift_def sm_ok_def)
qed

lemma demo_fork_extension:
  "\<exists>t. direct_extension demo_revm demo_config (ref_backend demo_fork_codec) demo_rx g (genesis_header demo_rx) [demo_replayed] demo_fork_store =
     (Inr (), t) \<and> clean demo_fork_codec demo_rx t"
proof -
  let ?k = "ref_backend demo_fork_codec"
  obtain N E where small: "small_balances E" and block: "direct_block demo_revm demo_config ?k demo_rx g 1 (0, demo_replayed)
      (genesis_header demo_rx, fmempty, revm_state_default) =
    sm_seq (stored (sled_insert_block ?k demo_rx demo_replayed)) (sm_seq (stored (flush_batch ?k))
      (sm_ok (b_header demo_replayed, N, E)))"
    by (rule demo_direct_block)
  have f: "b_transactions demo_replayed = []" "b_receipts demo_replayed = []" by (simp_all add: demo_replayed_def demo_child_fields)
  let ?tail = "sm_seq (stored (put_accounts ?k demo_rx N)) (sm_seq (stored (persist_revm_state ?k demo_rx E))
        (sm_seq (stored (set_reward_indexed_to ?k (h_number (b_header demo_replayed))))
         (stored (refresh_generation_manifest ?k demo_rx))))"
  have "runs demo_fork_codec demo_rx (sm_seq (stored (sled_insert_block ?k demo_rx demo_replayed)) (sm_seq (stored (flush_batch ?k)) ?tail))"
    by (intro runs_basic runs_flush runs_tail demo_rx_hex small runs_insert_block [OF demo_rx_hex demo_fork_blocks(1-4) f])
  moreover obtain s1 where s1: "stored begin_batch demo_fork_store = (Inr (), s1)" "clean demo_fork_codec demo_rx s1"
    using demo_fork_clean by (simp add: stored_def sm_map_err_def begin_batch_def clean_def kv_def)
  ultimately obtain s2 where s2: "sm_seq (stored (sled_insert_block ?k demo_rx demo_replayed)) (sm_seq (stored (flush_batch ?k)) ?tail) s1 = (Inr (), s2)"
      "clean demo_fork_codec demo_rx s2"
    using runsD by fastforce
  obtain s3 where s3: "stored (end_batch ?k) s2 = (Inr (), s3)" "clean demo_fork_codec demo_rx s3"
    using runsD [OF runs_basic(4) [OF runs_batch(2)] s2(2)] by fastforce
  have "direct_extension demo_revm demo_config ?k demo_rx g (genesis_header demo_rx) [demo_replayed] demo_fork_store = (Inr (), s3)"
    using s1 s2 s3 demo_fork_accounts
    by (auto simp: direct_extension_def sm_simps block [unfolded One_nat_def] enumerate_eq_zip)
  then show ?thesis using s3(2) by blast
qed

lemma demo_fork_configured:
  "configured_genesis_hash (ref_backend demo_fork_codec) demo_rx (node_storage.Full demo_fork_store) =
    (Inr (header_hash demo_rx (genesis_header demo_rx)), node_storage.Full demo_fork_store)"
  by (simp add: configured_genesis_hash_def or_try_def sm_bind_def node_header_by_number_def on_storage_def demo_fork_reads sm_ok_def)

lemma demo_fork_commit:
  "\<exists>t. stage_and_publish_candidate demo_host demo_revm demo_config (ref_backend demo_fork_codec) demo_rx demo_fork_branch
     (node_storage.Full demo_fork_store) = (Inr (), t)"
proof -
  let ?k = "ref_backend demo_fork_codec" and ?s = "node_storage.Full demo_fork_store"
  let ?g = "header_hash demo_rx (genesis_header demo_rx)"
  note g = demo_fork_configured
  obtain t where t: "direct_extension demo_revm demo_config ?k demo_rx ?g (genesis_header demo_rx) [demo_replayed] demo_fork_store = (Inr (), t)"
      "clean demo_fork_codec demo_rx t"
    using demo_fork_extension by blast
  have "runs demo_fork_codec demo_rx (stored (remove_candidate_blocks ?k demo_rx (map (block_hash demo_rx) [demo_replayed])) :: (disk, unit) node_db)"
    unfolding remove_candidate_blocks_def by (intro runs_basic runs_for runs_remove runs_flush)
  from runsD [OF this t(2)] obtain u where
    u: "(stored (remove_candidate_blocks ?k demo_rx (map (block_hash demo_rx) [demo_replayed])) :: (disk, unit) node_db) t = (Inr (), u)" by auto
  have "commit_direct_candidate_extension demo_host demo_revm demo_config ?k demo_rx demo_fork_branch ?s = (Inr True, node_storage.Full u)"
    using g t(1) u demo_fork_reads(1)
    by (auto simp: commit_direct_candidate_extension_def demo_fork_branch_def sm_simps node_remove_candidate_blocks_def full_or_def
        pruning_enabled_def demo_config_def demo_child_fields)
  then show ?thesis by (simp add: stage_and_publish_candidate_def sm_bind_def sm_ok_def)
qed


section \<open>A block that is imported and relayed\<close>

lemma demo_fork_scans:
  "scan_entries (as_bytes ''header:number:'') demo_fork_kv = [(header_key 0, [0])]"
  by (rule scan_entries_single)
    (use demo_rx_hex in \<open>auto simp: scan_entry demo_fork_kv_def key_folds [where e = demo_rx] split: if_splits\<close>)

lemma demo_fork_unknown:
  "node_header_by_hash (ref_backend demo_fork_codec) demo_rx (block_hash demo_rx demo_replayed) (node_storage.Full demo_fork_store) =
    (Inl NotFound, node_storage.Full demo_fork_store)"
proof -
  have kv: "kv demo_fork_store = demo_fork_kv" by (simp add: demo_fork_store_def)
  have "fmlookup demo_fork_kv (candidate_block_key demo_rx (block_hash demo_rx demo_replayed)) = None"
    using demo_rx_hex by (simp add: demo_fork_kv_def key_folds [where e = demo_rx])
  moreover have "js_header_of (ref_backend demo_fork_codec) [0] = Inr (genesis_header demo_rx)"
    using demo_fork_blocks(5) by (simp add: ref_backend_def)
  ultimately show ?thesis
    using demo_hashes_differ
    by (simp add: node_header_by_hash_def on_storage_def sled_header_by_hash_def scan_find_def candidate_block_by_hash_def sm_bind_def
        ref_elementary kv demo_fork_scans scan_item_def res_simps block_hash_def)
qed

lemma clean_no_orphans:
  assumes "hex_text_spec e" "clean k e s"
  shows "orphan_blocks (ref_backend k) s = (Inr [], s)"
proof -
  have "\<not> prefix (as_bytes ''orphan:block:'') key" if "fmlookup (kv s) key = Some v" for key v
  proof
    assume p: "prefix (as_bytes ''orphan:block:'') key"
    from that assms(2) obtain dk where dk: "key = key_bytes e dk" by (auto simp: clean_def db_typed_def)
    with p have "\<exists>h. dk = OrphanOf h" by (cases dk) (auto simp: key_bytes_def prefix_as_bytes)
    with that assms(2) dk show False by (auto simp: clean_def key_val_def)
  qed
  then have "(key, v) \<notin> set (scan_entries (as_bytes ''orphan:block:'') (kv s))" for key v by (auto simp: scan_entry)
  then have "scan_entries (as_bytes ''orphan:block:'') (kv s) = []" by (metis list.set_intros(1) neq_Nil_conv surj_pair)
  then show ?thesis by (simp add: orphan_blocks_def scan_fold_def sm_bind_def ref_elementary sort_by_def)
qed

lemma demo_fork_insert:
  "\<exists>t. full_insert_block demo_revm disp (ref_backend demo_fork_codec) demo_rx demo_replayed demo_fork_store = (Inr (), t) \<and>
     clean demo_fork_codec demo_rx t"
proof -
  let ?k = "ref_backend demo_fork_codec" and ?b = demo_replayed
  have f: "b_transactions ?b = []" "b_receipts ?b = []" "h_number (b_header ?b) = 1"
    by (simp_all add: demo_replayed_def demo_child_fields)
  obtain N where "validate_replay_state_root demo_revm demo_rx ?b (h_timestamp_seconds (genesis_header demo_rx)) (fmempty, revm_state_default) =
      (Inr (), N, apply_accounts_to_revm_state N revm_state_default)"
    by (rule demo_replay_ok)
  then obtain rs gas where sim: "simulate_state_transition_from_accounts demo_rx fmempty ?b (h_timestamp_seconds (genesis_header demo_rx)) = Inr (N, rs, gas)"
    using replay_native [of ?b] f by auto
  let ?tail = "sm_seq (sm_seq (sled_insert_block ?k demo_rx ?b) (sm_seq (put_accounts ?k demo_rx N) (set_reward_indexed_to ?k 1)))
      (sm_seq (persist_historical_evm_snapshot ?k demo_rx 1) (refresh_generation_manifest ?k demo_rx))"
  have "persist_historical_evm_snapshot ?k demo_rx 1 = sm_ok ()"
    by (simp add: persist_historical_evm_snapshot_def EVM_STATE_SNAPSHOT_INTERVAL_def)
  then have "runs demo_fork_codec demo_rx ?tail"
    unfolding put_accounts_def set_reward_indexed_to_def key_folds [where e = demo_rx]
    by (simp only:) (intro runs_basic runs_for runs_insert runs_flush runs_refresh demo_rx_hex
        runs_insert_block [OF demo_rx_hex demo_fork_blocks(1-4) f(1,2)], use runs_put_account [OF demo_rx_hex] in auto)
  from runsD [OF this demo_fork_clean] obtain t where t: "?tail demo_fork_store = (Inr (), t)" "clean demo_fork_codec demo_rx t" by auto
  have "full_insert_block demo_revm disp ?k demo_rx ?b demo_fork_store = ?tail demo_fork_store"
    by (simp add: full_insert_block_def full_parent_timestamp_def f sm_seq_def sm_bind_def demo_fork_reads(2) demo_fork_accounts(1) sim
        sm_lift_def sm_ok_def)
  then show ?thesis using t by auto
qed

lemma demo_fork_root:
  "node_validate_state_root demo_revm (ref_backend demo_fork_codec) demo_rx demo_replayed (node_storage.Full demo_fork_store) =
    (Inr (), node_storage.Full demo_fork_store)"
proof -
  let ?w = "view_of (ref_backend demo_fork_codec) demo_rx (node_storage.Full demo_fork_store)" and ?b = demo_replayed
  have f: "b_transactions ?b = []" "h_number (b_header ?b) = 1" by (simp_all add: demo_replayed_def demo_child_fields)
  obtain N where "validate_replay_state_root demo_revm demo_rx ?b (h_timestamp_seconds (genesis_header demo_rx)) (fmempty, revm_state_default) =
      (Inr (), N, apply_accounts_to_revm_state N revm_state_default)"
    by (rule demo_replay_ok)
  then obtain rs gas r where sim: "simulate_state_transition_from_accounts demo_rx fmempty ?b (h_timestamp_seconds (genesis_header demo_rx)) = Inr (N, rs, gas)"
      "state_root_from_accounts demo_rx N = Inr r" "roots_match demo_rx ?b gas rs r"
    using replay_native [of ?b] f by auto
  have w: "nv_account_snapshot ?w = Inr fmempty" "parent_timestamp_of ?w ?b = Inr (h_timestamp_seconds (genesis_header demo_rx))"
    using demo_fork_accounts(1) demo_fork_reads(2)
    by (simp_all add: view_of_def node_account_snapshot_def full_or_def on_storage_def stored_def sm_map_err_def full_only_def
        parent_timestamp_of_def f node_header_by_number_def)
  have "validate_state_root demo_revm demo_rx ?w ?b = Inr ()"
    using sim f by (simp add: validate_state_root_def simulate_state_transition_def w roots_match_def)
  then show ?thesis by (simp add: node_validate_state_root_def sm_gets_def)
qed

lemma demo_fork_next:
  "validate_next_block demo_revm demo_config (ref_backend demo_fork_codec) demo_rx (genesis_header demo_rx) demo_replayed (node_storage.Full demo_fork_store) =
    (Inr (), node_storage.Full demo_fork_store)"
  using demo_replayed_valid
  by (simp add: validate_next_block_def validate_block_for_storage_def sm_seq_def sm_bind_def demo_fork_configured demo_fork_root
      validate_difficulty_target_def expected_difficulty_target_def demo_admitted(2) demo_config_def sm_lift_def sm_ok_def)

definition demo_live :: "disk live_node" where
  "demo_live = \<lparr>ln_storage = node_storage.Full demo_fork_store, ln_mempool = mempool_default, ln_events = []\<rparr>"

lemma gossip_genesis_ok: "\<exists>g u. gossip_genesis k e n = (Inr g, n\<lparr>ln_storage := u\<rparr>)"
  by (auto simp: gossip_genesis_def locked_def or_try_def sm_ok_def split: prod.splits sum.splits)

lemma saturating_grows: "\<not> saturating_add x y < (x :: 'a::len word)"
  using Suc_leI [OF unat_lt_len [of x]] by (simp add: word_less_nat_alt word_nat not_less)

lemma demo_host_fields: "ho_clock demo_host = None" "ho_others demo_host i s = s"
  by (simp_all add: demo_host_def)

lemma demo_config_fields: "ns_mode demo_config = node_mode.Full" "ns_require_signed_transactions demo_config"
  by (simp_all add: demo_config_def)

lemma demo_live_import:
  "\<exists>n' g. import_network_block demo_host demo_revm demo_config (ref_backend demo_fork_codec) demo_rx demo_replayed demo_live = (Inr (), n') \<and>
     ln_events n' = [TemplatesInvalidated, MaintenanceScheduled, CanonicalImport 1, Gossiped g demo_replayed]"
proof -
  let ?k = "ref_backend demo_fork_codec" and ?b = demo_replayed and ?s = "node_storage.Full demo_fork_store"
  have f: "b_transactions ?b = []" "h_number (b_header ?b) = 1" by (simp_all add: demo_replayed_def demo_child_fields)
  have genesis_height: "h_number (genesis_header demo_rx) = 0" by (simp add: genesis_header_def)
  have best: "of_storage (node_best_header ?k) ?s = (Inr (genesis_header demo_rx), ?s)"
    by (simp add: of_storage_def sm_map_err_def node_best_header_def on_storage_def demo_fork_reads(1))
  have tip: "extends_tip demo_rx (genesis_header demo_rx) ?b"
    using demo_replayed_valid [of ZERO_HASH] f by (simp add: extends_tip_def validate_block_iff genesis_header_def)
  have path: "classify_block demo_config ?k demo_rx ?b ?s = (Inr Extending, ?s)"
    by (simp add: classify_block_def demo_fork_unknown sm_bind_def best tip f genesis_height saturating_add_def sm_ok_def)
  obtain t where t: "full_insert_block demo_revm (ho_display demo_host) ?k demo_rx ?b demo_fork_store = (Inr (), t)" "clean demo_fork_codec demo_rx t"
    using demo_fork_insert by blast
  have "orphan_blocks ?k t = (Inr [], t)" by (rule clean_no_orphans [OF demo_rx_hex t(2)])
  then have drain: "drain_orphan_blocks demo_host demo_revm demo_config ?k demo_rx (node_storage.Full t) = (Inr (), node_storage.Full t)"
    by (simp add: drain_orphan_blocks_def MAX_P2P_HEADERS_def numeral_eq_Suc sm_bind_def node_orphan_blocks_def full_or_def on_storage_def
        stored_def sm_map_err_def sm_ok_def)
  have cap: "ensure_storage_cap demo_host demo_config ?k demo_rx ?s = (Inr (), ?s)"
    by (simp add: ensure_storage_cap_def demo_config_def demo_host_def pruning_enabled_def sm_seq_def sm_bind_def sm_ok_def)
  have ins: "of_storage (node_insert_block (ho_file_write demo_host) demo_revm (ho_display demo_host) ?k demo_rx ?b) ?s = (Inr (), node_storage.Full t)"
    by (simp add: of_storage_def sm_map_err_def node_insert_block_def on_storage_def t(1))
  obtain g u where g: "gossip_genesis ?k demo_rx (demo_live\<lparr>ln_storage := node_storage.Full t, ln_events := [TemplatesInvalidated, MaintenanceScheduled, CanonicalImport 1]\<rparr>) =
      (Inr g, demo_live\<lparr>ln_storage := u, ln_events := [TemplatesInvalidated, MaintenanceScheduled, CanonicalImport 1]\<rparr>)"
    using gossip_genesis_ok [of ?k demo_rx "demo_live\<lparr>ln_storage := node_storage.Full t, ln_events := [TemplatesInvalidated, MaintenanceScheduled, CanonicalImport 1]\<rparr>"]
    by (auto simp: demo_live_def)
  have "import_network_block demo_host demo_revm demo_config ?k demo_rx ?b demo_live =
      (Inr (), demo_live\<lparr>ln_storage := u, ln_events := [TemplatesInvalidated, MaintenanceScheduled, CanonicalImport 1, Gossiped g ?b]\<rparr>)"
    using g demo_admitted(1) saturating_grows
    by (simp add: import_network_block_def extend_chain_def sm_seq_def sm_bind_def sm_lift_def locked_def notify_def drop_included_def
        relock_def demo_live_def path best tip demo_fork_next cap ins drain f demo_host_fields demo_config_fields validate_live_timestamp_admission_def)
  then show ?thesis by auto
qed


end
