(* ===== verification/Snapshot_Search.thy ===== *)
theory Snapshot_Search
  imports Candidate_Publication
begin

text \<open>
  The execution snapshots of a generation (\<^verbatim>\<open>create_execution_snapshot\<close>,
  \<^verbatim>\<open>latest_execution_snapshot_at_or_before\<close> of \<^verbatim>\<open>blq-storage\<close>): what the replay of a candidate
  starts from.  The search prefers compact snapshots, newest first, and stops at the first usable one.
\<close>

section \<open>Searching the directory\<close>

interpretation newest: total_preorder "\<lambda>a b. snapshot_height b \<le> snapshot_height a"
  by unfold_locales (auto simp: le_less_trans)

definition usable :: "u64 \<Rightarrow> string \<Rightarrow> execution_snapshot \<Rightarrow> bool" where
  "usable bound profile x \<longleftrightarrow> xs_height x \<le> bound \<and> xs_profile_fingerprint x = profile"

definition compact_name :: "string \<Rightarrow> bool" where
  "compact_name name \<longleftrightarrow> suffix ''.json'' name \<and> prefix EXECUTION_SNAPSHOT_PREFIX name"

lemma load_reads: "load_execution_snapshot z k f s = (r, t) \<Longrightarrow> t = s"
  by (auto simp: load_execution_snapshot_def file_read_def sm_bind_def sm_gets_def sm_lift_def split: sum.splits)

lemma first_usable_none:
  assumes "first_usable z k bound profile fs s = (Inr None, t)" "f \<in> set fs"
  shows "\<exists>y. load_execution_snapshot z k f s = (Inr y, s) \<and> \<not> usable bound profile y"
  using assms
proof (induction fs)
  case (Cons g fs)
  obtain y u where y: "load_execution_snapshot z k g s = (Inr y, u)"
    and rest: "(if xs_height y \<le> bound \<and> xs_profile_fingerprint y = profile then sm_ok (Some y) else first_usable z k bound profile fs) u = (Inr None, t)"
    using Cons.prems by (auto simp: sm_simps)
  have "u = s" by (rule load_reads [OF y])
  with y rest Cons show ?case by (auto simp: usable_def sm_simps split: if_splits)
qed simp

lemma first_usable_some:
  assumes "first_usable z k bound profile fs s = (Inr (Some x), t)"
  shows "\<exists>before f after. fs = before @ f # after \<and> load_execution_snapshot z k f s = (Inr x, s) \<and> usable bound profile x \<and>
    (\<forall>g\<in>set before. \<exists>y. load_execution_snapshot z k g s = (Inr y, s) \<and> \<not> usable bound profile y)"
  using assms
proof (induction fs)
  case (Cons g fs)
  obtain y u where y: "load_execution_snapshot z k g s = (Inr y, u)"
    and rest: "(if xs_height y \<le> bound \<and> xs_profile_fingerprint y = profile then sm_ok (Some y) else first_usable z k bound profile fs) u = (Inr (Some x), t)"
    using Cons.prems by (auto simp: sm_simps)
  have u: "u = s" by (rule load_reads [OF y])
  show ?case
  proof (cases "usable bound profile y")
    case True
    then have "y = x" using rest by (auto simp: usable_def sm_simps)
    then show ?thesis using y u True by (intro exI [of _ "[]"] exI [of _ g] exI [of _ fs]) auto
  next
    case False
    then have "first_usable z k bound profile fs s = (Inr (Some x), t)" using rest u by (auto simp: usable_def)
    from Cons.IH [OF this] obtain before f after where "fs = before @ f # after" "load_execution_snapshot z k f s = (Inr x, s)" "usable bound profile x"
        "\<forall>g\<in>set before. \<exists>y. load_execution_snapshot z k g s = (Inr y, s) \<and> \<not> usable bound profile y" by blast
    then show ?thesis using y u False by (intro exI [of _ "g # before"] exI [of _ f] exI [of _ after]) auto
  qed
qed (simp add: sm_simps)

lemma first_usable_reads: "first_usable z k bound profile fs s = (r, t) \<Longrightarrow> t = s"
proof (induction fs arbitrary: r)
  case (Cons f fs)
  obtain q u where q: "load_execution_snapshot z k f s = (q, u)" by fastforce
  with Cons load_reads [OF q] show ?case by (cases q) (auto simp: sm_bind_def sm_ok_def split: if_splits)
qed (simp add: sm_ok_def)

abbreviation sort_names :: "string + string \<Rightarrow> string list \<times> string list \<Rightarrow> ('d, string list \<times> string list) db" where
  "sort_names \<equiv> \<lambda>entry (execution, legacy).
          sm_bind (sm_lift (res_map_err Io entry)) (\<lambda>name.
          sm_ok (if \<not> suffix ''.json'' name then (execution, legacy)
            else if prefix EXECUTION_SNAPSHOT_PREFIX name then (execution @ [name], legacy)
            else if prefix SNAPSHOT_PREFIX name then (execution, legacy @ [name])
            else (execution, legacy)))"

lemma sort_names_run:
  assumes "sm_fold sort_names entries (ex, lg) s = (Inr (ex', lg'), t)"
  shows "t = s \<and> set ex' = set ex \<union> {name. Inr name \<in> set entries \<and> compact_name name} \<and>
    (\<forall>name\<in>set lg'. name \<in> set lg \<or> \<not> compact_name name)"
  using assms
proof (induction entries arbitrary: ex lg s)
  case (Cons entry entries)
  obtain ex1 lg1 s1 where step: "sort_names entry (ex, lg) s = (Inr (ex1, lg1), s1)"
      and rest: "sm_fold sort_names entries (ex1, lg1) s1 = (Inr (ex', lg'), t)"
    using Cons.prems by (auto simp: sm_simps)
  obtain name where name: "entry = Inr name" "s1 = s" using step by (auto simp: sm_simps res_simps)
  have "set ex1 = set ex \<union> {n. n = name \<and> compact_name n} \<and> (\<forall>n\<in>set lg1. n \<in> set lg \<or> \<not> compact_name n)"
    using step name by (auto simp: sm_simps res_simps compact_name_def split: if_splits)
  then show ?case using Cons.IH [OF rest] name by auto
qed (simp add: sm_simps)

section \<open>Names and contents\<close>

lemma execution_snapshot_height [simp]: "snapshot_height (execution_snapshot_path n) = n"
proof -
  have "strip_prefix_text EXECUTION_SNAPSHOT_PREFIX (execution_snapshot_path n) = Some (pad20 n @ ''.json'')"
    by (simp add: strip_prefix_text_def execution_snapshot_path_def)
  moreover have "strip_suffix_text ''.json'' (pad20 n @ ''.json'') = Some (pad20 n)"
    by (simp add: strip_suffix_text_def suffix_def)
  ultimately show ?thesis by (simp add: snapshot_height_def parse_pad20)
qed

lemma execution_snapshot_compact [simp]: "compact_name (execution_snapshot_path n)"
  by (simp add: compact_name_def execution_snapshot_path_def suffix_def)

lemma file_rename_contents:
  assumes spec: "sled_spec k c" and run: "file_rename k f (Inr bs) s = (Inr (), t)"
  shows "fmlookup (dk_files (c (sl_db t))) f = Some bs"
proof -
  have w: "file_writes k c" using spec by (simp add: sled_spec_def)
  obtain s1 s2 where s2: "db_upd (fs_write k (f @ ''.tmp'') bs) s1 = (Inr (), s2)" "db_upd (fs_rename k (f @ ''.tmp'') f) s2 = (Inr (), t)"
    using run by (auto simp: file_rename_def sm_simps json_def res_simps)
  from s2(1) obtain d where d: "fs_write k (f @ ''.tmp'') bs (sl_db s1) = (Inr (), d)" "sl_db s2 = d"
    by (auto simp: db_upd_def res_simps split: prod.splits)
  then have tmp: "fmlookup (dk_files (c d)) (f @ ''.tmp'') = Some bs"
    using w by (fastforce simp: file_writes_def took_effect_def files_upd_def)
  from s2(2) obtain d' where "fs_rename k (f @ ''.tmp'') f d = (Inr (), d')" "sl_db t = d'"
    using d(2) by (auto simp: db_upd_def res_simps split: prod.splits)
  then have "took_effect (Inr ()) (c d) (files_upd (\<lambda>m. fmupd f bs (fmdrop (f @ ''.tmp'') m)) (c d)) (c (sl_db t))"
    using w tmp by (fastforce simp: file_writes_def)
  then show ?thesis by (simp add: took_effect_def files_upd_def)
qed

lemma snapshot_loads:
  assumes "sled_spec k c" "write_execution_snapshot z k x s = (Inr (), t)"
    and codec: "\<And>bs. sf_exec z x = Inr bs \<Longrightarrow> sf_exec_of z bs = Inr x"
    and load: "load_execution_snapshot z k (execution_snapshot_path (xs_height x)) t = (Inr y, u)"
  shows "y = x"
proof -
  obtain bs where bs: "sf_exec z x = Inr bs"
    using assms(2) by (auto simp: write_execution_snapshot_def file_rename_def sm_simps json_def res_simps)
  then have "fmlookup (dk_files (c (sl_db t))) (execution_snapshot_path (xs_height x)) = Some bs"
    using file_rename_contents [OF assms(1)] assms(2) by (simp add: write_execution_snapshot_def)
  moreover obtain cs where "fs_read k (sl_db t) (execution_snapshot_path (xs_height x)) = Inr cs" "sf_exec_of z cs = Inr y"
    using load by (auto simp: load_execution_snapshot_def file_read_def sm_simps res_simps)
  ultimately have "sf_exec_of z bs = Inr y" using assms(1) by (auto simp: sled_spec_def file_reads_def)
  then show ?thesis using codec [OF bs] by simp
qed

lemma newest_first_after:
  assumes "newest_first ex @ legacy = before @ f # after" "c \<in> set ex" "c \<notin> set before" "c \<noteq> f" "c \<notin> set legacy"
  shows "f \<in> set ex \<and> snapshot_height c \<le> snapshot_height f"
proof -
  let ?A = "newest_first ex"
  have c: "c \<in> set ?A" using assms(2) by (simp add: newest_first_def)
  obtain rest where A: "?A = before @ f # rest"
    using assms(1) c assms(3-5)
    by (auto simp: append_eq_append_conv2 Cons_eq_append_conv append_eq_Cons_conv)
  have "sorted_wrt (\<lambda>a b. snapshot_height b \<le> snapshot_height a) ?A"
    unfolding newest_first_def by (rule newest.sorted_sort_by)
  with A c assms(3,4) have "snapshot_height c \<le> snapshot_height f" by (auto simp: sorted_wrt_append)
  moreover have "f \<in> set ex" using A by (metis in_set_conv_decomp newest_first_def set_sort_by)
  ultimately show ?thesis by simp
qed

text \<open>The search when a given compact snapshot is in the directory.\<close>

lemma latest_at_least:
  assumes run: "latest_execution_snapshot_at_or_before z k bound profile t = (Inr found, u)"
    and dir: "sf_exists z (sl_db t)" "sf_names z (sl_db t) = Inr entries" "Inr (execution_snapshot_path (xs_height x)) \<in> set entries"
    and names: "\<And>name y. Inr name \<in> set entries \<Longrightarrow> compact_name name \<Longrightarrow>
      load_execution_snapshot z k name t = (Inr y, t) \<Longrightarrow> name = execution_snapshot_path (xs_height y)"
    and loads: "\<And>y. load_execution_snapshot z k (execution_snapshot_path (xs_height x)) t = (Inr y, t) \<Longrightarrow> y = x"
    and ok: "usable bound profile x"
  shows "\<exists>y. found = Some y \<and> u = t \<and> usable bound profile y \<and> xs_height x \<le> xs_height y \<and> (xs_height y = xs_height x \<longrightarrow> y = x)"
proof -
  let ?c = "execution_snapshot_path (xs_height x)"
  obtain ex lg t1 where fold: "sm_fold sort_names entries ([], []) t = (Inr (ex, lg), t1)"
      and search: "first_usable z k bound profile (newest_first ex @ newest_first lg) t1 = (Inr found, u)"
    using run dir by (auto simp: latest_execution_snapshot_at_or_before_def read_dir_def sm_simps res_simps)
  have t1: "t1 = t" and ex: "set ex = {name. Inr name \<in> set entries \<and> compact_name name}" and lg: "\<forall>name\<in>set lg. \<not> compact_name name"
    using sort_names_run [OF fold] by auto
  have c: "?c \<in> set ex" "?c \<notin> set (newest_first lg)" using dir(3) lg by (auto simp: ex newest_first_def)
  have u: "u = t" using first_usable_reads [OF search] t1 by simp
  show ?thesis
  proof (cases found)
    case None
    then show ?thesis using first_usable_none [of z k bound profile _ t u ?c] search t1 c(1) loads ok
      by (fastforce simp: newest_first_def)
  next
    case (Some y)
    then obtain before f after where f: "newest_first ex @ newest_first lg = before @ f # after" "load_execution_snapshot z k f t = (Inr y, t)"
        "usable bound profile y" "\<forall>g\<in>set before. \<exists>y. load_execution_snapshot z k g t = (Inr y, t) \<and> \<not> usable bound profile y"
      using first_usable_some [of z k bound profile _ t y u] search t1 by blast
    have before: "?c \<notin> set before" using f(4) loads ok by blast
    show ?thesis
    proof (cases "?c = f")
      case True
      then show ?thesis using Some f loads u by blast
    next
      case False
      then have "f \<in> set ex" "xs_height x \<le> snapshot_height f"
        using newest_first_after [OF f(1) c(1) before False c(2)] by simp_all
      moreover have "f = execution_snapshot_path (xs_height y)" using names f(2) \<open>f \<in> set ex\<close> by (auto simp: ex)
      ultimately show ?thesis using Some f(3) u False by auto
    qed
  qed
qed

text \<open>
  C8. Execution snapshots round trip through the directory.  After a snapshot was created, the search
  for the newest snapshot at or before a later height finds it or a newer one of the same consensus
  profile, and if it finds one of the same height, that one has the state root of the block and the
  native and contract accounts the database held when it was created.  The other compact files of the
  directory are assumed to carry the height of their contents in their names.
\<close>

theorem snapshot_found_again:
  assumes spec: "sled_spec k c" and codec: "\<And>x bs. sf_exec z x = Inr bs \<Longrightarrow> sf_exec_of z bs = Inr x"
    and create: "create_execution_snapshot z k e generation_id height hash profile finalized s = (Inr (), t)"
    and dir: "sf_exists z (sl_db t)" "sf_names z (sl_db t) = Inr entries" "Inr (execution_snapshot_path height) \<in> set entries"
    and names: "\<And>name y. Inr name \<in> set entries \<Longrightarrow> compact_name name \<Longrightarrow>
      load_execution_snapshot z k name t = (Inr y, t) \<Longrightarrow> name = execution_snapshot_path (xs_height y)"
    and search: "latest_execution_snapshot_at_or_before z k bound profile t = (Inr found, u)" "height \<le> bound"
  shows "\<exists>y. found = Some y \<and> u = t \<and> xs_profile_fingerprint y = profile \<and> height \<le> xs_height y \<and> xs_height y \<le> bound \<and>
    (xs_height y = height \<longrightarrow>
      (\<exists>b. sled_block_by_number k height s = (Inr b, s) \<and> header_hash e (b_header b) = hash \<and>
         xs_block_hash y = hash \<and> xs_state_root y = h_state_root (b_header b) \<and>
         account_snapshot k e s = (Inr (xs_native_accounts y), s) \<and>
         sled_evm_account_snapshot k e s = (Inr (xs_evm_accounts y), s)))"
proof -
  obtain b s1 N s2 A s3 where b: "sled_block_by_number k height s = (Inr b, s1)" "header_hash e (b_header b) = hash"
      and N: "account_snapshot k e s1 = (Inr N, s2)" and A: "sled_evm_account_snapshot k e s2 = (Inr A, s3)"
      and written: "write_execution_snapshot z k \<lparr>xs_generation_id = generation_id, xs_height = height, xs_block_hash = hash,
          xs_state_root = h_state_root (b_header b), xs_profile_fingerprint = profile,
          xs_finalized_height = finalized, xs_native_accounts = N, xs_evm_accounts = A\<rparr> s3 = (Inr (), t)"
    using create by (auto simp: create_execution_snapshot_def sm_simps split: if_splits)
  let ?x = "\<lparr>xs_generation_id = generation_id, xs_height = height, xs_block_hash = hash,
          xs_state_root = h_state_root (b_header b), xs_profile_fingerprint = profile,
          xs_finalized_height = finalized, xs_native_accounts = N, xs_evm_accounts = A\<rparr>"
  have "pure_read (sled_block_by_number k height)" unfolding sled_block_by_number_def by (intro pure_reads)
  from pure_readD [OF this b(1)] pure_readD [OF pure_read_store(2) N] pure_readD [OF pure_read_store(3) A]
  have eq: "s1 = s" "s2 = s" "s3 = s" by auto
  have "y = ?x" if "load_execution_snapshot z k (execution_snapshot_path (xs_height ?x)) t = (Inr y, t)" for y
    using snapshot_loads [OF spec written codec that] .
  then obtain y where y: "found = Some y \<and> u = t \<and> usable bound profile y \<and> xs_height ?x \<le> xs_height y \<and> (xs_height y = xs_height ?x \<longrightarrow> y = ?x)"
    using dir search(2) by (atomize_elim, intro latest_at_least [OF search(1) dir(1,2) _ names]) (auto simp: usable_def)
  have "xs_block_hash y = hash" "xs_state_root y = h_state_root (b_header b)" "xs_native_accounts y = N" "xs_evm_accounts y = A"
    if "xs_height y = height" using y that by simp_all
  with y b N A show ?thesis by (intro exI [of _ y]) (simp add: usable_def eq)
qed

section \<open>A snapshot of a store\<close>

definition demo_snapshot :: execution_snapshot where
  "demo_snapshot = \<lparr>xs_generation_id = 1, xs_height = 0, xs_block_hash = header_hash demo_rx (genesis_header demo_rx),
     xs_state_root = h_state_root (genesis_header demo_rx), xs_profile_fingerprint = ''profile'', xs_finalized_height = 0,
     xs_native_accounts = fmempty, xs_evm_accounts = fmempty\<rparr>"

definition demo_directory :: "disk snapshot_files" where
  "demo_directory = \<lparr>sf_exists = (\<lambda>_. True),
     sf_names = (\<lambda>d. Inr (if fmlookup (dk_files d) (execution_snapshot_path 0) = None then [] else [Inr (execution_snapshot_path 0)])),
     sf_exec = (\<lambda>x. if x = demo_snapshot then Inr [7] else Inl []), sf_exec_of = (\<lambda>bs. if bs = [7] then Inr demo_snapshot else Inl []),
     sf_gen = (\<lambda>_. Inl []), sf_gen_of = (\<lambda>_. Inl [])\<rparr>"

definition demo_snapshot_store :: "disk sled_storage" where
  "demo_snapshot_store = demo_fork_store\<lparr>sl_db := files_upd (\<lambda>m. fmupd (execution_snapshot_path 0) [7] (fmdrop (execution_snapshot_path 0 @ ''.tmp'')
     (fmupd (execution_snapshot_path 0 @ ''.tmp'') [7] m))) (sl_db demo_fork_store)\<rparr>"

lemma demo_snapshot_created:
  "create_execution_snapshot demo_directory (ref_backend demo_fork_codec) demo_rx 1 0 (header_hash demo_rx (genesis_header demo_rx)) ''profile'' 0 demo_fork_store =
    (Inr (), demo_snapshot_store)"
proof -
  let ?k = "ref_backend demo_fork_codec"
  have "js_block_of ?k [0] = Inr demo_fork_genesis"
    by (simp add: ref_backend_def demo_fork_codec_def table_codec_def demo_untable_def)
  then have block: "sled_block_by_number ?k 0 demo_fork_store = (Inr demo_fork_genesis, demo_fork_store)"
    using demo_rx_hex by (simp add: sled_block_by_number_def sm_bind_def ref_elementary demo_fork_store_def demo_fork_kv_def
        key_folds [where e = demo_rx] res_simps)
  have "write_execution_snapshot demo_directory ?k demo_snapshot demo_fork_store = (Inr (), demo_snapshot_store)"
    by (simp add: write_execution_snapshot_def file_rename_def sm_bind_def sm_seq_def json_def demo_directory_def db_upd_def
        sm_lift_def demo_snapshot_store_def files_upd_def demo_snapshot_def)
  then show ?thesis
    by (simp add: create_execution_snapshot_def sm_bind_def block demo_fork_accounts(1) demo_fork_accounts(3) demo_fork_genesis_def demo_snapshot_def)
qed

theorem snapshot_found_again_witness:
  "\<exists>y. latest_execution_snapshot_at_or_before demo_directory (ref_backend demo_fork_codec) 100 ''profile'' demo_snapshot_store = (Inr (Some y), demo_snapshot_store) \<and>
     xs_height y = 0 \<and> account_snapshot (ref_backend demo_fork_codec) demo_rx demo_fork_store = (Inr (xs_native_accounts y), demo_fork_store)"
proof -
  let ?k = "ref_backend demo_fork_codec" and ?t = demo_snapshot_store
  have lookup: "fmlookup (dk_files (sl_db ?t)) (execution_snapshot_path 0) = Some [7]"
    by (simp add: demo_snapshot_store_def files_upd_def)
  have load: "load_execution_snapshot demo_directory ?k (execution_snapshot_path 0) ?t = (Inr demo_snapshot, ?t)"
    by (simp add: load_execution_snapshot_def file_read_def sm_bind_def sm_gets_def lookup demo_directory_def sm_lift_def)
  have names: "sf_names demo_directory (sl_db ?t) = Inr [Inr (execution_snapshot_path 0)]" by (simp add: demo_directory_def lookup)
  have c: "prefix EXECUTION_SNAPSHOT_PREFIX (execution_snapshot_path 0)" "suffix ''.json'' (execution_snapshot_path 0)"
    using execution_snapshot_compact [of 0] by (simp_all add: compact_name_def)
  have ex: "sf_exists demo_directory (sl_db ?t)" by (simp add: demo_directory_def)
  then have search: "latest_execution_snapshot_at_or_before demo_directory ?k 100 ''profile'' ?t = (Inr (Some demo_snapshot), ?t)"
    by (simp add: latest_execution_snapshot_at_or_before_def read_dir_def sm_bind_def sm_gets_def names sm_lift_def sm_ok_def c
        newest_first_def sort_by_def load) (simp add: demo_snapshot_def)
  have "\<exists>y. Some demo_snapshot = Some y \<and> ?t = ?t \<and> xs_profile_fingerprint y = ''profile'' \<and> 0 \<le> xs_height y \<and> xs_height y \<le> 100 \<and>
    (xs_height y = 0 \<longrightarrow>
      (\<exists>b. sled_block_by_number ?k 0 demo_fork_store = (Inr b, demo_fork_store) \<and> header_hash demo_rx (b_header b) = header_hash demo_rx (genesis_header demo_rx) \<and>
         xs_block_hash y = header_hash demo_rx (genesis_header demo_rx) \<and> xs_state_root y = h_state_root (b_header b) \<and>
         account_snapshot ?k demo_rx demo_fork_store = (Inr (xs_native_accounts y), demo_fork_store) \<and>
         sled_evm_account_snapshot ?k demo_rx demo_fork_store = (Inr (xs_evm_accounts y), demo_fork_store)))"
  proof (rule snapshot_found_again [OF ref_backend_spec _ demo_snapshot_created ex names _ _ search])
    show "sf_exec demo_directory x = Inr bs \<Longrightarrow> sf_exec_of demo_directory bs = Inr x" for x bs
      by (simp add: demo_directory_def split: if_splits)
    show "name = execution_snapshot_path (xs_height y)"
      if "Inr name \<in> set [Inr (execution_snapshot_path 0)]" "load_execution_snapshot demo_directory ?k name ?t = (Inr y, ?t)" for name y
      using that load by (auto simp: demo_snapshot_def)
  qed simp_all
  moreover have "xs_height demo_snapshot = 0" by (simp add: demo_snapshot_def)
  ultimately have "account_snapshot ?k demo_rx demo_fork_store = (Inr (xs_native_accounts demo_snapshot), demo_fork_store)" by blast
  then show ?thesis using search \<open>xs_height demo_snapshot = 0\<close> by blast
qed

end
