(* ===== verification/Spec2Isabelle.thy ===== *)
theory Spec2Isabelle
  imports Encoding_Props Raw_Tx State Mempool Network Miner Snapshot_Search
begin

text \<open>
  A verification development for the BLQ node.
\<close>

end
